(* ===== verification/Brain_Prelude.thy ===== *)
theory Brain_Prelude
  imports Main "HOL-Library.Word" "HOL-Library.Monad_Syntax"
begin

unbundle bit_operations_syntax

text \<open>
  Shared vocabulary of the development: the machine integers of the Rust code as words, byte
  strings, little- and big-endian codecs with their round trips, saturating and checked
  arithmetic, the UTF-8 validity check behind \<open>str::from_utf8\<close>, and the small list lemmas the
  component theories use.
  Every Rust \<open>Result<T, E>\<close> is a sum \<open>E + T\<close> (\<open>Inl\<close> is the error); an \<open>f32\<close> is its IEEE bit
  pattern (\<open>to_bits\<close> / \<open>from_bits\<close>), because the storage code only moves floats as bits; a
  \<open>[u8; N]\<close> is a byte list whose length is part of the well-formedness predicates; \<open>usize\<close>
  quantities are \<open>nat\<close>, except where the code's arithmetic on them can saturate or wrap.
\<close>

type_synonym u8 = "8 word"
type_synonym u16 = "16 word"
type_synonym u32 = "32 word"
type_synonym u64 = "64 word"
type_synonym u128 = "128 word"
type_synonym f32 = "32 word"
type_synonym bytes = "8 word list"

text \<open>The third-party \<open>crc32c\<close> function: a parameter of every definition that checksums bytes.\<close>

type_synonym crc_fn = "8 word list \<Rightarrow> 32 word"

named_theorems reader_simps \<open>how each reader primitive consumes the bytes its writer produced\<close>
named_theorems wf_simps \<open>unfolding of the well-formedness predicates\<close>

section \<open>Endianness\<close>

text \<open>
  \<open>le_bytes n w\<close> is \<open>w.to_le_bytes()\<close> for an \<open>n\<close>-byte integer, \<open>le_word\<close> is \<open>from_le_bytes\<close>; the
  big-endian pair reverses the bytes.
\<close>

fun le_bytes :: "nat \<Rightarrow> 'a::len word \<Rightarrow> bytes" where
  "le_bytes 0 w = []"
| "le_bytes (Suc n) w = ucast w # le_bytes n (drop_bit 8 w)"

fun le_word :: "bytes \<Rightarrow> 'a::len word" where
  "le_word [] = 0"
| "le_word (b # bs) = ucast b OR push_bit 8 (le_word bs)"

definition be_bytes :: "nat \<Rightarrow> 'a::len word \<Rightarrow> bytes" where
  "be_bytes n w = rev (le_bytes n w)"

definition be_word :: "bytes \<Rightarrow> 'a::len word" where
  "be_word bs = le_word (rev bs)"

lemma length_le_bytes [simp]: "length (le_bytes n w) = n"
  by (induction n arbitrary: w) simp_all

lemma length_be_bytes [simp]: "length (be_bytes n w) = n"
  by (simp add: be_bytes_def)

lemma bit_le_word_le_bytes:
  "bit (le_word (le_bytes n w) :: 'a::len word) i \<longleftrightarrow> i < LENGTH('a) \<and> i < 8 * n \<and> bit (w :: 'a word) i"
proof (induction n arbitrary: w i)
  case 0
  then show ?case by simp
next
  case (Suc n)
  show ?case
  proof (cases "i < 8")
    case True
    then show ?thesis
      by (auto simp: bit_or_iff bit_ucast_iff bit_push_bit_iff dest: bit_imp_le_length)
  next
    case False
    have "bit (drop_bit 8 w) (i - 8) \<longleftrightarrow> bit w i"
      using False by (simp add: bit_drop_bit_eq)
    moreover have "i - 8 < 8 * n \<longleftrightarrow> i < 8 * Suc n"
      using False by auto
    ultimately show ?thesis
      using False Suc.IH [of "drop_bit 8 w" "i - 8"]
      by (auto simp: bit_or_iff bit_ucast_iff bit_push_bit_iff dest: bit_imp_le_length)
  qed
qed

lemma le_word_le_bytes:
  "LENGTH('a) \<le> 8 * n \<Longrightarrow> le_word (le_bytes n w) = (w :: 'a::len word)"
  by (rule bit_word_eqI) (simp add: bit_le_word_le_bytes)

lemma be_word_be_bytes:
  "LENGTH('a) \<le> 8 * n \<Longrightarrow> be_word (be_bytes n w) = (w :: 'a::len word)"
  by (simp add: be_word_def be_bytes_def le_word_le_bytes)

lemma le_word_le_bytes_eqs [simp]:
  "le_word (le_bytes 2 (a :: u16)) = a"
  "le_word (le_bytes 4 (b :: u32)) = b"
  "le_word (le_bytes 8 (c :: u64)) = c"
  "be_word (be_bytes 2 (d :: u16)) = d"
  "be_word (be_bytes 4 (e :: u32)) = e"
  "be_word (be_bytes 8 (f :: u64)) = f"
  "be_word (be_bytes 16 (g :: u128)) = g"
  by (simp_all add: le_word_le_bytes be_word_be_bytes)

lemma bit_le_word:
  "bit (le_word bs :: 'a::len word) i \<longleftrightarrow>
     i < LENGTH('a) \<and> i div 8 < length bs \<and> bit (bs ! (i div 8)) (i mod 8)"
proof (induction bs arbitrary: i)
  case Nil
  then show ?case by simp
next
  case (Cons b bs)
  show ?case
  proof (cases "i < 8")
    case True
    then show ?thesis
      by (auto simp: bit_or_iff bit_ucast_iff bit_push_bit_iff)
  next
    case False
    then obtain j where j: "i = 8 + j" by (metis le_add_diff_inverse not_less)
    have "\<not> bit b i" using False bit_imp_le_length [of b i] by auto
    moreover have "(8 + j) div 8 = Suc (j div 8)" by simp
    ultimately show ?thesis
      using j Cons.IH [of j]
      by (auto simp: bit_or_iff bit_ucast_iff bit_push_bit_iff)
  qed
qed

lemma nth_le_bytes:
  "i < n \<Longrightarrow> le_bytes n w ! i = ucast (drop_bit (8 * i) w)"
proof (induction n arbitrary: w i)
  case 0
  then show ?case by simp
next
  case (Suc n)
  then show ?case
    by (cases i) (simp_all add: algebra_simps)
qed

lemma le_bytes_le_word:
  assumes "length bs = n" and "8 * n \<le> LENGTH('a::len)"
  shows "le_bytes n (le_word bs :: 'a word) = bs"
proof (rule nth_equalityI)
  show "length (le_bytes n (le_word bs :: 'a word)) = length bs"
    using assms by simp
next
  fix i
  assume "i < length (le_bytes n (le_word bs :: 'a word))"
  then have i: "i < n" by simp
  have "ucast (drop_bit (8 * i) (le_word bs :: 'a word)) = bs ! i"
  proof (rule bit_word_eqI)
    fix k
    assume k: "k < LENGTH(8)"
    then have "(8 * i + k) div 8 = i" and "(8 * i + k) mod 8 = k" and "8 * i + k < LENGTH('a)"
      using i assms by auto
    with k i assms show "bit (ucast (drop_bit (8 * i) (le_word bs :: 'a word)) :: u8) k
        \<longleftrightarrow> bit (bs ! i) k"
      by (simp add: bit_ucast_iff bit_drop_bit_eq bit_le_word add.commute)
  qed
  with i show "le_bytes n (le_word bs :: 'a word) ! i = bs ! i"
    by (simp add: nth_le_bytes)
qed

lemma be_bytes_be_word:
  "length bs = n \<Longrightarrow> 8 * n \<le> LENGTH('a::len) \<Longrightarrow> be_bytes n (be_word bs :: 'a word) = bs"
  by (simp add: be_bytes_def be_word_def le_bytes_le_word)

lemma le_bytes_inject:
  "LENGTH('a) \<le> 8 * n \<Longrightarrow> le_bytes n w = le_bytes n v \<longleftrightarrow> w = (v :: 'a::len word)"
  by (metis le_word_le_bytes)

lemma be_bytes_inject:
  "LENGTH('a) \<le> 8 * n \<Longrightarrow> be_bytes n w = be_bytes n v \<longleftrightarrow> w = (v :: 'a::len word)"
  by (metis be_word_be_bytes)

lemma le_bytes_add: "le_bytes (m + n) w = le_bytes m w @ le_bytes n (drop_bit (8 * m) w)"
  by (induction m arbitrary: w) (simp_all add: algebra_simps)

lemma le_bytes_ucast:
  assumes "8 * n \<le> LENGTH('b::len)"
  shows "le_bytes n (ucast (w :: 'a::len word) :: 'b word) = le_bytes n w"
proof (rule nth_equalityI)
  fix i
  assume "i < length (le_bytes n (ucast w :: 'b word))"
  then have i: "i < n" by simp
  have "ucast (drop_bit (8 * i) (ucast w :: 'b word)) = (ucast (drop_bit (8 * i) w) :: u8)"
    using i assms by (intro bit_word_eqI) (auto simp: bit_ucast_iff bit_drop_bit_eq)
  with i show "le_bytes n (ucast w :: 'b word) ! i = le_bytes n w ! i"
    by (simp add: nth_le_bytes)
qed simp

lemma le_bytes_and_mask: "le_bytes n (w AND mask (8 * n)) = le_bytes n w"
proof (rule nth_equalityI)
  fix i
  assume "i < length (le_bytes n (w AND mask (8 * n)))"
  then have i: "i < n" by simp
  have "ucast (drop_bit (8 * i) (w AND mask (8 * n))) = (ucast (drop_bit (8 * i) w) :: u8)"
    using i by (intro bit_word_eqI) (auto simp: bit_ucast_iff bit_drop_bit_eq bit_and_iff bit_mask_iff dest: bit_imp_le_length)
  with i show "le_bytes n (w AND mask (8 * n)) ! i = le_bytes n w ! i"
    by (simp add: nth_le_bytes)
qed simp

section \<open>Arithmetic of the standard library\<close>

text \<open>\<open>saturating_add(1)\<close>, \<open>checked_add(1)\<close>, \<open>saturating_sub(1)\<close> and \<open>saturating_mul(2)\<close>.\<close>

definition saturating_succ :: "'a::len word \<Rightarrow> 'a word" where
  "saturating_succ w = (if w = -1 then -1 else w + 1)"

definition checked_succ :: "'a::len word \<Rightarrow> 'a word option" where
  "checked_succ w = (if w = -1 then None else Some (w + 1))"

definition saturating_pred :: "'a::len word \<Rightarrow> 'a word" where
  "saturating_pred w = (if w = 0 then 0 else w - 1)"

definition saturating_double :: "'a::len word \<Rightarrow> 'a word" where
  "saturating_double w = (if unat w * 2 < 2 ^ LENGTH('a) then w * 2 else -1)"

lemma unat_succ_word: "w \<noteq> -1 \<Longrightarrow> unat (w + 1 :: 'a::len word) = Suc (unat w)"
  by (metis add.commute unatSuc eq_neg_iff_add_eq_0)

lemma word_le_minus_one [simp]: "(w :: 'a::len word) \<le> -1"
  by (rule word_n1_ge)

lemma saturating_succ_ge: "w \<le> saturating_succ w"
proof (cases "w = -1")
  case False
  then have "unat w \<le> unat (w + 1)" by (simp add: unat_succ_word)
  with False show ?thesis by (simp add: saturating_succ_def word_le_nat_alt)
qed (simp add: saturating_succ_def)

lemma checked_succ_Some:
  "checked_succ w = Some v \<longleftrightarrow> w \<noteq> -1 \<and> v = w + 1"
  by (auto simp: checked_succ_def)

section \<open>Slices\<close>

text \<open>The Rust range \<open>&xs[lo..hi]\<close>, for the in-range uses the source makes of it.\<close>

definition subslice :: "'a list \<Rightarrow> nat \<Rightarrow> nat \<Rightarrow> 'a list" where
  "subslice xs lo hi = take (hi - lo) (drop lo xs)"

lemma length_subslice [simp]: "hi \<le> length xs \<Longrightarrow> length (subslice xs lo hi) = hi - lo"
  by (simp add: subslice_def)

lemma subslice_append_left: "hi \<le> length xs \<Longrightarrow> subslice (xs @ ys) lo hi = subslice xs lo hi"
  by (simp add: subslice_def)

lemma subslice_append_right:
  "length xs \<le> lo \<Longrightarrow> subslice (xs @ ys) lo hi = subslice ys (lo - length xs) (hi - length xs)"
  by (simp add: subslice_def)

lemma subslice_full [simp]: "length xs \<le> n \<Longrightarrow> subslice xs 0 n = xs"
  by (simp add: subslice_def)

lemma nth_subslice: "i < hi - lo \<Longrightarrow> hi \<le> length xs \<Longrightarrow> subslice xs lo hi ! i = xs ! (lo + i)"
  by (simp add: subslice_def)

lemma subslice_take: "hi \<le> n \<Longrightarrow> subslice (take n xs) lo hi = subslice xs lo hi"
  by (simp add: subslice_def drop_take min_def)

lemma subslice_update_outside:
  "i < lo \<or> hi \<le> i \<Longrightarrow> subslice (xs[i := b]) lo hi = subslice xs lo hi"
proof -
  assume "i < lo \<or> hi \<le> i"
  then show ?thesis
    by (intro nth_equalityI) (auto simp: subslice_def nth_list_update)
qed

lemma subslice_join:
  assumes "lo \<le> mid" and "mid \<le> hi"
  shows "subslice xs lo mid @ subslice xs mid hi = subslice xs lo hi"
proof -
  obtain a b where "mid = lo + a" and "hi = mid + b"
    using assms by (metis le_Suc_ex)
  then show ?thesis by (simp add: subslice_def take_add add.commute)
qed

lemma subslice_pair: "Suc i < length xs \<Longrightarrow> subslice xs i (i + 2) = [xs ! i, xs ! Suc i]"
  by (simp add: subslice_def numeral_2_eq_2 take_Suc_conv_app_nth)

section \<open>Checksums\<close>

text \<open>What the code relies on of the checksum: a change of a single byte changes the checksum.
  CRC-32C detects every error burst of at most 32 bits.\<close>

definition detects_single_byte :: "crc_fn \<Rightarrow> bool" where
  "detects_single_byte crc \<longleftrightarrow>
     (\<forall>xs i b. i < length xs \<longrightarrow> b \<noteq> xs ! i \<longrightarrow> crc (xs[i := b]) \<noteq> crc xs)"

text \<open>The sum of the bytes detects a change of one byte, so the hypothesis can hold.\<close>

definition sum_crc :: crc_fn where
  "sum_crc bs = sum_list (map ucast bs)"

lemma sum_crc_update:
  "i < length xs \<Longrightarrow> sum_crc (xs[i := b]) + ucast (xs ! i) = sum_crc xs + ucast b"
proof (induction xs arbitrary: i)
  case (Cons x xs)
  then show ?case
    by (cases i) (simp_all add: sum_crc_def algebra_simps)
qed simp

lemma sum_crc_detects: "detects_single_byte sum_crc"
  unfolding detects_single_byte_def
proof (intro allI impI notI)
  fix xs :: bytes and i b assume i: "i < length xs" and b: "b \<noteq> xs ! i"
    and eq: "sum_crc (xs[i := b]) = sum_crc xs"
  have "ucast b = (ucast (xs ! i) :: u32)"
    using sum_crc_update [OF i, of b] eq by simp
  then have "(ucast (ucast b :: u32) :: u8) = ucast (ucast (xs ! i) :: u32)" by simp
  moreover have "(ucast (ucast w :: u32) :: u8) = w" for w :: u8
    by (rule bit_word_eqI) (simp add: bit_simps)
  ultimately show False using b by simp
qed

section \<open>UTF-8\<close>

text \<open>
  The validity check of \<open>core::str::from_utf8\<close> (RFC 3629: no overlong forms, no surrogates,
  nothing above \<open>U+10FFFF\<close>).
\<close>

definition utf8_cont :: "u8 \<Rightarrow> bool" where
  "utf8_cont b \<longleftrightarrow> 0x80 \<le> b \<and> b \<le> 0xBF"

fun valid_utf8 :: "bytes \<Rightarrow> bool" where
  "valid_utf8 [] = True"
| "valid_utf8 (a # bs) =
    (if a \<le> 0x7F then valid_utf8 bs
     else if 0xC2 \<le> a \<and> a \<le> 0xDF then
       (case bs of b # cs \<Rightarrow> utf8_cont b \<and> valid_utf8 cs | [] \<Rightarrow> False)
     else if 0xE0 \<le> a \<and> a \<le> 0xEF then
       (case bs of
          b # c # ds \<Rightarrow>
            (if a = 0xE0 then 0xA0 \<le> b \<and> b \<le> 0xBF
             else if a = 0xED then 0x80 \<le> b \<and> b \<le> 0x9F
             else utf8_cont b) \<and> utf8_cont c \<and> valid_utf8 ds
        | _ \<Rightarrow> False)
     else if 0xF0 \<le> a \<and> a \<le> 0xF4 then
       (case bs of
          b # c # d # es \<Rightarrow>
            (if a = 0xF0 then 0x90 \<le> b \<and> b \<le> 0xBF
             else if a = 0xF4 then 0x80 \<le> b \<and> b \<le> 0x8F
             else utf8_cont b) \<and> utf8_cont c \<and> utf8_cont d \<and> valid_utf8 es
        | _ \<Rightarrow> False)
     else False)"

section \<open>Lists and options\<close>

lemma list_update_neq: "i < length xs \<Longrightarrow> b \<noteq> xs ! i \<Longrightarrow> xs[i := b] \<noteq> xs"
  by (metis nth_list_update_eq)

lemma list_update_after: "(xs @ ys)[length xs + i := b] = xs @ ys[i := b]"
  by (simp add: list_update_append)

lemma bind_option_eq_Some: "Option.bind m f = Some y \<longleftrightarrow> (\<exists>x. m = Some x \<and> f x = Some y)"
  by (cases m) auto

lemma unat_u16_lt: "unat (n :: u16) < 2 ^ 16"
  using unsigned_less [of n, where ?'a = nat] by simp

lemma unat_u32_lt: "unat (n :: u32) < 2 ^ 32"
  using unsigned_less [of n, where ?'a = nat] by simp

lemma unat_u64_lt: "unat (n :: u64) < 2 ^ 64"
  using unsigned_less [of n, where ?'a = nat] by simp

lemma unat_of_nat_u64: "m < 2 ^ 64 \<Longrightarrow> unat (of_nat m :: u64) = m"
  by (simp add: unsigned_of_nat take_bit_nat_eq_self)

section \<open>Invariants of runs\<close>

text \<open>The contract of a step function: steps that fit keep a predicate on the state. Stores, routers and logs are
  run over lists of operations, and each provides this contract for the predicates its clients rely on.\<close>

locale stepwise =
  fixes step :: "'o \<Rightarrow> 's \<Rightarrow> 's" and fit :: "'o \<Rightarrow> bool" and ok :: "'s \<Rightarrow> bool"
  assumes keep: "fit f \<Longrightarrow> ok s \<Longrightarrow> ok (step f s)"
begin

lemma keep_run: "\<forall>f \<in> set fs. fit f \<Longrightarrow> ok s \<Longrightarrow> ok (fold step fs s)"
  by (induction fs arbitrary: s) (auto intro: keep)

end

end
