(* ===== verification/Core_Ids.thy ===== *)
theory Core_Ids
  imports Brain_Prelude
begin

unbundle bit_operations_syntax

text \<open>
  Identifiers (\<open>brain-core/src/ids.rs\<close>).
  A \<open>MemoryId\<close> is a packed \<open>u128\<close>: shard, slot, version and 32 reserved bits, from the most to
  the least significant. The other identifiers the storage layer carries are newtypes over
  sixteen UUID bytes or over an integer and are named by type synonyms.
  The lemmas show that packing loses nothing but the slot bits above 48, that the wire bytes are
  the documented big-endian layout, and that ids compare by shard, then slot, then version.
\<close>

section \<open>Types\<close>

type_synonym shard_id = u16
type_synonym slot_index = u64
type_synonym slot_version = u32
type_synonym uuid = bytes
type_synonym space_id = uuid
type_synonym request_id = uuid
type_synonym txn_id = uuid
type_synonym entity_id = uuid
type_synonym relation_id = uuid
type_synonym session_id = u64
type_synonym namespace_id = u32
type_synonym relation_type_id = u32
type_synonym memory_id = u128

section \<open>Packed memory ids\<close>

definition MAX_SLOT_INDEX :: u64 where
  "MAX_SLOT_INDEX = push_bit 48 1 - 1"

definition memory_id_NULL :: memory_id where
  "memory_id_NULL = 0"

definition memory_id_pack :: "shard_id \<Rightarrow> slot_index \<Rightarrow> slot_version \<Rightarrow> memory_id" where
  "memory_id_pack shard slot version =
     (let slot_48 = slot AND MAX_SLOT_INDEX
      in push_bit 112 (ucast shard) OR push_bit 64 (ucast slot_48) OR push_bit 32 (ucast version))"

definition memory_id_shard :: "memory_id \<Rightarrow> shard_id" where
  "memory_id_shard m = ucast (drop_bit 112 m)"

definition memory_id_slot :: "memory_id \<Rightarrow> slot_index" where
  "memory_id_slot m = ucast (drop_bit 64 m) AND MAX_SLOT_INDEX"

definition memory_id_version :: "memory_id \<Rightarrow> slot_version" where
  "memory_id_version m = ucast (drop_bit 32 m)"

definition memory_id_reserved :: "memory_id \<Rightarrow> u32" where
  "memory_id_reserved m = ucast m"

definition memory_id_to_be_bytes :: "memory_id \<Rightarrow> bytes" where
  "memory_id_to_be_bytes m = be_bytes 16 m"

definition memory_id_from_be_bytes :: "bytes \<Rightarrow> memory_id" where
  "memory_id_from_be_bytes bs = be_word bs"

definition memory_id_is_null :: "memory_id \<Rightarrow> bool" where
  "memory_id_is_null m \<longleftrightarrow> m = 0"

definition namespace_SYSTEM :: namespace_id where
  "namespace_SYSTEM = 0"

definition namespace_is_system :: "namespace_id \<Rightarrow> bool" where
  "namespace_is_system n \<longleftrightarrow> n = namespace_SYSTEM"

section \<open>Field extraction\<close>

lemma MAX_SLOT_INDEX_mask: "MAX_SLOT_INDEX = mask 48"
  by (simp add: MAX_SLOT_INDEX_def mask_eq_exp_minus_1)

lemma bit_memory_id_pack:
  "bit (memory_id_pack sh sl v) i \<longleftrightarrow>
     (112 \<le> i \<and> bit sh (i - 112)) \<or> (64 \<le> i \<and> i < 112 \<and> bit sl (i - 64))
     \<or> (32 \<le> i \<and> i < 64 \<and> bit v (i - 32))"
  by (auto simp: memory_id_pack_def Let_def MAX_SLOT_INDEX_mask bit_or_iff bit_push_bit_iff
      bit_ucast_iff bit_and_iff bit_mask_iff dest: bit_imp_le_length)

lemma shard_pack: "memory_id_shard (memory_id_pack sh sl v) = sh"
  by (rule bit_word_eqI)
    (simp add: memory_id_shard_def bit_ucast_iff bit_drop_bit_eq bit_memory_id_pack)

lemma slot_pack: "memory_id_slot (memory_id_pack sh sl v) = sl AND MAX_SLOT_INDEX"
  by (rule bit_word_eqI)
    (auto simp: memory_id_slot_def bit_ucast_iff bit_drop_bit_eq bit_memory_id_pack
      bit_and_iff MAX_SLOT_INDEX_mask bit_mask_iff)

lemma version_pack: "memory_id_version (memory_id_pack sh sl v) = v"
  by (rule bit_word_eqI)
    (auto simp: memory_id_version_def bit_ucast_iff bit_drop_bit_eq bit_memory_id_pack)

lemma reserved_pack: "memory_id_reserved (memory_id_pack sh sl v) = 0"
  by (rule bit_word_eqI)
    (auto simp: memory_id_reserved_def bit_ucast_iff bit_memory_id_pack)

lemma slot_le_MAX: "memory_id_slot m \<le> MAX_SLOT_INDEX"
  by (simp add: memory_id_slot_def word_and_le1)

lemma slot_in_range_masked: "sl \<le> MAX_SLOT_INDEX \<Longrightarrow> sl AND MAX_SLOT_INDEX = sl"
proof -
  assume "sl \<le> MAX_SLOT_INDEX"
  then have "unat sl < 2 ^ 48"
    by (simp add: MAX_SLOT_INDEX_def word_le_nat_alt)
  then have "take_bit 48 sl = sl"
    by (simp add: word_unat_eq_iff unsigned_take_bit_eq take_bit_nat_eq_self)
  then show ?thesis by (simp add: MAX_SLOT_INDEX_mask take_bit_eq_mask)
qed

lemma pack_of_fields:
  assumes "memory_id_reserved m = 0"
  shows "memory_id_pack (memory_id_shard m) (memory_id_slot m) (memory_id_version m) = m"
proof (rule bit_word_eqI)
  fix i
  assume i: "i < LENGTH(128)"
  have low: "\<not> bit m i" if "i < 32"
  proof -
    have "bit (memory_id_reserved m) i \<longleftrightarrow> bit m i"
      using that by (simp add: memory_id_reserved_def bit_ucast_iff)
    with assms show ?thesis by simp
  qed
  consider "i < 32" | "32 \<le> i" "i < 64" | "64 \<le> i" "i < 112" | "112 \<le> i" by linarith
  then show "bit (memory_id_pack (memory_id_shard m) (memory_id_slot m) (memory_id_version m)) i
      \<longleftrightarrow> bit m i"
    using i low
    by cases (auto simp: bit_memory_id_pack memory_id_shard_def memory_id_slot_def memory_id_version_def
        bit_ucast_iff bit_drop_bit_eq bit_and_iff MAX_SLOT_INDEX_mask bit_mask_iff)
qed

lemma memory_id_bytes_roundtrip [simp]:
  "memory_id_from_be_bytes (memory_id_to_be_bytes m) = m"
  by (simp add: memory_id_from_be_bytes_def memory_id_to_be_bytes_def)

lemma length_memory_id_to_be_bytes [simp]: "length (memory_id_to_be_bytes m) = 16"
  by (simp add: memory_id_to_be_bytes_def)

section \<open>Correctness of the packing\<close>

text \<open>packing a shard, slot and version and reading the fields back gives the shard, the
  low 48 bits of the slot and the version, with the reserved bits zero; conversely an id with
  zero reserved bits is the packing of its own fields.\<close>

theorem memory_id_pack_roundtrip:
  "memory_id_shard (memory_id_pack sh sl v) = sh
   \<and> memory_id_slot (memory_id_pack sh sl v) = sl AND MAX_SLOT_INDEX
   \<and> memory_id_version (memory_id_pack sh sl v) = v
   \<and> memory_id_reserved (memory_id_pack sh sl v) = 0
   \<and> (memory_id_reserved m = 0 \<longleftrightarrow>
        memory_id_pack (memory_id_shard m) (memory_id_slot m) (memory_id_version m) = m)"
  by (metis shard_pack slot_pack version_pack reserved_pack pack_of_fields)

lemma be_bytes_16_split:
  "be_bytes 16 (m :: u128) =
     be_bytes 2 (ucast (drop_bit 112 m) :: u16) @ be_bytes 6 (ucast (drop_bit 64 m) AND mask 48 :: u64)
     @ be_bytes 4 (ucast (drop_bit 32 m) :: u32) @ be_bytes 4 (ucast m :: u32)"
proof -
  have "le_bytes 16 m = le_bytes 4 m @ le_bytes 4 (drop_bit 32 m) @ le_bytes 6 (drop_bit 64 m)
      @ le_bytes 2 (drop_bit 112 m)"
    using le_bytes_add [of 4 12 m] le_bytes_add [of 4 8 "drop_bit 32 m"]
      le_bytes_add [of 6 2 "drop_bit 64 m"] by simp
  moreover have "le_bytes 6 (ucast (drop_bit 64 m) AND mask 48 :: u64) = le_bytes 6 (drop_bit 64 m)"
    using le_bytes_and_mask [of 6 "ucast (drop_bit 64 m) :: u64"]
      le_bytes_ucast [of 6 "drop_bit 64 m", where ?'b = 64] by simp
  ultimately show ?thesis
    by (simp add: be_bytes_def le_bytes_ucast)
qed

text \<open>the sixteen wire bytes of a packed id are two big-endian shard bytes, six slot bytes,
  four version bytes and four zero bytes, and decoding them returns the id.\<close>

theorem memory_id_wire_layout:
  "memory_id_to_be_bytes (memory_id_pack sh sl v) =
     be_bytes 2 sh @ be_bytes 6 (sl AND MAX_SLOT_INDEX) @ be_bytes 4 v @ [0, 0, 0, 0]
   \<and> memory_id_from_be_bytes (memory_id_to_be_bytes (memory_id_pack sh sl v)) = memory_id_pack sh sl v"
proof -
  let ?m = "memory_id_pack sh sl v"
  have z: "be_bytes 4 (0 :: u32) = [0, 0, 0, 0]"
    by (simp add: be_bytes_def numeral_eq_Suc)
  have "memory_id_to_be_bytes ?m =
      be_bytes 2 (memory_id_shard ?m) @ be_bytes 6 (memory_id_slot ?m)
      @ be_bytes 4 (memory_id_version ?m) @ be_bytes 4 (memory_id_reserved ?m)"
    unfolding memory_id_to_be_bytes_def memory_id_shard_def memory_id_slot_def
      memory_id_version_def memory_id_reserved_def MAX_SLOT_INDEX_mask
    by (rule be_bytes_16_split)
  then have "memory_id_to_be_bytes ?m =
      be_bytes 2 sh @ be_bytes 6 (sl AND MAX_SLOT_INDEX) @ be_bytes 4 v @ [0, 0, 0, 0]"
    by (simp only: shard_pack slot_pack version_pack reserved_pack z)
  moreover have "memory_id_from_be_bytes (memory_id_to_be_bytes ?m) = ?m" by simp
  ultimately show ?thesis by (rule conjI)
qed

end
