(* ===== verification/Core_Edges.thy ===== *)
theory Core_Edges
  imports Core_Ids
begin

text \<open>
  Graph vocabulary (\<open>brain-core/src/edges\<close>, \<open>nodes/memory.rs\<close>): edge kinds and origins, the
  discriminated node reference \<open>NodeRef\<close> (17 bytes) and the variable-length edge label
  \<open>EdgeKindRef\<close> (1, 2 or 5 bytes), each with its byte codec.
  The lemmas are the round trips and that each decoder accepts only what the encoder produces.
\<close>

section \<open>Kinds\<close>

datatype memory_kind = Episodic | Semantic | Consolidated

datatype edge_kind =
  Caused | FollowedBy | DerivedFrom | SimilarTo | Contradicts | Supports | References | PartOf

datatype edge_origin = OriginExplicit | AutoDerived

definition edge_kind_is_symmetric :: "edge_kind \<Rightarrow> bool" where
  "edge_kind_is_symmetric k \<longleftrightarrow> (case k of SimilarTo \<Rightarrow> True | Contradicts \<Rightarrow> True | _ \<Rightarrow> False)"

fun edge_kind_as_u8 :: "edge_kind \<Rightarrow> u8" where
  "edge_kind_as_u8 Caused = 0"
| "edge_kind_as_u8 FollowedBy = 1"
| "edge_kind_as_u8 DerivedFrom = 2"
| "edge_kind_as_u8 SimilarTo = 3"
| "edge_kind_as_u8 Contradicts = 4"
| "edge_kind_as_u8 Supports = 5"
| "edge_kind_as_u8 References = 6"
| "edge_kind_as_u8 PartOf = 7"

definition edge_kind_from_u8 :: "u8 \<Rightarrow> edge_kind option" where
  "edge_kind_from_u8 b =
     (if b = 0 then Some Caused
      else if b = 1 then Some FollowedBy
      else if b = 2 then Some DerivedFrom
      else if b = 3 then Some SimilarTo
      else if b = 4 then Some Contradicts
      else if b = 5 then Some Supports
      else if b = 6 then Some References
      else if b = 7 then Some PartOf
      else None)"

fun edge_origin_as_u8 :: "edge_origin \<Rightarrow> u8" where
  "edge_origin_as_u8 OriginExplicit = 0"
| "edge_origin_as_u8 AutoDerived = 1"

lemma edge_kind_from_as [simp]: "edge_kind_from_u8 (edge_kind_as_u8 k) = Some k"
  by (cases k) (simp_all add: edge_kind_from_u8_def)

lemma edge_kind_from_u8_Some: "edge_kind_from_u8 b = Some k \<longleftrightarrow> b = edge_kind_as_u8 k"
  by (cases k) (auto simp: edge_kind_from_u8_def)

section \<open>Node references\<close>

datatype node_ref = NodeMemory memory_id | NodeEntity entity_id

datatype node_ref_error = NodeUnknownTag u8

fun node_ref_tag :: "node_ref \<Rightarrow> u8" where
  "node_ref_tag (NodeMemory _) = 0"
| "node_ref_tag (NodeEntity _) = 1"

fun node_ref_id_bytes :: "node_ref \<Rightarrow> bytes" where
  "node_ref_id_bytes (NodeMemory m) = memory_id_to_be_bytes m"
| "node_ref_id_bytes (NodeEntity e) = e"

definition node_ref_to_bytes :: "node_ref \<Rightarrow> bytes" where
  "node_ref_to_bytes n = node_ref_tag n # node_ref_id_bytes n"

definition node_ref_from_bytes :: "bytes \<Rightarrow> node_ref_error + node_ref" where
  "node_ref_from_bytes bs =
     (let ident = take 16 (drop 1 bs); tag = bs ! 0
      in if tag = 0 then Inr (NodeMemory (memory_id_from_be_bytes ident))
         else if tag = 1 then Inr (NodeEntity ident)
         else Inl (NodeUnknownTag tag))"

text \<open>The array lengths the Rust types guarantee.\<close>

fun wf_node_ref :: "node_ref \<Rightarrow> bool" where
  "wf_node_ref (NodeMemory _) = True"
| "wf_node_ref (NodeEntity e) \<longleftrightarrow> length e = 16"

lemma length_node_ref_to_bytes [simp]: "wf_node_ref n \<Longrightarrow> length (node_ref_to_bytes n) = 17"
  by (cases n) (simp_all add: node_ref_to_bytes_def)

lemma node_ref_roundtrip [simp]:
  "wf_node_ref n \<Longrightarrow> node_ref_from_bytes (node_ref_to_bytes n) = Inr n"
  by (cases n) (simp_all add: node_ref_to_bytes_def node_ref_from_bytes_def)

lemma node_ref_from_bytes_wf:
  "length bs = 17 \<Longrightarrow> node_ref_from_bytes bs = Inr n \<Longrightarrow> wf_node_ref n"
  by (auto simp: node_ref_from_bytes_def Let_def split: if_splits)

lemma node_ref_from_bytes_canonical:
  assumes "length bs = 17" and "node_ref_from_bytes bs = Inr n"
  shows "node_ref_to_bytes n = bs"
proof -
  obtain t ident where bs: "bs = t # ident" and len: "length ident = 16"
    using assms(1) by (cases bs) auto
  show ?thesis
    using assms(2) len be_bytes_be_word [of ident 16, where ?'a = 128]
    by (auto simp: bs node_ref_from_bytes_def Let_def node_ref_to_bytes_def
        memory_id_to_be_bytes_def memory_id_from_be_bytes_def split: if_splits)
qed

section \<open>Edge labels\<close>

datatype edge_kind_ref = Builtin edge_kind | Mentions | Typed relation_type_id

datatype edge_kind_ref_error = EdgeUnknownTag u8 | InvalidEdgeKind u8 | EdgeShort nat

fun edge_kind_ref_encoded_len :: "edge_kind_ref \<Rightarrow> nat" where
  "edge_kind_ref_encoded_len (Builtin _) = 2"
| "edge_kind_ref_encoded_len Mentions = 1"
| "edge_kind_ref_encoded_len (Typed _) = 5"

fun edge_kind_ref_to_bytes :: "edge_kind_ref \<Rightarrow> bytes" where
  "edge_kind_ref_to_bytes (Builtin k) = [0, edge_kind_as_u8 k]"
| "edge_kind_ref_to_bytes Mentions = [1]"
| "edge_kind_ref_to_bytes (Typed i) = 2 # be_bytes 4 i"

definition edge_kind_ref_decode_from :: "bytes \<Rightarrow> edge_kind_ref_error + edge_kind_ref \<times> nat" where
  "edge_kind_ref_decode_from bs =
     (case bs of
        [] \<Rightarrow> Inl (EdgeShort 0)
      | tag # rest \<Rightarrow>
          if tag = 0 then
            (case rest of
               [] \<Rightarrow> Inl (EdgeShort 1)
             | kb # _ \<Rightarrow>
                 (case edge_kind_from_u8 kb of
                    None \<Rightarrow> Inl (InvalidEdgeKind kb)
                  | Some kind \<Rightarrow> Inr (Builtin kind, 2)))
          else if tag = 1 then Inr (Mentions, 1)
          else if tag = 2 then
            (if length rest < 4 then Inl (EdgeShort (length rest + 1))
             else Inr (Typed (be_word (take 4 rest)), 5))
          else Inl (EdgeUnknownTag tag))"

lemma length_edge_kind_ref_to_bytes [simp]:
  "length (edge_kind_ref_to_bytes k) = edge_kind_ref_encoded_len k"
  by (cases k) simp_all

lemma edge_kind_ref_roundtrip [simp]:
  "edge_kind_ref_decode_from (edge_kind_ref_to_bytes k @ rest) = Inr (k, edge_kind_ref_encoded_len k)"
  by (cases k) (simp_all add: edge_kind_ref_decode_from_def)

lemma edge_kind_ref_decode_canonical:
  assumes "edge_kind_ref_decode_from bs = Inr (k, n)"
  shows "n \<le> length bs \<and> take n bs = edge_kind_ref_to_bytes k"
proof -
  obtain tag rest where bs: "bs = tag # rest"
    using assms by (cases bs) (auto simp: edge_kind_ref_decode_from_def)
  consider "tag = 0" | "tag = 1" | "tag = 2"
    using assms by (auto simp: bs edge_kind_ref_decode_from_def split: if_splits)
  then show ?thesis
  proof cases
    case 1
    then show ?thesis
      using assms
      by (auto simp: bs edge_kind_ref_decode_from_def edge_kind_from_u8_Some
          split: list.splits option.splits)
  next
    case 2
    then show ?thesis using assms by (auto simp: bs edge_kind_ref_decode_from_def)
  next
    case 3
    then have "4 \<le> length rest" and k: "k = Typed (be_word (take 4 rest))" and n: "n = 5"
      using assms by (auto simp: bs edge_kind_ref_decode_from_def split: if_splits)
    then have "be_bytes 4 (be_word (take 4 rest) :: u32) = take 4 rest"
      by (intro be_bytes_be_word) simp_all
    with 3 k n \<open>4 \<le> length rest\<close> show ?thesis by (simp add: bs)
  qed
qed

end
