(* ===== verification/Wal_Kinds.thy ===== *)
theory Wal_Kinds
  imports Brain_Prelude
begin

text \<open>
  The WAL record kinds (\<open>brain-storage/src/wal/kinds.rs\<close>): the on-disk discriminator byte, its
  inverse, and the test for the kinds whose payload the framing layer transports unread.
\<close>

section \<open>The discriminator\<close>

datatype wal_record_kind =
    K_Encode | K_Forget | K_Link | K_Unlink | K_UpdateSalience | K_Reclaim | K_Consolidate
  | K_UpdateKind | K_UpdateSession | K_CheckpointBegin | K_CheckpointEnd | K_TxnBegin
  | K_TxnCommit | K_TxnAbort | K_MigrateEmbedding | K_EntityCreate | K_EntityUpdate
  | K_EntityMerge | K_EntityTombstone | K_EntityRename | K_EntityUnmerge | K_StatementCreate
  | K_StatementSupersede | K_StatementTombstone | K_RelationCreate | K_RelationSupersede
  | K_RelationTombstone | K_SchemaUpdate | K_Audit | K_StageCompleted | K_SpaceCreate
  | K_SpaceDelete | K_SessionCreate | K_SessionDelete | K_RestoreMemory

fun wal_kind_as_u8 :: "wal_record_kind \<Rightarrow> u8" where
  "wal_kind_as_u8 K_Encode = 1"
| "wal_kind_as_u8 K_Forget = 2"
| "wal_kind_as_u8 K_Link = 3"
| "wal_kind_as_u8 K_Unlink = 4"
| "wal_kind_as_u8 K_UpdateSalience = 5"
| "wal_kind_as_u8 K_Reclaim = 6"
| "wal_kind_as_u8 K_Consolidate = 7"
| "wal_kind_as_u8 K_UpdateKind = 8"
| "wal_kind_as_u8 K_UpdateSession = 9"
| "wal_kind_as_u8 K_CheckpointBegin = 10"
| "wal_kind_as_u8 K_CheckpointEnd = 11"
| "wal_kind_as_u8 K_TxnBegin = 12"
| "wal_kind_as_u8 K_TxnCommit = 13"
| "wal_kind_as_u8 K_TxnAbort = 14"
| "wal_kind_as_u8 K_MigrateEmbedding = 15"
| "wal_kind_as_u8 K_EntityCreate = 0x10"
| "wal_kind_as_u8 K_EntityUpdate = 0x11"
| "wal_kind_as_u8 K_EntityMerge = 0x12"
| "wal_kind_as_u8 K_EntityTombstone = 0x13"
| "wal_kind_as_u8 K_EntityRename = 0x14"
| "wal_kind_as_u8 K_EntityUnmerge = 0x15"
| "wal_kind_as_u8 K_StatementCreate = 0x20"
| "wal_kind_as_u8 K_StatementSupersede = 0x21"
| "wal_kind_as_u8 K_StatementTombstone = 0x22"
| "wal_kind_as_u8 K_RelationCreate = 0x30"
| "wal_kind_as_u8 K_RelationSupersede = 0x31"
| "wal_kind_as_u8 K_RelationTombstone = 0x32"
| "wal_kind_as_u8 K_SchemaUpdate = 0x40"
| "wal_kind_as_u8 K_Audit = 0x50"
| "wal_kind_as_u8 K_StageCompleted = 0x51"
| "wal_kind_as_u8 K_SpaceCreate = 0x60"
| "wal_kind_as_u8 K_SpaceDelete = 0x61"
| "wal_kind_as_u8 K_SessionCreate = 0x62"
| "wal_kind_as_u8 K_SessionDelete = 0x63"
| "wal_kind_as_u8 K_RestoreMemory = 0x64"

definition wal_kind_from_u8 :: "u8 \<Rightarrow> wal_record_kind option" where
  "wal_kind_from_u8 b =
     (if b = 1 then Some K_Encode
      else if b = 2 then Some K_Forget
      else if b = 3 then Some K_Link
      else if b = 4 then Some K_Unlink
      else if b = 5 then Some K_UpdateSalience
      else if b = 6 then Some K_Reclaim
      else if b = 7 then Some K_Consolidate
      else if b = 8 then Some K_UpdateKind
      else if b = 9 then Some K_UpdateSession
      else if b = 10 then Some K_CheckpointBegin
      else if b = 11 then Some K_CheckpointEnd
      else if b = 12 then Some K_TxnBegin
      else if b = 13 then Some K_TxnCommit
      else if b = 14 then Some K_TxnAbort
      else if b = 15 then Some K_MigrateEmbedding
      else if b = 0x10 then Some K_EntityCreate
      else if b = 0x11 then Some K_EntityUpdate
      else if b = 0x12 then Some K_EntityMerge
      else if b = 0x13 then Some K_EntityTombstone
      else if b = 0x14 then Some K_EntityRename
      else if b = 0x15 then Some K_EntityUnmerge
      else if b = 0x20 then Some K_StatementCreate
      else if b = 0x21 then Some K_StatementSupersede
      else if b = 0x22 then Some K_StatementTombstone
      else if b = 0x30 then Some K_RelationCreate
      else if b = 0x31 then Some K_RelationSupersede
      else if b = 0x32 then Some K_RelationTombstone
      else if b = 0x40 then Some K_SchemaUpdate
      else if b = 0x50 then Some K_Audit
      else if b = 0x51 then Some K_StageCompleted
      else if b = 0x60 then Some K_SpaceCreate
      else if b = 0x61 then Some K_SpaceDelete
      else if b = 0x62 then Some K_SessionCreate
      else if b = 0x63 then Some K_SessionDelete
      else if b = 0x64 then Some K_RestoreMemory
      else None)"

definition has_opaque_body :: "wal_record_kind \<Rightarrow> bool" where
  "has_opaque_body k =
     (let d = wal_kind_as_u8 k in (d \<ge> 0x10 \<and> d \<le> 0x51) \<or> (d \<ge> 0x60 \<and> d \<le> 0x63))"

definition ALL_KINDS :: "wal_record_kind list" where
  "ALL_KINDS =
     [K_Encode, K_Forget, K_Link, K_Unlink, K_UpdateSalience, K_Reclaim, K_Consolidate,
      K_UpdateKind, K_UpdateSession, K_CheckpointBegin, K_CheckpointEnd, K_TxnBegin,
      K_TxnCommit, K_TxnAbort, K_MigrateEmbedding, K_EntityCreate, K_EntityUpdate,
      K_EntityMerge, K_EntityTombstone, K_EntityRename, K_EntityUnmerge, K_StatementCreate,
      K_StatementSupersede, K_StatementTombstone, K_RelationCreate, K_RelationSupersede,
      K_RelationTombstone, K_SchemaUpdate, K_Audit, K_StageCompleted, K_SpaceCreate,
      K_SpaceDelete, K_SessionCreate, K_SessionDelete, K_RestoreMemory]"

section \<open>Its correctness\<close>

lemma wal_kind_from_as [simp]: "wal_kind_from_u8 (wal_kind_as_u8 k) = Some k"
  by (cases k) (simp_all add: wal_kind_from_u8_def)

lemma wal_kind_from_u8_Some: "wal_kind_from_u8 b = Some k \<Longrightarrow> wal_kind_as_u8 k = b"
  unfolding wal_kind_from_u8_def by (simp split: if_splits)

lemma wal_kind_from_u8_iff: "wal_kind_from_u8 b = Some k \<longleftrightarrow> b = wal_kind_as_u8 k"
  using wal_kind_from_u8_Some by auto

lemma ALL_KINDS_complete: "set ALL_KINDS = UNIV \<and> distinct ALL_KINDS"
proof
  show "set ALL_KINDS = UNIV"
  proof (intro equalityI subsetI UNIV_I)
    fix k show "k \<in> set ALL_KINDS" by (cases k) (simp_all add: ALL_KINDS_def)
  qed
  show "distinct ALL_KINDS" by (simp add: ALL_KINDS_def)
qed

lemma wal_kind_as_u8_nonzero: "wal_kind_as_u8 k \<noteq> 0"
  by (cases k) simp_all

end
