(* ===== verification/Payload_Reader.thy ===== *)
theory Payload_Reader
  imports Core_Edges Wal_Kinds
begin

text \<open>
  The cursor reader and the field writers behind the typed WAL payloads
  (\<open>brain-storage/src/wal/payload.rs\<close>, \<open>struct Reader\<close> and the \<open>put_*\<close> / \<open>read_*\<close> helpers).
  A decoder is a function from reader state to an error or a value with the advanced reader;
  \<open>rd_bind\<close> is the \<open>?\<close> operator. A writer that can panic (a length that does not fit its prefix)
  returns \<open>None\<close> in that case.

  Two contracts are stated once and used for every field: the locale \<open>field_codec\<close> (reading back
  what was written consumes exactly those bytes) and the predicate \<open>rd_safe\<close> (a decoder keeps the
  cursor within the input, so no slice or length subtraction of the source can fail, and what it
  returns satisfies a given predicate).
\<close>

section \<open>Errors and reader state\<close>

datatype payload_error =
    Underrun nat nat
  | TrailingBytes nat
  | BadMemoryKind u8
  | BadEdgeOrigin u8
  | BadNodeRef node_ref_error
  | BadEdgeKindRef edge_kind_ref_error
  | BadEvidenceCount u32
  | BadOptionTag u8
  | BadForgetMode u8
  | BadForgetReason u8
  | BadSalienceReason u8
  | BadTextLength u32
  | BadUtf8
  | BadVectorDims u16
  | BadSourceCount u32
  | BadUpdateCount u32
  | BadEdgeCount u16
  | BadBlobLength u32

definition RESPONSE_BLOB_MAX :: u32 where
  "RESPONSE_BLOB_MAX = 1024 * 1024"

definition VECTOR_DIMS_MAX :: u16 where
  "VECTOR_DIMS_MAX = 4096"

record reader =
  rd_bytes :: bytes
  rd_cursor :: nat

type_synonym 'a rd = "reader \<Rightarrow> payload_error + 'a \<times> reader"

definition reader_new :: "bytes \<Rightarrow> reader" where
  "reader_new bs = \<lparr>rd_bytes = bs, rd_cursor = 0\<rparr>"

definition rd_is_at_end :: "reader \<Rightarrow> bool" where
  "rd_is_at_end r \<longleftrightarrow> rd_cursor r = length (rd_bytes r)"

definition rd_remaining :: "reader \<Rightarrow> nat" where
  "rd_remaining r = length (rd_bytes r) - rd_cursor r"

definition rd_return :: "'a \<Rightarrow> 'a rd" where
  "rd_return x r = Inr (x, r)"

definition rd_fail :: "payload_error \<Rightarrow> 'a rd" where
  "rd_fail e r = Inl e"

definition rd_bind :: "'a rd \<Rightarrow> ('a \<Rightarrow> 'b rd) \<Rightarrow> 'b rd" where
  "rd_bind m f r = (case m r of Inl e \<Rightarrow> Inl e | Inr (x, r') \<Rightarrow> f x r')"

text \<open>A counted loop that pushes one decoded element per round.\<close>

primrec rd_repeat :: "nat \<Rightarrow> 'a rd \<Rightarrow> 'a list rd" where
  "rd_repeat 0 m = rd_return []"
| "rd_repeat (Suc n) m = rd_bind m (\<lambda>x. rd_bind (rd_repeat n m) (\<lambda>xs. rd_return (x # xs)))"

section \<open>Reading fields\<close>

definition rd_take :: "nat \<Rightarrow> bytes rd" where
  "rd_take n r =
     (if rd_remaining r < n then Inl (Underrun n (rd_remaining r))
      else Inr (take n (drop (rd_cursor r) (rd_bytes r)), r\<lparr>rd_cursor := rd_cursor r + n\<rparr>))"

definition rd_u8 :: "u8 rd" where
  "rd_u8 = rd_bind (rd_take 1) (\<lambda>b. rd_return (b ! 0))"

definition rd_u16_le :: "u16 rd" where
  "rd_u16_le = rd_bind (rd_take 2) (\<lambda>b. rd_return (le_word b))"

definition rd_u32_le :: "u32 rd" where
  "rd_u32_le = rd_bind (rd_take 4) (\<lambda>b. rd_return (le_word b))"

definition rd_u64_le :: "u64 rd" where
  "rd_u64_le = rd_bind (rd_take 8) (\<lambda>b. rd_return (le_word b))"

definition rd_f32_le :: "f32 rd" where
  "rd_f32_le = rd_u32_le"

definition rd_array16 :: "bytes rd" where
  "rd_array16 = rd_take 16"

definition rd_memory_id :: "memory_id rd" where
  "rd_memory_id = rd_bind rd_array16 (\<lambda>b. rd_return (memory_id_from_be_bytes b))"

definition rd_node_ref :: "node_ref rd" where
  "rd_node_ref =
     rd_bind (rd_take 17) (\<lambda>b.
       case node_ref_from_bytes b of Inl e \<Rightarrow> rd_fail (BadNodeRef e) | Inr n \<Rightarrow> rd_return n)"

definition rd_edge_kind_ref :: "edge_kind_ref rd" where
  "rd_edge_kind_ref r =
     (case edge_kind_ref_decode_from (drop (rd_cursor r) (rd_bytes r)) of
        Inl e \<Rightarrow> Inl (BadEdgeKindRef e)
      | Inr (k, consumed) \<Rightarrow> Inr (k, r\<lparr>rd_cursor := rd_cursor r + consumed\<rparr>))"

definition read_vector :: "f32 list rd" where
  "read_vector =
     rd_bind rd_u16_le (\<lambda>dims r.
       if dims > VECTOR_DIMS_MAX then Inl (BadVectorDims dims)
       else let needed = unat dims * 4
            in if rd_remaining r < needed then Inl (Underrun needed (rd_remaining r))
               else rd_repeat (unat dims) rd_f32_le r)"

definition read_text :: "bytes rd" where
  "read_text =
     rd_bind rd_u32_le (\<lambda>len r.
       if unat len > rd_remaining r then Inl (BadTextLength len)
       else rd_bind (rd_take (unat len)) (\<lambda>b.
              if valid_utf8 b then rd_return b else rd_fail BadUtf8) r)"

definition read_blob :: "bytes rd" where
  "read_blob =
     rd_bind rd_u32_le (\<lambda>len r.
       if len > RESPONSE_BLOB_MAX \<or> unat len > rd_remaining r then Inl (BadBlobLength len)
       else rd_take (unat len) r)"

definition read_option_u64 :: "u64 option rd" where
  "read_option_u64 =
     rd_bind rd_u8 (\<lambda>tag.
       if tag = 0 then rd_return None
       else if tag = 1 then rd_bind rd_u64_le (\<lambda>x. rd_return (Some x))
       else rd_fail (BadOptionTag tag))"

definition read_option_relation_id :: "relation_id option rd" where
  "read_option_relation_id =
     rd_bind rd_u8 (\<lambda>tag.
       if tag = 0 then rd_return None
       else if tag = 1 then rd_bind rd_array16 (\<lambda>x. rd_return (Some x))
       else rd_fail (BadOptionTag tag))"

section \<open>Writing fields\<close>

definition put_u8 :: "u8 \<Rightarrow> bytes" where
  "put_u8 b = [b]"

definition put_bool :: "bool \<Rightarrow> bytes" where
  "put_bool b = put_u8 (if b then 1 else 0)"

definition put_memory_id :: "memory_id \<Rightarrow> bytes" where
  "put_memory_id m = memory_id_to_be_bytes m"

definition put_node_ref :: "node_ref \<Rightarrow> bytes" where
  "put_node_ref n = node_ref_to_bytes n"

definition put_edge_kind_ref :: "edge_kind_ref \<Rightarrow> bytes" where
  "put_edge_kind_ref k = edge_kind_ref_to_bytes k"

definition put_array :: "bytes \<Rightarrow> bytes" where
  "put_array b = b"

definition put_u16_le :: "u16 \<Rightarrow> bytes" where
  "put_u16_le v = le_bytes 2 v"

definition put_u32_le :: "u32 \<Rightarrow> bytes" where
  "put_u32_le v = le_bytes 4 v"

definition put_u64_le :: "u64 \<Rightarrow> bytes" where
  "put_u64_le v = le_bytes 8 v"

definition put_f32_le :: "f32 \<Rightarrow> bytes" where
  "put_f32_le v = put_u32_le v"

definition put_option_u64 :: "u64 option \<Rightarrow> bytes" where
  "put_option_u64 v = (case v of None \<Rightarrow> put_u8 0 | Some x \<Rightarrow> put_u8 1 @ put_u64_le x)"

definition put_option_relation_id :: "relation_id option \<Rightarrow> bytes" where
  "put_option_relation_id v = (case v of None \<Rightarrow> put_u8 0 | Some i \<Rightarrow> put_u8 1 @ put_array i)"

text \<open>A count in front of a list, and the bytes of a counted list, at each prefix width.\<close>

definition put_len16 :: "'a list \<Rightarrow> bytes" where
  "put_len16 xs = put_u16_le (of_nat (length xs))"

definition put_len32 :: "'a list \<Rightarrow> bytes" where
  "put_len32 xs = put_u32_le (of_nat (length xs))"

definition put_each :: "('a \<Rightarrow> bytes) \<Rightarrow> 'a list \<Rightarrow> bytes" where
  "put_each f xs = concat (map f xs)"

definition put_vector :: "f32 list \<Rightarrow> bytes option" where
  "put_vector v =
     (if length v < 2 ^ 16 then Some (put_len16 v @ put_each put_f32_le v) else None)"

definition put_text :: "bytes \<Rightarrow> bytes option" where
  "put_text t = (if length t < 2 ^ 32 then Some (put_len32 t @ t) else None)"

definition put_blob :: "bytes \<Rightarrow> bytes option" where
  "put_blob b = (if length b < 2 ^ 32 then Some (put_len32 b @ b) else None)"

section \<open>Discriminator bytes\<close>

datatype forget_mode = Soft | Hard
datatype forget_reason = ClientRequest | Eviction
datatype salience_reason = Access | Decay | SalienceExplicit

fun forget_mode_as_u8 :: "forget_mode \<Rightarrow> u8" where
  "forget_mode_as_u8 Soft = 0"
| "forget_mode_as_u8 Hard = 1"

fun forget_reason_as_u8 :: "forget_reason \<Rightarrow> u8" where
  "forget_reason_as_u8 ClientRequest = 0"
| "forget_reason_as_u8 Eviction = 1"

fun salience_reason_as_u8 :: "salience_reason \<Rightarrow> u8" where
  "salience_reason_as_u8 Access = 0"
| "salience_reason_as_u8 Decay = 1"
| "salience_reason_as_u8 SalienceExplicit = 2"

fun memory_kind_to_u8 :: "memory_kind \<Rightarrow> u8" where
  "memory_kind_to_u8 Episodic = 0"
| "memory_kind_to_u8 Semantic = 1"
| "memory_kind_to_u8 Consolidated = 2"

definition memory_kind_from_u8 :: "u8 \<Rightarrow> memory_kind rd" where
  "memory_kind_from_u8 b =
     (if b = 0 then rd_return Episodic
      else if b = 1 then rd_return Semantic
      else if b = 2 then rd_return Consolidated
      else rd_fail (BadMemoryKind b))"

definition edge_origin_from_u8 :: "u8 \<Rightarrow> edge_origin rd" where
  "edge_origin_from_u8 b =
     (if b = 0 then rd_return OriginExplicit
      else if b = 1 then rd_return AutoDerived
      else rd_fail (BadEdgeOrigin b))"

definition forget_mode_from_u8 :: "u8 \<Rightarrow> forget_mode rd" where
  "forget_mode_from_u8 b =
     (if b = 0 then rd_return Soft
      else if b = 1 then rd_return Hard
      else rd_fail (BadForgetMode b))"

definition forget_reason_from_u8 :: "u8 \<Rightarrow> forget_reason rd" where
  "forget_reason_from_u8 b =
     (if b = 0 then rd_return ClientRequest
      else if b = 1 then rd_return Eviction
      else rd_fail (BadForgetReason b))"

definition salience_reason_from_u8 :: "u8 \<Rightarrow> salience_reason rd" where
  "salience_reason_from_u8 b =
     (if b = 0 then rd_return Access
      else if b = 1 then rd_return Decay
      else if b = 2 then rd_return SalienceExplicit
      else rd_fail (BadSalienceReason b))"

lemma discriminator_roundtrips [reader_simps]:
  "memory_kind_from_u8 (memory_kind_to_u8 k) = rd_return k"
  "edge_origin_from_u8 (edge_origin_as_u8 w) = rd_return w"
  "forget_mode_from_u8 (forget_mode_as_u8 m) = rd_return m"
  "forget_reason_from_u8 (forget_reason_as_u8 fr) = rd_return fr"
  "salience_reason_from_u8 (salience_reason_as_u8 s) = rd_return s"
  subgoal by (cases k) (simp_all add: memory_kind_from_u8_def)
  subgoal by (cases w) (simp_all add: edge_origin_from_u8_def)
  subgoal by (cases m) (simp_all add: forget_mode_from_u8_def)
  subgoal by (cases fr) (simp_all add: forget_reason_from_u8_def)
  subgoal by (cases s) (simp_all add: salience_reason_from_u8_def)
  done

section \<open>Reading back what was written\<close>

text \<open>A reader positioned between the bytes it has consumed and the bytes it has not.\<close>

definition reader_at :: "bytes \<Rightarrow> bytes \<Rightarrow> reader" where
  "reader_at pre rest = \<lparr>rd_bytes = pre @ rest, rd_cursor = length pre\<rparr>"

lemma reader_new_at: "reader_new bs = reader_at [] bs"
  by (simp add: reader_new_def reader_at_def)

lemma rd_remaining_at [simp]: "rd_remaining (reader_at pre rest) = length rest"
  by (simp add: rd_remaining_def reader_at_def)

lemma rd_is_at_end_at [simp]: "rd_is_at_end (reader_at pre rest) \<longleftrightarrow> rest = []"
  by (simp add: rd_is_at_end_def reader_at_def)

lemma rd_bind_return [simp]: "rd_bind (rd_return x) f = f x"
  by (rule ext) (simp add: rd_bind_def rd_return_def)

lemma rd_take_at:
  "length b = n \<Longrightarrow> rd_take n (reader_at pre (b @ rest)) = Inr (b, reader_at (pre @ b) rest)"
  by (auto simp: rd_take_def) (simp_all add: reader_at_def)

locale field_codec =
  fixes put :: "'a \<Rightarrow> bytes" and get :: "'a rd" and ok :: "'a \<Rightarrow> bool"
  assumes get_put: "ok x \<Longrightarrow> get (reader_at pre (put x @ rest)) = Inr (x, reader_at (pre @ put x) rest)"
begin

lemma get_put_list:
  "list_all ok xs \<Longrightarrow>
   rd_repeat (length xs) get (reader_at pre (put_each put xs @ rest))
     = Inr (xs, reader_at (pre @ put_each put xs) rest)"
proof (induction xs arbitrary: pre)
  case Nil
  then show ?case by (simp add: rd_return_def put_each_def)
next
  case (Cons x xs)
  have "get (reader_at pre (put_each put (x # xs) @ rest))
      = Inr (x, reader_at (pre @ put x) (put_each put xs @ rest))"
    using Cons.prems get_put [of x pre "put_each put xs @ rest"] by (simp add: put_each_def)
  moreover have "rd_repeat (length xs) get (reader_at (pre @ put x) (put_each put xs @ rest))
      = Inr (xs, reader_at (pre @ put_each put (x # xs)) rest)"
    using Cons.IH [of "pre @ put x"] Cons.prems by (simp add: put_each_def)
  ultimately show ?case by (simp add: rd_bind_def rd_return_def)
qed

text \<open>Decoding a written field leaves exactly the bytes written after it.\<close>

lemma get_put_unique:
  assumes "ok x" and "ok y" and "put x @ s = put y @ t"
  shows "x = y \<and> s = t"
proof -
  have "Inr (x, reader_at ([] @ put x) s) = (Inr (y, reader_at ([] @ put y) t) :: payload_error + 'a \<times> reader)"
    using get_put [OF assms(1), of "[]" s] get_put [OF assms(2), of "[]" t] assms(3) by simp
  with assms(3) show ?thesis by auto
qed

end

section \<open>Every field is a codec\<close>

lemmas put_scalar_defs =
  put_u8_def put_u16_le_def put_u32_le_def put_u64_le_def put_f32_le_def put_memory_id_def
  put_node_ref_def put_edge_kind_ref_def put_array_def put_bool_def

lemmas rd_scalar_defs =
  rd_u8_def rd_u16_le_def rd_u32_le_def rd_u64_le_def rd_f32_le_def rd_memory_id_def
  rd_node_ref_def rd_array16_def

interpretation u8c: field_codec put_u8 rd_u8 "\<lambda>_. True"
  by unfold_locales (simp add: put_u8_def rd_u8_def rd_bind_def rd_return_def rd_take_at [where b = "[x]" for x, simplified])

interpretation u16c: field_codec put_u16_le rd_u16_le "\<lambda>_. True"
  by unfold_locales (simp add: put_scalar_defs rd_scalar_defs rd_bind_def rd_return_def rd_take_at)

interpretation u32c: field_codec put_u32_le rd_u32_le "\<lambda>_. True"
  by unfold_locales (simp add: put_scalar_defs rd_scalar_defs rd_bind_def rd_return_def rd_take_at)

interpretation u64c: field_codec put_u64_le rd_u64_le "\<lambda>_. True"
  by unfold_locales (simp add: put_scalar_defs rd_scalar_defs rd_bind_def rd_return_def rd_take_at)

interpretation f32c: field_codec put_f32_le rd_f32_le "\<lambda>_. True"
  by unfold_locales (simp add: put_scalar_defs rd_scalar_defs rd_bind_def rd_return_def rd_take_at)

interpretation arrayc: field_codec put_array rd_array16 "\<lambda>b. length b = 16"
  by unfold_locales (simp add: put_scalar_defs rd_scalar_defs rd_take_at)

interpretation memc: field_codec put_memory_id rd_memory_id "\<lambda>_. True"
  by unfold_locales
    (simp add: put_scalar_defs rd_scalar_defs rd_bind_def rd_return_def rd_take_at)

interpretation nodec: field_codec put_node_ref rd_node_ref wf_node_ref
  by unfold_locales
    (simp add: put_scalar_defs rd_scalar_defs rd_bind_def rd_return_def rd_take_at)

interpretation edgekindc: field_codec put_edge_kind_ref rd_edge_kind_ref "\<lambda>_. True"
  by unfold_locales (simp add: put_scalar_defs rd_edge_kind_ref_def reader_at_def)

interpretation boolc: field_codec put_bool "rd_bind rd_u8 (\<lambda>b. rd_return (b \<noteq> 0))" "\<lambda>_. True"
  by unfold_locales (simp add: put_bool_def rd_bind_def u8c.get_put rd_return_def)

interpretation optu64c: field_codec put_option_u64 read_option_u64 "\<lambda>_. True"
  by unfold_locales
    (auto simp: put_option_u64_def read_option_u64_def rd_bind_def u8c.get_put u64c.get_put
      rd_return_def split: option.split)

interpretation optrelc: field_codec put_option_relation_id read_option_relation_id
  "\<lambda>v. \<forall>i\<in>set_option v. length i = 16"
  by unfold_locales
    (auto simp: put_option_relation_id_def read_option_relation_id_def rd_bind_def u8c.get_put
      arrayc.get_put rd_return_def split: option.split)

lemma unat_len16: "length xs < 2 ^ 16 \<Longrightarrow> unat (of_nat (length xs) :: u16) = length xs"
  by (simp add: unat_of_nat)

lemma unat_len32: "length xs < 2 ^ 32 \<Longrightarrow> unat (of_nat (length xs) :: u32) = length xs"
  by (simp add: unat_of_nat)

lemma len_le_blob_max:
  "length xs \<le> 2 ^ 20 \<Longrightarrow> (of_nat (length xs) :: u32) \<le> RESPONSE_BLOB_MAX"
  by (simp add: RESPONSE_BLOB_MAX_def word_le_nat_alt unat_of_nat)

lemma len_le_vector_max:
  "length xs \<le> 4096 \<Longrightarrow> (of_nat (length xs) :: u16) \<le> VECTOR_DIMS_MAX"
  by (simp add: VECTOR_DIMS_MAX_def word_le_nat_alt unat_of_nat)

lemma rd_len16: "rd_u16_le (reader_at pre (put_len16 xs @ rest))
    = Inr (of_nat (length xs), reader_at (pre @ put_len16 xs) rest)"
  by (simp add: put_len16_def u16c.get_put)

lemma rd_len32: "rd_u32_le (reader_at pre (put_len32 xs @ rest))
    = Inr (of_nat (length xs), reader_at (pre @ put_len32 xs) rest)"
  by (simp add: put_len32_def u32c.get_put)

lemma length_put_each: "list_all (\<lambda>x. length (f x) = k) xs \<Longrightarrow> length (put_each f xs) = k * length xs"
  by (induction xs) (simp_all add: put_each_def)

lemma length_put_each_ge: "list_all (\<lambda>x. k \<le> length (f x)) xs \<Longrightarrow> k * length xs \<le> length (put_each f xs)"
  by (induction xs) (auto simp: put_each_def)

lemma length_put_f32s [simp]: "length (put_each put_f32_le v) = 4 * length v"
  by (rule length_put_each) (simp add: list_all_iff put_scalar_defs)

lemma length_put_memory_ids [simp]: "length (put_each put_memory_id v) = 16 * length v"
  by (rule length_put_each) (simp add: list_all_iff put_scalar_defs)

interpretation vectorc: field_codec "\<lambda>v. put_len16 v @ put_each put_f32_le v" read_vector
  "\<lambda>v. length v \<le> 4096"
proof
  fix v :: "f32 list" and pre rest :: bytes
  assume len: "length v \<le> 4096"
  have "list_all (\<lambda>_. True) v" by (simp add: list_all_iff)
  from f32c.get_put_list [OF this, of "pre @ put_len16 v" rest] len
  show "read_vector (reader_at pre ((put_len16 v @ put_each put_f32_le v) @ rest))
      = Inr (v, reader_at (pre @ put_len16 v @ put_each put_f32_le v) rest)"
    using len_le_vector_max [OF len]
    by (simp add: read_vector_def rd_bind_def rd_len16 unat_len16 leD)
qed

interpretation textc: field_codec "\<lambda>t. put_len32 t @ t" read_text
  "\<lambda>t. length t < 2 ^ 32 \<and> valid_utf8 t"
  by unfold_locales
    (auto simp: read_text_def rd_bind_def rd_len32 unat_len32 rd_take_at rd_return_def)

interpretation blobc: field_codec "\<lambda>b. put_len32 b @ b" read_blob "\<lambda>b. length b \<le> 2 ^ 20"
proof
  fix b pre rest :: bytes
  assume len: "length b \<le> 2 ^ 20"
  then have "length b < 2 ^ 32" by simp
  with len len_le_blob_max [OF len]
  show "read_blob (reader_at pre ((put_len32 b @ b) @ rest))
      = Inr (b, reader_at (pre @ put_len32 b @ b) rest)"
    by (simp add: read_blob_def rd_bind_def rd_len32 unat_len32 rd_take_at leD)
qed

text \<open>The rewrite rules by which a decoder runs over the bytes its encoder wrote.\<close>

lemmas field_reads [reader_simps] =
  u8c.get_put u16c.get_put u32c.get_put u64c.get_put f32c.get_put arrayc.get_put memc.get_put
  nodec.get_put edgekindc.get_put optu64c.get_put optrelc.get_put
  vectorc.get_put [simplified append_assoc] textc.get_put [simplified append_assoc]
  blobc.get_put [simplified append_assoc] rd_len16 rd_len32 rd_bind_def put_bool_def

lemma rd_return_apply [reader_simps]: "rd_return x r = Inr (x, r)"
  by (simp add: rd_return_def)

section \<open>Decoders stay within their input\<close>

definition reader_inv :: "reader \<Rightarrow> bool" where
  "reader_inv r \<longleftrightarrow> rd_cursor r \<le> length (rd_bytes r)"

definition rd_safe :: "('a \<Rightarrow> bool) \<Rightarrow> 'a rd \<Rightarrow> bool" where
  "rd_safe P m \<longleftrightarrow>
     (\<forall>r x r'. reader_inv r \<longrightarrow> m r = Inr (x, r') \<longrightarrow>
        reader_inv r' \<and> rd_bytes r' = rd_bytes r \<and> rd_cursor r \<le> rd_cursor r' \<and> P x)"

named_theorems rd_safe_intros \<open>what each reader primitive guarantees of its result\<close>

lemma rd_safeD:
  assumes "rd_safe P m" and "reader_inv r" and "m r = Inr (x, r')"
  shows "reader_inv r'" "rd_bytes r' = rd_bytes r" "rd_cursor r \<le> rd_cursor r'" "P x"
  using assms unfolding rd_safe_def by blast+

lemma rd_safe_weaken: "rd_safe P m \<Longrightarrow> (\<And>x. P x \<Longrightarrow> Q x) \<Longrightarrow> rd_safe Q m"
  unfolding rd_safe_def by blast

lemma rd_safe_return [rd_safe_intros]: "P x \<Longrightarrow> rd_safe P (rd_return x)"
  by (auto simp: rd_safe_def rd_return_def)

lemma rd_safe_fail [rd_safe_intros]: "rd_safe P (rd_fail e)"
  by (simp add: rd_safe_def rd_fail_def)

lemma rd_safe_bind:
  assumes "rd_safe P m" and "\<And>x. P x \<Longrightarrow> rd_safe Q (f x)"
  shows "rd_safe Q (rd_bind m f)"
  unfolding rd_safe_def
proof (intro allI impI)
  fix r y r'' assume inv: "reader_inv r" and run: "rd_bind m f r = Inr (y, r'')"
  then obtain x r' where m: "m r = Inr (x, r')" and f: "f x r' = Inr (y, r'')"
    by (auto simp: rd_bind_def split: sum.splits prod.splits)
  note 1 = rd_safeD [OF assms(1) inv m]
  show "reader_inv r'' \<and> rd_bytes r'' = rd_bytes r \<and> rd_cursor r \<le> rd_cursor r'' \<and> Q y"
    using rd_safeD [OF assms(2) [OF 1(4)] 1(1) f] 1 by auto
qed

lemma rd_safe_if [rd_safe_intros]:
  "(c \<Longrightarrow> rd_safe P m) \<Longrightarrow> (\<not> c \<Longrightarrow> rd_safe P m') \<Longrightarrow> rd_safe P (if c then m else m')"
  by simp

text \<open>A guard that may look at the reader before failing.\<close>

lemma rd_safe_guard [rd_safe_intros]:
  "(\<And>r. \<not> c r \<Longrightarrow> rd_safe P m) \<Longrightarrow> rd_safe P (\<lambda>r. if c r then Inl (e r) else m r)"
  unfolding rd_safe_def by (metis Inl_Inr_False)

lemma rd_safe_repeat:
  "rd_safe P m \<Longrightarrow> rd_safe (\<lambda>xs. length xs = n \<and> list_all P xs) (rd_repeat n m)"
proof (induction n)
  case (Suc n)
  show ?case
    unfolding rd_repeat.simps
    by (rule rd_safe_bind [OF Suc.prems], rule rd_safe_bind [OF Suc.IH [OF Suc.prems]])
      (auto intro: rd_safe_return)
qed (simp add: rd_safe_return)

lemma rd_safe_take: "rd_safe (\<lambda>b. length b = n) (rd_take n)"
  by (auto simp: rd_safe_def rd_take_def reader_inv_def rd_remaining_def split: if_splits)

lemma rd_safe_scalars:
  "rd_safe (\<lambda>_. True) rd_u8" "rd_safe (\<lambda>_. True) rd_u16_le" "rd_safe (\<lambda>_. True) rd_u32_le"
  "rd_safe (\<lambda>_. True) rd_u64_le" "rd_safe (\<lambda>_. True) rd_f32_le"
  "rd_safe (\<lambda>b. length b = 16) rd_array16" "rd_safe (\<lambda>_. True) rd_memory_id"
  unfolding rd_scalar_defs
  by (rule rd_safe_bind [OF rd_safe_take] rd_safe_weaken [OF rd_safe_take] rd_safe_return TrueI
      | assumption)+

lemma rd_safe_node_ref: "rd_safe wf_node_ref rd_node_ref"
  unfolding rd_node_ref_def
  by (rule rd_safe_bind [OF rd_safe_take])
    (auto split: sum.split intro: rd_safe_intros node_ref_from_bytes_wf)

lemma rd_safe_edge_kind_ref: "rd_safe (\<lambda>_. True) rd_edge_kind_ref"
  by (auto simp: rd_safe_def rd_edge_kind_ref_def reader_inv_def
      split: sum.splits prod.splits dest!: edge_kind_ref_decode_canonical)

lemma rd_safe_options:
  "rd_safe (\<lambda>_. True) read_option_u64"
  "rd_safe (\<lambda>v. \<forall>i\<in>set_option v. length i = 16) read_option_relation_id"
  unfolding read_option_u64_def read_option_relation_id_def
  by (rule rd_safe_bind [OF rd_safe_scalars(1)] rd_safe_if rd_safe_return rd_safe_fail
      rd_safe_bind [OF rd_safe_scalars(4)] rd_safe_bind [OF rd_safe_scalars(6)] | simp)+

lemma rd_safe_discriminators:
  "rd_safe (\<lambda>_. True) (memory_kind_from_u8 b)" "rd_safe (\<lambda>_. True) (edge_origin_from_u8 b)"
  "rd_safe (\<lambda>_. True) (forget_mode_from_u8 b)" "rd_safe (\<lambda>_. True) (forget_reason_from_u8 b)"
  "rd_safe (\<lambda>_. True) (salience_reason_from_u8 b)"
  by (simp_all add: memory_kind_from_u8_def edge_origin_from_u8_def forget_mode_from_u8_def
      forget_reason_from_u8_def salience_reason_from_u8_def rd_safe_return rd_safe_fail)

lemma rd_safe_text: "rd_safe (\<lambda>t. length t < 2 ^ 32 \<and> valid_utf8 t) read_text"
  unfolding read_text_def
  by (intro rd_safe_bind [OF rd_safe_scalars(3)] rd_safe_guard rd_safe_bind [OF rd_safe_take])
    (use unat_u32_lt in \<open>auto intro: rd_safe_return rd_safe_fail\<close>)

lemma rd_safe_blob: "rd_safe (\<lambda>b. length b \<le> 2 ^ 20) read_blob"
proof -
  have "\<not> RESPONSE_BLOB_MAX < len \<Longrightarrow> unat len \<le> 2 ^ 20" for len
    by (simp add: RESPONSE_BLOB_MAX_def word_less_nat_alt not_less)
  then show ?thesis
    unfolding read_blob_def
    by (intro rd_safe_bind [OF rd_safe_scalars(3)] rd_safe_guard rd_safe_weaken [OF rd_safe_take])
      auto
qed

lemma rd_safe_vector: "rd_safe (\<lambda>v. length v \<le> 4096) read_vector"
proof -
  have "\<not> VECTOR_DIMS_MAX < dims \<Longrightarrow> unat dims \<le> 4096" for dims
    by (simp add: VECTOR_DIMS_MAX_def word_less_nat_alt not_less)
  then show ?thesis
    unfolding read_vector_def Let_def
    by (intro rd_safe_bind [OF rd_safe_scalars(2)] rd_safe_guard
        rd_safe_weaken [OF rd_safe_repeat [OF rd_safe_scalars(5)]]) auto
qed

text \<open>One safe step of a decoder: run a field reader, keep what is known of its value.\<close>

lemmas rd_safe_steps =
  rd_safe_bind [OF rd_safe_scalars(1)] rd_safe_bind [OF rd_safe_scalars(2)]
  rd_safe_bind [OF rd_safe_scalars(3)] rd_safe_bind [OF rd_safe_scalars(4)]
  rd_safe_bind [OF rd_safe_scalars(5)] rd_safe_bind [OF rd_safe_scalars(6)]
  rd_safe_bind [OF rd_safe_scalars(7)] rd_safe_bind [OF rd_safe_node_ref]
  rd_safe_bind [OF rd_safe_edge_kind_ref] rd_safe_bind [OF rd_safe_options(1)]
  rd_safe_bind [OF rd_safe_options(2)] rd_safe_bind [OF rd_safe_text]
  rd_safe_bind [OF rd_safe_blob] rd_safe_bind [OF rd_safe_vector]
  rd_safe_bind [OF rd_safe_discriminators(1)] rd_safe_bind [OF rd_safe_discriminators(2)]
  rd_safe_bind [OF rd_safe_discriminators(3)] rd_safe_bind [OF rd_safe_discriminators(4)]
  rd_safe_bind [OF rd_safe_discriminators(5)] rd_safe_bind [OF rd_safe_take]

end
