(* ===== verification/Wal_Payload.thy ===== *)
theory Wal_Payload
  imports Payload_Reader
begin

text \<open>
  The typed WAL payloads (\<open>brain-storage/src/wal/payload.rs\<close>): one record per payload struct, one
  encoder and one decoder per record kind, and the dispatch over them.
  Rust strings are their UTF-8 bytes and \<open>f32\<close> values their bit patterns. An encoder that returns
  \<open>None\<close> is one that panics because a length does not fit its prefix.
\<close>

section \<open>Payload structs\<close>

record edge_payload =
  edge_source :: node_ref
  edge_target :: node_ref
  edge_label :: edge_kind_ref
  edge_weight :: f32
  edge_orig :: edge_origin

record encode_payload =
  enc_memory_id :: memory_id
  enc_request_id :: request_id
  enc_space_id :: space_id
  enc_namespace_id :: namespace_id
  enc_session_id :: session_id
  enc_kind :: memory_kind
  enc_salience_initial :: f32
  enc_embedding_model_fp :: bytes
  enc_text :: bytes
  enc_vector :: "f32 list"
  enc_edges :: "edge_payload list"
  enc_request_hash :: bytes
  enc_response_payload :: bytes
  enc_deduplicate :: bool
  enc_occurred_at :: "u64 option"

record forget_payload =
  fg_memory_id :: memory_id
  fg_request_id :: request_id
  fg_space_id :: space_id
  fg_mode :: forget_mode
  fg_reason :: forget_reason

record restore_payload =
  rs_memory_id :: memory_id
  rs_request_id :: request_id
  rs_space_id :: space_id

record link_payload =
  ln_source :: node_ref
  ln_target :: node_ref
  ln_edge_kind :: edge_kind_ref
  ln_weight :: f32
  ln_origin :: edge_origin

record unlink_payload =
  ul_source :: node_ref
  ul_target :: node_ref
  ul_edge_kind :: edge_kind_ref
  ul_edge_seq :: u32

record salience_update =
  su_memory_id :: memory_id
  su_new_salience :: f32
  su_reason :: salience_reason

record reclaim_payload =
  rc_slot_id :: u64
  rc_old_version :: u32
  rc_new_version :: u32
  rc_memory_id :: memory_id

record consolidate_payload =
  cs_new_memory_id :: memory_id
  cs_source_memory_ids :: "memory_id list"
  cs_text :: bytes
  cs_vector :: "f32 list"
  cs_embedding_model_fp :: bytes

record update_kind_payload =
  uk_memory_id :: memory_id
  uk_new_kind :: memory_kind

record update_session_payload =
  us_memory_id :: memory_id
  us_new_session_id :: session_id

record checkpoint_begin_payload =
  cb_checkpoint_id :: u64
  cb_started_at :: u64

record checkpoint_end_payload =
  ce_checkpoint_id :: u64
  ce_durable_lsn :: u64
  ce_arena_capacity :: u64

record txn_begin_payload =
  tb_txn_id :: txn_id
  tb_expected_record_count :: u32

record txn_commit_payload =
  tc_txn_id :: txn_id

record txn_abort_payload =
  ta_txn_id :: txn_id
  ta_reason_code :: u32

record migrate_embedding_payload =
  me_memory_id :: memory_id
  me_old_fingerprint :: bytes
  me_new_fingerprint :: bytes
  me_new_vector :: "f32 list"

record relation_link_payload =
  rl_relation_id :: relation_id
  rl_from :: node_ref
  rl_to :: node_ref
  rl_relation_type_id :: relation_type_id
  rl_chain_root :: relation_id
  rl_confidence :: f32
  rl_valid_from :: "u64 option"
  rl_valid_to :: "u64 option"
  rl_supersedes :: "relation_id option"
  rl_evidence :: "memory_id list"
  rl_extractor_id :: u32
  rl_is_symmetric :: bool
  rl_properties_blob :: bytes
  rl_space_id :: space_id
  rl_namespace_id :: namespace_id
  rl_session_id :: session_id
  rl_intern_hint :: "(bytes \<times> bytes) option"

record relation_supersede_payload =
  rp_old_relation_id :: relation_id
  rp_new :: relation_link_payload

record relation_tombstone_payload =
  rt_relation_id :: relation_id
  rt_reason :: bytes
  rt_at :: u64
  rt_space_id :: space_id

record phase_body_record =
  pb_kind :: wal_record_kind
  pb_space_id :: space_id
  pb_body :: bytes

datatype wal_payload =
    Encode encode_payload
  | Forget forget_payload
  | Link link_payload
  | Unlink unlink_payload
  | UpdateSalience "salience_update list"
  | Reclaim reclaim_payload
  | Consolidate consolidate_payload
  | UpdateKind update_kind_payload
  | UpdateSession update_session_payload
  | CheckpointBegin checkpoint_begin_payload
  | CheckpointEnd checkpoint_end_payload
  | TxnBegin txn_begin_payload
  | TxnCommit txn_commit_payload
  | TxnAbort txn_abort_payload
  | MigrateEmbedding migrate_embedding_payload
  | RelationLink relation_link_payload
  | RelationSupersede relation_supersede_payload
  | RelationTombstone relation_tombstone_payload
  | RestoreMemory restore_payload
  | PhaseBody phase_body_record

fun payload_kind :: "wal_payload \<Rightarrow> wal_record_kind" where
  "payload_kind (Encode _) = K_Encode"
| "payload_kind (Forget _) = K_Forget"
| "payload_kind (Link _) = K_Link"
| "payload_kind (Unlink _) = K_Unlink"
| "payload_kind (UpdateSalience _) = K_UpdateSalience"
| "payload_kind (Reclaim _) = K_Reclaim"
| "payload_kind (Consolidate _) = K_Consolidate"
| "payload_kind (UpdateKind _) = K_UpdateKind"
| "payload_kind (UpdateSession _) = K_UpdateSession"
| "payload_kind (CheckpointBegin _) = K_CheckpointBegin"
| "payload_kind (CheckpointEnd _) = K_CheckpointEnd"
| "payload_kind (TxnBegin _) = K_TxnBegin"
| "payload_kind (TxnCommit _) = K_TxnCommit"
| "payload_kind (TxnAbort _) = K_TxnAbort"
| "payload_kind (MigrateEmbedding _) = K_MigrateEmbedding"
| "payload_kind (RelationLink _) = K_RelationCreate"
| "payload_kind (RelationSupersede _) = K_RelationSupersede"
| "payload_kind (RelationTombstone _) = K_RelationTombstone"
| "payload_kind (RestoreMemory _) = K_RestoreMemory"
| "payload_kind (PhaseBody r) = pb_kind r"

definition phase_body_new :: "wal_record_kind \<Rightarrow> space_id \<Rightarrow> bytes \<Rightarrow> phase_body_record" where
  "phase_body_new kind space_id body = \<lparr>pb_kind = kind, pb_space_id = space_id, pb_body = body\<rparr>"

end
