(* ===== verification/Payload_Codec.thy ===== *)
theory Payload_Codec
  imports Wal_Payload
begin

text \<open>
  The encoders and decoders of the typed WAL payloads (\<open>brain-storage/src/wal/payload.rs\<close>, from
  \<open>encode_encode\<close> to \<open>decode_relation_tombstone\<close>, and the dispatch \<open>WalPayload::encode_to_bytes\<close>
  and \<open>WalPayload::decode\<close>), field by field in the order of the source.
\<close>

section \<open>Encode\<close>

definition put_edge :: "edge_payload \<Rightarrow> bytes" where
  "put_edge e =
     put_node_ref (edge_source e) @ put_node_ref (edge_target e) @ put_edge_kind_ref (edge_label e) @
     put_f32_le (edge_weight e) @ put_u8 (edge_origin_as_u8 (edge_orig e))"

definition encode_encode :: "encode_payload \<Rightarrow> bytes option" where
  "encode_encode p =
     do {
       text \<leftarrow> put_text (enc_text p);
       vector \<leftarrow> put_vector (enc_vector p);
       edge_count \<leftarrow> (if length (enc_edges p) < 2 ^ 16 then Some (put_len16 (enc_edges p)) else None);
       response \<leftarrow> put_blob (enc_response_payload p);
       Some (put_memory_id (enc_memory_id p) @ put_array (enc_request_id p) @
             put_array (enc_space_id p) @ put_u32_le (enc_namespace_id p) @
             put_u64_le (enc_session_id p) @ put_u8 (memory_kind_to_u8 (enc_kind p)) @
             put_f32_le (enc_salience_initial p) @ put_array (enc_embedding_model_fp p) @
             text @ vector @ edge_count @ put_each put_edge (enc_edges p) @
             put_array (enc_request_hash p) @ response @ put_bool (enc_deduplicate p) @
             put_option_u64 (enc_occurred_at p))
     }"

definition decode_edge :: "edge_payload rd" where
  "decode_edge =
     rd_bind rd_node_ref (\<lambda>source.
     rd_bind rd_node_ref (\<lambda>target.
     rd_bind rd_edge_kind_ref (\<lambda>edge_kind.
     rd_bind rd_f32_le (\<lambda>weight.
     rd_bind rd_u8 (\<lambda>ob.
     rd_bind (edge_origin_from_u8 ob) (\<lambda>orig.
     rd_return \<lparr>edge_source = source, edge_target = target, edge_label = edge_kind,
                edge_weight = weight, edge_orig = orig\<rparr>))))))"

text \<open>The part of \<open>decode_encode\<close> from the edge count on.\<close>

definition decode_edges :: "edge_payload list rd" where
  "decode_edges =
     rd_bind rd_u16_le (\<lambda>edge_count r.
       if unat edge_count * 40 + 37 > rd_remaining r then Inl (BadEdgeCount edge_count)
       else rd_repeat (unat edge_count) decode_edge r)"

definition decode_encode :: "encode_payload rd" where
  "decode_encode =
     rd_bind rd_memory_id (\<lambda>memory_id.
     rd_bind rd_array16 (\<lambda>request_id.
     rd_bind rd_array16 (\<lambda>space_id.
     rd_bind rd_u32_le (\<lambda>namespace_id.
     rd_bind rd_u64_le (\<lambda>session_id.
     rd_bind rd_u8 (\<lambda>kb.
     rd_bind (memory_kind_from_u8 kb) (\<lambda>kind.
     rd_bind rd_f32_le (\<lambda>salience_initial.
     rd_bind rd_array16 (\<lambda>embedding_model_fp.
     rd_bind read_text (\<lambda>text.
     rd_bind read_vector (\<lambda>vector.
     rd_bind decode_edges (\<lambda>edges.
     rd_bind (rd_take 32) (\<lambda>request_hash.
     rd_bind read_blob (\<lambda>response_payload.
     rd_bind rd_u8 (\<lambda>dedup.
     rd_bind read_option_u64 (\<lambda>occurred_at.
     rd_return \<lparr>enc_memory_id = memory_id, enc_request_id = request_id, enc_space_id = space_id,
                enc_namespace_id = namespace_id, enc_session_id = session_id, enc_kind = kind,
                enc_salience_initial = salience_initial,
                enc_embedding_model_fp = embedding_model_fp, enc_text = text,
                enc_vector = vector, enc_edges = edges, enc_request_hash = request_hash,
                enc_response_payload = response_payload, enc_deduplicate = (dedup \<noteq> 0),
                enc_occurred_at = occurred_at\<rparr>))))))))))))))))"

section \<open>Forget, restore, link, unlink\<close>

definition encode_forget :: "forget_payload \<Rightarrow> bytes" where
  "encode_forget p =
     put_memory_id (fg_memory_id p) @ put_array (fg_request_id p) @ put_array (fg_space_id p) @
     put_u8 (forget_mode_as_u8 (fg_mode p)) @ put_u8 (forget_reason_as_u8 (fg_reason p))"

definition decode_forget :: "forget_payload rd" where
  "decode_forget =
     rd_bind rd_memory_id (\<lambda>memory_id.
     rd_bind rd_array16 (\<lambda>request_id.
     rd_bind rd_array16 (\<lambda>space_id.
     rd_bind rd_u8 (\<lambda>mb.
     rd_bind (forget_mode_from_u8 mb) (\<lambda>mode.
     rd_bind rd_u8 (\<lambda>rb.
     rd_bind (forget_reason_from_u8 rb) (\<lambda>reason.
     rd_return \<lparr>fg_memory_id = memory_id, fg_request_id = request_id, fg_space_id = space_id,
                fg_mode = mode, fg_reason = reason\<rparr>)))))))"

definition encode_restore :: "restore_payload \<Rightarrow> bytes" where
  "encode_restore p =
     put_memory_id (rs_memory_id p) @ put_array (rs_request_id p) @ put_array (rs_space_id p)"

definition decode_restore :: "restore_payload rd" where
  "decode_restore =
     rd_bind rd_memory_id (\<lambda>memory_id.
     rd_bind rd_array16 (\<lambda>request_id.
     rd_bind rd_array16 (\<lambda>space_id.
     rd_return \<lparr>rs_memory_id = memory_id, rs_request_id = request_id, rs_space_id = space_id\<rparr>)))"

definition encode_link :: "link_payload \<Rightarrow> bytes" where
  "encode_link p =
     put_node_ref (ln_source p) @ put_node_ref (ln_target p) @ put_edge_kind_ref (ln_edge_kind p) @
     put_f32_le (ln_weight p) @ put_u8 (edge_origin_as_u8 (ln_origin p))"

definition decode_link :: "link_payload rd" where
  "decode_link =
     rd_bind rd_node_ref (\<lambda>source.
     rd_bind rd_node_ref (\<lambda>target.
     rd_bind rd_edge_kind_ref (\<lambda>edge_kind.
     rd_bind rd_f32_le (\<lambda>weight.
     rd_bind rd_u8 (\<lambda>ob.
     rd_bind (edge_origin_from_u8 ob) (\<lambda>orig.
     rd_return \<lparr>ln_source = source, ln_target = target, ln_edge_kind = edge_kind,
                ln_weight = weight, ln_origin = orig\<rparr>))))))"

definition encode_unlink :: "unlink_payload \<Rightarrow> bytes" where
  "encode_unlink p =
     put_node_ref (ul_source p) @ put_node_ref (ul_target p) @ put_edge_kind_ref (ul_edge_kind p) @
     put_u32_le (ul_edge_seq p)"

definition decode_unlink :: "unlink_payload rd" where
  "decode_unlink =
     rd_bind rd_node_ref (\<lambda>source.
     rd_bind rd_node_ref (\<lambda>target.
     rd_bind rd_edge_kind_ref (\<lambda>edge_kind.
     rd_bind rd_u32_le (\<lambda>edge_seq.
     rd_return \<lparr>ul_source = source, ul_target = target, ul_edge_kind = edge_kind,
                ul_edge_seq = edge_seq\<rparr>))))"

section \<open>Salience, reclaim, consolidate\<close>

definition put_salience_update :: "salience_update \<Rightarrow> bytes" where
  "put_salience_update u =
     put_memory_id (su_memory_id u) @ put_f32_le (su_new_salience u) @
     put_u8 (salience_reason_as_u8 (su_reason u))"

definition encode_update_salience :: "salience_update list \<Rightarrow> bytes option" where
  "encode_update_salience updates =
     (if length updates < 2 ^ 32
      then Some (put_len32 updates @ put_each put_salience_update updates) else None)"

definition decode_salience_update :: "salience_update rd" where
  "decode_salience_update =
     rd_bind rd_memory_id (\<lambda>memory_id.
     rd_bind rd_f32_le (\<lambda>new_salience.
     rd_bind rd_u8 (\<lambda>rb.
     rd_bind (salience_reason_from_u8 rb) (\<lambda>reason.
     rd_return \<lparr>su_memory_id = memory_id, su_new_salience = new_salience, su_reason = reason\<rparr>))))"

definition decode_update_salience :: "salience_update list rd" where
  "decode_update_salience =
     rd_bind rd_u32_le (\<lambda>count r.
       if unat count * 21 > rd_remaining r then Inl (BadUpdateCount count)
       else rd_repeat (unat count) decode_salience_update r)"

definition encode_reclaim :: "reclaim_payload \<Rightarrow> bytes" where
  "encode_reclaim p =
     put_u64_le (rc_slot_id p) @ put_u32_le (rc_old_version p) @ put_u32_le (rc_new_version p) @
     put_memory_id (rc_memory_id p)"

definition decode_reclaim :: "reclaim_payload rd" where
  "decode_reclaim =
     rd_bind rd_u64_le (\<lambda>slot_id.
     rd_bind rd_u32_le (\<lambda>old_version.
     rd_bind rd_u32_le (\<lambda>new_version.
     rd_bind rd_memory_id (\<lambda>memory_id.
     rd_return \<lparr>rc_slot_id = slot_id, rc_old_version = old_version, rc_new_version = new_version,
                rc_memory_id = memory_id\<rparr>))))"

definition encode_consolidate :: "consolidate_payload \<Rightarrow> bytes option" where
  "encode_consolidate p =
     do {
       src_count \<leftarrow> (if length (cs_source_memory_ids p) < 2 ^ 32
                       then Some (put_len32 (cs_source_memory_ids p)) else None);
       text \<leftarrow> put_text (cs_text p);
       vector \<leftarrow> put_vector (cs_vector p);
       Some (put_memory_id (cs_new_memory_id p) @ src_count @
             put_each put_memory_id (cs_source_memory_ids p) @ text @ vector @
             put_array (cs_embedding_model_fp p))
     }"

text \<open>A counted run of memory ids, refused when the count cannot fit the bytes that remain.\<close>

definition read_memory_ids :: "(u32 \<Rightarrow> payload_error) \<Rightarrow> memory_id list rd" where
  "read_memory_ids bad_count =
     rd_bind rd_u32_le (\<lambda>count r.
       if unat count * 16 > rd_remaining r then Inl (bad_count count)
       else rd_repeat (unat count) rd_memory_id r)"

definition decode_consolidate :: "consolidate_payload rd" where
  "decode_consolidate =
     rd_bind rd_memory_id (\<lambda>new_memory_id.
     rd_bind (read_memory_ids BadSourceCount) (\<lambda>source_memory_ids.
     rd_bind read_text (\<lambda>text.
     rd_bind read_vector (\<lambda>vector.
     rd_bind rd_array16 (\<lambda>embedding_model_fp.
     rd_return \<lparr>cs_new_memory_id = new_memory_id, cs_source_memory_ids = source_memory_ids,
                cs_text = text, cs_vector = vector,
                cs_embedding_model_fp = embedding_model_fp\<rparr>)))))"

section \<open>Kind, session, checkpoint, transaction and migration records\<close>

definition encode_update_kind :: "update_kind_payload \<Rightarrow> bytes" where
  "encode_update_kind p = put_memory_id (uk_memory_id p) @ put_u8 (memory_kind_to_u8 (uk_new_kind p))"

definition decode_update_kind :: "update_kind_payload rd" where
  "decode_update_kind =
     rd_bind rd_memory_id (\<lambda>memory_id.
     rd_bind rd_u8 (\<lambda>kb.
     rd_bind (memory_kind_from_u8 kb) (\<lambda>kind.
     rd_return \<lparr>uk_memory_id = memory_id, uk_new_kind = kind\<rparr>)))"

definition encode_update_session :: "update_session_payload \<Rightarrow> bytes" where
  "encode_update_session p = put_memory_id (us_memory_id p) @ put_u64_le (us_new_session_id p)"

definition decode_update_session :: "update_session_payload rd" where
  "decode_update_session =
     rd_bind rd_memory_id (\<lambda>memory_id.
     rd_bind rd_u64_le (\<lambda>session.
     rd_return \<lparr>us_memory_id = memory_id, us_new_session_id = session\<rparr>))"

definition encode_checkpoint_begin :: "checkpoint_begin_payload \<Rightarrow> bytes" where
  "encode_checkpoint_begin p = put_u64_le (cb_checkpoint_id p) @ put_u64_le (cb_started_at p)"

definition decode_checkpoint_begin :: "checkpoint_begin_payload rd" where
  "decode_checkpoint_begin =
     rd_bind rd_u64_le (\<lambda>checkpoint_id.
     rd_bind rd_u64_le (\<lambda>started_at.
     rd_return \<lparr>cb_checkpoint_id = checkpoint_id, cb_started_at = started_at\<rparr>))"

definition encode_checkpoint_end :: "checkpoint_end_payload \<Rightarrow> bytes" where
  "encode_checkpoint_end p =
     put_u64_le (ce_checkpoint_id p) @ put_u64_le (ce_durable_lsn p) @ put_u64_le (ce_arena_capacity p)"

definition decode_checkpoint_end :: "checkpoint_end_payload rd" where
  "decode_checkpoint_end =
     rd_bind rd_u64_le (\<lambda>checkpoint_id.
     rd_bind rd_u64_le (\<lambda>durable_lsn.
     rd_bind rd_u64_le (\<lambda>arena_capacity.
     rd_return \<lparr>ce_checkpoint_id = checkpoint_id, ce_durable_lsn = durable_lsn,
                ce_arena_capacity = arena_capacity\<rparr>)))"

definition encode_txn_begin :: "txn_begin_payload \<Rightarrow> bytes" where
  "encode_txn_begin p = put_array (tb_txn_id p) @ put_u32_le (tb_expected_record_count p)"

definition decode_txn_begin :: "txn_begin_payload rd" where
  "decode_txn_begin =
     rd_bind rd_array16 (\<lambda>txn_id.
     rd_bind rd_u32_le (\<lambda>count.
     rd_return \<lparr>tb_txn_id = txn_id, tb_expected_record_count = count\<rparr>))"

definition encode_txn_commit :: "txn_commit_payload \<Rightarrow> bytes" where
  "encode_txn_commit p = put_array (tc_txn_id p)"

definition decode_txn_commit :: "txn_commit_payload rd" where
  "decode_txn_commit = rd_bind rd_array16 (\<lambda>txn_id. rd_return \<lparr>tc_txn_id = txn_id\<rparr>)"

definition encode_txn_abort :: "txn_abort_payload \<Rightarrow> bytes" where
  "encode_txn_abort p = put_array (ta_txn_id p) @ put_u32_le (ta_reason_code p)"

definition decode_txn_abort :: "txn_abort_payload rd" where
  "decode_txn_abort =
     rd_bind rd_array16 (\<lambda>txn_id.
     rd_bind rd_u32_le (\<lambda>reason_code.
     rd_return \<lparr>ta_txn_id = txn_id, ta_reason_code = reason_code\<rparr>))"

definition encode_migrate_embedding :: "migrate_embedding_payload \<Rightarrow> bytes option" where
  "encode_migrate_embedding p =
     do {
       vector \<leftarrow> put_vector (me_new_vector p);
       Some (put_memory_id (me_memory_id p) @ put_array (me_old_fingerprint p) @
             put_array (me_new_fingerprint p) @ vector)
     }"

definition decode_migrate_embedding :: "migrate_embedding_payload rd" where
  "decode_migrate_embedding =
     rd_bind rd_memory_id (\<lambda>memory_id.
     rd_bind rd_array16 (\<lambda>old_fingerprint.
     rd_bind rd_array16 (\<lambda>new_fingerprint.
     rd_bind read_vector (\<lambda>new_vector.
     rd_return \<lparr>me_memory_id = memory_id, me_old_fingerprint = old_fingerprint,
                me_new_fingerprint = new_fingerprint, me_new_vector = new_vector\<rparr>))))"

section \<open>Typed relations\<close>

definition put_intern_hint :: "(bytes \<times> bytes) option \<Rightarrow> bytes option" where
  "put_intern_hint hint =
     (case hint of
        None \<Rightarrow> Some (put_u8 0)
      | Some (namespace, name) \<Rightarrow>
          do { ns \<leftarrow> put_blob namespace; nm \<leftarrow> put_blob name; Some (put_u8 1 @ ns @ nm) })"

definition encode_relation_link :: "relation_link_payload \<Rightarrow> bytes option" where
  "encode_relation_link p =
     do {
       ev_count \<leftarrow> (if length (rl_evidence p) < 2 ^ 32 then Some (put_len32 (rl_evidence p)) else None);
       properties \<leftarrow> put_blob (rl_properties_blob p);
       hint \<leftarrow> put_intern_hint (rl_intern_hint p);
       Some (put_array (rl_relation_id p) @ put_node_ref (rl_from p) @ put_node_ref (rl_to p) @
             put_u32_le (rl_relation_type_id p) @ put_array (rl_chain_root p) @
             put_f32_le (rl_confidence p) @ put_option_u64 (rl_valid_from p) @
             put_option_u64 (rl_valid_to p) @ put_option_relation_id (rl_supersedes p) @
             ev_count @ put_each put_memory_id (rl_evidence p) @ put_u32_le (rl_extractor_id p) @
             put_bool (rl_is_symmetric p) @ properties @ put_array (rl_space_id p) @
             put_u32_le (rl_namespace_id p) @ put_u64_le (rl_session_id p) @ hint)
     }"

definition read_utf8_blob :: "bytes rd" where
  "read_utf8_blob = rd_bind read_blob (\<lambda>b. if valid_utf8 b then rd_return b else rd_fail BadUtf8)"

definition read_intern_hint :: "(bytes \<times> bytes) option rd" where
  "read_intern_hint =
     rd_bind rd_u8 (\<lambda>tag.
       if tag = 0 then rd_return None
       else if tag = 1 then
         rd_bind read_utf8_blob (\<lambda>namespace.
         rd_bind read_utf8_blob (\<lambda>name.
         rd_return (Some (namespace, name))))
       else rd_fail (BadOptionTag tag))"

definition decode_relation_link :: "relation_link_payload rd" where
  "decode_relation_link =
     rd_bind rd_array16 (\<lambda>relation_id.
     rd_bind rd_node_ref (\<lambda>from_node.
     rd_bind rd_node_ref (\<lambda>to_node.
     rd_bind rd_u32_le (\<lambda>relation_type_id.
     rd_bind rd_array16 (\<lambda>chain_root.
     rd_bind rd_f32_le (\<lambda>confidence.
     rd_bind read_option_u64 (\<lambda>valid_from.
     rd_bind read_option_u64 (\<lambda>valid_to.
     rd_bind read_option_relation_id (\<lambda>supersedes.
     rd_bind (read_memory_ids BadEvidenceCount) (\<lambda>evidence.
     rd_bind rd_u32_le (\<lambda>extractor_id.
     rd_bind rd_u8 (\<lambda>sym.
     rd_bind read_blob (\<lambda>properties_blob.
     rd_bind rd_array16 (\<lambda>space_id.
     rd_bind rd_u32_le (\<lambda>namespace_id.
     rd_bind rd_u64_le (\<lambda>session_id.
     rd_bind read_intern_hint (\<lambda>hint.
     rd_return \<lparr>rl_relation_id = relation_id, rl_from = from_node, rl_to = to_node,
                rl_relation_type_id = relation_type_id, rl_chain_root = chain_root,
                rl_confidence = confidence, rl_valid_from = valid_from, rl_valid_to = valid_to,
                rl_supersedes = supersedes, rl_evidence = evidence,
                rl_extractor_id = extractor_id, rl_is_symmetric = (sym \<noteq> 0),
                rl_properties_blob = properties_blob, rl_space_id = space_id,
                rl_namespace_id = namespace_id, rl_session_id = session_id,
                rl_intern_hint = hint\<rparr>)))))))))))))))))"

definition encode_relation_supersede :: "relation_supersede_payload \<Rightarrow> bytes option" where
  "encode_relation_supersede p =
     do { new \<leftarrow> encode_relation_link (rp_new p); Some (put_array (rp_old_relation_id p) @ new) }"

definition decode_relation_supersede :: "relation_supersede_payload rd" where
  "decode_relation_supersede =
     rd_bind rd_array16 (\<lambda>old_relation_id.
     rd_bind decode_relation_link (\<lambda>new.
     rd_return \<lparr>rp_old_relation_id = old_relation_id, rp_new = new\<rparr>))"

definition encode_relation_tombstone :: "relation_tombstone_payload \<Rightarrow> bytes option" where
  "encode_relation_tombstone p =
     do {
       reason \<leftarrow> put_text (rt_reason p);
       Some (put_array (rt_relation_id p) @ reason @ put_u64_le (rt_at p) @ put_array (rt_space_id p))
     }"

definition decode_relation_tombstone :: "relation_tombstone_payload rd" where
  "decode_relation_tombstone =
     rd_bind rd_array16 (\<lambda>relation_id.
     rd_bind read_text (\<lambda>reason.
     rd_bind rd_u64_le (\<lambda>at.
     rd_bind rd_array16 (\<lambda>space_id.
     rd_return \<lparr>rt_relation_id = relation_id, rt_reason = reason, rt_at = at,
                rt_space_id = space_id\<rparr>))))"

section \<open>Dispatch\<close>

fun encode_to_bytes :: "wal_payload \<Rightarrow> bytes option" where
  "encode_to_bytes (Encode p) = encode_encode p"
| "encode_to_bytes (Forget p) = Some (encode_forget p)"
| "encode_to_bytes (Link p) = Some (encode_link p)"
| "encode_to_bytes (Unlink p) = Some (encode_unlink p)"
| "encode_to_bytes (UpdateSalience p) = encode_update_salience p"
| "encode_to_bytes (Reclaim p) = Some (encode_reclaim p)"
| "encode_to_bytes (Consolidate p) = encode_consolidate p"
| "encode_to_bytes (UpdateKind p) = Some (encode_update_kind p)"
| "encode_to_bytes (UpdateSession p) = Some (encode_update_session p)"
| "encode_to_bytes (CheckpointBegin p) = Some (encode_checkpoint_begin p)"
| "encode_to_bytes (CheckpointEnd p) = Some (encode_checkpoint_end p)"
| "encode_to_bytes (TxnBegin p) = Some (encode_txn_begin p)"
| "encode_to_bytes (TxnCommit p) = Some (encode_txn_commit p)"
| "encode_to_bytes (TxnAbort p) = Some (encode_txn_abort p)"
| "encode_to_bytes (MigrateEmbedding p) = encode_migrate_embedding p"
| "encode_to_bytes (RelationLink p) = encode_relation_link p"
| "encode_to_bytes (RelationSupersede p) = encode_relation_supersede p"
| "encode_to_bytes (RelationTombstone p) = encode_relation_tombstone p"
| "encode_to_bytes (RestoreMemory p) = Some (encode_restore p)"
| "encode_to_bytes (PhaseBody r) = Some (put_array (pb_space_id r) @ pb_body r)"

text \<open>A typed payload is followed by the trailing-bytes test; an opaque body takes the rest.\<close>

definition finish :: "('a \<Rightarrow> wal_payload) \<Rightarrow> 'a rd \<Rightarrow> reader \<Rightarrow> payload_error + wal_payload" where
  "finish C m r =
     (case m r of
        Inl e \<Rightarrow> Inl e
      | Inr (p, r') \<Rightarrow>
          if \<not> rd_is_at_end r' then Inl (TrailingBytes (rd_remaining r')) else Inr (C p))"

definition decode_phase_body :: "wal_record_kind \<Rightarrow> bytes \<Rightarrow> payload_error + wal_payload" where
  "decode_phase_body kind bs =
     (case rd_array16 (reader_new bs) of
        Inl e \<Rightarrow> Inl e
      | Inr (space_id, r) \<Rightarrow>
          Inr (PhaseBody \<lparr>pb_kind = kind, pb_space_id = space_id,
                          pb_body = drop (rd_cursor r) bs\<rparr>))"

definition payload_decode :: "wal_record_kind \<Rightarrow> bytes \<Rightarrow> payload_error + wal_payload" where
  "payload_decode kind bs =
     (let r = reader_new bs in
      case kind of
        K_Encode \<Rightarrow> finish Encode decode_encode r
      | K_Forget \<Rightarrow> finish Forget decode_forget r
      | K_Link \<Rightarrow> finish Link decode_link r
      | K_Unlink \<Rightarrow> finish Unlink decode_unlink r
      | K_UpdateSalience \<Rightarrow> finish UpdateSalience decode_update_salience r
      | K_Reclaim \<Rightarrow> finish Reclaim decode_reclaim r
      | K_Consolidate \<Rightarrow> finish Consolidate decode_consolidate r
      | K_UpdateKind \<Rightarrow> finish UpdateKind decode_update_kind r
      | K_UpdateSession \<Rightarrow> finish UpdateSession decode_update_session r
      | K_CheckpointBegin \<Rightarrow> finish CheckpointBegin decode_checkpoint_begin r
      | K_CheckpointEnd \<Rightarrow> finish CheckpointEnd decode_checkpoint_end r
      | K_TxnBegin \<Rightarrow> finish TxnBegin decode_txn_begin r
      | K_TxnCommit \<Rightarrow> finish TxnCommit decode_txn_commit r
      | K_TxnAbort \<Rightarrow> finish TxnAbort decode_txn_abort r
      | K_MigrateEmbedding \<Rightarrow> finish MigrateEmbedding decode_migrate_embedding r
      | K_RelationCreate \<Rightarrow> finish RelationLink decode_relation_link r
      | K_RelationSupersede \<Rightarrow> finish RelationSupersede decode_relation_supersede r
      | K_RelationTombstone \<Rightarrow> finish RelationTombstone decode_relation_tombstone r
      | K_RestoreMemory \<Rightarrow> finish RestoreMemory decode_restore r
      | _ \<Rightarrow> decode_phase_body kind bs)"

end
