(* ===== verification/Payload_Roundtrip.thy ===== *)
theory Payload_Roundtrip
  imports Payload_Codec
begin

text \<open>
  Correctness of the payload codec. The well-formedness predicates collect what the Rust types
  guarantee (array lengths, UTF-8 strings) together with the caps the decoder enforces and the
  encoder does not (4096 vector dimensions, 1 MiB blobs). On such payloads encoding never panics
  and decoding inverts it; conversely whatever a decoder returns is well formed, and no decoder
  moves its cursor outside the input.
\<close>

section \<open>Well-formed payloads\<close>

definition wf_text :: "bytes \<Rightarrow> bool" where
  "wf_text t \<longleftrightarrow> length t < 2 ^ 32 \<and> valid_utf8 t"

definition wf_vector :: "f32 list \<Rightarrow> bool" where
  "wf_vector v \<longleftrightarrow> length v \<le> 4096"

definition wf_blob :: "bytes \<Rightarrow> bool" where
  "wf_blob b \<longleftrightarrow> length b \<le> 2 ^ 20"

definition wf_edge :: "edge_payload \<Rightarrow> bool" where
  "wf_edge e \<longleftrightarrow> wf_node_ref (edge_source e) \<and> wf_node_ref (edge_target e)"

definition wf_encode :: "encode_payload \<Rightarrow> bool" where
  "wf_encode p \<longleftrightarrow>
     length (enc_request_id p) = 16 \<and> length (enc_space_id p) = 16 \<and>
     length (enc_embedding_model_fp p) = 16 \<and> length (enc_request_hash p) = 32 \<and>
     wf_text (enc_text p) \<and> wf_vector (enc_vector p) \<and> wf_blob (enc_response_payload p) \<and>
     length (enc_edges p) < 2 ^ 16 \<and> list_all wf_edge (enc_edges p)"

definition wf_consolidate :: "consolidate_payload \<Rightarrow> bool" where
  "wf_consolidate p \<longleftrightarrow>
     length (cs_source_memory_ids p) < 2 ^ 32 \<and> wf_text (cs_text p) \<and> wf_vector (cs_vector p) \<and>
     length (cs_embedding_model_fp p) = 16"

fun wf_intern_hint :: "(bytes \<times> bytes) option \<Rightarrow> bool" where
  "wf_intern_hint None = True"
| "wf_intern_hint (Some (namespace, name)) \<longleftrightarrow>
     wf_blob namespace \<and> valid_utf8 namespace \<and> wf_blob name \<and> valid_utf8 name"

definition wf_relation_link :: "relation_link_payload \<Rightarrow> bool" where
  "wf_relation_link p \<longleftrightarrow>
     length (rl_relation_id p) = 16 \<and> wf_node_ref (rl_from p) \<and> wf_node_ref (rl_to p) \<and>
     length (rl_chain_root p) = 16 \<and> (\<forall>i\<in>set_option (rl_supersedes p). length i = 16) \<and>
     length (rl_evidence p) < 2 ^ 32 \<and> wf_blob (rl_properties_blob p) \<and>
     length (rl_space_id p) = 16 \<and> wf_intern_hint (rl_intern_hint p)"

text \<open>The kinds that decode to an opaque body: the opaque range without the typed relations.\<close>

definition phase_body_kind :: "wal_record_kind \<Rightarrow> bool" where
  "phase_body_kind k \<longleftrightarrow>
     has_opaque_body k \<and> k \<notin> {K_RelationCreate, K_RelationSupersede, K_RelationTombstone}"

fun wf_payload :: "wal_payload \<Rightarrow> bool" where
  "wf_payload (Encode p) = wf_encode p"
| "wf_payload (Forget p) \<longleftrightarrow> length (fg_request_id p) = 16 \<and> length (fg_space_id p) = 16"
| "wf_payload (Link p) \<longleftrightarrow> wf_node_ref (ln_source p) \<and> wf_node_ref (ln_target p)"
| "wf_payload (Unlink p) \<longleftrightarrow> wf_node_ref (ul_source p) \<and> wf_node_ref (ul_target p)"
| "wf_payload (UpdateSalience us) \<longleftrightarrow> length us < 2 ^ 32"
| "wf_payload (Reclaim _) = True"
| "wf_payload (Consolidate p) = wf_consolidate p"
| "wf_payload (UpdateKind _) = True"
| "wf_payload (UpdateSession _) = True"
| "wf_payload (CheckpointBegin _) = True"
| "wf_payload (CheckpointEnd _) = True"
| "wf_payload (TxnBegin p) \<longleftrightarrow> length (tb_txn_id p) = 16"
| "wf_payload (TxnCommit p) \<longleftrightarrow> length (tc_txn_id p) = 16"
| "wf_payload (TxnAbort p) \<longleftrightarrow> length (ta_txn_id p) = 16"
| "wf_payload (MigrateEmbedding p) \<longleftrightarrow>
     length (me_old_fingerprint p) = 16 \<and> length (me_new_fingerprint p) = 16 \<and>
     wf_vector (me_new_vector p)"
| "wf_payload (RelationLink p) = wf_relation_link p"
| "wf_payload (RelationSupersede p) \<longleftrightarrow> length (rp_old_relation_id p) = 16 \<and> wf_relation_link (rp_new p)"
| "wf_payload (RelationTombstone p) \<longleftrightarrow>
     length (rt_relation_id p) = 16 \<and> wf_text (rt_reason p) \<and> length (rt_space_id p) = 16"
| "wf_payload (RestoreMemory p) \<longleftrightarrow> length (rs_request_id p) = 16 \<and> length (rs_space_id p) = 16"
| "wf_payload (PhaseBody p) \<longleftrightarrow> phase_body_kind (pb_kind p) \<and> length (pb_space_id p) = 16"

lemmas [wf_simps] =
  wf_text_def wf_vector_def wf_blob_def wf_edge_def wf_encode_def wf_consolidate_def
  wf_relation_link_def

lemmas put_fallible_defs = put_text_def put_vector_def put_blob_def bind_option_eq_Some

section \<open>Decoding inverts encoding\<close>

interpretation edgec: field_codec put_edge decode_edge wf_edge
  by unfold_locales (simp add: put_edge_def decode_edge_def wf_edge_def reader_simps)

interpretation saliencec: field_codec put_salience_update decode_salience_update "\<lambda>_. True"
  by unfold_locales (simp add: put_salience_update_def decode_salience_update_def reader_simps)

lemma put_edge_ge: "wf_edge e \<Longrightarrow> 40 \<le> length (put_edge e)"
  by (cases "edge_label e") (simp_all add: put_edge_def put_scalar_defs wf_edge_def)

lemma length_put_salience_updates: "length (put_each put_salience_update us) = 21 * length us"
  by (rule length_put_each) (simp add: list_all_iff put_salience_update_def put_scalar_defs)

interpretation idsc: field_codec "\<lambda>ids. put_len32 ids @ put_each put_memory_id ids"
  "read_memory_ids bad" "\<lambda>ids. length ids < 2 ^ 32" for bad
proof
  fix ids :: "memory_id list" and pre rest :: bytes
  assume "length ids < 2 ^ 32"
  then show "read_memory_ids bad (reader_at pre ((put_len32 ids @ put_each put_memory_id ids) @ rest))
      = Inr (ids, reader_at (pre @ put_len32 ids @ put_each put_memory_id ids) rest)"
    using memc.get_put_list [of ids "pre @ put_len32 ids" rest]
    by (simp add: read_memory_ids_def rd_bind_def rd_len32 unat_len32 list_all_iff)
qed

interpretation saliencesc: field_codec "\<lambda>us. put_len32 us @ put_each put_salience_update us"
  decode_update_salience "\<lambda>us. length us < 2 ^ 32"
proof
  fix us :: "salience_update list" and pre rest :: bytes
  assume "length us < 2 ^ 32"
  then show "decode_update_salience
        (reader_at pre ((put_len32 us @ put_each put_salience_update us) @ rest))
      = Inr (us, reader_at (pre @ put_len32 us @ put_each put_salience_update us) rest)"
    using saliencec.get_put_list [of us "pre @ put_len32 us" rest]
    by (simp add: decode_update_salience_def rd_bind_def rd_len32 unat_len32 list_all_iff
        length_put_salience_updates)
qed

text \<open>The edge list is decoded in front of the fixed-size tail whose 37 bytes its guard reserves.\<close>

lemma decode_edges_put:
  assumes "length es < 2 ^ 16" and "list_all wf_edge es" and "37 \<le> length rest"
  shows "decode_edges (reader_at pre (put_len16 es @ put_each put_edge es @ rest))
    = Inr (es, reader_at (pre @ put_len16 es @ put_each put_edge es) rest)"
proof -
  have "40 * length es \<le> length (put_each put_edge es)"
    using assms(2) by (intro length_put_each_ge) (auto simp: list_all_iff put_edge_ge)
  with assms edgec.get_put_list [OF assms(2), of "pre @ put_len16 es" rest] show ?thesis
    by (simp add: decode_edges_def rd_bind_def rd_len16 unat_len16)
qed

interpretation utf8blobc: field_codec "\<lambda>b. put_len32 b @ b" read_utf8_blob
  "\<lambda>b. length b \<le> 2 ^ 20 \<and> valid_utf8 b"
  by unfold_locales (simp add: read_utf8_blob_def reader_simps)

lemmas composite_reads [reader_simps] =
  idsc.get_put [simplified append_assoc] saliencesc.get_put [simplified append_assoc]
  utf8blobc.get_put [simplified append_assoc] decode_edges_put

lemma rd_take_array [reader_simps]:
  "length b = n \<Longrightarrow> rd_take n (reader_at pre (put_array b @ rest)) = Inr (b, reader_at (pre @ put_array b) rest)"
  by (simp add: put_array_def rd_take_at)

lemma put_lengths:
  "length (put_array b) = length b" "length (put_len32 xs) = 4" "length (put_u8 u) = 1"
  by (simp_all add: put_scalar_defs put_len32_def)

lemma decode_encode_put:
  "encode_encode p = Some bs \<Longrightarrow> wf_encode p \<Longrightarrow>
   decode_encode (reader_at pre (bs @ rest)) = Inr (p, reader_at (pre @ bs) rest)"
  by (auto simp: encode_encode_def decode_encode_def put_fallible_defs wf_simps reader_simps
      put_lengths split: if_splits)

lemma decode_consolidate_put:
  "encode_consolidate p = Some bs \<Longrightarrow> wf_consolidate p \<Longrightarrow>
   decode_consolidate (reader_at pre (bs @ rest)) = Inr (p, reader_at (pre @ bs) rest)"
  by (auto simp: encode_consolidate_def decode_consolidate_def put_fallible_defs wf_simps
      reader_simps split: if_splits)

lemma read_intern_hint_put:
  "put_intern_hint h = Some bs \<Longrightarrow> wf_intern_hint h \<Longrightarrow>
   read_intern_hint (reader_at pre (bs @ rest)) = Inr (h, reader_at (pre @ bs) rest)"
  by (cases h rule: wf_intern_hint.cases)
    (auto simp: put_intern_hint_def read_intern_hint_def put_fallible_defs wf_simps
      reader_simps split: if_splits)

lemma decode_relation_link_put:
  "encode_relation_link p = Some bs \<Longrightarrow> wf_relation_link p \<Longrightarrow>
   decode_relation_link (reader_at pre (bs @ rest)) = Inr (p, reader_at (pre @ bs) rest)"
  by (auto simp: encode_relation_link_def decode_relation_link_def put_fallible_defs wf_simps
      reader_simps read_intern_hint_put split: if_splits)

lemma decode_relation_supersede_put:
  "encode_relation_supersede p = Some bs \<Longrightarrow> wf_payload (RelationSupersede p) \<Longrightarrow>
   decode_relation_supersede (reader_at pre (bs @ rest)) = Inr (p, reader_at (pre @ bs) rest)"
  by (auto simp: encode_relation_supersede_def decode_relation_supersede_def bind_option_eq_Some
      reader_simps decode_relation_link_put)

text \<open>What the dispatch makes of a payload followed by further bytes.\<close>

definition finished :: "bytes \<Rightarrow> wal_payload \<Rightarrow> payload_error + wal_payload" where
  "finished ext p = (if ext = [] then Inr p else Inl (TrailingBytes (length ext)))"

lemma finish_put:
  assumes "\<And>pre rest. m (reader_at pre (bs @ rest)) = Inr (p, reader_at (pre @ bs) rest)"
  shows "finish C m (reader_at [] (bs @ ext)) = finished ext (C p)"
  using assms [of "[]" ext] by (simp add: finish_def finished_def)

lemma decode_phase_body_put:
  "length sp = 16 \<Longrightarrow>
   decode_phase_body k (put_array sp @ body)
     = Inr (PhaseBody \<lparr>pb_kind = k, pb_space_id = sp, pb_body = body\<rparr>)"
  by (simp add: decode_phase_body_def reader_new_at reader_simps)
    (simp add: reader_at_def put_array_def)

lemma payload_decode_phase_body:
  "phase_body_kind k \<Longrightarrow> payload_decode k bs = decode_phase_body k bs"
  by (cases k) (simp_all add: phase_body_kind_def has_opaque_body_def payload_decode_def word_le_nat_alt)

text \<open>The fixed-layout records are field codecs of their own.\<close>

interpretation forgetc: field_codec encode_forget decode_forget "\<lambda>p. wf_payload (Forget p)"
  by unfold_locales (simp add: encode_forget_def decode_forget_def reader_simps)

interpretation restorec: field_codec encode_restore decode_restore "\<lambda>p. wf_payload (RestoreMemory p)"
  by unfold_locales (simp add: encode_restore_def decode_restore_def reader_simps)

interpretation linkc: field_codec encode_link decode_link "\<lambda>p. wf_payload (Link p)"
  by unfold_locales (simp add: encode_link_def decode_link_def reader_simps)

interpretation unlinkc: field_codec encode_unlink decode_unlink "\<lambda>p. wf_payload (Unlink p)"
  by unfold_locales (simp add: encode_unlink_def decode_unlink_def reader_simps)

interpretation reclaimc: field_codec encode_reclaim decode_reclaim "\<lambda>p. wf_payload (Reclaim p)"
  by unfold_locales (simp add: encode_reclaim_def decode_reclaim_def reader_simps)

interpretation updkindc: field_codec encode_update_kind decode_update_kind "\<lambda>p. wf_payload (UpdateKind p)"
  by unfold_locales (simp add: encode_update_kind_def decode_update_kind_def reader_simps)

interpretation updsessionc: field_codec encode_update_session decode_update_session "\<lambda>p. wf_payload (UpdateSession p)"
  by unfold_locales (simp add: encode_update_session_def decode_update_session_def reader_simps)

interpretation ckptbeginc: field_codec encode_checkpoint_begin decode_checkpoint_begin "\<lambda>p. wf_payload (CheckpointBegin p)"
  by unfold_locales (simp add: encode_checkpoint_begin_def decode_checkpoint_begin_def reader_simps)

interpretation ckptendc: field_codec encode_checkpoint_end decode_checkpoint_end "\<lambda>p. wf_payload (CheckpointEnd p)"
  by unfold_locales (simp add: encode_checkpoint_end_def decode_checkpoint_end_def reader_simps)

interpretation txnbeginc: field_codec encode_txn_begin decode_txn_begin "\<lambda>p. wf_payload (TxnBegin p)"
  by unfold_locales (simp add: encode_txn_begin_def decode_txn_begin_def reader_simps)

interpretation txncommitc: field_codec encode_txn_commit decode_txn_commit "\<lambda>p. wf_payload (TxnCommit p)"
  by unfold_locales (simp add: encode_txn_commit_def decode_txn_commit_def reader_simps)

interpretation txnabortc: field_codec encode_txn_abort decode_txn_abort "\<lambda>p. wf_payload (TxnAbort p)"
  by unfold_locales (simp add: encode_txn_abort_def decode_txn_abort_def reader_simps)

context field_codec
begin

lemma finish_get_put: "ok x \<Longrightarrow> finish C get (reader_at [] (put x @ ext)) = finished ext (C x)"
  by (rule finish_put) (simp add: get_put)

end

lemmas finish_fixed =
  forgetc.finish_get_put restorec.finish_get_put linkc.finish_get_put unlinkc.finish_get_put
  reclaimc.finish_get_put updkindc.finish_get_put updsessionc.finish_get_put
  ckptbeginc.finish_get_put ckptendc.finish_get_put txnbeginc.finish_get_put
  txncommitc.finish_get_put txnabortc.finish_get_put saliencesc.finish_get_put

lemma decode_migrate_embedding_put:
  "encode_migrate_embedding p = Some bs \<Longrightarrow> wf_payload (MigrateEmbedding p) \<Longrightarrow>
   decode_migrate_embedding (reader_at pre (bs @ rest)) = Inr (p, reader_at (pre @ bs) rest)"
  by (auto simp: encode_migrate_embedding_def decode_migrate_embedding_def put_fallible_defs
      wf_simps reader_simps split: if_splits)

lemma decode_relation_tombstone_put:
  "encode_relation_tombstone p = Some bs \<Longrightarrow> wf_payload (RelationTombstone p) \<Longrightarrow>
   decode_relation_tombstone (reader_at pre (bs @ rest)) = Inr (p, reader_at (pre @ bs) rest)"
  by (auto simp: encode_relation_tombstone_def decode_relation_tombstone_def put_fallible_defs
      wf_simps reader_simps split: if_splits)

lemmas finish_variable =
  finish_put [OF decode_encode_put] finish_put [OF decode_consolidate_put]
  finish_put [OF decode_migrate_embedding_put] finish_put [OF decode_relation_link_put]
  finish_put [OF decode_relation_supersede_put] finish_put [OF decode_relation_tombstone_put]

lemma decode_encoded_ext:
  assumes "encode_to_bytes p = Some bs" and "wf_payload p" and "\<not> phase_body_kind (payload_kind p)"
  shows "payload_decode (payload_kind p) (bs @ ext) = finished ext p"
proof (cases p)
  case (UpdateSalience us)
  with assms finish_fixed(13) [of us UpdateSalience ext] show ?thesis
    by (auto simp: payload_decode_def reader_new_at encode_update_salience_def)
next
  case (PhaseBody x)
  with assms show ?thesis by simp
qed (use assms in \<open>auto simp: payload_decode_def reader_new_at
      intro!: finish_fixed [simplified] finish_variable\<close>)

lemma decode_encoded:
  assumes "encode_to_bytes p = Some bs" and "wf_payload p"
  shows "payload_decode (payload_kind p) bs = Inr p"
proof (cases "phase_body_kind (payload_kind p)")
  case True
  with assms obtain x where "p = PhaseBody x"
    by (cases p) (simp_all add: phase_body_kind_def has_opaque_body_def word_le_nat_alt)
  with assms show ?thesis
    by (cases x) (auto simp: payload_decode_phase_body decode_phase_body_put)
next
  case False
  with decode_encoded_ext [OF assms, of "[]"] show ?thesis by (simp add: finished_def)
qed

section \<open>Encoding never panics on a well-formed payload\<close>

lemma encode_total: "wf_payload p \<Longrightarrow> \<exists>bs. encode_to_bytes p = Some bs"
proof (cases p)
  case (RelationLink x)
  moreover assume "wf_payload p"
  ultimately show ?thesis
    by (cases "rl_intern_hint x" rule: wf_intern_hint.cases)
      (auto simp: encode_relation_link_def put_intern_hint_def put_fallible_defs wf_simps)
next
  case (RelationSupersede x)
  moreover assume "wf_payload p"
  ultimately show ?thesis
    by (cases "rl_intern_hint (rp_new x)" rule: wf_intern_hint.cases)
      (auto simp: encode_relation_supersede_def encode_relation_link_def put_intern_hint_def
        put_fallible_defs wf_simps)
qed (auto simp: encode_encode_def encode_update_salience_def encode_consolidate_def
    encode_migrate_embedding_def encode_relation_tombstone_def put_fallible_defs wf_simps)

section \<open>What a decoder returns is well formed\<close>

lemma rd_safe_edges:
  "rd_safe (\<lambda>es. length es < 2 ^ 16 \<and> list_all wf_edge es) decode_edges"
proof -
  have edge: "rd_safe wf_edge decode_edge"
    unfolding decode_edge_def
    by (rule rd_safe_steps | rule rd_safe_return | simp add: wf_edge_def)+
  show ?thesis
    unfolding decode_edges_def
    by (intro rd_safe_bind [OF rd_safe_scalars(2)] rd_safe_guard
        rd_safe_weaken [OF rd_safe_repeat [OF edge]]) (use unat_u16_lt in auto)
qed

lemma rd_safe_memory_ids: "rd_safe (\<lambda>ids. length ids < 2 ^ 32) (read_memory_ids bad)"
  unfolding read_memory_ids_def
  by (intro rd_safe_bind [OF rd_safe_scalars(3)] rd_safe_guard
      rd_safe_weaken [OF rd_safe_repeat [OF rd_safe_scalars(7)]]) (use unat_u32_lt in auto)

lemma rd_safe_salience: "rd_safe (\<lambda>us. length us < 2 ^ 32) decode_update_salience"
proof -
  have upd: "rd_safe (\<lambda>_. True) decode_salience_update"
    unfolding decode_salience_update_def
    by (rule rd_safe_steps | rule rd_safe_return | simp)+
  show ?thesis
    unfolding decode_update_salience_def
    by (intro rd_safe_bind [OF rd_safe_scalars(3)] rd_safe_guard
        rd_safe_weaken [OF rd_safe_repeat [OF upd]]) (use unat_u32_lt in auto)
qed

lemma rd_safe_intern_hint: "rd_safe wf_intern_hint read_intern_hint"
proof -
  have blob: "rd_safe (\<lambda>b. wf_blob b \<and> valid_utf8 b) read_utf8_blob"
    unfolding read_utf8_blob_def
    by (rule rd_safe_bind [OF rd_safe_blob]) (auto simp: wf_blob_def intro: rd_safe_return rd_safe_fail)
  show ?thesis
    unfolding read_intern_hint_def
    by (rule rd_safe_steps(1) rd_safe_if rd_safe_bind [OF blob] rd_safe_return rd_safe_fail | simp)+
qed

lemmas rd_safe_fields =
  rd_safe_steps rd_safe_bind [OF rd_safe_edges] rd_safe_bind [OF rd_safe_memory_ids]
  rd_safe_bind [OF rd_safe_intern_hint]

lemma rd_safe_encode: "rd_safe (\<lambda>p. wf_payload (Encode p)) decode_encode"
  unfolding decode_encode_def by (rule rd_safe_fields | rule rd_safe_return | simp add: wf_simps)+

lemma rd_safe_relation_link: "rd_safe (\<lambda>p. wf_payload (RelationLink p)) decode_relation_link"
  unfolding decode_relation_link_def
  by (rule rd_safe_fields | rule rd_safe_return | simp add: wf_simps)+

lemma rd_safe_decoders:
  "rd_safe (\<lambda>p. wf_payload (Forget p)) decode_forget"
  "rd_safe (\<lambda>p. wf_payload (Link p)) decode_link"
  "rd_safe (\<lambda>p. wf_payload (Unlink p)) decode_unlink"
  "rd_safe (\<lambda>p. wf_payload (Reclaim p)) decode_reclaim"
  "rd_safe (\<lambda>p. wf_payload (Consolidate p)) decode_consolidate"
  "rd_safe (\<lambda>p. wf_payload (UpdateKind p)) decode_update_kind"
  "rd_safe (\<lambda>p. wf_payload (UpdateSession p)) decode_update_session"
  "rd_safe (\<lambda>p. wf_payload (CheckpointBegin p)) decode_checkpoint_begin"
  "rd_safe (\<lambda>p. wf_payload (CheckpointEnd p)) decode_checkpoint_end"
  "rd_safe (\<lambda>p. wf_payload (TxnBegin p)) decode_txn_begin"
  "rd_safe (\<lambda>p. wf_payload (TxnCommit p)) decode_txn_commit"
  "rd_safe (\<lambda>p. wf_payload (TxnAbort p)) decode_txn_abort"
  "rd_safe (\<lambda>p. wf_payload (MigrateEmbedding p)) decode_migrate_embedding"
  "rd_safe (\<lambda>p. wf_payload (RelationTombstone p)) decode_relation_tombstone"
  "rd_safe (\<lambda>p. wf_payload (RestoreMemory p)) decode_restore"
  unfolding decode_forget_def decode_link_def decode_unlink_def decode_reclaim_def
    decode_consolidate_def decode_update_kind_def decode_update_session_def
    decode_checkpoint_begin_def decode_checkpoint_end_def decode_txn_begin_def
    decode_txn_commit_def decode_txn_abort_def decode_migrate_embedding_def
    decode_relation_tombstone_def decode_restore_def
  by (rule rd_safe_fields | rule rd_safe_return | simp add: wf_simps)+

lemma rd_safe_relation_supersede:
  "rd_safe (\<lambda>p. wf_payload (RelationSupersede p)) decode_relation_supersede"
  unfolding decode_relation_supersede_def
  by (rule rd_safe_steps(6) rd_safe_bind [OF rd_safe_relation_link] rd_safe_return | simp)+

lemma rd_safe_update_salience: "rd_safe (\<lambda>us. wf_payload (UpdateSalience us)) decode_update_salience"
  using rd_safe_salience by simp

lemma finish_wf:
  assumes fin: "finish C m (reader_new bs) = Inr p"
    and safe: "rd_safe (\<lambda>x. wf_payload (C x)) m" and kind: "\<And>x. payload_kind (C x) = k"
  shows "wf_payload p \<and> payload_kind p = k"
proof -
  obtain x r where run: "m (reader_new bs) = Inr (x, r)" and p: "p = C x"
    using fin by (auto simp: finish_def split: sum.splits prod.splits if_splits)
  have "reader_inv (reader_new bs)"
    by (simp add: reader_inv_def reader_new_def)
  from rd_safeD(4) [OF safe this run] kind show ?thesis by (simp add: p)
qed

lemma decode_phase_body_wf:
  "decode_phase_body k bs = Inr p \<Longrightarrow> phase_body_kind k \<Longrightarrow> wf_payload p \<and> payload_kind p = k"
  using rd_safeD(4) [OF rd_safe_scalars(6), of "reader_new bs"]
  by (auto simp: decode_phase_body_def reader_inv_def reader_new_def
      split: sum.splits prod.splits)

lemma decode_wf:
  assumes "payload_decode k bs = Inr p"
  shows "wf_payload p \<and> payload_kind p = k"
proof (cases "phase_body_kind k")
  case True
  with assms show ?thesis
    by (simp add: payload_decode_phase_body decode_phase_body_wf)
next
  case False
  note safe = rd_safe_encode rd_safe_relation_link rd_safe_relation_supersede rd_safe_decoders
    rd_safe_update_salience
  from False assms show ?thesis
    by (cases k)
      (simp_all add: payload_decode_def phase_body_kind_def has_opaque_body_def word_le_nat_alt
        finish_wf [OF _ safe(1)] finish_wf [OF _ safe(2)] finish_wf [OF _ safe(3)]
        finish_wf [OF _ safe(4)] finish_wf [OF _ safe(5)] finish_wf [OF _ safe(6)]
        finish_wf [OF _ safe(7)] finish_wf [OF _ safe(8)] finish_wf [OF _ safe(9)]
        finish_wf [OF _ safe(10)] finish_wf [OF _ safe(11)] finish_wf [OF _ safe(12)]
        finish_wf [OF _ safe(13)] finish_wf [OF _ safe(14)] finish_wf [OF _ safe(15)]
        finish_wf [OF _ safe(16)] finish_wf [OF _ safe(17)] finish_wf [OF _ safe(18)]
        finish_wf [OF _ safe(19)])
qed

section \<open>Properties\<close>

definition sample_encode :: encode_payload where
  "sample_encode =
     \<lparr>enc_memory_id = memory_id_pack 1 2 3, enc_request_id = replicate 16 7,
      enc_space_id = replicate 16 8, enc_namespace_id = 9, enc_session_id = 10,
      enc_kind = Semantic, enc_salience_initial = 0x3f000000,
      enc_embedding_model_fp = replicate 16 11, enc_text = [0x68, 0xc3, 0xa9],
      enc_vector = [1, 2],
      enc_edges = [\<lparr>edge_source = NodeMemory 4, edge_target = NodeEntity (replicate 16 5),
                    edge_label = Typed 6, edge_weight = 0, edge_orig = AutoDerived\<rparr>],
      enc_request_hash = replicate 32 12, enc_response_payload = [13, 14],
      enc_deduplicate = True, enc_occurred_at = Some 15\<rparr>"

text \<open>C5. Every well-formed payload, of each of the twenty variants, is encoded without a panic and
  decodes under its own record kind to the very same payload.\<close>

theorem payload_roundtrip:
  "wf_payload p \<Longrightarrow>
   \<exists>bs. encode_to_bytes p = Some bs \<and> payload_decode (payload_kind p) bs = Inr p"
  using encode_total decode_encoded by blast

theorem payload_roundtrip_witness:
  "\<exists>bs. encode_to_bytes (Encode sample_encode) = Some bs \<and>
        payload_decode K_Encode bs = Inr (Encode sample_encode)"
  using payload_roundtrip [of "Encode sample_encode"]
  by (simp add: sample_encode_def wf_simps utf8_cont_def word_less_nat_alt word_le_nat_alt)

text \<open>A payload the decoder accepts has the kind it was decoded under and is well formed: arrays
  of the declared lengths, valid UTF-8, dimension and blob caps respected. It can therefore be
  re-encoded without a panic, and the re-encoding decodes to it again.\<close>

theorem payload_decode_sound:
  "payload_decode k bs = Inr p \<Longrightarrow>
   wf_payload p \<and> payload_kind p = k \<and>
   (\<exists>bs'. encode_to_bytes p = Some bs' \<and> payload_decode k bs' = Inr p)"
  using decode_wf encode_total decode_encoded by blast

theorem payload_decode_sound_witness:
  "payload_decode K_UpdateKind (replicate 16 1 @ [2])
     = Inr (UpdateKind \<lparr>uk_memory_id = be_word (replicate 16 1), uk_new_kind = Consolidated\<rparr>) \<and>
   (\<exists>bs'. encode_to_bytes (UpdateKind \<lparr>uk_memory_id = be_word (replicate 16 1), uk_new_kind = Consolidated\<rparr>) = Some bs')"
proof -
  have "payload_decode K_UpdateKind (replicate 16 1 @ [2])
     = Inr (UpdateKind \<lparr>uk_memory_id = be_word (replicate 16 1), uk_new_kind = Consolidated\<rparr>)"
    by (simp add: payload_decode_def finish_def decode_update_kind_def reader_new_def rd_bind_def
        rd_memory_id_def rd_array16_def rd_take_def rd_remaining_def rd_return_def rd_u8_def
        memory_kind_from_u8_def memory_id_from_be_bytes_def rd_is_at_end_def)
  with payload_decode_sound [OF this] show ?thesis by blast
qed

text \<open>Bytes left over after the fields of a typed payload are never ignored: the decoder reports
  exactly how many there were.\<close>

theorem payload_trailing_bytes:
  assumes "wf_payload p" and "\<not> phase_body_kind (payload_kind p)"
    and "encode_to_bytes p = Some bs" and "ext \<noteq> []"
  shows "payload_decode (payload_kind p) (bs @ ext) = Inl (TrailingBytes (length ext))"
  using decode_encoded_ext [OF assms(3,1,2), of ext] assms(4) by (simp add: finished_def)

theorem payload_trailing_bytes_witness:
  "payload_decode K_TxnCommit (replicate 16 3 @ [0, 0]) = Inl (TrailingBytes 2)"
  using payload_trailing_bytes
    [of "TxnCommit \<lparr>tc_txn_id = replicate 16 3\<rparr>" "replicate 16 3" "[0, 0]"]
  by (simp add: phase_body_kind_def has_opaque_body_def encode_txn_commit_def put_array_def
      word_le_nat_alt)

text \<open>The encoder accepts vectors the decoder refuses: between 4097 and 65535 dimensions a
  migration record is written without a panic and then fails to decode with \<open>BadVectorDims\<close>.\<close>

theorem oversized_vector_undecodable:
  assumes "4096 < length (me_new_vector p)" and "length (me_new_vector p) < 2 ^ 16"
    and "length (me_old_fingerprint p) = 16" and "length (me_new_fingerprint p) = 16"
  shows "\<exists>bs. encode_to_bytes (MigrateEmbedding p) = Some bs \<and>
    payload_decode K_MigrateEmbedding bs = Inl (BadVectorDims (of_nat (length (me_new_vector p))))"
proof -
  let ?v = "me_new_vector p"
  let ?bs = "put_memory_id (me_memory_id p) @ put_array (me_old_fingerprint p) @
    put_array (me_new_fingerprint p) @ put_len16 ?v @ put_each put_f32_le ?v"
  have "VECTOR_DIMS_MAX < of_nat (length ?v)"
    using assms(1,2) by (simp add: VECTOR_DIMS_MAX_def word_less_nat_alt unat_of_nat)
  then have "payload_decode K_MigrateEmbedding ?bs = Inl (BadVectorDims (of_nat (length ?v)))"
    using assms(3,4)
    by (simp add: payload_decode_def reader_new_at finish_def decode_migrate_embedding_def
        read_vector_def u16c.get_put memc.get_put arrayc.get_put rd_len16 rd_bind_def)
  then show ?thesis
    using assms(2) by (simp add: encode_migrate_embedding_def put_vector_def)
qed

theorem oversized_vector_undecodable_witness:
  "\<exists>bs. encode_to_bytes (MigrateEmbedding \<lparr>me_memory_id = 1, me_old_fingerprint = replicate 16 0,
      me_new_fingerprint = replicate 16 1, me_new_vector = replicate 5000 0\<rparr>) = Some bs \<and>
    payload_decode K_MigrateEmbedding bs = Inl (BadVectorDims 5000)"
  using oversized_vector_undecodable [of "\<lparr>me_memory_id = 1, me_old_fingerprint = replicate 16 0,
      me_new_fingerprint = replicate 16 1, me_new_vector = replicate 5000 0\<rparr>"]
  by simp

end
