(* ===== verification/Wal_Record.thy ===== *)
theory Wal_Record
  imports Payload_Roundtrip
begin

text \<open>
  WAL record framing (\<open>brain-storage/src/wal/record.rs\<close>): a 32-byte header, the payload and an
  8-byte footer whose checksum covers header and payload. The checksum function (the \<open>crc32c\<close>
  crate) is a parameter of the encoder and the decoder.
  The lemmas show that decoding inverts encoding whatever follows in the buffer, that only encoder
  images are accepted, that every proper prefix of a record is reported as truncated, and that a
  record with one damaged byte outside its length field is rejected.
\<close>

section \<open>Records\<close>

type_synonym lsn = u64

definition lsn_next :: "lsn \<Rightarrow> lsn" where
  "lsn_next l = saturating_succ l"

definition HEADER_LEN :: nat where
  "HEADER_LEN = 32"

definition FOOTER_LEN :: nat where
  "FOOTER_LEN = 8"

definition MAX_PAYLOAD :: u32 where
  "MAX_PAYLOAD = 16 * 1024 * 1024"

definition FLAG_SUBSCRIBE_EVENT :: u8 where
  "FLAG_SUBSCRIBE_EVENT = 0x01"

record wal_record =
  wr_lsn :: lsn
  wr_kind :: wal_record_kind
  wr_flags :: u8
  wr_timestamp_ns :: u64
  wr_space_id_lo64 :: u64
  wr_payload :: bytes

datatype wal_record_error =
    CrcMismatch u32 u32
  | UnknownRecordType u8
  | NonZeroReserved
  | PayloadTooLarge u32

datatype decode_outcome = DecodedRecord wal_record nat | Truncated

section \<open>Encoding\<close>

definition record_encoded_len :: "wal_record \<Rightarrow> nat" where
  "record_encoded_len r = HEADER_LEN + length (wr_payload r) + FOOTER_LEN"

definition record_header :: "wal_record \<Rightarrow> bytes" where
  "record_header r =
     le_bytes 8 (wr_lsn r) @ [wal_kind_as_u8 (wr_kind r), wr_flags r, 0, 0] @
     le_bytes 4 (of_nat (length (wr_payload r)) :: u32) @
     le_bytes 8 (wr_timestamp_ns r) @ le_bytes 8 (wr_space_id_lo64 r)"

definition record_encode :: "crc_fn \<Rightarrow> wal_record \<Rightarrow> bytes option" where
  "record_encode crc r =
     (if length (wr_payload r) < 2 ^ 32 \<and> of_nat (length (wr_payload r)) \<le> MAX_PAYLOAD then
        (let body = record_header r @ wr_payload r
         in Some (body @ le_bytes 4 (crc body) @ [0, 0, 0, 0]))
      else None)"

section \<open>Decoding\<close>

definition decode_one :: "crc_fn \<Rightarrow> bytes \<Rightarrow> wal_record_error + decode_outcome" where
  "decode_one crc buf =
     (if length buf < HEADER_LEN then Inr Truncated
      else
        let record_type = buf ! 8; payload_length = (le_word (subslice buf 12 16) :: u32)
        in if subslice buf 10 12 \<noteq> [0, 0] then Inl NonZeroReserved
           else if payload_length > MAX_PAYLOAD then Inl (PayloadTooLarge payload_length)
           else
             let payload_len = unat payload_length; total = HEADER_LEN + payload_len + FOOTER_LEN
             in if length buf < total then Inr Truncated
                else (case wal_kind_from_u8 record_type of
                        None \<Rightarrow> Inl (UnknownRecordType record_type)
                      | Some kind \<Rightarrow>
                          let expected = le_word (subslice buf (HEADER_LEN + payload_len) (HEADER_LEN + payload_len + 4));
                              actual = crc (subslice buf 0 (HEADER_LEN + payload_len))
                          in if subslice buf (HEADER_LEN + payload_len + 4) total \<noteq> [0, 0, 0, 0] then Inl NonZeroReserved
                             else if expected \<noteq> actual then Inl (CrcMismatch expected actual)
                             else Inr (DecodedRecord
                                    \<lparr>wr_lsn = le_word (subslice buf 0 8), wr_kind = kind, wr_flags = buf ! 9,
                                     wr_timestamp_ns = le_word (subslice buf 16 24),
                                     wr_space_id_lo64 = le_word (subslice buf 24 32),
                                     wr_payload = subslice buf HEADER_LEN (HEADER_LEN + payload_len)\<rparr>
                                    total)))"

definition record_from_typed :: "lsn \<Rightarrow> u8 \<Rightarrow> u64 \<Rightarrow> u64 \<Rightarrow> wal_payload \<Rightarrow> wal_record option" where
  "record_from_typed l flags ts space_lo payload =
     map_option (\<lambda>bs. \<lparr>wr_lsn = l, wr_kind = payload_kind payload, wr_flags = flags,
                       wr_timestamp_ns = ts, wr_space_id_lo64 = space_lo, wr_payload = bs\<rparr>)
       (encode_to_bytes payload)"

definition typed_payload :: "wal_record \<Rightarrow> payload_error + wal_payload" where
  "typed_payload r = payload_decode (wr_kind r) (wr_payload r)"

section \<open>Layout\<close>

lemmas record_lens = HEADER_LEN_def FOOTER_LEN_def

lemma length_record_header [simp]: "length (record_header r) = 32"
  by (simp add: record_header_def)

lemma record_header_fields:
  "subslice (record_header r) 0 8 = le_bytes 8 (wr_lsn r)"
  "record_header r ! 8 = wal_kind_as_u8 (wr_kind r)"
  "record_header r ! 9 = wr_flags r"
  "subslice (record_header r) 10 12 = [0, 0]"
  "subslice (record_header r) 12 16 = le_bytes 4 (of_nat (length (wr_payload r)) :: u32)"
  "subslice (record_header r) 16 24 = le_bytes 8 (wr_timestamp_ns r)"
  "subslice (record_header r) 24 32 = le_bytes 8 (wr_space_id_lo64 r)"
  by (simp_all add: record_header_def subslice_def nth_append)

lemma MAX_PAYLOAD_nat: "unat MAX_PAYLOAD = 2 ^ 24"
  by (simp add: MAX_PAYLOAD_def)

lemma payload_fits:
  "length p < 2 ^ 32 \<and> (of_nat (length p) :: u32) \<le> MAX_PAYLOAD \<longleftrightarrow> length p \<le> 2 ^ 24"
proof -
  have "unat (of_nat (length p) :: u32) = length p" if "length p < 2 ^ 32"
    using that by (simp add: unat_of_nat)
  then show ?thesis by (auto simp: word_le_nat_alt MAX_PAYLOAD_nat)
qed

text \<open>What the decoder sees on a buffer cut into header, payload, checksum and reserved bytes.\<close>

lemma decode_one_framed:
  assumes "length h = 32" and "length c = 4" and "length z = 4"
    and "subslice h 10 12 = [0, 0]"
    and "unat (le_word (subslice h 12 16) :: u32) = length p" and "length p \<le> 2 ^ 24"
  shows "decode_one crc (h @ p @ c @ z @ rest) =
    (case wal_kind_from_u8 (h ! 8) of
       None \<Rightarrow> Inl (UnknownRecordType (h ! 8))
     | Some kind \<Rightarrow>
         if z \<noteq> [0, 0, 0, 0] then Inl NonZeroReserved
         else if le_word c \<noteq> crc (h @ p) then Inl (CrcMismatch (le_word c) (crc (h @ p)))
         else Inr (DecodedRecord
                \<lparr>wr_lsn = le_word (subslice h 0 8), wr_kind = kind, wr_flags = h ! 9,
                 wr_timestamp_ns = le_word (subslice h 16 24),
                 wr_space_id_lo64 = le_word (subslice h 24 32), wr_payload = p\<rparr>
                (HEADER_LEN + length p + FOOTER_LEN)))"
proof -
  have small: "\<not> (le_word (subslice h 12 16) :: u32) > MAX_PAYLOAD"
    using assms(5,6) by (simp add: word_less_nat_alt MAX_PAYLOAD_nat)
  define buf where "buf = h @ p @ c @ z @ rest"
  have fields: "subslice buf lo hi = subslice h lo hi" if "hi \<le> 32" for lo hi
    using that assms(1) by (simp add: buf_def subslice_append_left)
  have bytes_8_9: "buf ! 8 = h ! 8" "buf ! 9 = h ! 9"
    using assms(1) by (simp_all add: buf_def nth_append)
  have parts: "subslice buf 0 (HEADER_LEN + length p) = h @ p"
    "subslice buf (HEADER_LEN + length p) (HEADER_LEN + length p + 4) = c"
    "subslice buf (HEADER_LEN + length p + 4) (HEADER_LEN + length p + FOOTER_LEN) = z"
    "subslice buf HEADER_LEN (HEADER_LEN + length p) = p"
    using assms(1,2,3) by (simp_all add: buf_def subslice_def record_lens)
  have len: "\<not> length buf < HEADER_LEN" "\<not> length buf < HEADER_LEN + length p + FOOTER_LEN"
    using assms(1,2,3) by (simp_all add: buf_def record_lens)
  show ?thesis
    unfolding buf_def [symmetric] decode_one_def
    using assms(4,5) small
    by (cases "wal_kind_from_u8 (h ! 8)") (simp_all add: len fields bytes_8_9 parts Let_def)
qed

section \<open>Framing round trip\<close>

lemma record_encode_Some:
  "record_encode crc r = Some bs \<longleftrightarrow>
   length (wr_payload r) \<le> 2 ^ 24 \<and>
   bs = record_header r @ wr_payload r @ le_bytes 4 (crc (record_header r @ wr_payload r)) @ [0, 0, 0, 0]"
  using payload_fits [of "wr_payload r"] by (auto simp: record_encode_def Let_def)

lemma record_encode_total: "length (wr_payload r) \<le> 2 ^ 24 \<Longrightarrow> \<exists>bs. record_encode crc r = Some bs"
  by (simp add: record_encode_Some)

lemma length_record_encode:
  "record_encode crc r = Some bs \<Longrightarrow> length bs = record_encoded_len r"
  by (simp add: record_encode_Some record_encoded_len_def record_lens)

lemma header_payload_len:
  "length (wr_payload r) \<le> 2 ^ 24 \<Longrightarrow>
   unat (le_word (subslice (record_header r) 12 16) :: u32) = length (wr_payload r)"
  by (simp add: record_header_fields unat_of_nat)

lemma decode_one_encode:
  assumes "record_encode crc r = Some bs"
  shows "decode_one crc (bs @ rest) = Inr (DecodedRecord r (length bs))"
proof -
  let ?h = "record_header r" and ?p = "wr_payload r"
  let ?c = "le_bytes 4 (crc (?h @ ?p))"
  have small: "length ?p \<le> 2 ^ 24" and bs: "bs = ?h @ ?p @ ?c @ [0, 0, 0, 0]"
    using assms by (simp_all add: record_encode_Some)
  have "decode_one crc (?h @ ?p @ ?c @ [0, 0, 0, 0] @ rest)
      = Inr (DecodedRecord r (HEADER_LEN + length ?p + FOOTER_LEN))"
    using small by (subst decode_one_framed)
      (simp_all add: record_header_fields unat_of_nat)
  then show ?thesis by (simp add: bs record_lens)
qed

lemma header_split:
  assumes "length h = 32"
  shows "subslice h 0 8 @ [h ! 8, h ! 9] @ subslice h 10 12 @ subslice h 12 16 @
    subslice h 16 24 @ subslice h 24 32 = h"
proof -
  have "[h ! 8, h ! 9] = subslice h 8 10"
    using subslice_pair [of 8 h] assms by simp
  then show ?thesis
    using assms by (simp add: subslice_join)
qed

lemma record_header_rebuild:
  assumes "length h = 32" and "subslice h 10 12 = [0, 0]"
    and "unat (le_word (subslice h 12 16) :: u32) = length p"
    and "wal_kind_from_u8 (h ! 8) = Some kind"
  shows "record_header \<lparr>wr_lsn = le_word (subslice h 0 8), wr_kind = kind, wr_flags = h ! 9,
      wr_timestamp_ns = le_word (subslice h 16 24),
      wr_space_id_lo64 = le_word (subslice h 24 32), wr_payload = p\<rparr> = h"
proof -
  have "(of_nat (length p) :: u32) = le_word (subslice h 12 16)"
    by (simp flip: assms(3))
  then show ?thesis
    using assms header_split [OF assms(1)]
    by (simp add: record_header_def le_bytes_le_word wal_kind_from_u8_Some)
qed

lemma buffer_split:
  assumes "40 + n \<le> length buf"
  shows "buf = subslice buf 0 32 @ subslice buf 32 (32 + n) @ subslice buf (32 + n) (36 + n) @
    subslice buf (36 + n) (40 + n) @ drop (40 + n) buf"
proof -
  have "subslice buf 0 32 @ subslice buf 32 (32 + n) @ subslice buf (32 + n) (36 + n) @
    subslice buf (36 + n) (40 + n) = take (40 + n) buf"
    by (simp add: subslice_join) (simp add: subslice_def)
  then show ?thesis by (metis append.assoc append_take_drop_id)
qed

lemma decode_one_canonical:
  assumes dec: "decode_one crc buf = Inr (DecodedRecord r n)"
  shows "n \<le> length buf \<and> n = record_encoded_len r \<and> record_encode crc r = Some (take n buf)"
proof -
  define k where "k = unat (le_word (subslice buf 12 16) :: u32)"
  define h p c z where "h = subslice buf 0 32" and "p = subslice buf 32 (32 + k)"
    and "c = subslice buf (32 + k) (36 + k)" and "z = subslice buf (36 + k) (40 + k)"
  have "subslice buf 10 12 = [0, 0]" and le: "\<not> (le_word (subslice buf 12 16) :: u32) > MAX_PAYLOAD"
    and room: "40 + k \<le> length buf"
    using dec by (auto simp: decode_one_def Let_def record_lens k_def split: if_splits)
  moreover have h_take: "h = take 32 buf" by (simp add: h_def subslice_def)
  ultimately have res: "subslice h 10 12 = [0, 0]"
    and len: "unat (le_word (subslice h 12 16) :: u32) = length p"
    by (simp_all add: subslice_take k_def [symmetric] p_def)
  have small: "length p \<le> 2 ^ 24"
    using le len h_take by (simp add: subslice_take word_less_nat_alt MAX_PAYLOAD_nat)
  have lens: "length h = 32" "length c = 4" "length z = 4"
    using room by (simp_all add: h_def c_def z_def)
  have split: "buf = h @ p @ c @ z @ drop (40 + k) buf"
    unfolding h_def p_def c_def z_def by (rule buffer_split [OF room])
  note framed = decode_one_framed [OF lens res len small, of crc "drop (40 + k) buf", folded split]
  obtain kind where kind: "wal_kind_from_u8 (h ! 8) = Some kind"
    using dec framed by (cases "wal_kind_from_u8 (h ! 8)") auto
  have z: "z = [0, 0, 0, 0]" and c: "le_word c = crc (h @ p)" and n: "n = 40 + length p"
    and r: "r = \<lparr>wr_lsn = le_word (subslice h 0 8), wr_kind = kind, wr_flags = h ! 9,
      wr_timestamp_ns = le_word (subslice h 16 24),
      wr_space_id_lo64 = le_word (subslice h 24 32), wr_payload = p\<rparr>"
    using dec framed kind by (auto simp: record_lens split: if_splits)
  have header: "record_header r = h" and payload: "wr_payload r = p"
    using record_header_rebuild [OF lens(1) res len kind] by (simp_all add: r)
  have "le_bytes 4 (crc (h @ p)) = c"
    using lens(2) by (simp flip: c add: le_bytes_le_word)
  moreover have "take n buf = h @ p @ c @ z"
    using lens by (subst split) (simp add: n)
  moreover have "length p = k" using room by (simp add: p_def)
  ultimately show ?thesis
    using small room by (simp add: record_encode_Some header payload z n record_encoded_len_def record_lens)
qed

text \<open>A decoded record depends only on the bytes it consumes.\<close>

lemma decode_one_prefix:
  assumes "decode_one crc buf = Inr (DecodedRecord r n)"
  shows "decode_one crc (take n buf @ ext) = Inr (DecodedRecord r n)"
  using decode_one_canonical [OF assms] decode_one_encode [of crc r "take n buf" ext] by simp

section \<open>Torn and damaged records\<close>

lemma decode_one_torn:
  assumes "record_encode crc r = Some bs" and "k < length bs"
  shows "decode_one crc (take k bs) = Inr Truncated"
proof (cases "k < 32")
  case True
  then show ?thesis by (simp add: decode_one_def record_lens min_def)
next
  case False
  have bs: "bs = record_header r @ wr_payload r @
      le_bytes 4 (crc (record_header r @ wr_payload r)) @ [0, 0, 0, 0]"
    and small: "length (wr_payload r) \<le> 2 ^ 24"
    using assms(1) by (simp_all add: record_encode_Some)
  have fields: "subslice (take k bs) lo hi = subslice (record_header r) lo hi" if "hi \<le> 32" for lo hi
    using that False by (simp add: subslice_take bs subslice_append_left)
  have "\<not> (of_nat (length (wr_payload r)) :: u32) > MAX_PAYLOAD"
    using small by (simp add: word_less_nat_alt MAX_PAYLOAD_nat unat_of_nat)
  moreover have "k < 40 + length (wr_payload r)"
    using assms(2) by (simp add: bs)
  ultimately show ?thesis
    using False assms(2) small
    by (simp add: decode_one_def record_lens fields record_header_fields Let_def unat_of_nat)
qed

lemma decode_one_reserved:
  "32 \<le> length buf \<Longrightarrow> subslice buf 10 12 \<noteq> [0, 0] \<Longrightarrow> decode_one crc buf = Inl NonZeroReserved"
  by (simp add: decode_one_def record_lens)

definition framed :: "bytes \<Rightarrow> bytes \<Rightarrow> bytes \<Rightarrow> bytes \<Rightarrow> bool" where
  "framed h p c z \<longleftrightarrow>
     length h = 32 \<and> length c = 4 \<and> length z = 4 \<and> subslice h 10 12 = [0, 0] \<and>
     unat (le_word (subslice h 12 16) :: u32) = length p \<and> length p \<le> 2 ^ 24"

lemma framed_rejects:
  assumes "framed h p c z" and "z \<noteq> [0, 0, 0, 0] \<or> le_word c \<noteq> crc (h @ p)"
  shows "\<exists>e. decode_one crc (h @ p @ c @ z @ rest) = Inl e"
  using assms
  by (cases "wal_kind_from_u8 (h ! 8)") (simp_all add: decode_one_framed framed_def)

lemma framed_encode:
  assumes "record_encode crc r = Some bs"
  obtains h p c z where "bs = h @ p @ c @ z" "framed h p c z" "c = le_bytes 4 (crc (h @ p))"
    "z = [0, 0, 0, 0]"
  using assms by (auto simp: record_encode_Some framed_def record_header_fields unat_of_nat)

text \<open>Damage to the header (outside its reserved and length fields) or the payload.\<close>

lemma damaged_body:
  assumes crc: "detects_single_byte crc" and frame: "framed h p c z"
    and c: "le_word c = crc (h @ p)" and i: "i < length (h @ p)" "i \<notin> {10..<16}"
    and b: "b \<noteq> (h @ p) ! i"
  shows "\<exists>e. decode_one crc ((h @ p)[i := b] @ c @ z @ rest) = Inl e"
proof -
  have neq: "le_word c \<noteq> crc ((h @ p)[i := b])"
    using crc i b c by (metis detects_single_byte_def)
  show ?thesis
  proof (cases "i < 32")
    case True
    have "subslice (h[i := b]) 10 12 = subslice h 10 12" "subslice (h[i := b]) 12 16 = subslice h 12 16"
      using i(2) by (auto intro!: subslice_update_outside)
    with frame have "framed (h[i := b]) p c z" by (simp add: framed_def)
    with neq True frame show ?thesis
      using framed_rejects [of "h[i := b]" p c z crc rest] by (simp add: list_update_append1 framed_def)
  next
    case False
    with frame i obtain j where j: "i = length h + j"
      by (metis framed_def le_Suc_ex not_less)
    from frame have "framed h (p[j := b]) c z" by (simp add: framed_def)
    with neq show ?thesis
      using framed_rejects [of h "p[j := b]" c z crc rest] by (simp add: j list_update_after)
  qed
qed

text \<open>Damage to the stored checksum or the reserved footer bytes.\<close>

lemma damaged_footer:
  assumes frame: "framed h p c z" and c: "c = le_bytes 4 (crc (h @ p))" and z: "z = [0, 0, 0, 0]"
    and i: "i < length (c @ z)" and b: "b \<noteq> (c @ z) ! i"
  shows "\<exists>e. decode_one crc (h @ p @ (c @ z)[i := b] @ rest) = Inl e"
proof (cases "i < length c")
  case True
  then have "c[i := b] \<noteq> c" using b by (intro list_update_neq) (simp_all add: nth_append)
  moreover have "le_bytes 4 (le_word (c[i := b]) :: u32) = c[i := b]"
    using frame by (intro le_bytes_le_word) (simp_all add: framed_def)
  ultimately have "le_word (c[i := b]) \<noteq> crc (h @ p)"
    using c by auto
  moreover have "framed h p (c[i := b]) z" using frame by (simp add: framed_def)
  ultimately show ?thesis
    using framed_rejects [of h p "c[i := b]" z crc rest] True by (simp add: list_update_append1)
next
  case False
  then obtain j where j: "i = length c + j" by (metis le_Suc_ex not_less)
  then have "z[j := b] \<noteq> z" using i b by (intro list_update_neq) (simp_all add: nth_append)
  moreover have "framed h p c (z[j := b])" using frame by (simp add: framed_def)
  ultimately show ?thesis
    using framed_rejects [of h p c "z[j := b]" crc rest] z by (simp add: j list_update_after)
qed

lemma decode_one_damaged:
  assumes crc: "detects_single_byte crc" and enc: "record_encode crc r = Some bs"
    and i: "i < length bs" "i \<notin> {12..<16}" and b: "b \<noteq> bs ! i"
  shows "\<exists>e. decode_one crc (bs[i := b] @ rest) = Inl e"
proof -
  obtain h p c z where bs: "bs = h @ p @ c @ z" and frame: "framed h p c z"
    and c: "c = le_bytes 4 (crc (h @ p))" and z: "z = [0, 0, 0, 0]"
    using framed_encode [OF enc] by blast
  have lens: "length h = 32" "subslice h 10 12 = [0, 0]" using frame by (simp_all add: framed_def)
  consider "i = 10 \<or> i = 11" | "i < length (h @ p)" "i \<notin> {10..<16}" | "length (h @ p) \<le> i"
    using i(2) by atomize_elim (unfold atLeastLessThan_iff, arith)
  then show ?thesis
  proof cases
    case 1
    have pair: "subslice (bs[i := b] @ rest) 10 12 = [bs[i := b] ! 10, bs[i := b] ! 11]"
      using subslice_pair [of 10 "bs[i := b] @ rest"] lens by (simp add: bs nth_append)
    have "bs ! 10 = 0" "bs ! 11 = 0"
      using subslice_pair [of 10 h] lens by (simp_all add: bs nth_append)
    with 1 b i pair have "subslice (bs[i := b] @ rest) 10 12 \<noteq> [0, 0]" by auto
    then show ?thesis
      using decode_one_reserved [of "bs[i := b] @ rest" crc] lens by (simp add: bs)
  next
    case 2
    then have upd: "bs[i := b] @ rest = (h @ p)[i := b] @ c @ z @ rest" and nth: "bs ! i = (h @ p) ! i"
      using list_update_append1 [of i "h @ p" "c @ z" b] nth_append [of "h @ p" "c @ z" i]
      by (simp_all add: bs)
    have "le_word c = crc (h @ p)" by (simp add: c)
    moreover have "b \<noteq> (h @ p) ! i" using b unfolding nth .
    ultimately show ?thesis unfolding upd by (rule damaged_body [OF crc frame _ 2])
  next
    case 3
    then obtain j where "i = length (h @ p) + j" by (metis le_Suc_ex)
    moreover from this have "bs[i := b] @ rest = h @ p @ (c @ z)[j := b] @ rest"
      using list_update_after [of "h @ p" "c @ z" j b] by (simp add: bs)
    ultimately show ?thesis
      using damaged_footer [of h p c z crc j b rest] frame c z i(1) b
      by (simp add: bs nth_append)
  qed
qed

section \<open>Properties\<close>

definition sample_record :: wal_record where
  "sample_record =
     \<lparr>wr_lsn = 5, wr_kind = K_TxnCommit, wr_flags = 0, wr_timestamp_ns = 6,
      wr_space_id_lo64 = 7, wr_payload = replicate 16 3\<rparr>"

text \<open>A record whose payload is at most 16 MiB is encoded without a panic, and decoding the
  buffer that starts with it, whatever bytes follow, returns that record and its exact length.\<close>

theorem record_roundtrip:
  assumes "length (wr_payload r) \<le> 2 ^ 24"
  shows "\<exists>bs. record_encode crc r = Some bs \<and> length bs = record_encoded_len r \<and>
    decode_one crc (bs @ rest) = Inr (DecodedRecord r (record_encoded_len r))"
  using record_encode_total [OF assms, of crc] decode_one_encode length_record_encode by metis

theorem record_roundtrip_witness:
  "\<exists>bs. record_encode sum_crc sample_record = Some bs \<and> length bs = 56 \<and>
    decode_one sum_crc (bs @ [1, 2, 3]) = Inr (DecodedRecord sample_record 56)"
  using record_roundtrip [of sample_record sum_crc "[1, 2, 3]"]
  by (simp add: sample_record_def record_encoded_len_def record_lens)

text \<open>The decoder accepts nothing but encoder output: the bytes a decoded record consumes are
  exactly the encoding of that record, and they lie inside the buffer.\<close>

theorem record_decode_canonical:
  "decode_one crc buf = Inr (DecodedRecord r n) \<Longrightarrow>
   n \<le> length buf \<and> record_encode crc r = Some (take n buf)"
  using decode_one_canonical by blast

theorem record_decode_canonical_witness:
  "\<exists>bs. decode_one sum_crc (bs @ [9]) = Inr (DecodedRecord sample_record 56) \<and>
    record_encode sum_crc sample_record = Some (take 56 (bs @ [9]))"
proof -
  obtain bs where "record_encode sum_crc sample_record = Some bs"
    using record_encode_total [of sample_record sum_crc] by (auto simp: sample_record_def)
  then have "decode_one sum_crc (bs @ [9]) = Inr (DecodedRecord sample_record 56)"
    using decode_one_encode [of sum_crc sample_record bs "[9]"] length_record_encode
    by (simp add: sample_record_def record_encoded_len_def record_lens)
  with record_decode_canonical [OF this] show ?thesis by blast
qed

text \<open>A crash can leave any proper prefix of a record on disk; the decoder reports each of them
  as truncated, never as a record and never as corruption.\<close>

theorem record_torn_truncated:
  assumes "record_encode crc r = Some bs" and "k < length bs"
  shows "decode_one crc (take k bs) = Inr Truncated"
  using assms by (rule decode_one_torn)

theorem record_torn_truncated_witness:
  "\<exists>bs. record_encode sum_crc sample_record = Some bs \<and> decode_one sum_crc (take 40 bs) = Inr Truncated"
proof -
  obtain bs where "record_encode sum_crc sample_record = Some bs"
    using record_encode_total [of sample_record sum_crc] by (auto simp: sample_record_def)
  moreover from this have "length bs = 56"
    using length_record_encode by (simp add: sample_record_def record_encoded_len_def record_lens)
  ultimately show ?thesis using record_torn_truncated [of sum_crc sample_record bs 40] by simp
qed

text \<open>If the checksum distinguishes byte strings that differ in one byte, then a record with any
  single byte changed outside the four bytes of its length field is rejected with an error,
  whatever follows it: it is never decoded as a record.\<close>

theorem record_damage_detected:
  assumes "detects_single_byte crc" and "record_encode crc r = Some bs"
    and "i < length bs" and "i \<notin> {12..<16}" and "b \<noteq> bs ! i"
  shows "\<exists>e. decode_one crc (bs[i := b] @ rest) = Inl e"
  using assms by (rule decode_one_damaged)

theorem record_damage_detected_witness:
  "\<exists>bs e. record_encode sum_crc sample_record = Some bs \<and> decode_one sum_crc (bs[40 := 4]) = Inl e"
proof -
  obtain bs where enc: "record_encode sum_crc sample_record = Some bs"
    using record_encode_total [of sample_record sum_crc] by (auto simp: sample_record_def)
  then have "length bs = 56" and "bs ! 40 = 3"
    using length_record_encode
    by (simp_all add: sample_record_def record_encoded_len_def record_lens)
      (auto simp: record_encode_Some nth_append)
  then show ?thesis
    using record_damage_detected [OF sum_crc_detects enc, of 40 4 "[]"] enc by auto
qed

text \<open>The two layers together: a typed payload put into a record, framed, read back and decoded
  is the payload that was written, whenever it is well formed and its bytes fit the frame.\<close>

theorem typed_record_roundtrip:
  assumes "wf_payload p" and "record_from_typed l flags ts space p = Some r"
    and "length (wr_payload r) \<le> 2 ^ 24"
  shows "\<exists>bs. record_encode crc r = Some bs \<and>
    decode_one crc (bs @ rest) = Inr (DecodedRecord r (length bs)) \<and>
    wr_lsn r = l \<and> wr_kind r = payload_kind p \<and> typed_payload r = Inr p"
proof -
  obtain bs where bs: "record_encode crc r = Some bs"
    using record_encode_total [OF assms(3)] by blast
  have "typed_payload r = Inr p" and "wr_lsn r = l" and "wr_kind r = payload_kind p"
    using assms(1,2) by (auto simp: record_from_typed_def typed_payload_def decode_encoded)
  with bs decode_one_encode [OF bs] show ?thesis by blast
qed

theorem typed_record_roundtrip_witness:
  "\<exists>r bs. record_from_typed 5 0 6 7 (TxnCommit \<lparr>tc_txn_id = replicate 16 3\<rparr>) = Some r \<and>
    record_encode sum_crc r = Some bs \<and> decode_one sum_crc bs = Inr (DecodedRecord r (length bs)) \<and>
    typed_payload r = Inr (TxnCommit \<lparr>tc_txn_id = replicate 16 3\<rparr>)"
proof -
  have "record_from_typed 5 0 6 7 (TxnCommit \<lparr>tc_txn_id = replicate 16 3\<rparr>) = Some sample_record"
    by (simp add: record_from_typed_def sample_record_def encode_txn_commit_def put_array_def)
  with typed_record_roundtrip [OF _ this, of sum_crc "[]"] show ?thesis
    by (auto simp: sample_record_def)
qed

end
