(* ===== verification/Wal_Segment.thy ===== *)
theory Wal_Segment
  imports Wal_Record
begin

text \<open>
  WAL segment files (\<open>brain-storage/src/wal/segment.rs\<close>): the 4096-byte header and the buffered
  append handle. A file is its byte string. The outcome of a write and of the following
  \<open>fdatasync\<close> is an argument of the operation, including how many bytes of a failed write reached
  the file; the io_uring file API itself is not modelled.
\<close>

section \<open>Header\<close>

definition WAL_SEGMENT_HEADER_LEN :: nat where
  "WAL_SEGMENT_HEADER_LEN = 4096"

definition WAL_SEGMENT_MAGIC :: bytes where
  "WAL_SEGMENT_MAGIC = [0x42, 0x57, 0x41, 0x4c]"

definition WAL_SEGMENT_FORMAT_VERSION_V1 :: u32 where
  "WAL_SEGMENT_FORMAT_VERSION_V1 = 1"

definition WAL_SEGMENT_HEADER_CRC_COVERAGE_END :: nat where
  "WAL_SEGMENT_HEADER_CRC_COVERAGE_END = 48"

definition WAL_SEGMENT_SIZE_BYTES :: nat where
  "WAL_SEGMENT_SIZE_BYTES = 256 * 1024 * 1024"

record segment_header_raw =
  sh_magic :: bytes
  sh_format_version :: u32
  sh_shard_uuid :: bytes
  sh_segment_seq :: u64
  sh_starting_lsn :: u64
  sh_created_at :: u64
  sh_header_crc32c :: u32
  sh_reserved :: bytes

text \<open>The bytes of the \<open>#[repr(C)]\<close> struct on the little-endian targets the server runs on.\<close>

definition segment_header_bytes :: "segment_header_raw \<Rightarrow> bytes" where
  "segment_header_bytes h =
     sh_magic h @ le_bytes 4 (sh_format_version h) @ sh_shard_uuid h @
     le_bytes 8 (sh_segment_seq h) @ le_bytes 8 (sh_starting_lsn h) @ le_bytes 8 (sh_created_at h) @
     le_bytes 4 (sh_header_crc32c h) @ sh_reserved h"

definition compute_segment_header_crc :: "crc_fn \<Rightarrow> segment_header_raw \<Rightarrow> u32" where
  "compute_segment_header_crc crc h =
     crc (subslice (segment_header_bytes h) 0 WAL_SEGMENT_HEADER_CRC_COVERAGE_END)"

definition new_segment_header :: "crc_fn \<Rightarrow> u64 \<Rightarrow> bytes \<Rightarrow> u64 \<Rightarrow> u64 \<Rightarrow> segment_header_raw" where
  "new_segment_header crc now shard_uuid segment_seq starting_lsn =
     (let h = \<lparr>sh_magic = WAL_SEGMENT_MAGIC, sh_format_version = WAL_SEGMENT_FORMAT_VERSION_V1,
               sh_shard_uuid = shard_uuid, sh_segment_seq = segment_seq,
               sh_starting_lsn = starting_lsn, sh_created_at = now, sh_header_crc32c = 0,
               sh_reserved = replicate 4044 0\<rparr>
      in h\<lparr>sh_header_crc32c := compute_segment_header_crc crc h\<rparr>)"

section \<open>The append handle\<close>

datatype segment_error = SegmentIo | SegmentAlreadyExists | ShortWrite nat nat

datatype write_result = Written | Short nat | WriteFailed nat

record io_answer =
  io_write :: write_result
  io_sync_ok :: bool

record wal_segment =
  seg_file :: bytes
  seg_seq :: u64
  seg_starting_lsn :: u64
  seg_shard_uuid :: bytes
  seg_write_buf :: bytes
  seg_bytes_on_disk :: nat

text \<open>A positional write; a write past the end fills the gap with zeros.\<close>

definition write_at :: "bytes \<Rightarrow> nat \<Rightarrow> bytes \<Rightarrow> bytes" where
  "write_at file off buf =
     take off file @ replicate (off - length file) 0 @ buf @ drop (off + length buf) file"

definition create_new ::
    "crc_fn \<Rightarrow> u64 \<Rightarrow> bool \<Rightarrow> io_answer \<Rightarrow> u64 \<Rightarrow> u64 \<Rightarrow> bytes \<Rightarrow> segment_error + wal_segment" where
  "create_new crc now path_exists io segment_seq starting_lsn shard_uuid =
     (if path_exists then Inl SegmentAlreadyExists
      else
        let header_bytes = segment_header_bytes (new_segment_header crc now shard_uuid segment_seq starting_lsn)
        in case io_write io of
             WriteFailed _ \<Rightarrow> Inl SegmentIo
           | Short got \<Rightarrow> Inl (ShortWrite (length header_bytes) got)
           | Written \<Rightarrow>
               if io_sync_ok io then
                 Inr \<lparr>seg_file = header_bytes, seg_seq = segment_seq, seg_starting_lsn = starting_lsn,
                      seg_shard_uuid = shard_uuid, seg_write_buf = [], seg_bytes_on_disk = 0\<rparr>
               else Inl SegmentIo)"

definition seg_size_bytes :: "wal_segment \<Rightarrow> nat" where
  "seg_size_bytes s = WAL_SEGMENT_HEADER_LEN + seg_bytes_on_disk s + length (seg_write_buf s)"

definition seg_is_full :: "wal_segment \<Rightarrow> bool" where
  "seg_is_full s \<longleftrightarrow> seg_size_bytes s \<ge> WAL_SEGMENT_SIZE_BYTES"

definition append_record :: "crc_fn \<Rightarrow> wal_record \<Rightarrow> wal_segment \<Rightarrow> (nat \<times> wal_segment) option" where
  "append_record crc r s =
     map_option (\<lambda>bs. (length bs, s\<lparr>seg_write_buf := seg_write_buf s @ bs\<rparr>)) (record_encode crc r)"

definition seg_flush :: "write_result \<Rightarrow> wal_segment \<Rightarrow> (segment_error + unit) \<times> wal_segment" where
  "seg_flush w s =
     (if seg_write_buf s = [] then (Inr (), s)
      else
        let off = WAL_SEGMENT_HEADER_LEN + seg_bytes_on_disk s; buf = seg_write_buf s;
            s' = s\<lparr>seg_write_buf := []\<rparr>
        in case w of
             WriteFailed n \<Rightarrow> (Inl SegmentIo, s'\<lparr>seg_file := write_at (seg_file s) off (take n buf)\<rparr>)
           | Short got \<Rightarrow>
               (Inl (ShortWrite (length buf) got),
                s'\<lparr>seg_file := write_at (seg_file s) off (take got buf)\<rparr>)
           | Written \<Rightarrow>
               (Inr (), s'\<lparr>seg_file := write_at (seg_file s) off buf,
                           seg_bytes_on_disk := seg_bytes_on_disk s + length buf\<rparr>))"

definition flush_durable :: "io_answer \<Rightarrow> wal_segment \<Rightarrow> (segment_error + unit) \<times> wal_segment" where
  "flush_durable io s =
     (if seg_write_buf s = [] then (Inr (), s)
      else
        let off = WAL_SEGMENT_HEADER_LEN + seg_bytes_on_disk s; buf = seg_write_buf s;
            s' = s\<lparr>seg_write_buf := []\<rparr>
        in case io_write io of
             WriteFailed n \<Rightarrow> (Inl SegmentIo, s'\<lparr>seg_file := write_at (seg_file s) off (take n buf)\<rparr>)
           | Short got \<Rightarrow>
               (Inl (ShortWrite (length buf) got),
                s'\<lparr>seg_file := write_at (seg_file s) off (take got buf)\<rparr>)
           | Written \<Rightarrow>
               let s'' = s'\<lparr>seg_file := write_at (seg_file s) off buf\<rparr>
               in if io_sync_ok io
                  then (Inr (), s''\<lparr>seg_bytes_on_disk := seg_bytes_on_disk s + length buf\<rparr>)
                  else (Inl SegmentIo, s''))"

definition open_for_append :: "bytes \<Rightarrow> bytes \<Rightarrow> u64 \<Rightarrow> u64 \<Rightarrow> nat \<Rightarrow> wal_segment" where
  "open_for_append file shard_uuid segment_seq starting_lsn bytes_on_disk =
     \<lparr>seg_file = file, seg_seq = segment_seq, seg_starting_lsn = starting_lsn,
      seg_shard_uuid = shard_uuid, seg_write_buf = [], seg_bytes_on_disk = bytes_on_disk\<rparr>"

section \<open>Lemmas\<close>

lemmas segment_consts =
  WAL_SEGMENT_HEADER_LEN_def WAL_SEGMENT_MAGIC_def WAL_SEGMENT_FORMAT_VERSION_V1_def
  WAL_SEGMENT_HEADER_CRC_COVERAGE_END_def

text \<open>The 48 bytes the header checksum covers, and the header around them.\<close>

definition header_prefix :: "u64 \<Rightarrow> bytes \<Rightarrow> u64 \<Rightarrow> u64 \<Rightarrow> bytes" where
  "header_prefix now uuid seq l =
     WAL_SEGMENT_MAGIC @ le_bytes 4 WAL_SEGMENT_FORMAT_VERSION_V1 @ uuid @
     le_bytes 8 seq @ le_bytes 8 l @ le_bytes 8 now"

definition header_image :: "crc_fn \<Rightarrow> u64 \<Rightarrow> bytes \<Rightarrow> u64 \<Rightarrow> u64 \<Rightarrow> bytes" where
  "header_image crc now uuid seq l = segment_header_bytes (new_segment_header crc now uuid seq l)"

lemma length_header_prefix: "length uuid = 16 \<Longrightarrow> length (header_prefix now uuid seq l) = 48"
  by (simp add: header_prefix_def segment_consts)

lemma header_image_eq:
  assumes "length uuid = 16"
  shows "header_image crc now uuid seq l =
    header_prefix now uuid seq l @ le_bytes 4 (crc (header_prefix now uuid seq l)) @ replicate 4044 0"
proof -
  have "subslice (header_prefix now uuid seq l @ xs) 0 48 = header_prefix now uuid seq l" for xs
    using length_header_prefix [OF assms] by (simp add: subslice_def)
  then show ?thesis
    by (simp add: header_image_def new_segment_header_def Let_def compute_segment_header_crc_def
        segment_header_bytes_def header_prefix_def WAL_SEGMENT_HEADER_CRC_COVERAGE_END_def)
qed

lemma length_header_image: "length uuid = 16 \<Longrightarrow> length (header_image crc now uuid seq l) = 4096"
  by (simp add: header_image_eq length_header_prefix)

lemma write_at_end: "off = length file \<Longrightarrow> write_at file off buf = file @ buf"
  by (simp add: write_at_def)

lemma take_write_at:
  "off \<le> length file \<Longrightarrow> take off (write_at file off buf) = take off file"
  by (simp add: write_at_def)

end
