(* ===== verification/Wal_Reader.thy ===== *)
theory Wal_Reader
  imports Wal_Segment
begin

text \<open>
  The WAL reader (\<open>brain-storage/src/wal/reader.rs\<close>): enumeration and validation of the segment
  files of a directory, and the record iterator with its tail rule. A directory is the list of
  its entries in the order \<open>read_dir\<close> yields them, with the set of names that cannot be opened.
\<close>

section \<open>Directories and file names\<close>

record wal_dir =
  dir_entries :: "(string \<times> bytes) list"
  dir_unreadable :: "string \<Rightarrow> bool"

definition dir_read :: "wal_dir \<Rightarrow> string \<Rightarrow> bytes option" where
  "dir_read d name = (if dir_unreadable d name then None else map_of (dir_entries d) name)"

text \<open>\<open>Path::extension\<close> of a file name.\<close>

definition path_extension :: "string \<Rightarrow> string option" where
  "path_extension name =
     (let after = rev (takeWhile (\<lambda>c. c \<noteq> CHR ''.'') (rev name))
      in if name = ''..'' \<or> length after = length name \<or> length after + 1 = length name then None
         else Some after)"

definition is_ascii_digit :: "char \<Rightarrow> bool" where
  "is_ascii_digit c \<longleftrightarrow> (48 :: nat) \<le> of_char c \<and> of_char c \<le> (57 :: nat)"

definition parse_decimal :: "string \<Rightarrow> nat" where
  "parse_decimal s = foldl (\<lambda>a c. a * 10 + (of_char c - 48)) 0 s"

fun dec_digits :: "nat \<Rightarrow> string" where
  "dec_digits n = (if n < 10 then [char_of (48 + n)] else dec_digits (n div 10) @ [char_of (48 + n mod 10)])"

declare dec_digits.simps [simp del]

definition segment_path :: "u64 \<Rightarrow> string" where
  "segment_path seq =
     (let ds = dec_digits (unat seq) in replicate (10 - length ds) CHR ''0'' @ ds @ ''.wal'')"

section \<open>Segment headers\<close>

record segment_info =
  si_path :: string
  si_segment_seq :: u64
  si_starting_lsn :: u64
  si_file_size :: nat

datatype wal_read_error =
    ReadIo
  | SegmentTooSmall string nat
  | InvalidSegmentMagic string bytes
  | UnsupportedSegmentFormatVersion string u32
  | SegmentHeaderCrcMismatch string u32 u32
  | SegmentShardUuidMismatch string bytes bytes
  | FilenameSegmentSeqMismatch string u64 u64
  | InvalidSegmentFilename string
  | SegmentSequenceGap u64 u64
  | LsnGapAtSegmentBoundary u64 u64 u64
  | LsnGap u64 u64 u64
  | MidSegmentCorruption u64
  | RecordError u64 u64 wal_record_error

definition parse_segment_seq_from_filename :: "string \<Rightarrow> wal_read_error + u64" where
  "parse_segment_seq_from_filename name =
     (if length name < 4 \<or> drop (length name - 4) name \<noteq> ''.wal'' then Inl (InvalidSegmentFilename name)
      else
        let stem = take (length name - 4) name
        in if length stem \<noteq> 10 \<or> \<not> list_all is_ascii_digit stem then Inl (InvalidSegmentFilename name)
           else if parse_decimal stem < 2 ^ 64 then Inr (of_nat (parse_decimal stem))
           else Inl (InvalidSegmentFilename name))"

definition read_and_validate_segment_header ::
    "crc_fn \<Rightarrow> wal_dir \<Rightarrow> string \<Rightarrow> bytes \<Rightarrow> u64 \<Rightarrow> wal_read_error + segment_info" where
  "read_and_validate_segment_header crc d path expected_shard_uuid filename_seq =
     (case dir_read d path of
        None \<Rightarrow> Inl ReadIo
      | Some file \<Rightarrow>
          if length file < WAL_SEGMENT_HEADER_LEN then Inl (SegmentTooSmall path (length file))
          else
            let header_bytes = take WAL_SEGMENT_HEADER_LEN file;
                magic = subslice header_bytes 0 4;
                format_version = le_word (subslice header_bytes 4 8);
                stored_crc = le_word (subslice header_bytes 48 52);
                computed = crc (subslice header_bytes 0 WAL_SEGMENT_HEADER_CRC_COVERAGE_END);
                header_shard_uuid = subslice header_bytes 8 24;
                header_segment_seq = le_word (subslice header_bytes 24 32)
            in if magic \<noteq> WAL_SEGMENT_MAGIC then Inl (InvalidSegmentMagic path magic)
               else if format_version \<noteq> WAL_SEGMENT_FORMAT_VERSION_V1
                 then Inl (UnsupportedSegmentFormatVersion path format_version)
               else if stored_crc \<noteq> computed then Inl (SegmentHeaderCrcMismatch path stored_crc computed)
               else if header_shard_uuid \<noteq> expected_shard_uuid
                 then Inl (SegmentShardUuidMismatch path expected_shard_uuid header_shard_uuid)
               else if header_segment_seq \<noteq> filename_seq
                 then Inl (FilenameSegmentSeqMismatch path filename_seq header_segment_seq)
               else Inr \<lparr>si_path = path, si_segment_seq = header_segment_seq,
                         si_starting_lsn = le_word (subslice header_bytes 32 40),
                         si_file_size = length file\<rparr>)"

section \<open>Opening\<close>

type_synonym loaded_segment = "bytes \<times> nat"

record wal_reader =
  rdr_segments :: "segment_info list"
  rdr_current_idx :: nat
  rdr_current :: "loaded_segment option"
  rdr_expected_next_lsn :: u64
  rdr_last_decoded_lsn :: "u64 option"
  rdr_last_record_end_offset :: "nat option"
  rdr_last_record_segment_seq :: "u64 option"
  rdr_finished :: bool

fun collect_segments ::
    "crc_fn \<Rightarrow> wal_dir \<Rightarrow> bytes \<Rightarrow> string list \<Rightarrow> wal_read_error + segment_info list" where
  "collect_segments crc d uuid [] = Inr []"
| "collect_segments crc d uuid (path # paths) =
     (if path_extension path \<noteq> Some ''wal'' then collect_segments crc d uuid paths
      else
        case parse_segment_seq_from_filename path of
          Inl e \<Rightarrow> Inl e
        | Inr filename_seq \<Rightarrow>
            (case read_and_validate_segment_header crc d path uuid filename_seq of
               Inl e \<Rightarrow> Inl e
             | Inr info \<Rightarrow>
                 (case collect_segments crc d uuid paths of
                    Inl e \<Rightarrow> Inl e
                  | Inr infos \<Rightarrow> Inr (info # infos))))"

fun check_contiguous :: "segment_info list \<Rightarrow> wal_read_error + unit" where
  "check_contiguous (a # b # infos) =
     (if si_segment_seq b \<noteq> si_segment_seq a + 1
      then Inl (SegmentSequenceGap (si_segment_seq a) (si_segment_seq b))
      else check_contiguous (b # infos))"
| "check_contiguous _ = Inr ()"

definition reader_start :: "segment_info list \<Rightarrow> u64 \<Rightarrow> wal_reader" where
  "reader_start infos empty_lsn =
     \<lparr>rdr_segments = infos, rdr_current_idx = 0, rdr_current = None,
      rdr_expected_next_lsn = (case infos of [] \<Rightarrow> empty_lsn | s # _ \<Rightarrow> si_starting_lsn s),
      rdr_last_decoded_lsn = None, rdr_last_record_end_offset = None,
      rdr_last_record_segment_seq = None, rdr_finished = (infos = [])\<rparr>"

definition reader_open :: "crc_fn \<Rightarrow> wal_dir \<Rightarrow> bytes \<Rightarrow> wal_read_error + wal_reader" where
  "reader_open crc d shard_uuid =
     (case collect_segments crc d shard_uuid (map fst (dir_entries d)) of
        Inl e \<Rightarrow> Inl e
      | Inr found \<Rightarrow>
          let infos = sort_key si_segment_seq found
          in case check_contiguous infos of
               Inl e \<Rightarrow> Inl e
             | Inr _ \<Rightarrow> Inr (reader_start infos 1))"

definition reader_active_segment_seq :: "wal_reader \<Rightarrow> u64 option" where
  "reader_active_segment_seq rd =
     (if rdr_segments rd = [] then None else Some (si_segment_seq (last (rdr_segments rd))))"

section \<open>Iteration\<close>

definition valid_record_survives_after :: "crc_fn \<Rightarrow> bytes \<Rightarrow> u64 \<Rightarrow> bool" where
  "valid_record_survives_after crc bs expected_lsn \<longleftrightarrow>
     list_ex (\<lambda>start.
       case decode_one crc (drop start bs) of
         Inr (DecodedRecord r _) \<Rightarrow> wr_lsn r \<ge> expected_lsn
       | _ \<Rightarrow> False) [0..<length bs]"

type_synonym next_result = "(wal_read_error + wal_record) option \<times> wal_reader"

text \<open>The arm of \<open>next\<close> for a failed decode: a clean end or an error, by position.\<close>

definition reader_corrupt ::
    "crc_fn \<Rightarrow> wal_record_error + decode_outcome \<Rightarrow> bytes \<Rightarrow> wal_reader \<Rightarrow> next_result" where
  "reader_corrupt crc outcome rest rd =
     (let is_last = (rdr_current_idx rd + 1 \<ge> length (rdr_segments rd));
          segment_seq = si_segment_seq (rdr_segments rd ! rdr_current_idx rd);
          expected_lsn = rdr_expected_next_lsn rd;
          rd' = rd\<lparr>rdr_finished := True\<rparr>
      in if is_last then
           (if valid_record_survives_after crc rest expected_lsn
            then (Some (Inl (MidSegmentCorruption segment_seq)), rd') else (None, rd'))
         else
           (case outcome of
              Inr _ \<Rightarrow> (Some (Inl (MidSegmentCorruption segment_seq)), rd')
            | Inl (CrcMismatch _ _) \<Rightarrow> (Some (Inl (MidSegmentCorruption segment_seq)), rd')
            | Inl source \<Rightarrow> (Some (Inl (RecordError segment_seq expected_lsn source)), rd')))"

definition reader_record :: "wal_record \<Rightarrow> nat \<Rightarrow> bytes \<Rightarrow> nat \<Rightarrow> wal_reader \<Rightarrow> next_result" where
  "reader_record r consumed bs cursor rd =
     (let segment_seq = si_segment_seq (rdr_segments rd ! rdr_current_idx rd)
      in if wr_lsn r \<noteq> rdr_expected_next_lsn rd then
           (Some (Inl (LsnGap segment_seq (rdr_expected_next_lsn rd) (wr_lsn r))), rd\<lparr>rdr_finished := True\<rparr>)
         else
           (Some (Inr r),
            rd\<lparr>rdr_current := Some (bs, cursor + consumed), rdr_expected_next_lsn := wr_lsn r + 1,
               rdr_last_decoded_lsn := Some (wr_lsn r),
               rdr_last_record_end_offset := Some (cursor + consumed),
               rdr_last_record_segment_seq := Some segment_seq\<rparr>))"

function next_loop :: "crc_fn \<Rightarrow> wal_dir \<Rightarrow> wal_reader \<Rightarrow> next_result" where
  "next_loop crc d rd =
     (case rdr_current rd of
        None \<Rightarrow>
          if rdr_current_idx rd \<ge> length (rdr_segments rd) then (None, rd\<lparr>rdr_finished := True\<rparr>)
          else
            let info = rdr_segments rd ! rdr_current_idx rd
            in if si_starting_lsn info \<noteq> rdr_expected_next_lsn rd then
                 (Some (Inl (LsnGapAtSegmentBoundary (si_segment_seq info) (rdr_expected_next_lsn rd)
                    (si_starting_lsn info))), rd\<lparr>rdr_finished := True\<rparr>)
               else
                 (case dir_read d (si_path info) of
                    None \<Rightarrow> (Some (Inl ReadIo), rd\<lparr>rdr_finished := True\<rparr>)
                  | Some bs \<Rightarrow> next_loop crc d (rd\<lparr>rdr_current := Some (bs, WAL_SEGMENT_HEADER_LEN)\<rparr>))
      | Some (bs, cursor) \<Rightarrow>
          if cursor \<ge> length bs then
            next_loop crc d (rd\<lparr>rdr_current := None, rdr_current_idx := rdr_current_idx rd + 1\<rparr>)
          else
            (case decode_one crc (drop cursor bs) of
               Inr (DecodedRecord r consumed) \<Rightarrow> reader_record r consumed bs cursor rd
             | outcome \<Rightarrow> reader_corrupt crc outcome (drop cursor bs) rd))"
  by pat_completeness auto
termination
  by (relation "measure (\<lambda>(_, _, rd).
      case rdr_current rd of
        Some _ \<Rightarrow> 2 * (length (rdr_segments rd) - rdr_current_idx rd) + 2
      | None \<Rightarrow> if rdr_current_idx rd < length (rdr_segments rd)
                then 2 * (length (rdr_segments rd) - rdr_current_idx rd) + 3 else 0)")
    (auto simp: not_le)

declare next_loop.simps [simp del]

definition reader_next :: "crc_fn \<Rightarrow> wal_dir \<Rightarrow> wal_reader \<Rightarrow> next_result" where
  "reader_next crc d rd = (if rdr_finished rd then (None, rd) else next_loop crc d rd)"

section \<open>Iteration ends\<close>

text \<open>The bytes a reader has left to look at: an upper bound on the records it can still yield.\<close>

definition info_bytes :: "wal_dir \<Rightarrow> segment_info \<Rightarrow> nat" where
  "info_bytes d info = (case dir_read d (si_path info) of None \<Rightarrow> 0 | Some bs \<Rightarrow> length bs)"

definition segments_left :: "wal_dir \<Rightarrow> segment_info list \<Rightarrow> nat \<Rightarrow> nat" where
  "segments_left d infos i = sum_list (map (info_bytes d) (drop i infos))"

definition reader_left :: "wal_dir \<Rightarrow> wal_reader \<Rightarrow> nat" where
  "reader_left d rd =
     (case rdr_current rd of
        None \<Rightarrow> segments_left d (rdr_segments rd) (rdr_current_idx rd)
      | Some (bs, cursor) \<Rightarrow>
          length bs - cursor + segments_left d (rdr_segments rd) (rdr_current_idx rd + 1))"

lemma segments_left_Suc:
  "i < length infos \<Longrightarrow>
   segments_left d infos i = info_bytes d (infos ! i) + segments_left d infos (Suc i)"
  by (simp add: segments_left_def Cons_nth_drop_Suc [symmetric])

lemma decode_one_consumes:
  assumes "decode_one crc buf = Inr (DecodedRecord r n)"
  shows "0 < n" and "n \<le> length buf"
  using decode_one_canonical [OF assms] by (simp_all add: record_encoded_len_def record_lens)

lemma next_loop_consumes:
  "next_loop crc d rd = (Some (Inr r), rd') \<Longrightarrow> reader_left d rd' < reader_left d rd"
proof (induction crc d rd rule: next_loop.induct)
  case (1 crc d rd)
  show ?case
  proof (cases "rdr_current rd")
    case None
    let ?i = "rdr_current_idx rd" and ?infos = "rdr_segments rd"
    from "1.prems" None obtain bs where i: "?i < length ?infos"
      and start: "si_starting_lsn (?infos ! ?i) = rdr_expected_next_lsn rd"
      and bs: "dir_read d (si_path (?infos ! ?i)) = Some bs"
      by (subst (asm) next_loop.simps) (auto simp: Let_def split: if_splits option.splits)
    let ?rd = "rd\<lparr>rdr_current := Some (bs, WAL_SEGMENT_HEADER_LEN)\<rparr>"
    from "1.prems" None i start bs have "next_loop crc d ?rd = (Some (Inr r), rd')"
      by (subst (asm) next_loop.simps) (simp add: Let_def)
    then have "reader_left d rd' < reader_left d ?rd"
      using "1.IH"(1) None i start bs by simp
    also have "reader_left d ?rd \<le> reader_left d rd"
      using None i bs by (simp add: reader_left_def segments_left_Suc info_bytes_def)
    finally show ?thesis .
  next
    case (Some cur)
    obtain bs cursor where cur: "cur = (bs, cursor)" by (cases cur)
    show ?thesis
    proof (cases "cursor \<ge> length bs")
      case True
      let ?rd = "rd\<lparr>rdr_current := None, rdr_current_idx := rdr_current_idx rd + 1\<rparr>"
      from "1.prems" Some cur True have "next_loop crc d ?rd = (Some (Inr r), rd')"
        by (subst (asm) next_loop.simps) simp
      then have "reader_left d rd' < reader_left d ?rd"
        using "1.IH"(2) Some cur True by simp
      also have "reader_left d ?rd = reader_left d rd"
        using Some cur True by (simp add: reader_left_def)
      finally show ?thesis .
    next
      case False
      with "1.prems" Some cur obtain n where dec: "decode_one crc (drop cursor bs) = Inr (DecodedRecord r n)"
        and rd': "rd' = rd\<lparr>rdr_current := Some (bs, cursor + n), rdr_expected_next_lsn := wr_lsn r + 1,
               rdr_last_decoded_lsn := Some (wr_lsn r),
               rdr_last_record_end_offset := Some (cursor + n),
               rdr_last_record_segment_seq :=
                 Some (si_segment_seq (rdr_segments rd ! rdr_current_idx rd))\<rparr>"
        by (subst (asm) next_loop.simps)
          (auto simp: reader_record_def reader_corrupt_def Let_def
            split: sum.splits decode_outcome.splits wal_record_error.splits if_splits)
      from decode_one_consumes [OF dec] False Some cur show ?thesis
        by (simp add: rd' reader_left_def)
    qed
  qed
qed

text \<open>Running the iterator to its end: the yielded records, each with the segment and end offset
  the reader reports for it, then the error that stopped it, if any.\<close>

type_synonym wal_item = "wal_record \<times> u64 option \<times> nat option"

function reader_drain :: "crc_fn \<Rightarrow> wal_dir \<Rightarrow> wal_reader \<Rightarrow> wal_item list \<times> wal_read_error option \<times> wal_reader" where
  "reader_drain crc d rd =
     (case reader_next crc d rd of
        (None, rd') \<Rightarrow> ([], None, rd')
      | (Some (Inl e), rd') \<Rightarrow> ([], Some e, rd')
      | (Some (Inr r), rd') \<Rightarrow>
          let (items, e, rd'') = reader_drain crc d rd'
          in ((r, rdr_last_record_segment_seq rd', rdr_last_record_end_offset rd') # items, e, rd''))"
  by pat_completeness auto
termination
  by (relation "measure (\<lambda>(_, d, rd). reader_left d rd)")
    (auto simp: reader_next_def intro: next_loop_consumes [OF sym] split: if_splits)

declare reader_drain.simps [simp del]

section \<open>Reading from a given LSN\<close>

record iter_from =
  it_inner :: wal_reader
  it_start_lsn :: u64

fun drop_count :: "u64 \<Rightarrow> segment_info list \<Rightarrow> nat" where
  "drop_count start_lsn (a # b # infos) =
     (if si_starting_lsn b \<le> start_lsn then Suc (drop_count start_lsn (b # infos)) else 0)"
| "drop_count start_lsn _ = 0"

definition reader_iter_from :: "crc_fn \<Rightarrow> wal_dir \<Rightarrow> bytes \<Rightarrow> u64 \<Rightarrow> wal_read_error + iter_from" where
  "reader_iter_from crc d shard_uuid start_lsn =
     (case reader_open crc d shard_uuid of
        Inl e \<Rightarrow> Inl e
      | Inr rd \<Rightarrow>
          let infos = drop (drop_count start_lsn (rdr_segments rd)) (rdr_segments rd)
          in Inr \<lparr>it_inner = reader_start infos start_lsn, it_start_lsn = start_lsn\<rparr>)"

function iter_next :: "crc_fn \<Rightarrow> wal_dir \<Rightarrow> iter_from \<Rightarrow> (wal_read_error + wal_record) option \<times> iter_from" where
  "iter_next crc d it =
     (case reader_next crc d (it_inner it) of
        (None, rd') \<Rightarrow> (None, it\<lparr>it_inner := rd'\<rparr>)
      | (Some (Inl e), rd') \<Rightarrow> (Some (Inl e), it\<lparr>it_inner := rd'\<rparr>)
      | (Some (Inr r), rd') \<Rightarrow>
          if wr_lsn r < it_start_lsn it then iter_next crc d (it\<lparr>it_inner := rd'\<rparr>)
          else (Some (Inr r), it\<lparr>it_inner := rd'\<rparr>))"
  by pat_completeness auto
termination
  by (relation "measure (\<lambda>(_, d, it). reader_left d (it_inner it))")
    (auto simp: reader_next_def intro: next_loop_consumes [OF sym] split: if_splits)

declare iter_next.simps [simp del]

section \<open>Log images\<close>

text \<open>The bytes of a run of records, and runs numbered without a gap.\<close>

definition frame :: "crc_fn \<Rightarrow> wal_record \<Rightarrow> bytes" where
  "frame crc r = the (record_encode crc r)"

definition frames :: "crc_fn \<Rightarrow> wal_record list \<Rightarrow> bytes" where
  "frames crc rs = concat (map (frame crc) rs)"

definition fits :: "wal_record \<Rightarrow> bool" where
  "fits r \<longleftrightarrow> length (wr_payload r) \<le> 2 ^ 24"

fun numbered :: "u64 \<Rightarrow> wal_record list \<Rightarrow> bool" where
  "numbered l [] = True"
| "numbered l (r # rs) \<longleftrightarrow> wr_lsn r = l \<and> fits r \<and> numbered (l + 1) rs"

lemma frames_simps [simp]: "frames crc [] = []" "frames crc (r # rs) = frame crc r @ frames crc rs"
  by (simp_all add: frames_def)

lemma frames_append: "frames crc (rs @ ss) = frames crc rs @ frames crc ss"
  by (simp add: frames_def)

lemma record_encode_frame: "fits r \<Longrightarrow> record_encode crc r = Some (frame crc r)"
  using record_encode_total [of r crc] by (auto simp: frame_def fits_def)

lemma length_frame: "fits r \<Longrightarrow> length (frame crc r) = record_encoded_len r"
  using record_encode_frame length_record_encode by blast

lemma decode_frame:
  "fits r \<Longrightarrow> decode_one crc (frame crc r @ rest) = Inr (DecodedRecord r (record_encoded_len r))"
  using decode_one_encode [OF record_encode_frame] length_frame by metis

lemma numbered_append:
  "numbered l (rs @ ss) \<longleftrightarrow> numbered l rs \<and> numbered (l + of_nat (length rs)) ss"
  by (induction rs arbitrary: l) (auto simp: algebra_simps)

text \<open>The items a reader reports for a run of records that starts at a given offset.\<close>

fun items_at :: "u64 \<Rightarrow> nat \<Rightarrow> wal_record list \<Rightarrow> wal_item list" where
  "items_at seq off [] = []"
| "items_at seq off (r # rs) =
     (let off' = off + record_encoded_len r in (r, Some seq, Some off') # items_at seq off' rs)"

lemma map_fst_items_at [simp]: "map fst (items_at seq off rs) = rs"
  by (induction rs arbitrary: off) (simp_all add: Let_def)

definition reader_in :: "segment_info list \<Rightarrow> nat \<Rightarrow> bytes \<Rightarrow> nat \<Rightarrow> u64 \<Rightarrow> wal_reader \<Rightarrow> bool" where
  "reader_in infos i bs c l rd \<longleftrightarrow>
     rdr_segments rd = infos \<and> rdr_current_idx rd = i \<and> rdr_current rd = Some (bs, c) \<and>
     rdr_expected_next_lsn rd = l \<and> \<not> rdr_finished rd"

lemma next_yields:
  assumes "reader_in infos i bs c l rd" and "drop c bs = frame crc r @ rest" and "fits r" and "wr_lsn r = l"
  shows "\<exists>rd'. reader_next crc d rd = (Some (Inr r), rd') \<and>
    reader_in infos i bs (c + record_encoded_len r) (l + 1) rd' \<and>
    rdr_last_record_segment_seq rd' = Some (si_segment_seq (infos ! i)) \<and>
    rdr_last_record_end_offset rd' = Some (c + record_encoded_len r)"
proof -
  have "c < length bs"
    using assms(2,3) length_frame [of r crc]
    by (cases "c < length bs") (auto simp: record_encoded_len_def record_lens)
  then show ?thesis
    using assms decode_frame [OF assms(3), of crc rest]
    by (simp add: reader_next_def reader_in_def next_loop.simps [of crc d rd] reader_record_def Let_def)
qed

lemma drain_run:
  assumes "reader_in infos i bs c l rd" and "drop c bs = frames crc rs @ rest" and "numbered l rs"
  shows "\<exists>rd'. reader_in infos i bs (c + length (frames crc rs)) (l + of_nat (length rs)) rd' \<and>
    reader_drain crc d rd =
      (let (items, e, rd'') = reader_drain crc d rd'
       in (items_at (si_segment_seq (infos ! i)) c rs @ items, e, rd''))"
  using assms
proof (induction rs arbitrary: c l rd)
  case Nil
  then show ?case by (auto split: prod.split)
next
  case (Cons r rs)
  let ?c = "c + record_encoded_len r"
  obtain rd1 where step: "reader_next crc d rd = (Some (Inr r), rd1)"
    and in1: "reader_in infos i bs ?c (l + 1) rd1"
    and rep: "rdr_last_record_segment_seq rd1 = Some (si_segment_seq (infos ! i))"
      "rdr_last_record_end_offset rd1 = Some ?c"
    using next_yields [OF Cons.prems(1), of crc r "frames crc rs @ rest" d] Cons.prems(2,3) by auto
  have len: "length (frame crc r) = record_encoded_len r"
    using Cons.prems(3) by (simp add: length_frame)
  have "drop ?c bs = frames crc rs @ rest"
    using Cons.prems(2) len by (metis add.commute append.assoc append_eq_conv_conj drop_drop frames_simps(2))
  from Cons.IH [OF in1 this] Cons.prems(3) obtain rd' where
    "reader_in infos i bs (?c + length (frames crc rs)) (l + 1 + of_nat (length rs)) rd'"
    and "reader_drain crc d rd1 = (let (items, e, rd'') = reader_drain crc d rd'
       in (items_at (si_segment_seq (infos ! i)) ?c rs @ items, e, rd''))"
    by auto
  with step rep len show ?case
    by (intro exI [of _ rd']) (simp add: reader_drain.simps [of crc d rd] Let_def add.assoc
        split: prod.split)
qed

definition reader_before :: "segment_info list \<Rightarrow> nat \<Rightarrow> u64 \<Rightarrow> wal_reader \<Rightarrow> bool" where
  "reader_before infos i l rd \<longleftrightarrow>
     rdr_segments rd = infos \<and> rdr_current_idx rd = i \<and> rdr_current rd = None \<and>
     rdr_expected_next_lsn rd = l \<and> \<not> rdr_finished rd"

lemma drain_cong: "reader_next crc d rd = reader_next crc d rd' \<Longrightarrow> reader_drain crc d rd = reader_drain crc d rd'"
  by (simp add: reader_drain.simps [of crc d rd] reader_drain.simps [of crc d rd'])

lemma drain_load:
  assumes "reader_before infos i l rd" and "i < length infos"
    and "si_starting_lsn (infos ! i) = l" and "dir_read d (si_path (infos ! i)) = Some bs"
  shows "\<exists>rd'. reader_in infos i bs WAL_SEGMENT_HEADER_LEN l rd' \<and>
    reader_drain crc d rd = reader_drain crc d rd'"
  using assms
  by (intro exI [of _ "rd\<lparr>rdr_current := Some (bs, WAL_SEGMENT_HEADER_LEN)\<rparr>"] conjI drain_cong)
    (simp_all add: reader_before_def reader_in_def reader_next_def next_loop.simps [of crc d rd] Let_def)

lemma drain_leave:
  assumes "reader_in infos i bs c l rd" and "length bs \<le> c"
  shows "\<exists>rd'. reader_before infos (i + 1) l rd' \<and> reader_drain crc d rd = reader_drain crc d rd'"
  using assms
  by (intro exI [of _ "rd\<lparr>rdr_current := None, rdr_current_idx := i + 1\<rparr>"] conjI drain_cong)
    (simp_all add: reader_before_def reader_in_def reader_next_def next_loop.simps [of crc d rd])

lemma drain_end:
  assumes "reader_before infos i l rd" and "length infos \<le> i"
  shows "\<exists>rd'. reader_drain crc d rd = ([], None, rd') \<and> rdr_expected_next_lsn rd' = l \<and>
    rdr_segments rd' = infos"
  using assms
  by (simp add: reader_before_def reader_drain.simps [of crc d rd] reader_next_def
      next_loop.simps [of crc d rd])

definition is_record :: "wal_record_error + decode_outcome \<Rightarrow> bool" where
  "is_record out = (case out of Inr (DecodedRecord _ _) \<Rightarrow> True | _ \<Rightarrow> False)"

text \<open>What the reader makes of bytes at the end of the last segment that are not a record: a clean
  end, unless a record with an LSN it has not seen yet survives among them.\<close>

definition tail_verdict :: "crc_fn \<Rightarrow> u64 \<Rightarrow> u64 \<Rightarrow> bytes \<Rightarrow> wal_read_error option" where
  "tail_verdict crc seq l t =
     (if valid_record_survives_after crc t l then Some (MidSegmentCorruption seq) else None)"

lemma next_corrupt:
  assumes "reader_in infos i bs c l rd" and "c < length bs" and "\<not> is_record (decode_one crc (drop c bs))"
  shows "reader_next crc d rd = reader_corrupt crc (decode_one crc (drop c bs)) (drop c bs) rd"
  using assms
  by (auto simp: reader_in_def reader_next_def next_loop.simps [of crc d rd] is_record_def
      split: sum.splits decode_outcome.splits)

lemma drain_tail:
  assumes "reader_in infos i bs c l rd" and "length infos = i + 1"
    and "\<not> is_record (decode_one crc (drop c bs))"
  shows "\<exists>rd'. reader_drain crc d rd
      = ([], tail_verdict crc (si_segment_seq (infos ! i)) l (drop c bs), rd') \<and>
    rdr_expected_next_lsn rd' = l \<and> rdr_segments rd' = infos"
proof (cases "length bs \<le> c")
  case True
  with drain_leave [OF assms(1)] obtain rd' where
    "reader_before infos (i + 1) l rd'" and "reader_drain crc d rd = reader_drain crc d rd'"
    by blast
  with drain_end [of infos "i + 1" l rd' crc d] assms(2) True show ?thesis
    by (simp add: tail_verdict_def valid_record_survives_after_def)
next
  case False
  with assms next_corrupt [OF assms(1) _ assms(3), of d] show ?thesis
    by (simp add: reader_drain.simps [of crc d rd] reader_corrupt_def tail_verdict_def reader_in_def Let_def)
qed

fun log_from :: "crc_fn \<Rightarrow> wal_dir \<Rightarrow> bytes \<Rightarrow> u64 \<Rightarrow> (segment_info \<times> wal_record list) list \<Rightarrow> bool" where
  "log_from crc d tail l [] = True"
| "log_from crc d tail l ((info, rs) # segs) \<longleftrightarrow>
     si_starting_lsn info = l \<and> numbered l rs \<and>
     (\<exists>hdr. length hdr = WAL_SEGMENT_HEADER_LEN \<and>
        dir_read d (si_path info) = Some (hdr @ frames crc rs @ (if segs = [] then tail else []))) \<and>
     log_from crc d tail (l + of_nat (length rs)) segs"

definition log_items :: "(segment_info \<times> wal_record list) list \<Rightarrow> wal_item list" where
  "log_items segs =
     concat (map (\<lambda>(info, rs). items_at (si_segment_seq info) WAL_SEGMENT_HEADER_LEN rs) segs)"

definition log_records :: "(segment_info \<times> wal_record list) list \<Rightarrow> wal_record list" where
  "log_records segs = concat (map snd segs)"

lemma log_items_records: "map fst (log_items segs) = log_records segs"
  by (induction segs) (auto simp: log_items_def log_records_def)

lemma drop_Cons_nth:
  assumes "drop i xs = y # ys"
  shows "i < length xs" "xs ! i = y" "drop (i + 1) xs = ys"
proof -
  show i: "i < length xs" using assms by (cases "i < length xs") simp_all
  show "xs ! i = y" "drop (i + 1) xs = ys"
    using Cons_nth_drop_Suc [OF i] assms by simp_all
qed

lemma drain_log_with:
  assumes "reader_before infos i l rd" and "drop i infos = map fst segs" and "log_from crc d tail l segs"
    and "segs \<noteq> []" and "L = l + of_nat (length (log_records segs))"
    and tail: "\<And>i bs c rd. reader_in infos i bs c L rd \<Longrightarrow> length infos = i + 1 \<Longrightarrow> drop c bs = tail \<Longrightarrow>
      \<exists>rd'. reader_drain crc d rd = ([], V, rd') \<and> rdr_expected_next_lsn rd' = L \<and> rdr_segments rd' = infos"
  shows "\<exists>rd'. reader_drain crc d rd = (log_items segs, V, rd') \<and> rdr_expected_next_lsn rd' = L \<and>
    rdr_segments rd' = infos"
  using assms(1-5)
proof (induction segs arbitrary: i l rd)
  case (Cons seg segs)
  obtain info rs where seg: "seg = (info, rs)" by (cases seg)
  let ?t = "if segs = [] then tail else []" and ?l = "l + of_nat (length rs)"
  have i: "i < length infos" and info: "infos ! i = info" and rest: "drop (i + 1) infos = map fst segs"
    using drop_Cons_nth [of i infos info "map fst segs"] Cons.prems(2) by (simp_all add: seg)
  obtain hdr where hdr: "length hdr = WAL_SEGMENT_HEADER_LEN"
    and bs: "dir_read d (si_path info) = Some (hdr @ frames crc rs @ ?t)"
    and num: "numbered l rs" and start: "si_starting_lsn info = l" and log: "log_from crc d tail ?l segs"
    using Cons.prems(3) by (auto simp: seg)
  have L: "L = ?l + of_nat (length (log_records segs))"
    using Cons.prems(5) by (simp add: seg log_records_def add.assoc)
  obtain rd1 where in1: "reader_in infos i (hdr @ frames crc rs @ ?t) WAL_SEGMENT_HEADER_LEN l rd1"
    and eq1: "reader_drain crc d rd = reader_drain crc d rd1"
    using drain_load [OF Cons.prems(1) i, of d] bs start by (auto simp: info)
  let ?c = "WAL_SEGMENT_HEADER_LEN + length (frames crc rs)"
  obtain rd2 where in2: "reader_in infos i (hdr @ frames crc rs @ ?t) ?c ?l rd2"
    and eq2: "reader_drain crc d rd1 = (let (items, e, rd'') = reader_drain crc d rd2
       in (items_at (si_segment_seq info) WAL_SEGMENT_HEADER_LEN rs @ items, e, rd''))"
    using drain_run [OF in1 _ num, of crc ?t d] hdr by (auto simp: info)
  have rec: "\<exists>rd'. reader_drain crc d rd2 = (log_items segs, V, rd') \<and> rdr_expected_next_lsn rd' = L \<and>
    rdr_segments rd' = infos"
  proof (cases "segs = []")
    case True
    then have "length infos = i + 1" using i rest by simp
    with tail [of i "hdr @ frames crc rs @ ?t" ?c rd2] in2 True hdr L show ?thesis
      by (simp add: log_items_def log_records_def)
  next
    case False
    then obtain rd3 where "reader_before infos (i + 1) ?l rd3"
      and "reader_drain crc d rd2 = reader_drain crc d rd3"
      using drain_leave [OF in2, of crc d] hdr by auto
    with Cons.IH [of "i + 1" ?l rd3] rest log L False show ?thesis by simp
  qed
  then show ?case by (auto simp: eq1 eq2 seg log_items_def)
qed simp

lemma drain_log:
  assumes "reader_before infos i l rd" and "drop i infos = map fst segs" and "log_from crc d tail l segs"
    and "\<not> is_record (decode_one crc tail)" and "segs \<noteq> []"
  shows "\<exists>rd'. reader_drain crc d rd
      = (log_items segs, tail_verdict crc (si_segment_seq (fst (last segs)))
           (l + of_nat (length (log_records segs))) tail, rd') \<and>
    rdr_expected_next_lsn rd' = l + of_nat (length (log_records segs)) \<and> rdr_segments rd' = infos"
proof (rule drain_log_with [OF assms(1-3,5) refl])
  fix j bs c rd
  assume r: "reader_in infos j bs c (l + of_nat (length (log_records segs))) rd" "length infos = j + 1" "drop c bs = tail"
  have "last infos = fst (last segs)"
    using assms(2,5) by (metis last_drop last_map drop_all drop_eq_Nil list.map_disc_iff not_le)
  then have "infos ! j = fst (last segs)" using r(2) by (metis add_diff_cancel_right' last_conv_nth length_0_conv nat.simps(3) Suc_eq_plus1)
  then show "\<exists>rd'. reader_drain crc d rd = ([], tail_verdict crc (si_segment_seq (fst (last segs)))
      (l + of_nat (length (log_records segs))) tail, rd') \<and>
    rdr_expected_next_lsn rd' = l + of_nat (length (log_records segs)) \<and> rdr_segments rd' = infos"
    using drain_tail [OF r(1,2)] assms(4) r(3) by simp
qed

text \<open>A record at the very end of the log whose LSN is not the expected one.\<close>

lemma drain_wrong_lsn:
  assumes "reader_in infos i bs c l rd" and "drop c bs = frame crc r" and "fits r" and "wr_lsn r \<noteq> l"
  shows "\<exists>rd'. reader_drain crc d rd = ([], Some (LsnGap (si_segment_seq (infos ! i)) l (wr_lsn r)), rd') \<and>
    rdr_expected_next_lsn rd' = l \<and> rdr_segments rd' = infos"
proof -
  have "c < length bs"
    using assms(2,3) length_frame [of r crc]
    by (cases "c < length bs") (auto simp: record_encoded_len_def record_lens)
  then show ?thesis
    using assms decode_frame [OF assms(3), of crc "[]"]
    by (simp add: reader_drain.simps [of crc d rd] reader_next_def reader_in_def next_loop.simps [of crc d rd]
        reader_record_def Let_def)
qed

section \<open>Whatever is on disk, the records come out numbered without a gap\<close>

lemma next_loop_numbered:
  "next_loop crc d rd = (Some (Inr r), rd') \<Longrightarrow>
   wr_lsn r = rdr_expected_next_lsn rd \<and> fits r \<and> rdr_expected_next_lsn rd' = wr_lsn r + 1"
proof (induction crc d rd rule: next_loop.induct)
  case (1 crc d rd)
  have fit: "fits r" if "decode_one crc buf = Inr (DecodedRecord r n)" for buf n
    using decode_one_canonical [OF that] by (simp add: fits_def record_encode_Some)
  from "1.prems" show ?case
    by (subst (asm) next_loop.simps)
      (auto simp: Let_def reader_record_def reader_corrupt_def fit
        split: option.splits if_splits sum.splits decode_outcome.splits wal_record_error.splits
        dest!: "1.IH")
qed

lemma next_loop_stops:
  "next_loop crc d rd = (out, rd') \<Longrightarrow> \<forall>r. out \<noteq> Some (Inr r) \<Longrightarrow>
   rdr_expected_next_lsn rd' = rdr_expected_next_lsn rd \<and> rdr_finished rd'"
proof (induction crc d rd rule: next_loop.induct)
  case (1 crc d rd)
  from "1.prems" show ?case
    by (subst (asm) next_loop.simps)
      (auto simp: Let_def reader_record_def reader_corrupt_def
        split: option.splits if_splits sum.splits decode_outcome.splits wal_record_error.splits
        dest!: "1.IH")
qed

lemma drain_numbered:
  "reader_drain crc d rd = (items, e, rd') \<Longrightarrow>
   numbered (rdr_expected_next_lsn rd) (map fst items) \<and> rdr_finished rd' \<and>
   rdr_expected_next_lsn rd' = rdr_expected_next_lsn rd + of_nat (length items)"
proof (induction crc d rd arbitrary: items e rd' rule: reader_drain.induct)
  case (1 crc d rd)
  obtain out rd1 where out: "reader_next crc d rd = (out, rd1)" by force
  show ?case
  proof (cases "\<exists>r. out = Some (Inr r)")
    case True
    then obtain r where r: "out = Some (Inr r)" by blast
    obtain items' e' rd2 where rest: "reader_drain crc d rd1 = (items', e', rd2)"
      using prod_cases3 by blast
    have "next_loop crc d rd = (Some (Inr r), rd1)"
      using out r by (simp add: reader_next_def split: if_splits)
    note this = next_loop_numbered [OF this]
    moreover have "items = (r, rdr_last_record_segment_seq rd1, rdr_last_record_end_offset rd1) # items'"
      "rd' = rd2"
      using "1.prems" out r rest by (simp_all add: reader_drain.simps [of crc d rd])
    ultimately show ?thesis
      using "1.IH" [OF out [symmetric] r refl rest] by (simp add: algebra_simps)
  next
    case False
    then have "items = []" "rd' = rd1"
      using "1.prems" out
      by (auto simp: reader_drain.simps [of crc d rd] split: option.splits sum.splits)
    moreover have "rdr_finished rd1 \<and> rdr_expected_next_lsn rd1 = rdr_expected_next_lsn rd"
      using out False next_loop_stops [of crc d rd out rd1]
      by (auto simp: reader_next_def split: if_splits)
    ultimately show ?thesis by simp
  qed
qed

end
