(* ===== verification/Arena_Slot.thy ===== *)
theory Arena_Slot
  imports Wal_Record
begin

text \<open>
  Arena slots (\<open>brain-storage/src/arena/slot.rs\<close>): the 1600-byte slot with its vector and metadata,
  the flag bits, and the checksum over the vector and the first 40 metadata bytes. Vector
  components are \<open>f32\<close> bit patterns.
\<close>

section \<open>Layout\<close>

definition VECTOR_DIM :: nat where
  "VECTOR_DIM = 384"

definition VECTOR_BYTES :: nat where
  "VECTOR_BYTES = VECTOR_DIM * 4"

definition META_BYTES :: nat where
  "META_BYTES = 64"

definition SLOT_SIZE :: nat where
  "SLOT_SIZE = VECTOR_BYTES + META_BYTES"

definition META_OFFSET_IN_SLOT :: nat where
  "META_OFFSET_IN_SLOT = VECTOR_BYTES"

definition META_CRC_COVERAGE_END :: nat where
  "META_CRC_COVERAGE_END = 40"

lemmas slot_consts =
  VECTOR_DIM_def VECTOR_BYTES_def META_BYTES_def SLOT_SIZE_def META_OFFSET_IN_SLOT_def
  META_CRC_COVERAGE_END_def

definition OCCUPIED :: u32 where
  "OCCUPIED = push_bit 0 1"

definition TOMBSTONED :: u32 where
  "TOMBSTONED = push_bit 1 1"

definition PENDING_WRITE :: u32 where
  "PENDING_WRITE = push_bit 2 1"

definition HARD_FORGOTTEN :: u32 where
  "HARD_FORGOTTEN = push_bit 3 1"

definition RESERVED_MASK :: u32 where
  "RESERVED_MASK = NOT (OCCUPIED OR TOMBSTONED OR PENDING_WRITE OR HARD_FORGOTTEN)"

lemmas flag_defs = OCCUPIED_def TOMBSTONED_def PENDING_WRITE_def HARD_FORGOTTEN_def

record slot_meta =
  sm_slot_version :: u32
  sm_flags :: u32
  sm_embedding_model_fp_short :: bytes
  sm_created_at_unix_nanos :: u64
  sm_last_modified_at_unix_nanos :: u64
  sm_metadata_crc32c :: u32
  sm_reserved :: bytes

record slot =
  sl_vector :: "f32 list"
  sl_metadata :: slot_meta

definition wf_slot :: "slot \<Rightarrow> bool" where
  "wf_slot s \<longleftrightarrow> length (sl_vector s) = VECTOR_DIM \<and>
     length (sm_embedding_model_fp_short (sl_metadata s)) = 16 \<and> length (sm_reserved (sl_metadata s)) = 20"

text \<open>\<open>bytemuck::bytes_of\<close> and its inverse view of mapped bytes.\<close>

definition vector_bytes :: "f32 list \<Rightarrow> bytes" where
  "vector_bytes v = concat (map (le_bytes 4) v)"

fun vector_of_bytes :: "bytes \<Rightarrow> f32 list" where
  "vector_of_bytes (a # b # c # d # bs) = le_word [a, b, c, d] # vector_of_bytes bs"
| "vector_of_bytes _ = []"

definition meta_bytes :: "slot_meta \<Rightarrow> bytes" where
  "meta_bytes m =
     le_bytes 4 (sm_slot_version m) @ le_bytes 4 (sm_flags m) @ sm_embedding_model_fp_short m @
     le_bytes 8 (sm_created_at_unix_nanos m) @ le_bytes 8 (sm_last_modified_at_unix_nanos m) @
     le_bytes 4 (sm_metadata_crc32c m) @ sm_reserved m"

definition meta_of_bytes :: "bytes \<Rightarrow> slot_meta" where
  "meta_of_bytes bs =
     \<lparr>sm_slot_version = le_word (subslice bs 0 4), sm_flags = le_word (subslice bs 4 8),
      sm_embedding_model_fp_short = subslice bs 8 24,
      sm_created_at_unix_nanos = le_word (subslice bs 24 32),
      sm_last_modified_at_unix_nanos = le_word (subslice bs 32 40),
      sm_metadata_crc32c = le_word (subslice bs 40 44), sm_reserved = subslice bs 44 64\<rparr>"

definition slot_bytes :: "slot \<Rightarrow> bytes" where
  "slot_bytes s = vector_bytes (sl_vector s) @ meta_bytes (sl_metadata s)"

definition slot_of_bytes :: "bytes \<Rightarrow> slot" where
  "slot_of_bytes bs =
     \<lparr>sl_vector = vector_of_bytes (subslice bs 0 VECTOR_BYTES),
      sl_metadata = meta_of_bytes (subslice bs META_OFFSET_IN_SLOT SLOT_SIZE)\<rparr>"

section \<open>Operations\<close>

definition zeroed :: slot where
  "zeroed = \<lparr>sl_vector = replicate VECTOR_DIM 0,
     sl_metadata = \<lparr>sm_slot_version = 0, sm_flags = 0, sm_embedding_model_fp_short = replicate 16 0,
       sm_created_at_unix_nanos = 0, sm_last_modified_at_unix_nanos = 0, sm_metadata_crc32c = 0,
       sm_reserved = replicate 20 0\<rparr>\<rparr>"

definition is_occupied :: "slot \<Rightarrow> bool" where
  "is_occupied s \<longleftrightarrow> sm_flags (sl_metadata s) AND OCCUPIED \<noteq> 0"

definition is_tombstoned :: "slot \<Rightarrow> bool" where
  "is_tombstoned s \<longleftrightarrow> sm_flags (sl_metadata s) AND TOMBSTONED \<noteq> 0"

definition is_pending_write :: "slot \<Rightarrow> bool" where
  "is_pending_write s \<longleftrightarrow> sm_flags (sl_metadata s) AND PENDING_WRITE \<noteq> 0"

definition is_hard_forgotten :: "slot \<Rightarrow> bool" where
  "is_hard_forgotten s \<longleftrightarrow> sm_flags (sl_metadata s) AND HARD_FORGOTTEN \<noteq> 0"

definition update_meta :: "(slot_meta \<Rightarrow> slot_meta) \<Rightarrow> slot \<Rightarrow> slot" where
  "update_meta f s = s\<lparr>sl_metadata := f (sl_metadata s)\<rparr>"

definition set_flag :: "u32 \<Rightarrow> bool \<Rightarrow> slot \<Rightarrow> slot" where
  "set_flag bits on =
     update_meta (\<lambda>m. m\<lparr>sm_flags := (if on then sm_flags m OR bits else sm_flags m AND NOT bits)\<rparr>)"

text \<open>\<open>crc32c_append\<close> continues a checksum, so the two calls of the source hash the vector and the
  covered metadata prefix as one byte string.\<close>

definition compute_crc :: "crc_fn \<Rightarrow> slot \<Rightarrow> u32" where
  "compute_crc crc s =
     crc (subslice (slot_bytes s) 0 VECTOR_BYTES @
          subslice (slot_bytes s) META_OFFSET_IN_SLOT (META_OFFSET_IN_SLOT + META_CRC_COVERAGE_END))"

definition refresh_crc :: "crc_fn \<Rightarrow> slot \<Rightarrow> slot" where
  "refresh_crc crc s = update_meta (\<lambda>m. m\<lparr>sm_metadata_crc32c := compute_crc crc s\<rparr>) s"

definition slot_is_valid :: "crc_fn \<Rightarrow> slot \<Rightarrow> bool" where
  "slot_is_valid crc s \<longleftrightarrow> sm_metadata_crc32c (sl_metadata s) = compute_crc crc s"

section \<open>Layout lemmas\<close>

lemma length_vector_bytes [simp]: "length (vector_bytes v) = 4 * length v"
  by (induction v) (simp_all add: vector_bytes_def)

lemma vector_roundtrip [simp]: "vector_of_bytes (vector_bytes v) = v"
proof (induction v)
  case (Cons x v)
  have "le_bytes 4 x = [le_bytes 4 x ! 0, le_bytes 4 x ! 1, le_bytes 4 x ! 2, le_bytes 4 x ! 3]"
    by (rule nth_equalityI) (auto simp: less_Suc_eq numeral_eq_Suc)
  then obtain a b c d where x: "le_bytes 4 x = [a, b, c, d]" by blast
  then have "le_word [a, b, c, d] = x" using le_word_le_bytes_eqs(2) [of x] by simp
  with x Cons show ?case by (simp add: vector_bytes_def)
qed (simp add: vector_bytes_def)

lemma length_meta_bytes [simp]: "wf_slot s \<Longrightarrow> length (meta_bytes (sl_metadata s)) = 64"
  by (simp add: meta_bytes_def wf_slot_def)

lemma length_slot_bytes: "wf_slot s \<Longrightarrow> length (slot_bytes s) = SLOT_SIZE"
  by (simp add: slot_bytes_def slot_consts) (simp add: wf_slot_def VECTOR_DIM_def)

lemma meta_roundtrip: "wf_slot s \<Longrightarrow> meta_of_bytes (meta_bytes (sl_metadata s)) = sl_metadata s"
  by (simp add: meta_of_bytes_def meta_bytes_def wf_slot_def subslice_def)

lemma slot_bytes_vector: "wf_slot s \<Longrightarrow> subslice (slot_bytes s) 0 VECTOR_BYTES = vector_bytes (sl_vector s)"
  by (simp add: slot_bytes_def subslice_def slot_consts wf_slot_def)

lemma slot_bytes_meta:
  "wf_slot s \<Longrightarrow> subslice (slot_bytes s) META_OFFSET_IN_SLOT SLOT_SIZE = meta_bytes (sl_metadata s)"
  by (simp add: slot_bytes_def subslice_def slot_consts wf_slot_def meta_bytes_def)

lemma slot_bytes_roundtrip: "wf_slot s \<Longrightarrow> slot_of_bytes (slot_bytes s) = s"
  by (simp add: slot_of_bytes_def slot_bytes_vector slot_bytes_meta meta_roundtrip)

lemma slot_of_bytes_bytes:
  assumes "length bs = SLOT_SIZE"
  shows "slot_bytes (slot_of_bytes bs) = bs \<and> wf_slot (slot_of_bytes bs)"
proof -
  have v: "vector_bytes (vector_of_bytes cs) = cs \<and> length (vector_of_bytes cs) = n" if "length cs = 4 * n" for cs n
    using that
  proof (induction n arbitrary: cs)
    case (Suc n)
    then obtain a b c d ds where cs: "cs = a # b # c # d # ds" and "length ds = 4 * n"
      by (auto simp: numeral_eq_Suc length_Suc_conv)
    have "le_bytes 4 (le_word [a, b, c, d] :: u32) = [a, b, c, d]" by (rule le_bytes_le_word) simp_all
    with cs Suc.IH [of ds] \<open>length ds = 4 * n\<close> show ?case
      by (simp add: vector_bytes_def del: le_word.simps)
  qed (simp add: vector_bytes_def)
  let ?m = "subslice bs META_OFFSET_IN_SLOT SLOT_SIZE"
  have m: "length ?m = 64" using assms by (simp add: slot_consts)
  have "meta_bytes (meta_of_bytes ?m) = ?m"
  proof -
    have "subslice ?m i j @ subslice ?m j k = subslice ?m i k" if "i \<le> j" "j \<le> k" for i j k
      using that take_add [of "j - i" "k - j" "drop i ?m"] by (simp add: subslice_def)
    note join = this
    have "meta_bytes (meta_of_bytes ?m) =
        subslice ?m 0 4 @ subslice ?m 4 8 @ subslice ?m 8 24 @ subslice ?m 24 32 @ subslice ?m 32 40 @
        subslice ?m 40 44 @ subslice ?m 44 64"
      using m by (simp add: meta_bytes_def meta_of_bytes_def le_bytes_le_word)
    also have "\<dots> = subslice ?m 0 64" by (simp add: join)
    finally show ?thesis using m by simp
  qed
  moreover have "vector_bytes (vector_of_bytes (subslice bs 0 VECTOR_BYTES)) = subslice bs 0 VECTOR_BYTES"
    and "length (vector_of_bytes (subslice bs 0 VECTOR_BYTES)) = VECTOR_DIM"
    using v [of "subslice bs 0 VECTOR_BYTES" VECTOR_DIM] assms by (simp_all add: slot_consts)
  moreover have "subslice bs 0 VECTOR_BYTES @ ?m = bs"
    using assms by (simp add: subslice_def slot_consts)
  ultimately show ?thesis
    using m by (simp add: slot_bytes_def slot_of_bytes_def wf_slot_def meta_of_bytes_def)
qed

section \<open>Flags and checksum\<close>

lemma update_meta_fields [simp]:
  "sl_vector (update_meta f s) = sl_vector s" "sl_metadata (update_meta f s) = f (sl_metadata s)"
  by (simp_all add: update_meta_def)

lemma refresh_crc_fields [simp]:
  "sl_vector (refresh_crc crc s) = sl_vector s"
  "sm_flags (sl_metadata (refresh_crc crc s)) = sm_flags (sl_metadata s)"
  "sm_slot_version (sl_metadata (refresh_crc crc s)) = sm_slot_version (sl_metadata s)"
  "is_occupied (refresh_crc crc s) = is_occupied s"
  "is_tombstoned (refresh_crc crc s) = is_tombstoned s"
  "is_pending_write (refresh_crc crc s) = is_pending_write s"
  "is_hard_forgotten (refresh_crc crc s) = is_hard_forgotten s"
  by (simp_all add: refresh_crc_def is_occupied_def is_tombstoned_def is_pending_write_def is_hard_forgotten_def)

lemma set_flag_fields [simp]:
  "sl_vector (set_flag bits on s) = sl_vector s"
  "sm_slot_version (sl_metadata (set_flag bits on s)) = sm_slot_version (sl_metadata s)"
  by (simp_all add: set_flag_def)

lemma flag_bit: "w AND push_bit n 1 \<noteq> 0 \<longleftrightarrow> bit w n" if "n < 32" for w :: u32
proof -
  have "w AND push_bit n 1 = 0 \<longleftrightarrow> (\<forall>i < 32. \<not> bit (w AND push_bit n 1) i)"
    by (simp add: bit_eq_iff)
  also have "\<dots> \<longleftrightarrow> \<not> bit w n"
    using that by (auto simp: bit_and_iff bit_exp_iff)
  finally show ?thesis by simp
qed

lemma is_flag_bits:
  "is_occupied s \<longleftrightarrow> bit (sm_flags (sl_metadata s)) 0" "is_tombstoned s \<longleftrightarrow> bit (sm_flags (sl_metadata s)) 1"
  "is_pending_write s \<longleftrightarrow> bit (sm_flags (sl_metadata s)) 2" "is_hard_forgotten s \<longleftrightarrow> bit (sm_flags (sl_metadata s)) 3"
  unfolding is_occupied_def is_tombstoned_def is_pending_write_def is_hard_forgotten_def flag_defs
  by (simp_all only: flag_bit)

lemma bit_flag_consts:
  "bit OCCUPIED n \<longleftrightarrow> n = 0" "bit TOMBSTONED n \<longleftrightarrow> n = 1" "bit PENDING_WRITE n \<longleftrightarrow> n = 2"
  "bit HARD_FORGOTTEN n \<longleftrightarrow> n = 3"
  unfolding flag_defs bit_push_bit_iff bit_1_iff by (auto simp: bit_1_iff)

lemma bit_set_flag:
  "bit (sm_flags (sl_metadata (set_flag bits on s))) n \<longleftrightarrow>
     n < 32 \<and> (if bit bits n then on else bit (sm_flags (sl_metadata s)) n)"
  by (auto simp: set_flag_def bit_or_iff bit_and_iff bit_not_iff dest: bit_imp_le_length)

lemma wf_slot_ops [simp]:
  "wf_slot (set_flag bits on s) = wf_slot s" "wf_slot (refresh_crc crc s) = wf_slot s"
  by (simp_all add: wf_slot_def set_flag_def refresh_crc_def)

lemma wf_zeroed [simp]: "wf_slot zeroed"
  by (simp add: wf_slot_def zeroed_def)

text \<open>The bytes the checksum covers, and that they do not include the checksum.\<close>

definition covered_bytes :: "slot \<Rightarrow> bytes" where
  "covered_bytes s = vector_bytes (sl_vector s) @ take 40 (meta_bytes (sl_metadata s))"

lemma compute_crc_covered: "wf_slot s \<Longrightarrow> compute_crc crc s = crc (covered_bytes s)"
  by (simp add: compute_crc_def covered_bytes_def slot_bytes_vector)
    (simp add: slot_bytes_def subslice_def slot_consts wf_slot_def)

lemma compute_crc_ignores_crc [simp]:
  "wf_slot s \<Longrightarrow> compute_crc crc (update_meta (\<lambda>m. m\<lparr>sm_metadata_crc32c := c\<rparr>) s) = compute_crc crc s"
proof -
  assume wf: "wf_slot s"
  then have "wf_slot (update_meta (\<lambda>m. m\<lparr>sm_metadata_crc32c := c\<rparr>) s)" by (simp add: wf_slot_def)
  with wf show ?thesis
    by (simp add: compute_crc_covered covered_bytes_def) (simp add: meta_bytes_def wf_slot_def)
qed

lemma refresh_crc_valid: "wf_slot s \<Longrightarrow> slot_is_valid crc (refresh_crc crc s)"
  by (simp add: slot_is_valid_def refresh_crc_def)

text \<open>Validity read off the bytes of a slot.\<close>

lemma slot_is_valid_bytes:
  assumes "wf_slot s"
  shows "slot_is_valid crc s \<longleftrightarrow> le_word (subslice (slot_bytes s) 1576 1580) = crc (take 1576 (slot_bytes s))"
proof -
  have v: "length (vector_bytes (sl_vector s)) = 1536" using assms by (simp add: wf_slot_def VECTOR_DIM_def)
  then have "covered_bytes s = take 1576 (slot_bytes s)" by (simp add: covered_bytes_def slot_bytes_def)
  moreover have "subslice (slot_bytes s) 1576 1580 = le_bytes 4 (sm_metadata_crc32c (sl_metadata s))"
    using assms v by (simp add: slot_bytes_def subslice_def meta_bytes_def wf_slot_def)
  ultimately show ?thesis
    using assms by (simp add: slot_is_valid_def compute_crc_covered)
qed

lemma slot_damage_covered:
  assumes crc: "detects_single_byte crc" and wf: "wf_slot s" and valid: "slot_is_valid crc s"
    and i: "i < SLOT_SIZE" and b: "b \<noteq> slot_bytes s ! i"
  shows "slot_is_valid crc (slot_of_bytes ((slot_bytes s)[i := b])) \<longleftrightarrow> 1580 \<le> i"
proof -
  let ?bs = "slot_bytes s" and ?ds = "(slot_bytes s)[i := b]"
  have len: "length ?bs = 1600" using length_slot_bytes [OF wf] by (simp add: slot_consts)
  then have ds: "slot_bytes (slot_of_bytes ?ds) = ?ds" "wf_slot (slot_of_bytes ?ds)"
    using slot_of_bytes_bytes [of ?ds] by (simp_all add: slot_consts)
  have stored: "le_word (subslice ?bs 1576 1580) = crc (take 1576 ?bs)"
    using valid wf by (simp add: slot_is_valid_bytes)
  consider (body) "i < 1576" | (sum) "1576 \<le> i" "i < 1580" | (rest) "1580 \<le> i" by linarith
  then have "le_word (subslice ?ds 1576 1580) = crc (take 1576 ?ds) \<longleftrightarrow> 1580 \<le> i"
  proof cases
    case body
    then have "take 1576 ?ds = (take 1576 ?bs)[i := b]" by (simp add: take_update_swap)
    moreover have "crc ((take 1576 ?bs)[i := b]) \<noteq> crc (take 1576 ?bs)"
      using crc body b len by (simp add: detects_single_byte_def)
    ultimately show ?thesis
      using body stored by (simp add: subslice_update_outside)
  next
    case sum
    have "subslice ?ds 1576 1580 = (subslice ?bs 1576 1580)[i - 1576 := b]"
      using sum by (simp add: subslice_def drop_update_swap take_update_swap)
    moreover have "(subslice ?bs 1576 1580)[i - 1576 := b] ! (i - 1576) = b" using sum len by simp
    moreover have "subslice ?bs 1576 1580 ! (i - 1576) = ?bs ! i"
      using sum len nth_subslice [of "i - 1576" 1580 1576 ?bs] by simp
    ultimately have "subslice ?ds 1576 1580 \<noteq> subslice ?bs 1576 1580" using b by auto
    then have "le_word (subslice ?ds 1576 1580) \<noteq> (le_word (subslice ?bs 1576 1580) :: u32)"
      using le_bytes_le_word [of "subslice ?ds 1576 1580" 4, where ?'a = 32]
        le_bytes_le_word [of "subslice ?bs 1576 1580" 4, where ?'a = 32] len by auto
    with sum stored show ?thesis by simp
  next
    case rest
    with stored show ?thesis by (simp add: subslice_update_outside)
  qed
  then show ?thesis using ds by (simp add: slot_is_valid_bytes)
qed

section \<open>Properties\<close>

text \<open>Slot checksum. Take a slot whose checksum is fresh and change any one of its 1600 bytes:
  the slot is then invalid, unless the byte is one of the 20 reserved ones at the end, which the
  checksum does not cover.\<close>

theorem slot_damage_detected:
  assumes "detects_single_byte crc" and "wf_slot s" and "i < SLOT_SIZE"
    and "b \<noteq> slot_bytes (refresh_crc crc s) ! i"
  shows "slot_is_valid crc (slot_of_bytes ((slot_bytes (refresh_crc crc s))[i := b])) \<longleftrightarrow> 1580 \<le> i"
  using assms by (intro slot_damage_covered) (simp_all add: refresh_crc_valid)

theorem slot_damage_detected_witness:
  "\<exists>b. \<not> slot_is_valid sum_crc (slot_of_bytes ((slot_bytes (refresh_crc sum_crc zeroed))[700 := b]))"
proof -
  obtain b :: u8 where b: "b \<noteq> slot_bytes (refresh_crc sum_crc zeroed) ! 700" by (metis zero_neq_one)
  then show ?thesis
    using slot_damage_detected [OF sum_crc_detects wf_zeroed, of 700 b] by (auto simp: slot_consts)
qed

text \<open>Slot layout. The 1600 mapped bytes and the slot they are read as determine each other.\<close>

theorem slot_layout_roundtrip:
  "(wf_slot s \<longrightarrow> length (slot_bytes s) = SLOT_SIZE \<and> slot_of_bytes (slot_bytes s) = s) \<and>
   (length bs = SLOT_SIZE \<longrightarrow> wf_slot (slot_of_bytes bs) \<and> slot_bytes (slot_of_bytes bs) = bs)"
  using slot_of_bytes_bytes by (simp add: slot_bytes_roundtrip length_slot_bytes)

theorem slot_layout_roundtrip_witness:
  "slot_of_bytes (slot_bytes zeroed) = zeroed \<and>
   slot_bytes (slot_of_bytes (replicate SLOT_SIZE 7)) = replicate SLOT_SIZE 7"
  using slot_layout_roundtrip [of zeroed "replicate SLOT_SIZE 7"] by simp

end
