(* ===== verification/Arena_File.thy ===== *)
theory Arena_File
  imports Arena_Slot
begin

text \<open>
  The arena file (\<open>brain-storage/src/arena/file.rs\<close>): a 4096-byte header followed by slots. The
  mapping is shared, so the mapped bytes and the file content are one byte string. The outcomes of
  \<open>fallocate\<close>, \<open>mmap\<close>, \<open>mremap\<close> and \<open>msync\<close> are arguments; a panic on an index out of range is
  \<open>None\<close>.
\<close>

section \<open>Header\<close>

definition ARENA_HEADER_LEN :: nat where
  "ARENA_HEADER_LEN = 4096"

definition HEADER_MAGIC :: bytes where
  "HEADER_MAGIC = [0x42, 0x41, 0x52, 0x4e]"

definition FORMAT_VERSION_V1 :: u32 where
  "FORMAT_VERSION_V1 = 1"

definition VECTOR_DIM_V1 :: u32 where
  "VECTOR_DIM_V1 = 384"

definition SLOT_SIZE_V1 :: u32 where
  "SLOT_SIZE_V1 = 1600"

definition HEADER_CRC_COVERAGE_END :: nat where
  "HEADER_CRC_COVERAGE_END = 80"

definition DEFAULT_INITIAL_CAPACITY_SLOTS :: u64 where
  "DEFAULT_INITIAL_CAPACITY_SLOTS = 1024"

lemmas arena_consts =
  ARENA_HEADER_LEN_def HEADER_MAGIC_def FORMAT_VERSION_V1_def VECTOR_DIM_V1_def SLOT_SIZE_V1_def
  HEADER_CRC_COVERAGE_END_def

record header_raw =
  hr_magic :: bytes
  hr_format_version :: u32
  hr_shard_uuid :: bytes
  hr_vector_dim :: u32
  hr_slot_size :: u32
  hr_slot_count_capacity :: u64
  hr_slot_count_in_use :: u64
  hr_embedding_model_fp_active :: bytes
  hr_created_at_unix_nanos :: u64
  hr_last_grow_at_unix_nanos :: u64
  hr_header_crc32c :: u32
  hr_reserved :: bytes

definition wf_header :: "header_raw \<Rightarrow> bool" where
  "wf_header h \<longleftrightarrow> length (hr_magic h) = 4 \<and> length (hr_shard_uuid h) = 16 \<and>
     length (hr_embedding_model_fp_active h) = 16 \<and> length (hr_reserved h) = 4012"

definition header_bytes :: "header_raw \<Rightarrow> bytes" where
  "header_bytes h =
     hr_magic h @ le_bytes 4 (hr_format_version h) @ hr_shard_uuid h @ le_bytes 4 (hr_vector_dim h) @
     le_bytes 4 (hr_slot_size h) @ le_bytes 8 (hr_slot_count_capacity h) @
     le_bytes 8 (hr_slot_count_in_use h) @ hr_embedding_model_fp_active h @
     le_bytes 8 (hr_created_at_unix_nanos h) @ le_bytes 8 (hr_last_grow_at_unix_nanos h) @
     le_bytes 4 (hr_header_crc32c h) @ hr_reserved h"

definition header_of_bytes :: "bytes \<Rightarrow> header_raw" where
  "header_of_bytes bs =
     \<lparr>hr_magic = subslice bs 0 4, hr_format_version = le_word (subslice bs 4 8),
      hr_shard_uuid = subslice bs 8 24, hr_vector_dim = le_word (subslice bs 24 28),
      hr_slot_size = le_word (subslice bs 28 32), hr_slot_count_capacity = le_word (subslice bs 32 40),
      hr_slot_count_in_use = le_word (subslice bs 40 48), hr_embedding_model_fp_active = subslice bs 48 64,
      hr_created_at_unix_nanos = le_word (subslice bs 64 72),
      hr_last_grow_at_unix_nanos = le_word (subslice bs 72 80),
      hr_header_crc32c = le_word (subslice bs 80 84), hr_reserved = subslice bs 84 4096\<rparr>"

definition compute_header_crc :: "crc_fn \<Rightarrow> header_raw \<Rightarrow> u32" where
  "compute_header_crc crc h = crc (subslice (header_bytes h) 0 HEADER_CRC_COVERAGE_END)"

section \<open>State\<close>

datatype arena_open_error =
    ArenaIo
  | InitialCapacityZero
  | FileTooSmall nat
  | InvalidMagic bytes
  | UnsupportedFormatVersion u32
  | BadVectorDim u32
  | BadSlotSize u32
  | HeaderCrcMismatch u32 u32
  | ShardUuidMismatch bytes bytes
  | FileSizeInconsistent u64 nat
  | MmapFailed
  | FallocateFailed

datatype arena_grow_error =
    ShrinkRequested u64 u64
  | GrowFallocateFailed
  | MremapFailed
  | MsyncFailed

record arena_io =
  fallocate_ok :: bool
  mmap_ok :: bool
  msync_ok :: bool

record arena_file =
  ar_file :: bytes
  ar_file_size :: nat
  ar_capacity_slots :: u64
  ar_shard_uuid :: bytes

text \<open>\<open>HEADER_LEN + capacity * SLOT_SIZE\<close> in 64-bit arithmetic.\<close>

definition arena_size :: "u64 \<Rightarrow> u64" where
  "arena_size capacity_slots = of_nat ARENA_HEADER_LEN + capacity_slots * of_nat SLOT_SIZE"

text \<open>\<open>fallocate\<close> with mode 0 extends a shorter file with zeros.\<close>

definition fallocate :: "bytes \<Rightarrow> nat \<Rightarrow> bytes" where
  "fallocate file n = file @ replicate (n - length file) 0"

section \<open>Opening\<close>

definition new_header :: "crc_fn \<Rightarrow> u64 \<Rightarrow> bytes \<Rightarrow> u64 \<Rightarrow> header_raw" where
  "new_header crc now shard_uuid initial_capacity_slots =
     (let h = \<lparr>hr_magic = HEADER_MAGIC, hr_format_version = FORMAT_VERSION_V1,
               hr_shard_uuid = shard_uuid, hr_vector_dim = VECTOR_DIM_V1, hr_slot_size = SLOT_SIZE_V1,
               hr_slot_count_capacity = initial_capacity_slots, hr_slot_count_in_use = 0,
               hr_embedding_model_fp_active = replicate 16 0, hr_created_at_unix_nanos = now,
               hr_last_grow_at_unix_nanos = 0, hr_header_crc32c = 0, hr_reserved = replicate 4012 0\<rparr>
      in h\<lparr>hr_header_crc32c := compute_header_crc crc h\<rparr>)"

text \<open>The operations return the result and the file content left on disk.\<close>

definition arena_create_new ::
    "crc_fn \<Rightarrow> u64 \<Rightarrow> arena_io \<Rightarrow> bytes \<Rightarrow> bytes \<Rightarrow> u64 \<Rightarrow> (arena_open_error + arena_file) \<times> bytes" where
  "arena_create_new crc now io file shard_uuid initial_capacity_slots =
     (let file_size = unat (arena_size initial_capacity_slots)
      in if \<not> fallocate_ok io then (Inl FallocateFailed, file)
         else
           let mapped = fallocate file file_size
           in if \<not> mmap_ok io then (Inl MmapFailed, mapped)
              else
                let content = header_bytes (new_header crc now shard_uuid initial_capacity_slots)
                      @ drop ARENA_HEADER_LEN mapped
                in if \<not> msync_ok io then (Inl ArenaIo, content)
                   else (Inr \<lparr>ar_file = content, ar_file_size = file_size,
                              ar_capacity_slots = initial_capacity_slots, ar_shard_uuid = shard_uuid\<rparr>, content))"

definition arena_open_existing :: "crc_fn \<Rightarrow> arena_io \<Rightarrow> bytes \<Rightarrow> bytes \<Rightarrow> arena_open_error + arena_file" where
  "arena_open_existing crc io file expected_shard_uuid =
     (if length file < ARENA_HEADER_LEN then Inl (FileTooSmall (length file))
      else if \<not> mmap_ok io then Inl MmapFailed
      else
        let h = header_of_bytes (take ARENA_HEADER_LEN file); stored_crc = hr_header_crc32c h;
            actual_crc = compute_header_crc crc h; capacity_slots = hr_slot_count_capacity h
        in if hr_magic h \<noteq> HEADER_MAGIC then Inl (InvalidMagic (hr_magic h))
           else if stored_crc \<noteq> actual_crc then Inl (HeaderCrcMismatch stored_crc actual_crc)
           else if hr_format_version h \<noteq> FORMAT_VERSION_V1
             then Inl (UnsupportedFormatVersion (hr_format_version h))
           else if hr_vector_dim h \<noteq> VECTOR_DIM_V1 then Inl (BadVectorDim (hr_vector_dim h))
           else if hr_slot_size h \<noteq> SLOT_SIZE_V1 then Inl (BadSlotSize (hr_slot_size h))
           else if hr_shard_uuid h \<noteq> expected_shard_uuid
             then Inl (ShardUuidMismatch expected_shard_uuid (hr_shard_uuid h))
           else if of_nat (length file) \<noteq> arena_size capacity_slots
             then Inl (FileSizeInconsistent capacity_slots (length file))
           else Inr \<lparr>ar_file = file, ar_file_size = length file, ar_capacity_slots = capacity_slots,
                     ar_shard_uuid = hr_shard_uuid h\<rparr>)"

definition arena_open ::
    "crc_fn \<Rightarrow> u64 \<Rightarrow> arena_io \<Rightarrow> bytes \<Rightarrow> bytes \<Rightarrow> u64 \<Rightarrow> (arena_open_error + arena_file) \<times> bytes" where
  "arena_open crc now io file shard_uuid initial_capacity_slots =
     (if initial_capacity_slots = 0 then (Inl InitialCapacityZero, file)
      else if file = [] then arena_create_new crc now io file shard_uuid initial_capacity_slots
      else (arena_open_existing crc io file shard_uuid, file))"

section \<open>Slots\<close>

definition slot_offset :: "u64 \<Rightarrow> nat" where
  "slot_offset idx = ARENA_HEADER_LEN + unat idx * SLOT_SIZE"

definition arena_slot :: "u64 \<Rightarrow> arena_file \<Rightarrow> slot option" where
  "arena_slot idx a =
     (if idx < ar_capacity_slots a
      then Some (slot_of_bytes (subslice (ar_file a) (slot_offset idx) (slot_offset idx + SLOT_SIZE)))
      else None)"

text \<open>\<open>slot_mut\<close> followed by a mutation through the returned reference.\<close>

definition put_slot :: "u64 \<Rightarrow> slot \<Rightarrow> arena_file \<Rightarrow> arena_file" where
  "put_slot idx s a = a\<lparr>ar_file := take (slot_offset idx) (ar_file a) @ slot_bytes s @
     drop (slot_offset idx + SLOT_SIZE) (ar_file a)\<rparr>"

definition slot_mut :: "u64 \<Rightarrow> (slot \<Rightarrow> slot) \<Rightarrow> arena_file \<Rightarrow> arena_file option" where
  "slot_mut idx f a = map_option (\<lambda>s. put_slot idx (f s) a) (arena_slot idx a)"

definition hard_forget_slot :: "crc_fn \<Rightarrow> u64 \<Rightarrow> u32 \<Rightarrow> arena_file \<Rightarrow> bool \<times> arena_file" where
  "hard_forget_slot crc slot_idx expected_version a =
     (case arena_slot slot_idx a of
        None \<Rightarrow> (False, a)
      | Some s \<Rightarrow>
          if \<not> is_occupied s \<or> sm_slot_version (sl_metadata s) \<noteq> expected_version then (False, a)
          else (True, put_slot slot_idx (refresh_crc crc
                 (set_flag (TOMBSTONED OR HARD_FORGOTTEN) True (s\<lparr>sl_vector := replicate VECTOR_DIM 0\<rparr>))) a))"

section \<open>Growing\<close>

definition grown_header :: "crc_fn \<Rightarrow> u64 \<Rightarrow> u64 \<Rightarrow> header_raw \<Rightarrow> header_raw" where
  "grown_header crc now new_capacity_slots h =
     (let h' = h\<lparr>hr_slot_count_capacity := new_capacity_slots, hr_last_grow_at_unix_nanos := now\<rparr>
      in h'\<lparr>hr_header_crc32c := compute_header_crc crc h'\<rparr>)"

definition grow_to :: "crc_fn \<Rightarrow> u64 \<Rightarrow> arena_io \<Rightarrow> u64 \<Rightarrow> arena_file \<Rightarrow> (arena_grow_error + unit) \<times> arena_file" where
  "grow_to crc now io new_capacity_slots a =
     (if new_capacity_slots = ar_capacity_slots a then (Inr (), a)
      else if new_capacity_slots < ar_capacity_slots a
        then (Inl (ShrinkRequested (ar_capacity_slots a) new_capacity_slots), a)
      else
        let new_file_size = unat (arena_size new_capacity_slots)
        in if \<not> fallocate_ok io then (Inl GrowFallocateFailed, a)
           else
             let file = fallocate (ar_file a) new_file_size
             in if \<not> mmap_ok io then (Inl MremapFailed, a\<lparr>ar_file := file\<rparr>)
                else
                  let h = header_of_bytes (take ARENA_HEADER_LEN file);
                      a' = a\<lparr>ar_file := header_bytes (grown_header crc now new_capacity_slots h)
                               @ drop ARENA_HEADER_LEN file,
                             ar_file_size := new_file_size, ar_capacity_slots := new_capacity_slots\<rparr>
                  in (if msync_ok io then Inr () else Inl MsyncFailed, a'))"

section \<open>Layout lemmas\<close>

lemma length_header_bytes: "wf_header h \<Longrightarrow> length (header_bytes h) = 4096"
  by (simp add: header_bytes_def wf_header_def)

lemma header_roundtrip: "wf_header h \<Longrightarrow> header_of_bytes (header_bytes h) = h"
  by (simp add: header_of_bytes_def header_bytes_def wf_header_def subslice_def)

lemma wf_new_header: "length uuid = 16 \<Longrightarrow> wf_header (new_header crc now uuid cap)"
  by (simp add: wf_header_def new_header_def Let_def HEADER_MAGIC_def)

lemma wf_grown_header: "wf_header h \<Longrightarrow> wf_header (grown_header crc now cap h)"
  by (simp add: wf_header_def grown_header_def Let_def)

lemma header_crc_ignores_crc:
  "wf_header h \<Longrightarrow> compute_header_crc crc (h\<lparr>hr_header_crc32c := c\<rparr>) = compute_header_crc crc h"
  by (simp add: compute_header_crc_def header_bytes_def wf_header_def subslice_def HEADER_CRC_COVERAGE_END_def)

lemma unat_arena_size:
  assumes "ARENA_HEADER_LEN + SLOT_SIZE * unat cap < 2 ^ 64"
  shows "unat (arena_size cap) = ARENA_HEADER_LEN + SLOT_SIZE * unat cap"
proof -
  have "arena_size cap = of_nat (ARENA_HEADER_LEN + SLOT_SIZE * unat cap)"
    by (simp add: arena_size_def)
  then show ?thesis using unat_of_nat_u64 [OF assms] by (simp only:)
qed

lemma length_fallocate [simp]: "length (fallocate file n) = max (length file) n"
  by (simp add: fallocate_def)

section \<open>The invariant of an open arena\<close>

definition header_valid :: "crc_fn \<Rightarrow> header_raw \<Rightarrow> bytes \<Rightarrow> u64 \<Rightarrow> bool" where
  "header_valid crc h uuid cap \<longleftrightarrow>
     hr_magic h = HEADER_MAGIC \<and> hr_header_crc32c h = compute_header_crc crc h \<and>
     hr_format_version h = FORMAT_VERSION_V1 \<and> hr_vector_dim h = VECTOR_DIM_V1 \<and>
     hr_slot_size h = SLOT_SIZE_V1 \<and> hr_shard_uuid h = uuid \<and> hr_slot_count_capacity h = cap"

definition arena_ok :: "crc_fn \<Rightarrow> arena_file \<Rightarrow> bool" where
  "arena_ok crc a \<longleftrightarrow>
     length (ar_file a) = ARENA_HEADER_LEN + SLOT_SIZE * unat (ar_capacity_slots a) \<and>
     ar_file_size a = length (ar_file a) \<and>
     ARENA_HEADER_LEN + SLOT_SIZE * unat (ar_capacity_slots a) < 2 ^ 63 \<and>
     header_valid crc (header_of_bytes (take ARENA_HEADER_LEN (ar_file a))) (ar_shard_uuid a) (ar_capacity_slots a)"

lemma header_valid_new:
  "length uuid = 16 \<Longrightarrow> header_valid crc (new_header crc now uuid cap) uuid cap"
proof -
  assume "length uuid = 16"
  then have "wf_header (new_header crc now uuid cap)" by (rule wf_new_header)
  then show ?thesis
    using header_crc_ignores_crc [of "new_header crc now uuid cap" crc 0]
    by (simp add: header_valid_def new_header_def Let_def)
qed

lemma header_valid_grown:
  assumes "wf_header h" and "header_valid crc h uuid cap"
  shows "header_valid crc (grown_header crc now new h) uuid new"
proof -
  let ?h = "h\<lparr>hr_slot_count_capacity := new, hr_last_grow_at_unix_nanos := now\<rparr>"
  have "wf_header ?h" using assms(1) by (simp add: wf_header_def)
  from header_crc_ignores_crc [OF this] assms(2) show ?thesis
    by (simp add: header_valid_def grown_header_def Let_def)
qed

lemma wf_header_of_bytes: "length bs = 4096 \<Longrightarrow> wf_header (header_of_bytes bs)"
  by (simp add: wf_header_def header_of_bytes_def)

lemma open_existing_ok:
  assumes "arena_ok crc a" and "mmap_ok io"
  shows "arena_open_existing crc io (ar_file a) (ar_shard_uuid a) = Inr a"
proof -
  let ?cap = "ar_capacity_slots a"
  have len: "length (ar_file a) = ARENA_HEADER_LEN + SLOT_SIZE * unat ?cap" and size: "ar_file_size a = length (ar_file a)"
    using assms(1) by (simp_all add: arena_ok_def)
  have "of_nat (length (ar_file a)) = arena_size ?cap" by (simp add: len arena_size_def)
  moreover have "\<not> length (ar_file a) < ARENA_HEADER_LEN" using len by simp
  moreover have "header_valid crc (header_of_bytes (take ARENA_HEADER_LEN (ar_file a))) (ar_shard_uuid a) ?cap"
    using assms(1) by (simp add: arena_ok_def)
  ultimately show ?thesis
    using assms(2) size unfolding arena_open_existing_def header_valid_def Let_def by simp
qed

section \<open>Slots as an array\<close>

lemma subslice_replace_same:
  "length pre = off \<Longrightarrow> length mid = n \<Longrightarrow> subslice (pre @ mid @ post) off (off + n) = mid"
  by (simp add: subslice_def)

lemma subslice_replace_before:
  "hi \<le> off \<Longrightarrow> off \<le> length xs \<Longrightarrow> subslice (take off xs @ ys) lo hi = subslice xs lo hi"
  by (simp add: subslice_append_left subslice_take)

lemma subslice_replace_after:
  "off + n \<le> lo \<Longrightarrow> off + n \<le> length xs \<Longrightarrow> length mid = n \<Longrightarrow>
   subslice (take off xs @ mid @ drop (off + n) xs) lo hi = subslice xs lo hi"
  unfolding subslice_def drop_append length_take by simp

text \<open>What the code relies on of the mapped slots: an array addressed by index, in which a write
  changes one entry and nothing else.\<close>

locale slot_array =
  fixes get :: "u64 \<Rightarrow> 'a \<Rightarrow> slot option" and put :: "u64 \<Rightarrow> slot \<Rightarrow> 'a \<Rightarrow> 'a"
    and cap :: "'a \<Rightarrow> u64" and ok :: "'a \<Rightarrow> bool"
  assumes get_range: "get i a \<noteq> None \<longleftrightarrow> i < cap a"
    and get_put: "ok a \<Longrightarrow> i < cap a \<Longrightarrow> wf_slot s \<Longrightarrow> get j (put i s a) = (if j = i then Some s else get j a)"
    and cap_put: "cap (put i s a) = cap a"
    and ok_put: "ok a \<Longrightarrow> i < cap a \<Longrightarrow> wf_slot s \<Longrightarrow> ok (put i s a)"
begin

definition put_all :: "(u64 \<times> slot) list \<Rightarrow> 'a \<Rightarrow> 'a" where
  "put_all ups a = fold (\<lambda>(i, s). put i s) ups a"

lemma put_all_ok:
  assumes "ok a" and "\<forall>(i, s) \<in> set ups. i < cap a \<and> wf_slot s"
  shows "ok (put_all ups a)" and "cap (put_all ups a) = cap a"
proof -
  have "ok (put_all ups a) \<and> cap (put_all ups a) = cap a"
    using assms
  proof (induction ups arbitrary: a)
    case (Cons u ups)
    obtain i s where u: "u = (i, s)" by (cases u)
    with Cons.prems have "ok (put i s a)" by (auto intro: ok_put)
    with Cons.IH [of "put i s a"] Cons.prems u show ?case
      by (auto simp: put_all_def cap_put)
  qed (simp add: put_all_def)
  then show "ok (put_all ups a)" and "cap (put_all ups a) = cap a" by simp_all
qed

text \<open>After any sequence of writes each entry holds the last slot written to it.\<close>

lemma get_put_all:
  assumes "ok a" and "\<forall>(i, s) \<in> set ups. i < cap a \<and> wf_slot s"
  shows "get j (put_all ups a) = (case map_of (rev ups) j of Some s \<Rightarrow> Some s | None \<Rightarrow> get j a)"
  using assms
proof (induction ups rule: rev_induct)
  case (snoc u ups)
  obtain i s where u: "u = (i, s)" by (cases u)
  have "put_all (ups @ [u]) a = put i s (put_all ups a)" by (simp add: put_all_def u)
  moreover have "ok (put_all ups a)" "cap (put_all ups a) = cap a"
    using snoc.prems by (auto intro!: put_all_ok)
  ultimately show ?case
    using snoc.IH snoc.prems by (auto simp: u get_put)
qed (simp add: put_all_def)

end

lemma slot_offsets_apart:
  "i \<noteq> j \<Longrightarrow> slot_offset i + SLOT_SIZE \<le> slot_offset j \<or> slot_offset j + SLOT_SIZE \<le> slot_offset i"
proof -
  assume "i \<noteq> j"
  then have "unat i < unat j \<or> unat j < unat i" by (metis nat_neq_iff word_unat_eq_iff)
  then show ?thesis by (auto simp: slot_offset_def slot_consts)
qed

lemma slot_offset_bound:
  assumes "arena_ok crc a" and "i < ar_capacity_slots a"
  shows "slot_offset i + SLOT_SIZE \<le> length (ar_file a)"
proof -
  have "unat i < unat (ar_capacity_slots a)" using assms(2) by (simp add: word_less_nat_alt)
  then have "Suc (unat i) * SLOT_SIZE \<le> unat (ar_capacity_slots a) * SLOT_SIZE" by (intro mult_le_mono1) simp
  with assms(1) show ?thesis by (simp add: arena_ok_def slot_offset_def mult.commute)
qed

lemma arena_slot_put:
  assumes ok: "arena_ok crc a" and i: "i < ar_capacity_slots a" and wf: "wf_slot s"
  shows "arena_slot j (put_slot i s a) = (if j = i then Some s else arena_slot j a)"
proof (cases "j = i")
  case True
  have "subslice (ar_file (put_slot i s a)) (slot_offset i) (slot_offset i + SLOT_SIZE) = slot_bytes s"
    unfolding put_slot_def using slot_offset_bound [OF ok i] length_slot_bytes [OF wf]
    by (simp add: subslice_replace_same)
  with True i show ?thesis
    by (simp add: arena_slot_def slot_bytes_roundtrip [OF wf]) (simp add: put_slot_def)
next
  case False
  then have "subslice (ar_file (put_slot i s a)) (slot_offset j) (slot_offset j + SLOT_SIZE)
      = subslice (ar_file a) (slot_offset j) (slot_offset j + SLOT_SIZE)"
    using slot_offsets_apart [OF False] slot_offset_bound [OF ok i] length_slot_bytes [OF wf]
    by (auto simp: put_slot_def subslice_replace_before subslice_replace_after)
  with False show ?thesis by (simp add: arena_slot_def) (simp add: put_slot_def)
qed

lemma arena_ok_put:
  assumes ok: "arena_ok crc a" and i: "i < ar_capacity_slots a" and wf: "wf_slot s"
  shows "arena_ok crc (put_slot i s a)"
proof -
  have "take ARENA_HEADER_LEN (ar_file (put_slot i s a)) = take ARENA_HEADER_LEN (ar_file a)"
    using slot_offset_bound [OF ok i] by (simp add: put_slot_def slot_offset_def)
  moreover have "length (ar_file (put_slot i s a)) = length (ar_file a)"
    using slot_offset_bound [OF ok i] length_slot_bytes [OF wf] by (simp add: put_slot_def)
  moreover have "ar_capacity_slots (put_slot i s a) = ar_capacity_slots a" "ar_file_size (put_slot i s a) = ar_file_size a"
    "ar_shard_uuid (put_slot i s a) = ar_shard_uuid a"
    by (simp_all add: put_slot_def)
  ultimately show ?thesis using ok by (simp add: arena_ok_def)
qed

interpretation mapped: slot_array arena_slot put_slot ar_capacity_slots "arena_ok crc" for crc
proof
  show "arena_slot i a \<noteq> None \<longleftrightarrow> i < ar_capacity_slots a" for i a by (simp add: arena_slot_def)
  show "ar_capacity_slots (put_slot i s a) = ar_capacity_slots a" for i s a by (simp add: put_slot_def)
qed (simp_all add: arena_slot_put arena_ok_put)

lemma arena_slot_wf:
  assumes "arena_ok crc a" and "arena_slot i a = Some s"
  shows "wf_slot s"
proof -
  have i: "i < ar_capacity_slots a" using assms(2) by (simp add: arena_slot_def split: if_splits)
  have "length (subslice (ar_file a) (slot_offset i) (slot_offset i + SLOT_SIZE)) = SLOT_SIZE"
    using slot_offset_bound [OF assms(1) i] by simp
  with slot_of_bytes_bytes assms(2) i show ?thesis by (auto simp: arena_slot_def)
qed

section \<open>Creating and growing\<close>

lemma slot_bytes_zeroed: "slot_bytes zeroed = replicate SLOT_SIZE 0"
proof -
  have "vector_bytes (replicate n 0) = replicate (4 * n) 0" for n
    by (induction n) (simp_all add: vector_bytes_def numeral_eq_Suc)
  then have "vector_bytes (replicate VECTOR_DIM 0) = replicate 1536 0" by (simp add: VECTOR_DIM_def)
  moreover have "meta_bytes (sl_metadata zeroed) = replicate 64 0"
    by (simp add: meta_bytes_def zeroed_def numeral_eq_Suc)
  moreover have "(replicate 1536 0 :: bytes) @ replicate 64 0 = replicate 1600 0"
    by (simp flip: replicate_add)
  ultimately show ?thesis by (simp add: slot_bytes_def slot_consts) (simp add: zeroed_def VECTOR_DIM_def)
qed

lemma slot_of_zero_bytes: "slot_of_bytes (replicate SLOT_SIZE 0) = zeroed"
  using slot_bytes_roundtrip [OF wf_zeroed] by (simp add: slot_bytes_zeroed)

lemma subslice_replicate: "hi \<le> n \<Longrightarrow> lo \<le> hi \<Longrightarrow> subslice (replicate n x) lo hi = replicate (hi - lo) x"
  by (simp add: subslice_def min_def)

lemma subslice_header_zeros:
  assumes "length hdr = ARENA_HEADER_LEN" and "unat i < unat cap"
  shows "subslice (hdr @ replicate (SLOT_SIZE * unat cap) 0) (slot_offset i) (slot_offset i + SLOT_SIZE)
    = replicate SLOT_SIZE 0"
proof -
  have "Suc (unat i) * SLOT_SIZE \<le> unat cap * SLOT_SIZE" using assms(2) by (intro mult_le_mono1) simp
  with assms(1) show ?thesis
    by (simp add: slot_offset_def subslice_append_right subslice_replicate mult.commute)
qed

lemma create_new_ok:
  assumes uuid: "length uuid = 16" and size: "ARENA_HEADER_LEN + SLOT_SIZE * unat cap < 2 ^ 63"
    and io: "fallocate_ok io" "mmap_ok io" "msync_ok io"
  shows "\<exists>a. arena_create_new crc now io [] uuid cap = (Inr a, ar_file a) \<and> arena_ok crc a \<and>
    ar_capacity_slots a = cap \<and> ar_shard_uuid a = uuid \<and> (\<forall>i < cap. arena_slot i a = Some zeroed)"
proof -
  let ?n = "ARENA_HEADER_LEN + SLOT_SIZE * unat cap" and ?h = "new_header crc now uuid cap"
  let ?a = "\<lparr>ar_file = header_bytes ?h @ replicate (SLOT_SIZE * unat cap) 0, ar_file_size = ?n,
    ar_capacity_slots = cap, ar_shard_uuid = uuid\<rparr>"
  have "?n < 2 ^ 64" using size by simp
  from unat_arena_size [OF this] have n: "unat (arena_size cap) = ?n" .
  have hdr: "length (header_bytes ?h) = ARENA_HEADER_LEN" "header_of_bytes (header_bytes ?h) = ?h"
    using wf_new_header [OF uuid] by (simp_all add: length_header_bytes header_roundtrip ARENA_HEADER_LEN_def)
  have "arena_create_new crc now io [] uuid cap = (Inr ?a, ar_file ?a)"
    using io by (simp add: arena_create_new_def Let_def fallocate_def n)
  moreover have "arena_ok crc ?a"
    using hdr size header_valid_new [OF uuid] by (simp add: arena_ok_def)
  moreover have "arena_slot i ?a = Some zeroed" if "i < cap" for i
    using that subslice_header_zeros [OF hdr(1), of i cap]
    by (simp add: arena_slot_def slot_of_zero_bytes word_less_nat_alt)
  ultimately show ?thesis by (intro exI [of _ ?a]) simp
qed

lemma grow_to_fallocated:
  assumes ok: "arena_ok crc a" and new: "ar_capacity_slots a < new"
    and size: "ARENA_HEADER_LEN + SLOT_SIZE * unat new < 2 ^ 63"
  shows "fallocate (ar_file a) (unat (arena_size new))
    = ar_file a @ replicate (SLOT_SIZE * (unat new - unat (ar_capacity_slots a))) 0"
proof -
  have "ARENA_HEADER_LEN + SLOT_SIZE * unat new < 2 ^ 64" using size by simp
  from unat_arena_size [OF this] ok show ?thesis
    by (simp add: fallocate_def arena_ok_def diff_mult_distrib2)
qed

lemma grow_to_ok:
  assumes ok: "arena_ok crc a" and new: "ar_capacity_slots a < new"
    and size: "ARENA_HEADER_LEN + SLOT_SIZE * unat new < 2 ^ 63"
    and io: "fallocate_ok io" "mmap_ok io"
  shows "\<exists>a'. grow_to crc now io new a = (if msync_ok io then Inr () else Inl MsyncFailed, a') \<and>
    arena_ok crc a' \<and> ar_capacity_slots a' = new \<and> ar_shard_uuid a' = ar_shard_uuid a \<and>
    (\<forall>i < new. arena_slot i a' = (if i < ar_capacity_slots a then arena_slot i a else Some zeroed))"
proof -
  let ?cap = "ar_capacity_slots a" and ?old = "take ARENA_HEADER_LEN (ar_file a)"
  let ?h = "grown_header crc now new (header_of_bytes ?old)"
  let ?zeros = "replicate (SLOT_SIZE * (unat new - unat ?cap)) 0"
  let ?a = "a\<lparr>ar_file := header_bytes ?h @ drop ARENA_HEADER_LEN (ar_file a) @ ?zeros,
    ar_file_size := ARENA_HEADER_LEN + SLOT_SIZE * unat new, ar_capacity_slots := new\<rparr>"
  have lt: "unat ?cap < unat new" using new by (simp add: word_less_nat_alt)
  have len: "length (ar_file a) = ARENA_HEADER_LEN + SLOT_SIZE * unat ?cap" using ok by (simp add: arena_ok_def)
  then have "length ?old = 4096" by (simp add: ARENA_HEADER_LEN_def)
  then have wf: "wf_header (header_of_bytes ?old)" by (rule wf_header_of_bytes)
  have hdr: "length (header_bytes ?h) = ARENA_HEADER_LEN" "header_of_bytes (header_bytes ?h) = ?h"
    using wf_grown_header [OF wf] by (simp_all add: length_header_bytes header_roundtrip ARENA_HEADER_LEN_def)
  have "ARENA_HEADER_LEN + SLOT_SIZE * unat new < 2 ^ 64" using size by simp
  note n = unat_arena_size [OF this]
  have "\<not> new < ?cap" "new \<noteq> ?cap" using new by auto
  then have "grow_to crc now io new a = (if msync_ok io then Inr () else Inl MsyncFailed, ?a)"
    using io len n grow_to_fallocated [OF ok new size] by (simp add: grow_to_def Let_def)
  moreover have "header_valid crc ?h (ar_shard_uuid a) new"
    using ok unfolding arena_ok_def by (intro header_valid_grown [OF wf]) blast
  then have "arena_ok crc ?a"
    using hdr size len lt by (simp add: arena_ok_def flip: distrib_left)
  moreover have "arena_slot i ?a = (if i < ?cap then arena_slot i a else Some zeroed)" if "i < new" for i
  proof (cases "i < ?cap")
    case True
    have "subslice (header_bytes ?h @ drop ARENA_HEADER_LEN (ar_file a) @ ?zeros) (slot_offset i) (slot_offset i + SLOT_SIZE)
        = subslice (ar_file a) (slot_offset i) (slot_offset i + SLOT_SIZE)"
      using slot_offset_bound [OF ok True] hdr(1) by (simp add: subslice_def slot_offset_def add.commute)
    with True that show ?thesis by (simp add: arena_slot_def)
  next
    case False
    then have "unat ?cap \<le> unat i" "unat i < unat new" using that by (simp_all add: word_less_nat_alt word_le_nat_alt)
    then have "SLOT_SIZE * unat ?cap \<le> SLOT_SIZE * unat i" "Suc (unat i) * SLOT_SIZE \<le> unat new * SLOT_SIZE"
      by (simp, intro mult_le_mono1, simp)
    then have "subslice (header_bytes ?h @ drop ARENA_HEADER_LEN (ar_file a) @ ?zeros) (slot_offset i) (slot_offset i + SLOT_SIZE)
        = replicate SLOT_SIZE 0"
      using hdr(1) len lt
      by (simp add: slot_offset_def subslice_append_right subslice_replicate mult.commute diff_mult_distrib2)
    with False that show ?thesis by (simp add: arena_slot_def slot_of_zero_bytes)
  qed
  ultimately show ?thesis by (intro exI [of _ ?a]) simp
qed

section \<open>Damage to the header\<close>

lemma header_of_bytes_bytes:
  assumes "length bs = 4096"
  shows "header_bytes (header_of_bytes bs) = bs"
proof -
  have join: "subslice bs i j @ subslice bs j k = subslice bs i k" if "i \<le> j" "j \<le> k" for i j k
    using that take_add [of "j - i" "k - j" "drop i bs"] by (simp add: subslice_def)
  have "header_bytes (header_of_bytes bs) = subslice bs 0 4 @ subslice bs 4 8 @ subslice bs 8 24 @
      subslice bs 24 28 @ subslice bs 28 32 @ subslice bs 32 40 @ subslice bs 40 48 @ subslice bs 48 64 @
      subslice bs 64 72 @ subslice bs 72 80 @ subslice bs 80 84 @ subslice bs 84 4096"
    using assms by (simp add: header_bytes_def header_of_bytes_def le_bytes_le_word)
  also have "\<dots> = subslice bs 0 4096" by (simp add: join)
  finally show ?thesis using assms by simp
qed

text \<open>What an accepted header says about the bytes of the file.\<close>

lemma open_existing_checksum:
  assumes "arena_open_existing crc io file uuid = Inr a"
  shows "le_word (subslice file 80 84) = crc (take 80 file)" and "4096 \<le> length file"
proof -
  have len: "4096 \<le> length file"
    using assms by (simp add: arena_open_existing_def ARENA_HEADER_LEN_def split: if_splits)
  let ?h = "header_of_bytes (take 4096 file)"
  have "hr_header_crc32c ?h = compute_header_crc crc ?h"
    using assms by (simp add: arena_open_existing_def ARENA_HEADER_LEN_def Let_def split: if_splits)
  moreover have "header_bytes ?h = take 4096 file" using len by (intro header_of_bytes_bytes) simp
  then have "compute_header_crc crc ?h = crc (take 80 file)"
    by (simp add: compute_header_crc_def HEADER_CRC_COVERAGE_END_def subslice_def)
  ultimately show "le_word (subslice file 80 84) = crc (take 80 file)"
    by (simp add: header_of_bytes_def subslice_take)
  show "4096 \<le> length file" by (rule len)
qed

lemma header_damage_rejected:
  assumes crc: "detects_single_byte crc" and good: "arena_open_existing crc io file uuid = Inr a"
    and i: "i < 84" and b: "b \<noteq> file ! i"
  shows "\<exists>e. arena_open_existing crc io' (file[i := b]) uuid' = Inl e"
proof (rule ccontr)
  assume "\<not> ?thesis"
  then obtain a' where bad: "arena_open_existing crc io' (file[i := b]) uuid' = Inr a'"
    by (metis sum.exhaust)
  have sums: "le_word (subslice file 80 84) = crc (take 80 file)"
    "le_word (subslice (file[i := b]) 80 84) = crc (take 80 (file[i := b]))" and len: "4096 \<le> length file"
    using open_existing_checksum [OF good] open_existing_checksum [OF bad] by simp_all
  show False
  proof (cases "i < 80")
    case True
    then have "crc ((take 80 file)[i := b]) \<noteq> crc (take 80 file)"
      using crc b len by (simp add: detects_single_byte_def)
    with True sums show False by (simp add: take_update_swap subslice_update_outside)
  next
    case False
    let ?s = "subslice file 80 84"
    have upd: "subslice (file[i := b]) 80 84 = ?s[i - 80 := b]"
      using False i by (simp add: subslice_def drop_update_swap take_update_swap)
    have "?s ! (i - 80) = file ! i" using False i len nth_subslice [of "i - 80" 84 80 "file"] by simp
    moreover have "?s[i - 80 := b] ! (i - 80) = b" using False i len by simp
    ultimately have neq: "?s[i - 80 := b] \<noteq> ?s" using b by auto
    have "le_word ?s = (le_word (?s[i - 80 := b]) :: u32)"
      using sums upd False by simp
    then have "le_bytes 4 (le_word ?s :: u32) = le_bytes 4 (le_word (?s[i - 80 := b]) :: u32)" by simp
    with neq len show False by (simp add: le_bytes_le_word)
  qed
qed

section \<open>Properties\<close>

definition io_all_ok :: arena_io where
  "io_all_ok = \<lparr>fallocate_ok = True, mmap_ok = True, msync_ok = True\<rparr>"

definition sample_arena :: arena_file where
  "sample_arena = projr (fst (arena_open sum_crc 5 io_all_ok [] (replicate 16 9) 2))"

lemma sample_arena_facts:
  "arena_open sum_crc 5 io_all_ok [] (replicate 16 9) 2 = (Inr sample_arena, ar_file sample_arena)"
  "arena_ok sum_crc sample_arena" "ar_capacity_slots sample_arena = 2" "ar_shard_uuid sample_arena = replicate 16 9"
  "i < 2 \<Longrightarrow> arena_slot i sample_arena = Some zeroed"
proof -
  have "\<exists>a. arena_create_new sum_crc 5 io_all_ok [] (replicate 16 9) 2 = (Inr a, ar_file a) \<and> arena_ok sum_crc a \<and>
      ar_capacity_slots a = 2 \<and> ar_shard_uuid a = replicate 16 9 \<and> (\<forall>i < 2. arena_slot i a = Some zeroed)"
    by (rule create_new_ok) (simp_all add: io_all_ok_def slot_consts ARENA_HEADER_LEN_def)
  then obtain a where a: "arena_create_new sum_crc 5 io_all_ok [] (replicate 16 9) 2 = (Inr a, ar_file a)"
    "arena_ok sum_crc a" "ar_capacity_slots a = 2" "ar_shard_uuid a = replicate 16 9"
    "\<forall>i < 2. arena_slot i a = Some zeroed" by blast
  then have "sample_arena = a" by (simp add: sample_arena_def arena_open_def)
  with a show "arena_open sum_crc 5 io_all_ok [] (replicate 16 9) 2 = (Inr sample_arena, ar_file sample_arena)"
    "arena_ok sum_crc sample_arena" "ar_capacity_slots sample_arena = 2" "ar_shard_uuid sample_arena = replicate 16 9"
    "i < 2 \<Longrightarrow> arena_slot i sample_arena = Some zeroed"
    by (simp_all add: arena_open_def)
qed

text \<open>C22. Reopening. Whatever well-formed slots have been written through the mapping of a
  consistent arena, closing it and opening its file again yields the same arena, in which every
  slot reads as it was last written.\<close>

theorem arena_reopen:
  assumes "arena_ok crc a" and "\<forall>(i, s) \<in> set ups. i < ar_capacity_slots a \<and> wf_slot s"
    and "mmap_ok io" and "cap \<noteq> 0" and "a' = fold (\<lambda>(i, s). put_slot i s) ups a"
  shows "fst (arena_open crc now io (ar_file a') (ar_shard_uuid a') cap) = Inr a' \<and>
    arena_slot j a' = (case map_of (rev ups) j of Some s \<Rightarrow> Some s | None \<Rightarrow> arena_slot j a)"
proof -
  have a': "a' = mapped.put_all ups a" by (simp add: assms(5) mapped.put_all_def)
  have ok: "arena_ok crc a'" using mapped.put_all_ok(1) [OF assms(1,2)] by (simp add: a')
  then have "ar_file a' \<noteq> []" by (auto simp: arena_ok_def ARENA_HEADER_LEN_def)
  with open_existing_ok [OF ok assms(3)] assms(4) mapped.get_put_all [OF assms(1,2)]
  show ?thesis by (simp add: arena_open_def a')
qed

theorem arena_reopen_witness:
  "arena_slot 1 (put_slot 1 zeroed sample_arena) = Some zeroed \<and>
   fst (arena_open sum_crc 6 io_all_ok (ar_file (put_slot 1 zeroed sample_arena)) (replicate 16 9) 1)
     = Inr (put_slot 1 zeroed sample_arena)"
  using arena_reopen [of sum_crc sample_arena "[(1, zeroed)]" io_all_ok 1 _ 6 1] sample_arena_facts
  by (simp add: io_all_ok_def put_slot_def)

text \<open>Growth. When the system calls succeed, growing keeps the arena consistent, keeps every
  existing slot and adds zeroed ones; a failing \<open>msync\<close> is reported but leaves the same state.\<close>

theorem arena_grow:
  assumes "arena_ok crc a" and "ar_capacity_slots a < new"
    and "ARENA_HEADER_LEN + SLOT_SIZE * unat new < 2 ^ 63" and "fallocate_ok io" and "mmap_ok io"
  shows "\<exists>a'. grow_to crc now io new a = (if msync_ok io then Inr () else Inl MsyncFailed, a') \<and>
    arena_ok crc a' \<and> ar_capacity_slots a' = new \<and> ar_shard_uuid a' = ar_shard_uuid a \<and>
    (\<forall>i < new. arena_slot i a' = (if i < ar_capacity_slots a then arena_slot i a else Some zeroed))"
  using assms by (rule grow_to_ok)

theorem arena_grow_witness:
  "\<exists>a'. grow_to sum_crc 7 io_all_ok 5 sample_arena = (Inr (), a') \<and> arena_slot 4 a' = Some zeroed"
  using arena_grow [OF sample_arena_facts(2), of 5 io_all_ok 7] sample_arena_facts(3)
  by (auto simp: io_all_ok_def slot_consts ARENA_HEADER_LEN_def word_less_nat_alt)

text \<open>Interrupted growth. If growth stops after the file has been extended and before the header
  is rewritten (a crash there, or a failing \<open>mremap\<close>), the arena cannot be opened again: its size
  no longer agrees with the capacity in its header.\<close>

theorem arena_grow_interrupted:
  assumes "arena_ok crc a" and "ar_capacity_slots a < new"
    and "ARENA_HEADER_LEN + SLOT_SIZE * unat new < 2 ^ 63" and "fallocate_ok io" and "\<not> mmap_ok io"
    and "mmap_ok io'" and "grow_to crc now io new a = (r, a')"
  shows "r = Inl MremapFailed \<and> arena_open_existing crc io' (ar_file a') (ar_shard_uuid a) =
    Inl (FileSizeInconsistent (ar_capacity_slots a) (ARENA_HEADER_LEN + SLOT_SIZE * unat new))"
proof -
  let ?cap = "ar_capacity_slots a" and ?file = "fallocate (ar_file a) (unat (arena_size new))"
  have "\<not> new < ?cap" "new \<noteq> ?cap" using assms(2) by auto
  with assms(4,5,7) have r: "r = Inl MremapFailed" "ar_file a' = ?file"
    by (auto simp: grow_to_def Let_def)
  have len: "length (ar_file a) = ARENA_HEADER_LEN + SLOT_SIZE * unat ?cap"
    and hdr: "header_valid crc (header_of_bytes (take ARENA_HEADER_LEN (ar_file a))) (ar_shard_uuid a) ?cap"
    and cap: "ARENA_HEADER_LEN + SLOT_SIZE * unat ?cap < 2 ^ 64"
    using assms(1) by (simp_all add: arena_ok_def)
  have n: "unat (arena_size new) = ARENA_HEADER_LEN + SLOT_SIZE * unat new"
    using assms(3) by (intro unat_arena_size) simp
  have lt: "unat ?cap < unat new" using assms(2) by (simp add: word_less_nat_alt)
  have file_len: "length ?file = ARENA_HEADER_LEN + SLOT_SIZE * unat new" using lt by (simp add: len n)
  then have "of_nat (length ?file) = arena_size new" by (simp add: arena_size_def)
  moreover have "SLOT_SIZE * unat ?cap < SLOT_SIZE * unat new" using lt by (simp add: slot_consts)
  then have "arena_size new \<noteq> arena_size ?cap" using n unat_arena_size [OF cap] by (metis nat_add_left_cancel_less nat_neq_iff)
  moreover have "take ARENA_HEADER_LEN ?file = take ARENA_HEADER_LEN (ar_file a)" by (simp add: fallocate_def len)
  ultimately show ?thesis
    using r hdr assms(6) file_len by (simp add: arena_open_existing_def header_valid_def Let_def)
qed

theorem arena_grow_interrupted_witness:
  "\<exists>a'. grow_to sum_crc 7 (io_all_ok\<lparr>mmap_ok := False\<rparr>) 5 sample_arena = (Inl MremapFailed, a') \<and>
    arena_open_existing sum_crc io_all_ok (ar_file a') (replicate 16 9) = Inl (FileSizeInconsistent 2 12096)"
proof -
  obtain r a' where g: "grow_to sum_crc 7 (io_all_ok\<lparr>mmap_ok := False\<rparr>) 5 sample_arena = (r, a')" by force
  from arena_grow_interrupted [OF sample_arena_facts(2) _ _ _ _ _ g, of io_all_ok] sample_arena_facts(3,4)
  have "r = Inl MremapFailed \<and>
      arena_open_existing sum_crc io_all_ok (ar_file a') (replicate 16 9) = Inl (FileSizeInconsistent 2 12096)"
    by (simp add: io_all_ok_def slot_consts ARENA_HEADER_LEN_def word_less_nat_alt)
  with g show ?thesis by blast
qed

text \<open>Header checksum. Once a file has been accepted as an arena, changing any single byte of its
  84 header bytes up to and including the checksum makes every later open fail.\<close>

theorem arena_header_damage:
  assumes "detects_single_byte crc" and "arena_open_existing crc io file uuid = Inr a"
    and "i < 84" and "b \<noteq> file ! i"
  shows "\<exists>e. arena_open_existing crc io' (file[i := b]) uuid' = Inl e"
  using assms by (rule header_damage_rejected)

theorem arena_header_damage_witness:
  "\<exists>b e. arena_open_existing sum_crc io_all_ok ((ar_file sample_arena)[35 := b]) (replicate 16 9) = Inl e"
proof -
  obtain b :: u8 where b: "b \<noteq> ar_file sample_arena ! 35" by (metis zero_neq_one)
  have "arena_open_existing sum_crc io_all_ok (ar_file sample_arena) (replicate 16 9) = Inr sample_arena"
    using open_existing_ok [OF sample_arena_facts(2), of io_all_ok] sample_arena_facts(4)
    by (simp add: io_all_ok_def)
  from arena_header_damage [OF sum_crc_detects this _ b, of io_all_ok "replicate 16 9"] show ?thesis by auto
qed

text \<open>The size check wraps. \<open>open_existing\<close> computes the expected size in 64-bit arithmetic, so a
  header whose capacity exceeds the real number of slots by a multiple of \<open>2 ^ 58\<close> is accepted, and
  indices far outside the mapping pass the range check of \<open>slot\<close>.\<close>

theorem arena_size_check_wraps:
  assumes "length uuid = 16" and "mmap_ok io"
  shows "\<exists>a. arena_open_existing crc io
      (header_bytes (new_header crc now uuid (2 ^ 58 + 1)) @ replicate SLOT_SIZE 0) uuid = Inr a \<and>
    arena_slot (2 ^ 58) a \<noteq> None \<and> length (ar_file a) < slot_offset (2 ^ 58)"
proof -
  define c :: u64 where "c = 2 ^ 58 + 1"
  let ?h = "new_header crc now uuid c" and ?f = "header_bytes (new_header crc now uuid c) @ replicate SLOT_SIZE 0"
  have hdr: "length (header_bytes ?h) = 4096" "header_of_bytes (header_bytes ?h) = ?h"
    using wf_new_header [OF assms(1)] by (simp_all add: length_header_bytes header_roundtrip)
  have "length ?f = 5696" by (simp add: hdr slot_consts)
  moreover have "arena_size c = 5696" by (simp add: arena_size_def arena_consts slot_consts c_def)
  ultimately have "of_nat (length ?f) = arena_size c" by simp
  moreover have "header_valid crc ?h uuid c" by (rule header_valid_new [OF assms(1)])
  ultimately have "arena_open_existing crc io ?f uuid =
      Inr \<lparr>ar_file = ?f, ar_file_size = length ?f, ar_capacity_slots = c, ar_shard_uuid = uuid\<rparr>"
    using assms(2) hdr by (simp add: arena_open_existing_def ARENA_HEADER_LEN_def header_valid_def Let_def)
  moreover have "2 ^ 58 < c" by (simp add: c_def word_less_nat_alt)
  ultimately show ?thesis
    unfolding c_def [symmetric]
    by (simp add: arena_slot_def hdr slot_offset_def ARENA_HEADER_LEN_def slot_consts)
qed

theorem arena_size_check_wraps_witness:
  "\<exists>a. arena_open_existing sum_crc io_all_ok
      (header_bytes (new_header sum_crc 5 (replicate 16 9) (2 ^ 58 + 1)) @ replicate SLOT_SIZE 0) (replicate 16 9) = Inr a"
  using arena_size_check_wraps [of "replicate 16 9" io_all_ok sum_crc 5] by (auto simp: io_all_ok_def)

text \<open>Hard forget. The call reports success exactly when the slot exists, is occupied and carries
  the expected version. Then its vector is all zeros, it is tombstoned and marked hard-forgotten,
  keeps its version and has a fresh checksum. In every case all other slots are untouched, and
  without success nothing changes.\<close>

theorem hard_forget_erases:
  assumes "arena_ok crc a" and "hard_forget_slot crc i v a = (erased, a')"
  shows "erased = (\<exists>s. arena_slot i a = Some s \<and> is_occupied s \<and> sm_slot_version (sl_metadata s) = v) \<and>
    arena_ok crc a' \<and> (\<forall>j. j \<noteq> i \<longrightarrow> arena_slot j a' = arena_slot j a) \<and> (\<not> erased \<longrightarrow> a' = a) \<and>
    (erased \<longrightarrow> (\<exists>s. arena_slot i a' = Some s \<and> sl_vector s = replicate VECTOR_DIM 0 \<and> is_occupied s \<and>
       is_tombstoned s \<and> is_hard_forgotten s \<and> sm_slot_version (sl_metadata s) = v \<and> slot_is_valid crc s))"
proof (cases "\<exists>s. arena_slot i a = Some s \<and> is_occupied s \<and> sm_slot_version (sl_metadata s) = v")
  case True
  then obtain s where s: "arena_slot i a = Some s" "is_occupied s" "sm_slot_version (sl_metadata s) = v" by blast
  let ?e = "s\<lparr>sl_vector := replicate VECTOR_DIM 0\<rparr>"
  let ?t = "refresh_crc crc (set_flag (TOMBSTONED OR HARD_FORGOTTEN) True ?e)"
  have i: "i < ar_capacity_slots a" using s(1) by (simp add: arena_slot_def split: if_splits)
  have "wf_slot s" using arena_slot_wf [OF assms(1) s(1)] .
  then have "wf_slot ?e" by (simp add: wf_slot_def)
  then have wf: "wf_slot ?t" "wf_slot (set_flag (TOMBSTONED OR HARD_FORGOTTEN) True ?e)" by simp_all
  have eq: "erased" "a' = put_slot i ?t a" using assms(2) s by (simp_all add: hard_forget_slot_def)
  have "is_occupied ?t" "is_tombstoned ?t" "is_hard_forgotten ?t"
    using s(2) by (simp_all add: is_flag_bits bit_set_flag bit_or_iff bit_flag_consts)
  then show ?thesis
    using True s(3) arena_slot_put [OF assms(1) i wf(1)] arena_ok_put [OF assms(1) i wf(1)]
      refresh_crc_valid [OF wf(2)] by (simp add: eq)
next
  case False
  then have "\<not> erased \<and> a' = a"
    using assms(2) by (auto simp: hard_forget_slot_def split: option.splits if_splits)
  with False assms(1) show ?thesis by auto
qed

theorem hard_forget_erases_witness:
  "\<exists>a' s. hard_forget_slot sum_crc 1 0 (put_slot 1 (set_flag OCCUPIED True zeroed) sample_arena) = (True, a') \<and>
    arena_slot 1 a' = Some s \<and> is_hard_forgotten s"
proof -
  let ?s = "set_flag OCCUPIED True zeroed" and ?a = "put_slot 1 (set_flag OCCUPIED True zeroed) sample_arena"
  have one: "1 < ar_capacity_slots sample_arena" by (simp add: sample_arena_facts)
  have ok: "arena_ok sum_crc ?a" and get: "arena_slot 1 ?a = Some ?s"
    using arena_ok_put [OF sample_arena_facts(2) one] arena_slot_put [OF sample_arena_facts(2) one] by simp_all
  have "is_occupied ?s" "sm_slot_version (sl_metadata ?s) = 0"
    by (simp_all add: is_flag_bits bit_set_flag bit_flag_consts) (simp add: zeroed_def)
  moreover obtain d a' where h: "hard_forget_slot sum_crc 1 0 ?a = (d, a')" by force
  ultimately show ?thesis using hard_forget_erases [OF ok h] get h by auto
qed

end
