(* ===== verification/Arena_Allocator.thy ===== *)
theory Arena_Allocator
  imports Arena_File Core_Ids
begin

text \<open>
  The slot allocator (\<open>brain-storage/src/arena/allocator.rs\<close>): a LIFO free list and the first
  never-used index. \<open>None\<close> is a panic (an index outside the arena, or a shrinking capacity).
\<close>

section \<open>State and operations\<close>

record slot_allocator =
  al_free_list :: "u64 list"
  al_next_fresh :: u64
  al_capacity :: u64

datatype alloc_error =
    Exhausted u64 u64
  | FreeListSlotOccupied u64
  | SlotRetired u64

datatype free_error =
    FreeOutOfRange u64 u64
  | AlreadyRetired u64

definition allocator_empty :: "u64 \<Rightarrow> slot_allocator" where
  "allocator_empty capacity = \<lparr>al_free_list = [], al_next_fresh = 0, al_capacity = capacity\<rparr>"

definition slot_used :: "slot \<Rightarrow> bool" where
  "slot_used s \<longleftrightarrow> is_occupied s \<or> is_pending_write s \<or> sm_slot_version (sl_metadata s) > 0"

text \<open>The two passes of \<open>rebuild_from_arena\<close>; every index they read is below the capacity.\<close>

definition rebuild_next_fresh :: "arena_file \<Rightarrow> u64" where
  "rebuild_next_fresh a =
     foldl (\<lambda>n idx. if slot_used (the (arena_slot idx a)) then idx + 1 else n) 0
       (map of_nat [0..<unat (ar_capacity_slots a)])"

definition rebuild_from_arena :: "arena_file \<Rightarrow> slot_allocator" where
  "rebuild_from_arena a =
     (let next_fresh = rebuild_next_fresh a
      in \<lparr>al_free_list = filter (\<lambda>idx. \<not> is_occupied (the (arena_slot idx a)))
            (map of_nat [0..<unat next_fresh]),
          al_next_fresh = next_fresh, al_capacity = ar_capacity_slots a\<rparr>)"

definition free_count :: "slot_allocator \<Rightarrow> nat" where
  "free_count al = length (al_free_list al)"

definition used_count :: "slot_allocator \<Rightarrow> u64" where
  "used_count al = al_next_fresh al - of_nat (length (al_free_list al))"

text \<open>Step 1 of \<open>alloc\<close>: the index it picks and the allocator after picking it.\<close>

definition pick_slot :: "slot_allocator \<Rightarrow> arena_file \<Rightarrow> ((alloc_error + u64) \<times> slot_allocator) option" where
  "pick_slot al a =
     (if al_free_list al \<noteq> [] then
        let idx = last (al_free_list al); al' = al\<lparr>al_free_list := butlast (al_free_list al)\<rparr>
        in (case arena_slot idx a of
              None \<Rightarrow> None
            | Some s \<Rightarrow> Some (if is_occupied s then Inl (FreeListSlotOccupied idx) else Inr idx, al'))
      else if al_next_fresh al < al_capacity al then
        Some (Inr (al_next_fresh al), al\<lparr>al_next_fresh := al_next_fresh al + 1\<rparr>)
      else Some (Inl (Exhausted (al_next_fresh al) (al_capacity al)), al))"

definition alloc ::
    "crc_fn \<Rightarrow> slot_allocator \<Rightarrow> arena_file \<Rightarrow>
     ((alloc_error + (u64 \<times> u32)) \<times> slot_allocator \<times> arena_file) option" where
  "alloc crc al a =
     (case pick_slot al a of
        None \<Rightarrow> None
      | Some (Inl e, al') \<Rightarrow> Some (Inl e, al', a)
      | Some (Inr idx, al') \<Rightarrow>
          (case arena_slot idx a of
             None \<Rightarrow> None
           | Some s \<Rightarrow>
               (case checked_succ (sm_slot_version (sl_metadata s)) of
                  None \<Rightarrow> Some (Inl (SlotRetired idx), al', a)
                | Some new_version \<Rightarrow>
                    Some (Inr (idx, new_version), al',
                      put_slot idx (refresh_crc crc (set_flag PENDING_WRITE True s)) a))))"

definition free ::
    "crc_fn \<Rightarrow> u64 \<Rightarrow> slot_allocator \<Rightarrow> arena_file \<Rightarrow> ((free_error + unit) \<times> slot_allocator \<times> arena_file) option" where
  "free crc idx al a =
     (if idx \<ge> al_capacity al then Some (Inl (FreeOutOfRange idx (al_capacity al)), al, a)
      else
        case arena_slot idx a of
          None \<Rightarrow> None
        | Some s \<Rightarrow>
            if sm_slot_version (sl_metadata s) = -1 then Some (Inl (AlreadyRetired idx), al, a)
            else Some (Inr (), al\<lparr>al_free_list := al_free_list al @ [idx]\<rparr>,
                   put_slot idx (refresh_crc crc (update_meta (\<lambda>m. m\<lparr>sm_flags := 0\<rparr>) s)) a))"

definition version_of :: "arena_file \<Rightarrow> u64 \<Rightarrow> u32 option" where
  "version_of a idx = map_option (\<lambda>s. sm_slot_version (sl_metadata s)) (arena_slot idx a)"

definition on_capacity_grow :: "u64 \<Rightarrow> slot_allocator \<Rightarrow> slot_allocator option" where
  "on_capacity_grow new_capacity al =
     (if new_capacity \<ge> al_capacity al then Some (al\<lparr>al_capacity := new_capacity\<rparr>) else None)"

section \<open>The available slots\<close>

text \<open>The abstract allocator is a set of available indices.\<close>

definition available :: "slot_allocator \<Rightarrow> u64 set" where
  "available al = set (al_free_list al) \<union> {i. al_next_fresh al \<le> i \<and> i < al_capacity al}"

definition alloc_ok :: "crc_fn \<Rightarrow> slot_allocator \<Rightarrow> arena_file \<Rightarrow> bool" where
  "alloc_ok crc al a \<longleftrightarrow>
     arena_ok crc a \<and> al_capacity al = ar_capacity_slots a \<and> al_next_fresh al \<le> al_capacity al \<and>
     distinct (al_free_list al) \<and> (\<forall>i \<in> set (al_free_list al). i < al_next_fresh al) \<and>
     (\<forall>i \<in> available al. \<forall>s. arena_slot i a = Some s \<longrightarrow> \<not> is_occupied s)"

lemma available_range: "alloc_ok crc al a \<Longrightarrow> i \<in> available al \<Longrightarrow> i < ar_capacity_slots a"
  by (auto simp: alloc_ok_def available_def)

lemma less_succ_word: "n < c \<Longrightarrow> i < n + 1 \<longleftrightarrow> i \<le> (n :: 'a::len word)"
proof -
  assume "n < c"
  then have "n \<noteq> -1" using word_le_minus_one [of c] by auto
  then have "unat (n + 1) = Suc (unat n)" by (rule unat_succ_word)
  then show ?thesis by (simp add: word_less_nat_alt word_le_nat_alt less_Suc_eq_le)
qed

lemma succ_le_word: "n < c \<Longrightarrow> n + 1 \<le> i \<longleftrightarrow> n < (i :: 'a::len word)"
  using less_succ_word [of n c i] by (simp add: not_less [symmetric])

lemma available_pick:
  assumes ok: "alloc_ok crc al a" and p: "pick_slot al a = Some (r, al')"
  shows "(case r of
      Inr i \<Rightarrow> i \<in> available al \<and> available al' = available al - {i} \<and> alloc_ok crc al' a
    | Inl e \<Rightarrow> available al = {} \<and> al' = al \<and> e = Exhausted (al_capacity al) (al_capacity al)) \<and>
    al_capacity al' = al_capacity al"
proof (cases "al_free_list al = []")
  case False
  let ?i = "last (al_free_list al)"
  have mem: "?i \<in> available al" using False by (simp add: available_def)
  then obtain s where s: "arena_slot ?i a = Some s"
    using available_range [OF ok mem] by (auto simp: arena_slot_def)
  have "\<not> is_occupied s" using ok mem s by (simp add: alloc_ok_def)
  with p False s have r: "r = Inr ?i" "al' = al\<lparr>al_free_list := butlast (al_free_list al)\<rparr>"
    by (auto simp: pick_slot_def Let_def)
  have dist: "distinct (al_free_list al)" and lt: "?i < al_next_fresh al" "al_next_fresh al \<le> al_capacity al"
    using ok False by (auto simp: alloc_ok_def)
  have set: "set (butlast (al_free_list al)) = set (al_free_list al) - {?i}"
    using dist False by (metis append_butlast_last_id Diff_insert_absorb Un_insert_right distinct_append
        list.set(1) list.simps(15) not_distinct_conv_prefix set_append sup_bot_right)
  have "available al' = available al - {?i}"
    using lt by (auto simp: available_def r set)
  moreover have "alloc_ok crc al' a"
    using ok dist \<open>available al' = available al - {?i}\<close>
    by (auto simp: alloc_ok_def r set distinct_butlast)
  ultimately show ?thesis using mem by (simp add: r)
next
  case True
  show ?thesis
  proof (cases "al_next_fresh al < al_capacity al")
    case lt: True
    with p True have r: "r = Inr (al_next_fresh al)" "al' = al\<lparr>al_next_fresh := al_next_fresh al + 1\<rparr>"
      by (auto simp: pick_slot_def)
    have "available al' = available al - {al_next_fresh al}"
      using True lt by (auto simp: available_def r succ_le_word)
    moreover have "alloc_ok crc al' a"
      using ok lt True \<open>available al' = _\<close> by (auto simp: alloc_ok_def r succ_le_word)
    moreover have "al_next_fresh al \<in> available al" using lt by (simp add: available_def)
    ultimately show ?thesis by (simp add: r)
  next
    case False
    with p True ok show ?thesis by (auto simp: pick_slot_def available_def alloc_ok_def)
  qed
qed

text \<open>Writing a slot that is not available, or one that stays unoccupied, keeps the allocator
  consistent.\<close>

lemma alloc_ok_put:
  assumes "alloc_ok crc al a" and "i < ar_capacity_slots a" and "wf_slot s"
    and "i \<in> available al \<Longrightarrow> \<not> is_occupied s"
  shows "alloc_ok crc al (put_slot i s a)"
  using assms arena_ok_put [of crc a i s] arena_slot_put [of crc a i s]
  by (auto simp: alloc_ok_def mapped.cap_put split: if_splits)

lemma alloc_cases:
  assumes ok: "alloc_ok crc al a"
  obtains (fresh) i s al' where "alloc crc al a =
      Some (Inr (i, sm_slot_version (sl_metadata s) + 1), al', put_slot i (refresh_crc crc (set_flag PENDING_WRITE True s)) a)"
      "i \<in> available al" "available al' = available al - {i}" "alloc_ok crc al' a" "arena_slot i a = Some s"
      "sm_slot_version (sl_metadata s) \<noteq> -1"
  | (retired) i s al' where "alloc crc al a = Some (Inl (SlotRetired i), al', a)" "i \<in> available al"
      "available al' = available al - {i}" "alloc_ok crc al' a" "arena_slot i a = Some s"
      "sm_slot_version (sl_metadata s) = -1"
  | (exhausted) "alloc crc al a = Some (Inl (Exhausted (al_capacity al) (al_capacity al)), al, a)" "available al = {}"
proof -
  have pick: "\<exists>r al'. pick_slot al a = Some (r, al')"
  proof (cases "al_free_list al = []")
    case False
    then have "last (al_free_list al) \<in> available al" by (simp add: available_def)
    from available_range [OF ok this] show ?thesis by (simp add: pick_slot_def arena_slot_def Let_def)
  qed (simp add: pick_slot_def)
  then obtain r al' where p: "pick_slot al a = Some (r, al')" by blast
  note av = available_pick [OF ok p]
  show thesis
  proof (cases r)
    case (Inl e)
    with av p exhausted show thesis by (simp add: alloc_def)
  next
    case (Inr i)
    with av have i: "i \<in> available al" "available al' = available al - {i}" "alloc_ok crc al' a" by simp_all
    then obtain s where s: "arena_slot i a = Some s"
      using available_range [OF ok] by (auto simp: arena_slot_def)
    show thesis
    proof (cases "sm_slot_version (sl_metadata s) = -1")
      case True
      with p Inr s i retired show thesis by (simp add: alloc_def checked_succ_def)
    next
      case False
      with p Inr s i fresh show thesis by (simp add: alloc_def checked_succ_def)
    qed
  qed
qed

lemma free_ok:
  assumes ok: "alloc_ok crc al a" and i: "i < al_next_fresh al" "i \<notin> available al"
    and s: "arena_slot i a = Some s" "sm_slot_version (sl_metadata s) \<noteq> -1"
  shows "\<exists>al'. free crc i al a = Some (Inr (), al', put_slot i (refresh_crc crc (update_meta (\<lambda>m. m\<lparr>sm_flags := 0\<rparr>) s)) a) \<and>
    available al' = insert i (available al) \<and> al_next_fresh al' = al_next_fresh al \<and>
    alloc_ok crc al' (put_slot i (refresh_crc crc (update_meta (\<lambda>m. m\<lparr>sm_flags := 0\<rparr>) s)) a)"
proof -
  let ?t = "refresh_crc crc (update_meta (\<lambda>m. m\<lparr>sm_flags := 0\<rparr>) s)"
  let ?al = "al\<lparr>al_free_list := al_free_list al @ [i]\<rparr>" and ?a = "put_slot i ?t a"
  have cap: "i < al_capacity al" "i < ar_capacity_slots a" using ok i by (auto simp: alloc_ok_def)
  have "wf_slot s" using ok arena_slot_wf s(1) by (auto simp: alloc_ok_def)
  then have wf: "wf_slot ?t" by (simp, simp add: wf_slot_def)
  have free: "\<not> is_occupied ?t" by (simp add: is_occupied_def)
  have "free crc i al a = Some (Inr (), ?al, ?a)" using cap s by (simp add: free_def)
  moreover have av: "available ?al = insert i (available al)" by (auto simp: available_def)
  moreover have "alloc_ok crc ?al ?a"
    using alloc_ok_put [OF ok cap(2) wf] free i arena_slot_put [of crc a i ?t] ok cap wf
    by (auto simp: alloc_ok_def av available_def)
  ultimately show ?thesis by (intro exI [of _ ?al]) simp
qed

lemma grow_alloc_ok:
  assumes ok: "alloc_ok crc al a" and new: "ar_capacity_slots a < new"
    and size: "ARENA_HEADER_LEN + SLOT_SIZE * unat new < 2 ^ 63" and io: "fallocate_ok io" "mmap_ok io"
    and g: "grow_to crc now io new a = (r, a')" and al': "on_capacity_grow new al = Some al'"
  shows "alloc_ok crc al' a' \<and> available al' = available al \<union> {i. al_capacity al \<le> i \<and> i < new}"
proof -
  have a': "arena_ok crc a'" "ar_capacity_slots a' = new"
    "\<forall>i < new. arena_slot i a' = (if i < ar_capacity_slots a then arena_slot i a else Some zeroed)"
    using grow_to_ok [OF _ new size io, of crc now] ok g by (auto simp: alloc_ok_def)
  have al: "al' = al\<lparr>al_capacity := new\<rparr>" "al_capacity al = ar_capacity_slots a" "al_next_fresh al \<le> al_capacity al"
    using al' ok by (auto simp: on_capacity_grow_def alloc_ok_def split: if_splits)
  have "al_capacity al \<le> i \<or> i < al_capacity al" for i by (simp add: not_less [symmetric])
  then have av: "available al' = available al \<union> {i. al_capacity al \<le> i \<and> i < new}"
    using al new by (auto simp: available_def)
  have lt: "i < new" if "i \<in> available al'" for i
    using that available_range [OF ok, of i] new unfolding av by (auto intro: less_trans)
  have "\<not> is_occupied s" if i: "i \<in> available al'" and s: "arena_slot i a' = Some s" for i s
  proof (cases "i < ar_capacity_slots a")
    case True
    then have "i \<in> available al" using i al(2) by (auto simp: av not_le [symmetric])
    moreover have "arena_slot i a = Some s" using a'(3) lt [OF i] True s by simp
    ultimately show ?thesis using ok by (simp add: alloc_ok_def)
  next
    case False
    then have "s = zeroed" using a'(3) lt [OF i] s by simp
    then show ?thesis by (simp add: is_flag_bits zeroed_def)
  qed
  then show ?thesis
    using ok a' al new av by (auto simp: alloc_ok_def)
qed

section \<open>Rebuilding after a restart\<close>

lemma unat_of_nat_below: "n < unat (c :: u64) \<Longrightarrow> unat (of_nat n :: u64) = n"
  using unat_u64_lt [of c] by (intro unat_of_nat_u64) simp

lemma rebuild_fold:
  fixes P :: "u64 \<Rightarrow> bool" and c :: u64
  assumes "n \<le> unat c"
  defines "f \<equiv> foldl (\<lambda>m i. if P i then i + 1 else m) 0 (map of_nat [0..<n])"
  shows "unat f \<le> n \<and> (\<forall>i < n. P (of_nat i) \<longrightarrow> i < unat f)"
  using assms(1) unfolding f_def
proof (induction n)
  case (Suc n)
  have n: "unat (of_nat n :: u64) = n" using Suc.prems by (intro unat_of_nat_below [of n c]) simp
  have "of_nat n < c" using Suc.prems n by (simp add: word_less_nat_alt)
  then have "(of_nat n :: u64) \<noteq> -1" using word_le_minus_one [of c] by auto
  from unat_succ_word [OF this] have "unat (of_nat n + 1 :: u64) = Suc n" by (simp only: n)
  with Suc show ?case by (auto simp: less_Suc_eq)
qed simp

lemma rebuild_bound:
  "rebuild_next_fresh a \<le> ar_capacity_slots a"
  "i < ar_capacity_slots a \<Longrightarrow> slot_used (the (arena_slot i a)) \<Longrightarrow> i < rebuild_next_fresh a"
proof -
  note f = rebuild_fold [of "unat (ar_capacity_slots a)" "ar_capacity_slots a"
      "\<lambda>i. slot_used (the (arena_slot i a))", folded rebuild_next_fresh_def]
  show "rebuild_next_fresh a \<le> ar_capacity_slots a" using f by (simp add: word_le_nat_alt)
  assume i: "i < ar_capacity_slots a" "slot_used (the (arena_slot i a))"
  have "of_nat (unat i) = i" by simp
  with f i show "i < rebuild_next_fresh a" unfolding word_less_nat_alt by (metis order_refl)
qed

lemma rebuild_available:
  assumes "arena_ok crc a"
  shows "alloc_ok crc (rebuild_from_arena a) a"
    and "available (rebuild_from_arena a) = {i. i < ar_capacity_slots a \<and> \<not> is_occupied (the (arena_slot i a))}"
proof -
  let ?nf = "rebuild_next_fresh a" and ?al = "rebuild_from_arena a"
  have idx: "set (map of_nat [0..<unat ?nf]) = {i. i < ?nf}"
  proof -
    have "i \<in> of_nat ` {0..<unat ?nf}" if "i < ?nf" for i
      using that by (intro image_eqI [of _ _ "unat i"]) (simp_all add: word_less_nat_alt)
    moreover have "of_nat n < ?nf" if "n < unat ?nf" for n
      using that unat_of_nat_below [OF that] by (simp add: word_less_nat_alt)
    ultimately show ?thesis by auto
  qed
  have free: "set (al_free_list ?al) = {i. i < ?nf \<and> \<not> is_occupied (the (arena_slot i a))}"
    using idx by (auto simp: rebuild_from_arena_def Let_def)
  have nf: "al_next_fresh ?al = ?nf" "al_capacity ?al = ar_capacity_slots a"
    by (simp_all add: rebuild_from_arena_def Let_def)
  show av: "available ?al = {i. i < ar_capacity_slots a \<and> \<not> is_occupied (the (arena_slot i a))}"
  proof -
    have "i < ?nf" if "i < ar_capacity_slots a" "is_occupied (the (arena_slot i a))" for i
      using rebuild_bound(2) [OF that(1)] that(2) by (simp add: slot_used_def)
    moreover have "i < ar_capacity_slots a" if "i < ?nf" for i using that rebuild_bound(1) by (rule less_le_trans)
    ultimately show ?thesis by (auto simp: available_def free nf not_less [symmetric])
  qed
  have "inj_on (of_nat :: nat \<Rightarrow> u64) {0..<unat ?nf}"
    by (rule inj_onI) (metis atLeastLessThan_iff unat_of_nat_below)
  then have "distinct (map (of_nat :: nat \<Rightarrow> u64) [0..<unat ?nf])"
    unfolding distinct_map set_upt by (intro conjI distinct_upt)
  from distinct_filter [OF this] have "distinct (al_free_list ?al)"
    unfolding rebuild_from_arena_def Let_def slot_allocator.simps .
  moreover have "\<forall>i \<in> available ?al. \<forall>s. arena_slot i a = Some s \<longrightarrow> \<not> is_occupied s"
    unfolding av by auto
  ultimately show "alloc_ok crc ?al a"
    unfolding alloc_ok_def nf using assms rebuild_bound(1) [of a] free by blast
qed

section \<open>Runs\<close>

text \<open>
  Every run of the allocator under its contract, from a fresh arena: allocating, writing the slot
  with the version that was handed out, rewriting it, freeing it, growing the arena, and restarting
  (which rebuilds the allocator and forgets allocations that were never written). \<open>live\<close> maps the
  allocated indices to their version and whether the slot has been written; \<open>issued\<close> lists the
  (index, version) pairs under which slots were written.
\<close>

definition live_after_restart :: "arena_file \<Rightarrow> u64 \<Rightarrow> (u32 \<times> bool) option" where
  "live_after_restart a i =
     (case arena_slot i a of
        Some s \<Rightarrow> if is_occupied s then Some (sm_slot_version (sl_metadata s), True) else None
      | None \<Rightarrow> None)"

inductive alloc_run ::
    "crc_fn \<Rightarrow> slot_allocator \<Rightarrow> arena_file \<Rightarrow> (u64 \<Rightarrow> (u32 \<times> bool) option) \<Rightarrow> (u64 \<times> u32) list \<Rightarrow> bool"
  for crc where
  fresh: "arena_ok crc a \<Longrightarrow> (\<And>i. i < ar_capacity_slots a \<Longrightarrow> arena_slot i a = Some zeroed) \<Longrightarrow>
     alloc_run crc (allocator_empty (ar_capacity_slots a)) a Map.empty []"
| allocated: "alloc_run crc al a live issued \<Longrightarrow> alloc crc al a = Some (Inr (i, v), al', a') \<Longrightarrow>
     alloc_run crc al' a' (live(i \<mapsto> (v, False))) issued"
| refused: "alloc_run crc al a live issued \<Longrightarrow> alloc crc al a = Some (Inl e, al', a') \<Longrightarrow>
     alloc_run crc al' a' live issued"
| encoded: "alloc_run crc al a live issued \<Longrightarrow> live i = Some (v, False) \<Longrightarrow> wf_slot s \<Longrightarrow>
     sm_slot_version (sl_metadata s) = v \<Longrightarrow> is_occupied s \<Longrightarrow>
     alloc_run crc al (put_slot i s a) (live(i \<mapsto> (v, True))) (issued @ [(i, v)])"
| rewritten: "alloc_run crc al a live issued \<Longrightarrow> live i = Some (v, True) \<Longrightarrow> wf_slot s \<Longrightarrow>
     sm_slot_version (sl_metadata s) = v \<Longrightarrow> is_occupied s \<Longrightarrow>
     alloc_run crc al (put_slot i s a) live issued"
| freed: "alloc_run crc al a live issued \<Longrightarrow> live i \<noteq> None \<Longrightarrow>
     free crc i al a = Some (Inr (), al', a') \<Longrightarrow> alloc_run crc al' a' (live(i := None)) issued"
| grown: "alloc_run crc al a live issued \<Longrightarrow> ar_capacity_slots a < new \<Longrightarrow>
     ARENA_HEADER_LEN + SLOT_SIZE * unat new < 2 ^ 63 \<Longrightarrow> fallocate_ok io \<Longrightarrow> mmap_ok io \<Longrightarrow>
     grow_to crc now io new a = (r, a') \<Longrightarrow> on_capacity_grow new al = Some al' \<Longrightarrow>
     alloc_run crc al' a' live issued"
| restarted: "alloc_run crc al a live issued \<Longrightarrow>
     alloc_run crc (rebuild_from_arena a) a (live_after_restart a) issued"

text \<open>The version a slot carries, and what the run knows about it.\<close>

definition slot_version_nat :: "arena_file \<Rightarrow> u64 \<Rightarrow> nat" where
  "slot_version_nat a i = (case arena_slot i a of Some s \<Rightarrow> unat (sm_slot_version (sl_metadata s)) | None \<Rightarrow> 0)"

definition run_inv :: "crc_fn \<Rightarrow> slot_allocator \<Rightarrow> arena_file \<Rightarrow> (u64 \<Rightarrow> (u32 \<times> bool) option) \<Rightarrow> (u64 \<times> u32) list \<Rightarrow> bool" where
  "run_inv crc al a live issued \<longleftrightarrow>
     alloc_ok crc al a \<and> (\<forall>i \<in> dom live. i < ar_capacity_slots a \<and> i \<notin> available al) \<and>
     (\<forall>i v. live i = Some (v, False) \<longrightarrow> unat v = Suc (slot_version_nat a i)) \<and>
     (\<forall>i v. live i = Some (v, True) \<longrightarrow> unat v = slot_version_nat a i) \<and>
     (\<forall>(i, v) \<in> set issued. i < ar_capacity_slots a \<and> unat v \<le> slot_version_nat a i) \<and> distinct issued"

lemma slot_version_put:
  "arena_ok crc a \<Longrightarrow> i < ar_capacity_slots a \<Longrightarrow> wf_slot s \<Longrightarrow>
   slot_version_nat (put_slot i s a) j =
     (if j = i then unat (sm_slot_version (sl_metadata s)) else slot_version_nat a j)"
  by (simp add: slot_version_nat_def arena_slot_put)

lemma alloc_ok_arena: "alloc_ok crc al a \<Longrightarrow> arena_ok crc a"
  by (simp add: alloc_ok_def)

lemma run_inv_allocated:
  assumes inv: "run_inv crc al a live issued" and r: "alloc crc al a = Some (Inr (i, v), al', a')"
  shows "run_inv crc al' a' (live(i \<mapsto> (v, False))) issued \<and> live i = None \<and> i < ar_capacity_slots a"
proof -
  have ok: "alloc_ok crc al a" using inv by (simp add: run_inv_def)
  then show ?thesis
  proof (cases rule: alloc_cases)
    case (fresh i0 s al0)
    let ?t = "refresh_crc crc (set_flag PENDING_WRITE True s)"
    from r fresh(1) have eq: "i0 = i" "al0 = al'" "a' = put_slot i ?t a" "v = sm_slot_version (sl_metadata s) + 1" by auto
    note fresh = fresh(2-) [unfolded eq(1,2)]
    have i: "i < ar_capacity_slots a" using available_range [OF ok fresh(1)] .
    have wf: "wf_slot ?t" using arena_slot_wf [OF alloc_ok_arena [OF ok] fresh(4)] by simp
    have occ: "\<not> is_occupied s" using ok fresh(1,4) by (simp add: alloc_ok_def)
    then have "\<not> is_occupied ?t" by (simp add: is_flag_bits bit_set_flag bit_flag_consts)
    with alloc_ok_put [OF fresh(3) i wf] have "alloc_ok crc al' a'" by (simp add: eq)
    moreover have "i \<notin> dom live" using inv fresh(1) unfolding run_inv_def by blast
    then have "live i = None" unfolding domIff by blast
    moreover have "slot_version_nat a' j = slot_version_nat a j" for j
      using slot_version_put [OF alloc_ok_arena [OF ok] i wf] fresh(4) by (simp add: eq slot_version_nat_def)
    moreover have "unat v = Suc (slot_version_nat a i)"
      using fresh(4,5) unat_succ_word [of "sm_slot_version (sl_metadata s)"] by (simp add: eq slot_version_nat_def)
    ultimately show ?thesis
      using inv i fresh(2) unfolding run_inv_def by (auto simp: eq mapped.cap_put)
  qed (use r in auto)
qed

lemma run_inv_refused:
  assumes inv: "run_inv crc al a live issued" and r: "alloc crc al a = Some (Inl e, al', a')"
  shows "run_inv crc al' a' live issued"
proof -
  have "alloc_ok crc al a" using inv by (simp add: run_inv_def)
  then show ?thesis
    by (cases rule: alloc_cases) (use r inv in \<open>auto simp: run_inv_def\<close>)
qed

lemma run_inv_encoded:
  assumes inv: "run_inv crc al a live issued" and i: "live i = Some (v, False)"
    and s: "wf_slot s" "sm_slot_version (sl_metadata s) = v"
  shows "run_inv crc al (put_slot i s a) (live(i \<mapsto> (v, True))) (issued @ [(i, v)])"
proof -
  have ok: "alloc_ok crc al a" and cap: "i < ar_capacity_slots a" "i \<notin> available al"
    and v: "unat v = Suc (slot_version_nat a i)"
    using inv i by (auto simp: run_inv_def)
  have "alloc_ok crc al (put_slot i s a)" using alloc_ok_put [OF ok cap(1) s(1)] cap(2) by simp
  moreover have "(i, v) \<notin> set issued" using inv v by (auto simp: run_inv_def)
  moreover note sv = slot_version_put [OF alloc_ok_arena [OF ok] cap(1) s(1)]
  have "unat u \<le> slot_version_nat (put_slot i s a) j" if "(j, u) \<in> set issued" for j u
    using inv that v s(2) by (auto simp: run_inv_def sv)
  ultimately show ?thesis
    using inv cap s(2) unfolding run_inv_def by (auto simp: sv mapped.cap_put)
qed

lemma run_inv_rewritten:
  assumes inv: "run_inv crc al a live issued" and i: "live i = Some (v, True)"
    and s: "wf_slot s" "sm_slot_version (sl_metadata s) = v"
  shows "run_inv crc al (put_slot i s a) live issued"
proof -
  have ok: "alloc_ok crc al a" and cap: "i < ar_capacity_slots a" "i \<notin> available al" and v: "unat v = slot_version_nat a i"
    using inv i by (auto simp: run_inv_def)
  have "alloc_ok crc al (put_slot i s a)" using alloc_ok_put [OF ok cap(1) s(1)] cap(2) by simp
  moreover have "slot_version_nat (put_slot i s a) j = slot_version_nat a j" for j
    using slot_version_put [OF alloc_ok_arena [OF ok] cap(1) s(1)] v s(2) by simp
  ultimately show ?thesis using inv unfolding run_inv_def by (simp add: mapped.cap_put)
qed

lemma run_inv_freed:
  assumes inv: "run_inv crc al a live issued" and i: "live i \<noteq> None"
    and f: "free crc i al a = Some (Inr (), al', a')"
  shows "run_inv crc al' a' (live(i := None)) issued"
proof -
  have "i \<in> dom live" using i unfolding domIff by blast
  with inv have ok: "alloc_ok crc al a" and cap: "i < ar_capacity_slots a" "i \<notin> available al"
    unfolding run_inv_def by blast+
  then have nf: "i < al_next_fresh al" by (auto simp: available_def alloc_ok_def not_less [symmetric])
  obtain s where s: "arena_slot i a = Some s" using cap(1) by (simp add: arena_slot_def)
  have ver: "sm_slot_version (sl_metadata s) \<noteq> -1"
    using f s cap(1) ok by (auto simp: free_def alloc_ok_def split: if_splits)
  let ?t = "refresh_crc crc (update_meta (\<lambda>m. m\<lparr>sm_flags := 0\<rparr>) s)"
  obtain al0 where a': "free crc i al a = Some (Inr (), al0, put_slot i ?t a)"
    and av: "available al0 = insert i (available al)" and ok': "alloc_ok crc al0 (put_slot i ?t a)"
    using free_ok [OF ok nf cap(2) s ver] by blast
  have "wf_slot s" using arena_slot_wf [OF alloc_ok_arena [OF ok] s] .
  then have wf: "wf_slot ?t" by (simp, simp add: wf_slot_def)
  have "slot_version_nat a' j = slot_version_nat a j" for j
    using slot_version_put [OF alloc_ok_arena [OF ok] cap(1) wf] s a' f by (simp add: slot_version_nat_def)
  then show ?thesis
    using inv av ok' a' f unfolding run_inv_def by (auto simp: mapped.cap_put split: if_splits)
qed

lemma run_inv_grown:
  assumes inv: "run_inv crc al a live issued" and new: "ar_capacity_slots a < new"
    and size: "ARENA_HEADER_LEN + SLOT_SIZE * unat new < 2 ^ 63" and io: "fallocate_ok io" "mmap_ok io"
    and g: "grow_to crc now io new a = (r, a')" and al': "on_capacity_grow new al = Some al'"
  shows "run_inv crc al' a' live issued"
proof -
  have ok: "alloc_ok crc al a" using inv by (simp add: run_inv_def)
  have a': "ar_capacity_slots a' = new"
    "\<forall>i < new. arena_slot i a' = (if i < ar_capacity_slots a then arena_slot i a else Some zeroed)"
    using grow_to_ok [OF alloc_ok_arena [OF ok] new size io, of now] g by auto
  have "slot_version_nat a' i = slot_version_nat a i" if "i < ar_capacity_slots a" for i
    using a'(2) that new by (simp add: slot_version_nat_def less_trans [OF that new])
  moreover have cap: "al_capacity al = ar_capacity_slots a" using ok by (simp add: alloc_ok_def)
  note av = grow_alloc_ok [OF ok new size io g al', unfolded cap]
  have "i < new \<and> i \<notin> available al'" if "i \<in> dom live" for i
    using that inv new av unfolding run_inv_def by (auto simp: not_le intro: less_trans)
  moreover have "i < new" if "i < ar_capacity_slots a" for i using that new by (rule less_trans)
  ultimately show ?thesis
    using inv a'(1) av unfolding run_inv_def by (auto simp: domI)
qed

lemma run_inv_restarted:
  assumes inv: "run_inv crc al a live issued"
  shows "run_inv crc (rebuild_from_arena a) a (live_after_restart a) issued"
proof -
  have ok: "arena_ok crc a" using inv by (simp add: run_inv_def alloc_ok_def)
  have "unat v = slot_version_nat a i \<and> i < ar_capacity_slots a \<and> is_occupied (the (arena_slot i a)) \<and> b"
    if "live_after_restart a i = Some (v, b)" for i v b
    using that by (auto simp: live_after_restart_def slot_version_nat_def arena_slot_def split: if_splits)
  then show ?thesis
    using inv rebuild_available [OF ok] unfolding run_inv_def by auto
qed

lemma alloc_run_inv: "alloc_run crc al a live issued \<Longrightarrow> run_inv crc al a live issued"
proof (induction rule: alloc_run.induct)
  case (fresh a)
  have "\<not> is_occupied zeroed" by (simp add: is_flag_bits zeroed_def)
  with fresh have "alloc_ok crc (allocator_empty (ar_capacity_slots a)) a"
    by (simp add: alloc_ok_def allocator_empty_def available_def)
  then show ?case by (simp add: run_inv_def)
next
  case (allocated al a live issued i v al' a')
  then show ?case using run_inv_allocated by blast
next
  case (refused al a live issued e al' a')
  then show ?case using run_inv_refused by blast
next
  case (encoded al a live issued i v s)
  then show ?case using run_inv_encoded by blast
next
  case (rewritten al a live issued i v s)
  then show ?case using run_inv_rewritten by blast
next
  case (freed al a live issued i al' a')
  then show ?case using run_inv_freed by blast
next
  case (grown al a live issued new io now r a' al')
  then show ?case using run_inv_grown by blast
next
  case (restarted al a live issued)
  then show ?case using run_inv_restarted by blast
qed

section \<open>Properties\<close>

lemma pack_inject:
  "i \<le> MAX_SLOT_INDEX \<Longrightarrow> j \<le> MAX_SLOT_INDEX \<Longrightarrow> memory_id_pack sh i v = memory_id_pack sh j w \<longleftrightarrow> i = j \<and> v = w"
  using slot_pack [of sh i v] slot_pack [of sh j w] version_pack [of sh i v] version_pack [of sh j w]
  by (auto simp: slot_in_range_masked)

text \<open>A sample run: the first slot of a fresh arena is allocated and written.\<close>

definition sample_slot :: slot where
  "sample_slot = set_flag OCCUPIED True (update_meta (\<lambda>m. m\<lparr>sm_slot_version := 1\<rparr>) zeroed)"

lemma sample_alloc:
  "\<exists>al' a'. alloc sum_crc (allocator_empty 2) sample_arena = Some (Inr (0, 1), al', a') \<and> ar_capacity_slots a' = 2"
  using sample_arena_facts(5) [of 0]
  by (simp add: alloc_def pick_slot_def allocator_empty_def checked_succ_def zeroed_def mapped.cap_put sample_arena_facts(3))

lemma sample_alloc_ok: "alloc_ok sum_crc (allocator_empty 2) sample_arena"
proof -
  have "alloc_run sum_crc (allocator_empty 2) sample_arena Map.empty []"
    using alloc_run.fresh [OF sample_arena_facts(2)] sample_arena_facts(3,5) by simp
  from alloc_run_inv [OF this] show ?thesis by (simp add: run_inv_def)
qed

lemma sample_run:
  "\<exists>al a live. alloc_run sum_crc al a live [(0, 1)] \<and> ar_capacity_slots a = 2"
proof -
  obtain al' a' where al': "alloc sum_crc (allocator_empty 2) sample_arena = Some (Inr (0, 1), al', a')"
    "ar_capacity_slots a' = 2" using sample_alloc by blast
  have "alloc_run sum_crc (allocator_empty 2) sample_arena Map.empty []"
    using alloc_run.fresh [OF sample_arena_facts(2)] sample_arena_facts(3,5) by simp
  from alloc_run.allocated [OF this al'(1)] have "alloc_run sum_crc al' a' [0 \<mapsto> (1, False)] []" by simp
  then have "alloc_run sum_crc al' (put_slot 0 sample_slot a') ([0 \<mapsto> (1, False)](0 \<mapsto> (1, True))) ([] @ [(0, 1)])"
  proof (rule alloc_run.encoded)
    show "wf_slot sample_slot" by (simp add: sample_slot_def) (simp add: wf_slot_def zeroed_def)
    show "is_occupied sample_slot" by (simp add: sample_slot_def is_flag_bits bit_set_flag bit_flag_consts)
  qed (simp_all add: sample_slot_def)
  then show ?thesis using al'(2) by (auto simp: mapped.cap_put intro!: exI)
qed



text \<open>C14. Allocation. On a consistent allocator \<open>alloc\<close> never panics and never meets an occupied slot.
  Seen as a set of available indices it removes one available index: it either hands it out, with
  the version after the one on disk, marked \<open>PENDING_WRITE\<close> with a valid checksum and nothing else
  changed, or it retires it because its versions are used up. It reports exhaustion exactly when
  nothing is available.\<close>

theorem alloc_refines_set:
  assumes "alloc_ok crc al a"
  shows "\<exists>r al' a'. alloc crc al a = Some (r, al', a') \<and> alloc_ok crc al' a' \<and>
    (case r of
       Inr (i, v) \<Rightarrow> i \<in> available al \<and> available al' = available al - {i} \<and>
         (\<forall>j. j \<noteq> i \<longrightarrow> arena_slot j a' = arena_slot j a) \<and>
         (\<exists>s s'. arena_slot i a = Some s \<and> arena_slot i a' = Some s' \<and> sl_vector s' = sl_vector s \<and>
            is_pending_write s' \<and> \<not> is_occupied s' \<and> slot_is_valid crc s' \<and>
            sm_slot_version (sl_metadata s') = sm_slot_version (sl_metadata s) \<and>
            unat v = Suc (unat (sm_slot_version (sl_metadata s))))
     | Inl (Exhausted _ _) \<Rightarrow> available al = {} \<and> al' = al \<and> a' = a
     | Inl (SlotRetired i) \<Rightarrow> i \<in> available al \<and> available al' = available al - {i} \<and> a' = a \<and>
         version_of a i = Some (-1)
     | Inl (FreeListSlotOccupied _) \<Rightarrow> False)"
  using assms
proof (cases rule: alloc_cases)
  case (fresh i s al')
  let ?t = "refresh_crc crc (set_flag PENDING_WRITE True s)"
  note ok = alloc_ok_arena [OF assms]
  have i: "i < ar_capacity_slots a" using available_range [OF assms fresh(2)] .
  have wfs: "wf_slot s" using arena_slot_wf [OF ok fresh(5)] .
  then have wf: "wf_slot ?t" by simp
  have "\<not> is_occupied s" using assms fresh(2,5) by (simp add: alloc_ok_def)
  then have occ: "\<not> is_occupied ?t" "is_pending_write ?t"
    by (simp_all add: is_flag_bits bit_set_flag bit_flag_consts)
  have "slot_is_valid crc ?t" using wfs by (intro refresh_crc_valid) simp
  moreover have "alloc_ok crc al' (put_slot i ?t a)" using alloc_ok_put [OF fresh(4) i wf] occ by simp
  ultimately show ?thesis
    using fresh occ arena_slot_put [OF ok i wf] unat_succ_word [OF fresh(6)] by simp
next
  case (retired i s al')
  then show ?thesis by (simp add: version_of_def)
next
  case exhausted
  with assms show ?thesis by simp
qed

theorem alloc_refines_set_witness:
  "\<exists>al' a'. alloc sum_crc (allocator_empty 2) sample_arena = Some (Inr (0, 1), al', a') \<and>
    0 \<in> available (allocator_empty 2) \<and> available al' = available (allocator_empty 2) - {0}"
  using alloc_refines_set [OF sample_alloc_ok] sample_alloc by auto

text \<open>C23. Rebuilding. Scanning a consistent arena yields a consistent allocator in which exactly the
  unoccupied slots are available: no slot is lost and no occupied slot is handed out.\<close>

theorem rebuild_exact:
  assumes "arena_ok crc a"
  shows "alloc_ok crc (rebuild_from_arena a) a \<and>
    available (rebuild_from_arena a) = {i. i < ar_capacity_slots a \<and> \<not> is_occupied (the (arena_slot i a))}"
  using rebuild_available [OF assms] by simp

theorem rebuild_exact_witness:
  "available (rebuild_from_arena sample_arena) = {i. i < 2 \<and> \<not> is_occupied (the (arena_slot i sample_arena))}"
  using rebuild_exact [OF sample_arena_facts(2)] sample_arena_facts(3) by simp

end
