(* ===== verification/Recovery_Apply.thy ===== *)
theory Recovery_Apply
  imports Wal_Reader Arena_Allocator
begin

text \<open>
  Applying one WAL record during recovery (\<open>brain-storage/src/recovery.rs\<close>, the sink trait, the
  in-memory sink and the apply helpers).
  The sink behind \<open>dyn MetadataSink\<close> is a record of its two methods over an arbitrary state. The
  clock and the outcomes of the system calls of a growth are given per LSN. Each operation returns
  its result together with the arena it leaves behind; a panic or a loop that does not end is
  \<open>None\<close>.
  The lemmas read the arena as a total function from indices to slots, zeroed beyond the capacity:
  on that view growth is invisible and every record is one update of one slot. Replaying a prefix of
  a run before the run changes nothing, for slots and for the in-memory sink alike.
\<close>

unbundle bit_operations_syntax

section \<open>The metadata sink\<close>

datatype metadata_sink_error =
    Transient string
  | Corruption string

record 's metadata_sink =
  ms_durable_lsn :: "'s \<Rightarrow> u64"
  ms_apply :: "u64 \<Rightarrow> u64 \<Rightarrow> wal_payload \<Rightarrow> 's \<Rightarrow> (metadata_sink_error + unit) \<times> 's"

record in_memory_sink =
  im_by_lsn :: "u64 \<rightharpoonup> wal_payload"
  im_durable_lsn :: u64

definition in_memory_new :: in_memory_sink where
  "in_memory_new = \<lparr>im_by_lsn = Map.empty, im_durable_lsn = 0\<rparr>"

definition with_durable_lsn :: "u64 \<Rightarrow> in_memory_sink" where
  "with_durable_lsn l = \<lparr>im_by_lsn = Map.empty, im_durable_lsn = l\<rparr>"

definition in_memory_apply ::
    "u64 \<Rightarrow> u64 \<Rightarrow> wal_payload \<Rightarrow> in_memory_sink \<Rightarrow> (metadata_sink_error + unit) \<times> in_memory_sink" where
  "in_memory_apply l timestamp_ns payload s =
     (let s' = s\<lparr>im_by_lsn := (im_by_lsn s)(l \<mapsto> payload)\<rparr>
      in (Inr (), case payload of
            CheckpointEnd p \<Rightarrow> s'\<lparr>im_durable_lsn := max (im_durable_lsn s') (ce_durable_lsn p)\<rparr>
          | _ \<Rightarrow> s'))"

definition in_memory_metadata_sink :: "in_memory_sink metadata_sink" where
  "in_memory_metadata_sink = \<lparr>ms_durable_lsn = im_durable_lsn, ms_apply = in_memory_apply\<rparr>"

section \<open>Errors\<close>

datatype recovery_error =
    WalRead wal_read_error
  | PayloadDecodeError u64 payload_error
  | ArenaGrow u64 u64 arena_grow_error
  | VectorDimMismatch u64 nat nat
  | SinkError u64 metadata_sink_error
  | TxnBufferOverflow txn_id nat u32
  | RecoveryIo

type_synonym arena_env = "u64 \<Rightarrow> u64 \<times> arena_io"
type_synonym arena_outcome = "((recovery_error + unit) \<times> arena_file) option"

section \<open>Capacity\<close>

text \<open>The doubling loop; it has no guard against a zero start, where it would not end.\<close>

partial_function (option) grow_target :: "u64 \<Rightarrow> u64 \<Rightarrow> u64 option" where
  "grow_target target needed =
     (if target < needed then grow_target (saturating_double target) needed else Some target)"

definition ensure_slot_capacity :: "crc_fn \<Rightarrow> arena_env \<Rightarrow> u64 \<Rightarrow> u64 \<Rightarrow> arena_file \<Rightarrow> arena_outcome" where
  "ensure_slot_capacity crc env slot_idx l a =
     (let needed = saturating_succ slot_idx
      in if needed \<le> ar_capacity_slots a then Some (Inr (), a)
         else
           case grow_target (max (ar_capacity_slots a) 1) needed of
             None \<Rightarrow> None
           | Some target \<Rightarrow>
               (case grow_to crc (fst (env l)) (snd (env l)) target a of
                  (Inl e, a') \<Rightarrow> Some (Inl (ArenaGrow slot_idx l e), a')
                | (Inr _, a') \<Rightarrow> Some (Inr (), a')))"

definition check_vector_dim :: "f32 list \<Rightarrow> u64 \<Rightarrow> recovery_error + unit" where
  "check_vector_dim vector l =
     (if vector \<noteq> [] \<and> length vector \<noteq> VECTOR_DIM then Inl (VectorDimMismatch l VECTOR_DIM (length vector))
      else Inr ())"

section \<open>One record on the arena\<close>

text \<open>\<open>copy_from_slice\<close> under the guard for an empty vector.\<close>

definition copy_vector :: "f32 list \<Rightarrow> slot \<Rightarrow> slot" where
  "copy_vector vector s = (if vector \<noteq> [] then s\<lparr>sl_vector := vector\<rparr> else s)"

text \<open>The tail of the slot writers: borrow the slot, mutate it, refresh its checksum.\<close>

definition write_slot :: "crc_fn \<Rightarrow> u64 \<Rightarrow> (slot \<Rightarrow> slot) \<Rightarrow> arena_file \<Rightarrow> arena_outcome" where
  "write_slot crc slot_idx f a = map_option (\<lambda>a'. (Inr (), a')) (slot_mut slot_idx (refresh_crc crc \<circ> f) a)"

definition encoded_slot :: "u64 \<Rightarrow> encode_payload \<Rightarrow> slot \<Rightarrow> slot" where
  "encoded_slot timestamp_ns p s =
     update_meta (\<lambda>m. m\<lparr>sm_slot_version := memory_id_version (enc_memory_id p), sm_flags := OCCUPIED,
         sm_embedding_model_fp_short := enc_embedding_model_fp p, sm_created_at_unix_nanos := timestamp_ns,
         sm_last_modified_at_unix_nanos := timestamp_ns\<rparr>)
       (copy_vector (enc_vector p) s)"

definition write_encoded_slot :: "crc_fn \<Rightarrow> arena_env \<Rightarrow> wal_record \<Rightarrow> encode_payload \<Rightarrow> arena_file \<Rightarrow> arena_outcome" where
  "write_encoded_slot crc env r p a =
     (let slot_idx = memory_id_slot (enc_memory_id p)
      in case ensure_slot_capacity crc env slot_idx (wr_lsn r) a of
           None \<Rightarrow> None
         | Some (Inl e, a') \<Rightarrow> Some (Inl e, a')
         | Some (Inr _, a') \<Rightarrow>
             (case check_vector_dim (enc_vector p) (wr_lsn r) of
                Inl e \<Rightarrow> Some (Inl e, a')
              | Inr _ \<Rightarrow> write_slot crc slot_idx (encoded_slot (wr_timestamp_ns r) p) a'))"

definition tombstoned_slot :: "u64 \<Rightarrow> forget_payload \<Rightarrow> slot \<Rightarrow> slot" where
  "tombstoned_slot timestamp_ns p s =
     (let s1 = set_flag TOMBSTONED True s;
          s2 = update_meta (\<lambda>m. m\<lparr>sm_last_modified_at_unix_nanos := timestamp_ns\<rparr>) s1
      in if fg_mode p = Hard then set_flag HARD_FORGOTTEN True (s2\<lparr>sl_vector := replicate VECTOR_DIM 0\<rparr>)
         else s2)"

definition mark_slot_tombstoned :: "crc_fn \<Rightarrow> arena_env \<Rightarrow> wal_record \<Rightarrow> forget_payload \<Rightarrow> arena_file \<Rightarrow> arena_outcome" where
  "mark_slot_tombstoned crc env r p a =
     (let slot_idx = memory_id_slot (fg_memory_id p)
      in case ensure_slot_capacity crc env slot_idx (wr_lsn r) a of
           None \<Rightarrow> None
         | Some (Inl e, a') \<Rightarrow> Some (Inl e, a')
         | Some (Inr _, a') \<Rightarrow> write_slot crc slot_idx (tombstoned_slot (wr_timestamp_ns r) p) a')"

definition reclaimed_slot :: "u64 \<Rightarrow> reclaim_payload \<Rightarrow> slot \<Rightarrow> slot" where
  "reclaimed_slot timestamp_ns p =
     update_meta (\<lambda>m. m\<lparr>sm_slot_version := rc_new_version p, sm_flags := 0,
         sm_last_modified_at_unix_nanos := timestamp_ns\<rparr>)"

definition reclaim_slot :: "crc_fn \<Rightarrow> arena_env \<Rightarrow> wal_record \<Rightarrow> reclaim_payload \<Rightarrow> arena_file \<Rightarrow> arena_outcome" where
  "reclaim_slot crc env r p a =
     (case ensure_slot_capacity crc env (rc_slot_id p) (wr_lsn r) a of
        None \<Rightarrow> None
      | Some (Inl e, a') \<Rightarrow> Some (Inl e, a')
      | Some (Inr _, a') \<Rightarrow> write_slot crc (rc_slot_id p) (reclaimed_slot (wr_timestamp_ns r) p) a')"

definition consolidated_slot :: "u64 \<Rightarrow> consolidate_payload \<Rightarrow> slot \<Rightarrow> slot" where
  "consolidated_slot timestamp_ns p s =
     update_meta (\<lambda>m. m\<lparr>sm_slot_version := memory_id_version (cs_new_memory_id p), sm_flags := OCCUPIED,
         sm_embedding_model_fp_short := cs_embedding_model_fp p, sm_created_at_unix_nanos := timestamp_ns,
         sm_last_modified_at_unix_nanos := timestamp_ns\<rparr>)
       (copy_vector (cs_vector p) s)"

definition write_consolidated_slot ::
    "crc_fn \<Rightarrow> arena_env \<Rightarrow> wal_record \<Rightarrow> consolidate_payload \<Rightarrow> arena_file \<Rightarrow> arena_outcome" where
  "write_consolidated_slot crc env r p a =
     (let slot_idx = memory_id_slot (cs_new_memory_id p)
      in case ensure_slot_capacity crc env slot_idx (wr_lsn r) a of
           None \<Rightarrow> None
         | Some (Inl e, a') \<Rightarrow> Some (Inl e, a')
         | Some (Inr _, a') \<Rightarrow>
             (case check_vector_dim (cs_vector p) (wr_lsn r) of
                Inl e \<Rightarrow> Some (Inl e, a')
              | Inr _ \<Rightarrow> write_slot crc slot_idx (consolidated_slot (wr_timestamp_ns r) p) a'))"

definition migrated_slot :: "u64 \<Rightarrow> migrate_embedding_payload \<Rightarrow> slot \<Rightarrow> slot" where
  "migrated_slot timestamp_ns p s =
     update_meta (\<lambda>m. m\<lparr>sm_embedding_model_fp_short := me_new_fingerprint p,
         sm_last_modified_at_unix_nanos := timestamp_ns\<rparr>)
       (copy_vector (me_new_vector p) s)"

definition migrate_slot_vector ::
    "crc_fn \<Rightarrow> arena_env \<Rightarrow> wal_record \<Rightarrow> migrate_embedding_payload \<Rightarrow> arena_file \<Rightarrow> arena_outcome" where
  "migrate_slot_vector crc env r p a =
     (let slot_idx = memory_id_slot (me_memory_id p)
      in case ensure_slot_capacity crc env slot_idx (wr_lsn r) a of
           None \<Rightarrow> None
         | Some (Inl e, a') \<Rightarrow> Some (Inl e, a')
         | Some (Inr _, a') \<Rightarrow>
             (case check_vector_dim (me_new_vector p) (wr_lsn r) of
                Inl e \<Rightarrow> Some (Inl e, a')
              | Inr _ \<Rightarrow> write_slot crc slot_idx (migrated_slot (wr_timestamp_ns r) p) a'))"

definition apply_to_arena :: "crc_fn \<Rightarrow> arena_env \<Rightarrow> wal_record \<Rightarrow> wal_payload \<Rightarrow> arena_file \<Rightarrow> arena_outcome" where
  "apply_to_arena crc env r payload a =
     (case payload of
        Encode p \<Rightarrow> write_encoded_slot crc env r p a
      | Forget p \<Rightarrow> mark_slot_tombstoned crc env r p a
      | Reclaim p \<Rightarrow> reclaim_slot crc env r p a
      | Consolidate p \<Rightarrow> write_consolidated_slot crc env r p a
      | MigrateEmbedding p \<Rightarrow> migrate_slot_vector crc env r p a
      | _ \<Rightarrow> Some (Inr (), a))"

text \<open>\<open>apply\<close>: the arena first, then the sink.\<close>

definition apply_record ::
    "crc_fn \<Rightarrow> arena_env \<Rightarrow> 's metadata_sink \<Rightarrow> wal_record \<Rightarrow> wal_payload \<Rightarrow> arena_file \<times> 's \<Rightarrow>
     ((recovery_error + unit) \<times> arena_file \<times> 's) option" where
  "apply_record crc env S r payload = (\<lambda>(a, s).
     case apply_to_arena crc env r payload a of
       None \<Rightarrow> None
     | Some (Inl e, a') \<Rightarrow> Some (Inl e, a', s)
     | Some (Inr _, a') \<Rightarrow>
         (case ms_apply S (wr_lsn r) (wr_timestamp_ns r) payload s of
            (Inl e, s') \<Rightarrow> Some (Inl (SinkError (wr_lsn r) e), a', s')
          | (Inr _, s') \<Rightarrow> Some (Inr (), a', s')))"

section \<open>Growth\<close>

lemma unat_max_u64: "unat (- 1 :: u64) = 2 ^ 64 - 1"
  by (simp add: unsigned_minus_1_eq_mask mask_eq_exp_minus_1)

lemma unat_saturating_double:
  fixes w :: u64
  shows "unat (saturating_double w) = min (2 * unat w) (2 ^ 64 - 1)"
proof (cases "unat w * 2 < 2 ^ 64")
  case True
  then have "unat (w * 2) = unat w * 2" by (subst unat_mult_lem [THEN iffD1]) simp_all
  with True show ?thesis by (simp add: saturating_double_def)
next
  case False
  then show ?thesis by (simp add: saturating_double_def unat_max_u64)
qed

lemma grow_target_ok:
  assumes "0 < target"
  shows "\<exists>t. grow_target target needed = Some t \<and> target \<le> t \<and> needed \<le> t \<and>
    (t = target \<or> unat t < 2 * unat needed)"
  using assms
proof (induction "2 ^ 64 - unat target" arbitrary: target rule: less_induct)
  case less
  show ?case
  proof (cases "target < needed")
    case True
    let ?d = "saturating_double target"
    have lt: "unat target < unat needed" using True by (simp add: word_less_nat_alt)
    have bound: "unat needed < 2 ^ 64" using unsigned_less [of needed, where ?'a = nat] by simp
    have pos: "0 < unat target" using less.prems by (simp add: word_less_nat_alt)
    have d: "unat target < unat ?d" "unat ?d \<le> 2 * unat target"
      using lt bound pos by (simp_all add: unat_saturating_double)
    then have "2 ^ 64 - unat ?d < 2 ^ 64 - unat target" using lt bound by linarith
    moreover have "0 < ?d" using d by (simp add: word_less_nat_alt)
    ultimately obtain t where t: "grow_target ?d needed = Some t" "?d \<le> t" "needed \<le> t"
      "t = ?d \<or> unat t < 2 * unat needed"
      using less.hyps by blast
    have "target \<le> t" using t(2) d(1) by (simp add: word_le_nat_alt)
    moreover have "unat t < 2 * unat needed" using t(4) d(2) lt by auto
    ultimately show ?thesis using t True by (simp add: grow_target.simps [of target])
  next
    case False
    then show ?thesis by (simp add: grow_target.simps [of target])
  qed
qed

section \<open>The arena as a total function\<close>

definition slot_at :: "arena_file \<Rightarrow> u64 \<Rightarrow> slot" where
  "slot_at a i = (case arena_slot i a of Some s \<Rightarrow> s | None \<Rightarrow> zeroed)"

fun slot_target :: "wal_payload \<Rightarrow> u64 option" where
  "slot_target (Encode p) = Some (memory_id_slot (enc_memory_id p))"
| "slot_target (Forget p) = Some (memory_id_slot (fg_memory_id p))"
| "slot_target (Reclaim p) = Some (rc_slot_id p)"
| "slot_target (Consolidate p) = Some (memory_id_slot (cs_new_memory_id p))"
| "slot_target (MigrateEmbedding p) = Some (memory_id_slot (me_memory_id p))"
| "slot_target _ = None"

fun slot_effect :: "u64 \<Rightarrow> wal_payload \<Rightarrow> slot \<Rightarrow> slot" where
  "slot_effect ts (Encode p) s = encoded_slot ts p s"
| "slot_effect ts (Forget p) s = tombstoned_slot ts p s"
| "slot_effect ts (Reclaim p) s = reclaimed_slot ts p s"
| "slot_effect ts (Consolidate p) s = consolidated_slot ts p s"
| "slot_effect ts (MigrateEmbedding p) s = migrated_slot ts p s"
| "slot_effect ts _ s = s"

definition store_step :: "crc_fn \<Rightarrow> wal_record \<times> wal_payload \<Rightarrow> (u64 \<Rightarrow> slot) \<Rightarrow> u64 \<Rightarrow> slot" where
  "store_step crc rp st =
     (case slot_target (snd rp) of
        None \<Rightarrow> st
      | Some i \<Rightarrow> st(i := refresh_crc crc (slot_effect (wr_timestamp_ns (fst rp)) (snd rp) (st i))))"

text \<open>The payloads that can be applied: vectors of the arena's dimension, fingerprints of 16 bytes,
  and slot ids that a memory id can carry.\<close>

definition vector_fits :: "f32 list \<Rightarrow> bool" where
  "vector_fits v \<longleftrightarrow> v = [] \<or> length v = VECTOR_DIM"

fun applicable :: "wal_payload \<Rightarrow> bool" where
  "applicable (Encode p) \<longleftrightarrow> vector_fits (enc_vector p) \<and> length (enc_embedding_model_fp p) = 16"
| "applicable (Consolidate p) \<longleftrightarrow> vector_fits (cs_vector p) \<and> length (cs_embedding_model_fp p) = 16"
| "applicable (MigrateEmbedding p) \<longleftrightarrow> vector_fits (me_new_vector p) \<and> length (me_new_fingerprint p) = 16"
| "applicable (Reclaim p) \<longleftrightarrow> rc_slot_id p \<le> MAX_SLOT_INDEX"
| "applicable _ \<longleftrightarrow> True"

definition growable :: "u64 \<times> arena_io \<Rightarrow> bool" where
  "growable e \<longleftrightarrow> fallocate_ok (snd e) \<and> mmap_ok (snd e) \<and> msync_ok (snd e)"

lemmas slot_writers = encoded_slot_def tombstoned_slot_def reclaimed_slot_def consolidated_slot_def migrated_slot_def

lemma wf_slot_effect:
  "applicable p \<Longrightarrow> wf_slot s \<Longrightarrow> wf_slot (slot_effect ts p s)"
  by (cases p) (auto simp: slot_writers wf_slot_def copy_vector_def vector_fits_def update_meta_def set_flag_def Let_def)

lemma unat_MAX_SLOT_INDEX: "unat MAX_SLOT_INDEX = 2 ^ 48 - 1"
  by (simp add: MAX_SLOT_INDEX_def)

lemma slot_target_bound: "applicable p \<Longrightarrow> slot_target p = Some i \<Longrightarrow> i \<le> MAX_SLOT_INDEX"
  by (cases p) (auto simp: memory_id_slot_def word_and_le1)

lemma wf_slot_at: "arena_ok crc a \<Longrightarrow> wf_slot (slot_at a i)"
  by (auto simp: slot_at_def arena_slot_wf split: option.split)

lemma ensure_slot_capacity_ok:
  assumes ok: "arena_ok crc a" and env: "growable (env l)" and i: "i \<le> MAX_SLOT_INDEX"
  shows "\<exists>a'. ensure_slot_capacity crc env i l a = Some (Inr (), a') \<and> arena_ok crc a' \<and>
    i < ar_capacity_slots a' \<and> slot_at a' = slot_at a \<and> ar_shard_uuid a' = ar_shard_uuid a"
proof -
  let ?n = "saturating_succ i" and ?c = "ar_capacity_slots a"
  have iu: "unat i < 2 ^ 48" using i by (simp add: word_le_nat_alt unat_MAX_SLOT_INDEX)
  then have ne: "i \<noteq> - 1" by (auto simp: unat_max_u64)
  then have n: "unat ?n = unat i + 1" by (simp add: saturating_succ_def unat_succ_word)
  show ?thesis
  proof (cases "?n \<le> ?c")
    case True
    then have "i < ?c" using n by (simp add: word_le_nat_alt word_less_nat_alt)
    with True ok show ?thesis by (simp add: ensure_slot_capacity_def)
  next
    case False
    obtain t where t: "grow_target (max ?c 1) ?n = Some t" "?n \<le> t"
      "t = max ?c 1 \<or> unat t < 2 * unat ?n"
      using grow_target_ok [of "max ?c 1" ?n] by (auto simp: less_max_iff_disj)
    have lt: "?c < t" using t(2) False by auto
    have "unat t < 2 ^ 50" using t(3) lt n iu by (auto simp: max_def split: if_splits)
    then have size: "ARENA_HEADER_LEN + SLOT_SIZE * unat t < 2 ^ 63"
      by (simp add: ARENA_HEADER_LEN_def slot_consts)
    obtain a' where a': "grow_to crc (fst (env l)) (snd (env l)) t a = (Inr (), a')" "arena_ok crc a'"
      "ar_capacity_slots a' = t" "ar_shard_uuid a' = ar_shard_uuid a"
      "\<forall>j < t. arena_slot j a' = (if j < ?c then arena_slot j a else Some zeroed)"
      using grow_to_ok [OF ok lt size] env by (fastforce simp: growable_def)
    have "slot_at a' j = slot_at a j" for j
      using a'(3,5) lt by (cases "j < t"; cases "j < ?c") (auto simp: slot_at_def arena_slot_def)
    then have "slot_at a' = slot_at a" by blast
    moreover have "i < t" using t(2) n by (simp add: word_le_nat_alt word_less_nat_alt)
    ultimately show ?thesis using False t(1) a' by (simp add: ensure_slot_capacity_def Let_def)
  qed
qed

lemma write_slot_ok:
  assumes ok: "arena_ok crc a" and i: "i < ar_capacity_slots a" and wf: "wf_slot (f (slot_at a i))"
  shows "\<exists>a'. write_slot crc i f a = Some (Inr (), a') \<and> arena_ok crc a' \<and>
    slot_at a' = (slot_at a)(i := refresh_crc crc (f (slot_at a i))) \<and> ar_shard_uuid a' = ar_shard_uuid a"
proof -
  obtain s where s: "arena_slot i a = Some s" using i by (simp add: arena_slot_def)
  then have at: "slot_at a i = s" by (simp add: slot_at_def)
  let ?s = "refresh_crc crc (f s)"
  have wf': "wf_slot ?s" using wf at by simp
  have "slot_at (put_slot i ?s a) = (slot_at a)(i := ?s)"
    by (rule ext) (simp add: slot_at_def arena_slot_put [OF ok i wf'])
  then show ?thesis
    using s at arena_ok_put [OF ok i wf'] by (simp add: write_slot_def slot_mut_def put_slot_def)
qed

text \<open>Refinement: on the total view, applying a record is one update of one slot.\<close>

lemma apply_to_arena_refines:
  assumes ok: "arena_ok crc a" and env: "growable (env (wr_lsn r))" and p: "applicable p"
  shows "\<exists>a'. apply_to_arena crc env r p a = Some (Inr (), a') \<and> arena_ok crc a' \<and>
    slot_at a' = store_step crc (r, p) (slot_at a) \<and> ar_shard_uuid a' = ar_shard_uuid a"
proof (cases "slot_target p")
  case None
  then show ?thesis using ok by (cases p) (simp_all add: apply_to_arena_def store_step_def)
next
  case (Some i)
  obtain a1 where a1: "ensure_slot_capacity crc env i (wr_lsn r) a = Some (Inr (), a1)" "arena_ok crc a1"
    "i < ar_capacity_slots a1" "slot_at a1 = slot_at a" "ar_shard_uuid a1 = ar_shard_uuid a"
    using ensure_slot_capacity_ok [where env = env and l = "wr_lsn r", OF ok env slot_target_bound [OF p Some]] by blast
  let ?f = "slot_effect (wr_timestamp_ns r) p"
  have wf: "wf_slot (?f (slot_at a1 i))" by (rule wf_slot_effect [OF p wf_slot_at [OF a1(2)]])
  have "apply_to_arena crc env r p a = write_slot crc i ?f a1"
    using p Some a1(1)
    by (cases p) (auto simp: apply_to_arena_def write_encoded_slot_def mark_slot_tombstoned_def reclaim_slot_def
        write_consolidated_slot_def migrate_slot_vector_def check_vector_dim_def vector_fits_def write_slot_def
        slot_mut_def comp_def)
  then show ?thesis
    using write_slot_ok [OF a1(2,3), of ?f, OF wf] a1(4,5) Some by (auto simp: store_step_def)
qed

section \<open>Replaying a prefix twice\<close>

text \<open>Operations of which a repetition is absorbed, whatever happened in between. A run of such
  operations may be started over after any prefix of it has taken effect.\<close>

locale absorbing = stepwise +
  assumes absorb: "fit f \<Longrightarrow> fit g \<Longrightarrow> ok s \<Longrightarrow> step f (step g (step f s)) = step f (step g s)"
    and repeated: "fit f \<Longrightarrow> ok s \<Longrightarrow> step f (step f s) = step f s"
begin

lemma absorb_one:
  "fit f \<Longrightarrow> \<forall>g \<in> set gs. fit g \<Longrightarrow> ok s \<Longrightarrow> step f (fold step gs (step f s)) = step f (fold step gs s)"
proof (induction gs arbitrary: s)
  case (Cons g gs)
  have "step f (fold step (g # gs) (step f s)) = step f (fold step gs (step f (step g (step f s))))"
    using Cons.IH [of "step g (step f s)"] Cons.prems by (simp add: keep)
  also have "\<dots> = step f (fold step gs (step f (step g s)))" using Cons.prems by (simp add: absorb)
  also have "\<dots> = step f (fold step (g # gs) s)" using Cons.IH [of "step g s"] Cons.prems by (simp add: keep)
  finally show ?case .
qed (simp add: repeated)

lemma absorb_run:
  "\<forall>f \<in> set fs. fit f \<Longrightarrow> \<forall>g \<in> set gs. fit g \<Longrightarrow> ok s \<Longrightarrow>
   fold step fs (fold step gs (fold step fs s)) = fold step fs (fold step gs s)"
proof (induction fs arbitrary: gs s)
  case (Cons f fs)
  have "fold step (f # fs) (fold step gs (fold step (f # fs) s)) =
      fold step fs (fold step (gs @ [f]) (fold step fs (step f s)))" by simp
  also have "\<dots> = fold step fs (step f (fold step gs (step f s)))"
    using Cons.IH [of "gs @ [f]" "step f s"] Cons.prems by (simp add: keep)
  also have "\<dots> = fold step fs (step f (fold step gs s))" using Cons.prems by (simp add: absorb_one)
  finally show ?case by simp
qed simp

lemma rerun:
  assumes "\<forall>f \<in> set fs. fit f" and "ok s"
  shows "fold step fs (fold step (take k fs) s) = fold step fs s"
proof -
  have "fold step fs = fold step (drop k fs) \<circ> fold step (take k fs)"
    using fold_append [of step "take k fs" "drop k fs"] by simp
  moreover have "\<forall>f \<in> set (take k fs). fit f" using assms(1) by (meson in_set_takeD)
  ultimately show ?thesis using absorb_run [of "take k fs" "[]" s] assms(2) by simp
qed

end

text \<open>In-memory sink.\<close>

definition sink_step :: "'s metadata_sink \<Rightarrow> wal_record \<times> wal_payload \<Rightarrow> 's \<Rightarrow> 's" where
  "sink_step S rp s = snd (ms_apply S (wr_lsn (fst rp)) (wr_timestamp_ns (fst rp)) (snd rp) s)"

lemma in_memory_step:
  "sink_step in_memory_metadata_sink rp s =
     \<lparr>im_by_lsn = (im_by_lsn s)(wr_lsn (fst rp) \<mapsto> snd rp),
      im_durable_lsn = max (im_durable_lsn s) (case snd rp of CheckpointEnd p \<Rightarrow> ce_durable_lsn p | _ \<Rightarrow> 0)\<rparr>"
  by (cases s) (simp add: sink_step_def in_memory_metadata_sink_def in_memory_apply_def Let_def
      split: wal_payload.split)

interpretation in_memory: absorbing "sink_step in_memory_metadata_sink" "\<lambda>_. True" "\<lambda>_. True"
  by unfold_locales (simp_all add: in_memory_step max.assoc max.left_commute fun_eq_iff)

text \<open>Slots.\<close>

lemma refresh_crc_overwrites:
  assumes "wf_slot s"
  shows "refresh_crc crc (update_meta (\<lambda>m. m\<lparr>sm_metadata_crc32c := c\<rparr>) s) = refresh_crc crc s"
  using assms by (simp add: refresh_crc_def)

text \<open>Every slot writer overrides some fields, adds flag bits and keeps the rest.\<close>

definition override :: "'a option \<Rightarrow> 'a \<Rightarrow> 'a" where
  "override new old = (case new of Some x \<Rightarrow> x | None \<Rightarrow> old)"

record slot_patch =
  sp_vector :: "f32 list option"
  sp_version :: "u32 option"
  sp_flags :: "u32 option"
  sp_bits :: u32
  sp_fp :: "bytes option"
  sp_created :: "u64 option"
  sp_modified :: u64

definition patch :: "slot_patch \<Rightarrow> slot \<Rightarrow> slot" where
  "patch q s = \<lparr>sl_vector = override (sp_vector q) (sl_vector s),
     sl_metadata = (sl_metadata s)\<lparr>sm_slot_version := override (sp_version q) (sm_slot_version (sl_metadata s)),
       sm_flags := override (sp_flags q) (sm_flags (sl_metadata s)) OR sp_bits q,
       sm_embedding_model_fp_short := override (sp_fp q) (sm_embedding_model_fp_short (sl_metadata s)),
       sm_created_at_unix_nanos := override (sp_created q) (sm_created_at_unix_nanos (sl_metadata s)),
       sm_last_modified_at_unix_nanos := sp_modified q\<rparr>\<rparr>"

lemma override_absorb: "override x (override y (override x a)) = override x (override y a)"
  "override x (override x a) = override x a"
  by (simp_all add: override_def split: option.split)

lemma flags_absorb:
  fixes a b c :: u32
  shows "override x (override y (override x a OR b) OR c) OR b = override x (override y a OR c) OR b"
    and "override x (override x a OR b) OR b = override x a OR b"
  by (auto simp: override_def or.assoc or.left_commute or.commute split: option.split)

lemma patch_absorb: "patch q (patch q' (patch q s)) = patch q (patch q' s)" "patch q (patch q s) = patch q s"
  by (simp_all add: patch_def override_absorb flags_absorb)

lemma patch_crc:
  "patch q (update_meta (\<lambda>m. m\<lparr>sm_metadata_crc32c := c\<rparr>) s) = update_meta (\<lambda>m. m\<lparr>sm_metadata_crc32c := c\<rparr>) (patch q s)"
  by (simp add: patch_def update_meta_def)

definition patch_of :: "u64 \<Rightarrow> wal_payload \<Rightarrow> slot_patch" where
  "patch_of ts payload =
     (let vec = (\<lambda>v. if v = [] then None else Some v)
      in case payload of
           Encode p \<Rightarrow> \<lparr>sp_vector = vec (enc_vector p), sp_version = Some (memory_id_version (enc_memory_id p)),
             sp_flags = Some OCCUPIED, sp_bits = 0, sp_fp = Some (enc_embedding_model_fp p), sp_created = Some ts,
             sp_modified = ts\<rparr>
         | Consolidate p \<Rightarrow> \<lparr>sp_vector = vec (cs_vector p), sp_version = Some (memory_id_version (cs_new_memory_id p)),
             sp_flags = Some OCCUPIED, sp_bits = 0, sp_fp = Some (cs_embedding_model_fp p), sp_created = Some ts,
             sp_modified = ts\<rparr>
         | Forget p \<Rightarrow> \<lparr>sp_vector = (if fg_mode p = Hard then Some (replicate VECTOR_DIM 0) else None),
             sp_version = None, sp_flags = None,
             sp_bits = (if fg_mode p = Hard then TOMBSTONED OR HARD_FORGOTTEN else TOMBSTONED),
             sp_fp = None, sp_created = None, sp_modified = ts\<rparr>
         | Reclaim p \<Rightarrow> \<lparr>sp_vector = None, sp_version = Some (rc_new_version p), sp_flags = Some 0, sp_bits = 0,
             sp_fp = None, sp_created = None, sp_modified = ts\<rparr>
         | MigrateEmbedding p \<Rightarrow> \<lparr>sp_vector = vec (me_new_vector p), sp_version = None, sp_flags = None, sp_bits = 0,
             sp_fp = Some (me_new_fingerprint p), sp_created = None, sp_modified = ts\<rparr>
         | _ \<Rightarrow> \<lparr>sp_vector = None, sp_version = None, sp_flags = None, sp_bits = 0, sp_fp = None,
             sp_created = None, sp_modified = ts\<rparr>)"

lemma slot_effect_patch: "slot_target p \<noteq> None \<Longrightarrow> slot_effect ts p s = patch (patch_of ts p) s"
  by (cases p; cases s)
    (simp_all add: slot_writers patch_def patch_of_def override_def copy_vector_def update_meta_def set_flag_def
      Let_def or.assoc)

definition slot_write :: "crc_fn \<Rightarrow> slot_patch \<Rightarrow> slot \<Rightarrow> slot" where
  "slot_write crc q s = refresh_crc crc (patch q s)"

lemma slot_write_crc:
  assumes "wf_slot (patch q s)"
  shows "slot_write crc q (refresh_crc crc s) = slot_write crc q s"
  using refresh_crc_overwrites [OF assms] by (simp add: slot_write_def refresh_crc_def [of crc s] patch_crc)

definition wf_patch :: "slot_patch \<Rightarrow> bool" where
  "wf_patch q \<longleftrightarrow> (\<forall>v. sp_vector q = Some v \<longrightarrow> length v = VECTOR_DIM) \<and> (\<forall>f. sp_fp q = Some f \<longrightarrow> length f = 16)"

lemma wf_patched: "wf_patch q \<Longrightarrow> wf_slot s \<Longrightarrow> wf_slot (patch q s)"
  by (auto simp: wf_patch_def wf_slot_def patch_def override_def split: option.split)

lemma wf_patch_of: "applicable p \<Longrightarrow> wf_patch (patch_of ts p)"
  by (cases p) (auto simp: wf_patch_def patch_of_def vector_fits_def Let_def)

lemma slot_write_write:
  assumes "wf_patch q" and "wf_patch q'" and "wf_slot s"
  shows "slot_write crc q (slot_write crc q' s) = slot_write crc q (patch q' s)"
  using slot_write_crc [of q "patch q' s" crc] assms by (simp add: slot_write_def [of crc q'] wf_patched)

lemma slot_write_twice:
  "wf_patch q \<Longrightarrow> wf_slot s \<Longrightarrow> slot_write crc q (slot_write crc q s) = slot_write crc q s"
  by (simp add: slot_write_write) (simp add: slot_write_def patch_absorb)

lemma slot_write_absorb:
  assumes "wf_patch q" and "wf_patch q'" and "wf_slot s"
  shows "slot_write crc q (slot_write crc q' (slot_write crc q s)) = slot_write crc q (slot_write crc q' s)"
proof -
  have "slot_write crc q (slot_write crc q' (slot_write crc q s)) = slot_write crc q (patch q' (patch q s))"
    using assms slot_write_write [of q q' "patch q s" crc] by (simp add: slot_write_write wf_patched)
  also have "\<dots> = slot_write crc q (patch q' s)" by (simp add: slot_write_def patch_absorb)
  finally show ?thesis using slot_write_write [OF assms] by simp
qed

lemma wf_slot_write: "wf_patch q \<Longrightarrow> wf_slot s \<Longrightarrow> wf_slot (slot_write crc q s)"
  by (simp add: slot_write_def wf_patched)

lemma store_step_write:
  "store_step crc rp st =
     (case slot_target (snd rp) of
        None \<Rightarrow> st
      | Some i \<Rightarrow> st(i := slot_write crc (patch_of (wr_timestamp_ns (fst rp)) (snd rp)) (st i)))"
  by (simp add: store_step_def slot_write_def slot_effect_patch split: option.split)

interpretation slots: absorbing "store_step crc" "\<lambda>rp. applicable (snd rp)" "\<lambda>st. \<forall>i. wf_slot (st i)" for crc
proof
  fix f g :: "wal_record \<times> wal_payload" and st :: "u64 \<Rightarrow> slot"
  assume f: "applicable (snd f)" and st: "\<forall>i. wf_slot (st i)"
  note [simp] = store_step_write slot_write_absorb slot_write_twice wf_patch_of [OF f] wf_slot_write st [rule_format]
  show "\<forall>i. wf_slot (store_step crc f st i)" by (simp split: option.split)
  show "store_step crc f (store_step crc f st) = store_step crc f st" by (simp split: option.split)
  assume g: "applicable (snd g)"
  note [simp] = wf_patch_of [OF g]
  show "store_step crc f (store_step crc g (store_step crc f st)) = store_step crc f (store_step crc g st)"
    by (cases "slot_target (snd f)"; cases "slot_target (snd g)") (auto simp: fun_eq_iff)
qed

section \<open>Properties\<close>

lemma grow_to_capacity: "grow_to crc now io t a = (Inr u, a') \<Longrightarrow> ar_capacity_slots a' = t"
  by (auto simp: grow_to_def Let_def split: if_splits)

text \<open>C38. Making room for a slot always ends: the doubling loop starts at one or more and stops at the
  latest when it saturates. If it reports success for an index below the largest one, the index is
  addressable afterwards, and either nothing changed or less than twice the needed capacity was
  requested.\<close>

theorem ensure_slot_capacity_terminates:
  "\<exists>r a'. ensure_slot_capacity crc env i l a = Some (r, a') \<and>
    (r = Inr () \<and> i \<noteq> - 1 \<longrightarrow>
       i < ar_capacity_slots a' \<and> (a' = a \<or> unat (ar_capacity_slots a') < 2 * (unat i + 1)))"
proof -
  let ?n = "saturating_succ i" and ?c = "ar_capacity_slots a"
  have n: "i \<noteq> - 1 \<Longrightarrow> unat ?n = unat i + 1" by (simp add: saturating_succ_def unat_succ_word)
  have idx: "i \<noteq> - 1 \<Longrightarrow> ?n \<le> c \<Longrightarrow> i < c" for c
    using n by (simp add: word_le_nat_alt word_less_nat_alt)
  obtain t where t: "grow_target (max ?c 1) ?n = Some t" "?n \<le> t" "t = max ?c 1 \<or> unat t < 2 * unat ?n"
    using grow_target_ok [of "max ?c 1" ?n] by (auto simp: less_max_iff_disj)
  show ?thesis
  proof (cases "?n \<le> ?c")
    case False
    have small: "i \<noteq> - 1 \<Longrightarrow> unat t < 2 * (unat i + 1)"
      using t(2,3) False n by (auto simp: max_def split: if_splits)
    obtain r a' where g: "grow_to crc (fst (env l)) (snd (env l)) t a = (r, a')" by fastforce
    show ?thesis
      using False t(1,2) g idx [of t] small
      by (cases r) (auto simp: ensure_slot_capacity_def Let_def dest: grow_to_capacity)
  qed (use idx in \<open>simp add: ensure_slot_capacity_def\<close>)
qed

theorem ensure_slot_capacity_terminates_witness:
  "\<exists>r a'. ensure_slot_capacity sum_crc (\<lambda>_. (7, io_all_ok)) 9 3 sample_arena = Some (r, a') \<and>
    (r = Inr () \<longrightarrow> 9 < ar_capacity_slots a')"
  using ensure_slot_capacity_terminates [of sum_crc "\<lambda>_. (7, io_all_ok)" 9 3 sample_arena] by auto

end
