(* ===== verification/Wal_Image.thy ===== *)
theory Wal_Image
  imports Wal_Reader "HOL-Library.Multiset"
begin

text \<open>
  Reading back a WAL directory. An image is the directory content that writing runs of records
  into consecutive segments produces; opening it in any listing order and iterating yields exactly
  those records, in order, up to a clean tail.
\<close>

section \<open>Segment file names\<close>

lemma parse_decimal_snoc: "parse_decimal (s @ [c]) = parse_decimal s * 10 + (of_char c - 48)"
  by (simp add: parse_decimal_def)

lemma digit_char:
  "n < 10 \<Longrightarrow> of_char (char_of (48 + n :: nat)) = 48 + n"
  by (simp add: of_char_of)

lemma parse_dec_digits: "parse_decimal (dec_digits n) = n"
proof (induction n rule: dec_digits.induct)
  case (1 n)
  show ?case
  proof (cases "n < 10")
    case True
    then show ?thesis
      by (simp add: dec_digits.simps [of n] parse_decimal_def digit_char)
  next
    case False
    with 1 show ?thesis
      by (simp add: dec_digits.simps [of n] parse_decimal_snoc digit_char)
  qed
qed

lemma dec_digits_are_digits: "list_all is_ascii_digit (dec_digits n)"
proof (induction n rule: dec_digits.induct)
  case (1 n)
  have "is_ascii_digit (char_of (48 + k :: nat))" if "k < 10" for k
    using that by (simp add: is_ascii_digit_def digit_char)
  with 1 show ?case by (subst dec_digits.simps) simp
qed

lemma length_dec_digits: "n < 10 ^ Suc k \<Longrightarrow> length (dec_digits n) \<le> Suc k"
proof (induction k arbitrary: n)
  case 0
  then show ?case by (simp add: dec_digits.simps [of n])
next
  case (Suc k)
  then have "n div 10 < 10 ^ Suc k" by (simp add: less_mult_imp_div_less)
  with Suc.IH [of "n div 10"] show ?case by (subst dec_digits.simps) simp
qed

lemma parse_padded: "parse_decimal (replicate k CHR ''0'' @ s) = parse_decimal s"
proof -
  have "foldl (\<lambda>a c. a * 10 + (of_char c - 48)) 0 (replicate k CHR ''0'') = (0 :: nat)"
    by (induction k) simp_all
  then show ?thesis by (simp add: parse_decimal_def)
qed

lemma segment_path_parts:
  assumes "unat seq < 10 ^ 10"
  obtains stem where "segment_path seq = stem @ ''.wal''" "length stem = 10"
    "list_all is_ascii_digit stem" "parse_decimal stem = unat seq"
proof
  let ?ds = "dec_digits (unat seq)"
  let ?stem = "replicate (10 - length ?ds) CHR ''0'' @ ?ds"
  have "length ?ds \<le> 10" using length_dec_digits [of "unat seq" 9] assms by simp
  then show "length ?stem = 10" by simp
  show "segment_path seq = ?stem @ ''.wal''" by (simp add: segment_path_def Let_def)
  show "list_all is_ascii_digit ?stem"
    using dec_digits_are_digits [of "unat seq"] by (auto simp: list_all_iff is_ascii_digit_def)
  show "parse_decimal ?stem = unat seq" by (simp add: parse_padded parse_dec_digits)
qed

lemma parse_segment_path:
  assumes "unat seq < 10 ^ 10"
  shows "parse_segment_seq_from_filename (segment_path seq) = Inr seq"
proof (rule segment_path_parts [OF assms])
  fix stem assume "segment_path seq = stem @ ''.wal''" and "length stem = 10"
    and "list_all is_ascii_digit stem" and "parse_decimal stem = unat seq"
  then show ?thesis
    using unat_u64_lt [of seq] by (simp add: parse_segment_seq_from_filename_def Let_def)
qed

lemma extension_segment_path:
  assumes "unat seq < 10 ^ 10"
  shows "path_extension (segment_path seq) = Some ''wal''"
proof (rule segment_path_parts [OF assms])
  fix stem assume "segment_path seq = stem @ ''.wal''" and "length stem = 10"
  then show ?thesis by (auto simp: path_extension_def Let_def)
qed

text \<open>Names of distinct segments are distinct, as long as ten digits are enough.\<close>

lemma segment_path_inject:
  "unat s < 10 ^ 10 \<Longrightarrow> unat t < 10 ^ 10 \<Longrightarrow> segment_path s = segment_path t \<longleftrightarrow> s = t"
  using parse_segment_path by (metis sum.inject(2))

section \<open>Segment headers\<close>

lemma header_image_fields:
  assumes "length uuid = 16"
  shows "subslice (header_image crc now uuid seq l) 0 4 = WAL_SEGMENT_MAGIC"
    "subslice (header_image crc now uuid seq l) 4 8 = le_bytes 4 WAL_SEGMENT_FORMAT_VERSION_V1"
    "subslice (header_image crc now uuid seq l) 8 24 = uuid"
    "subslice (header_image crc now uuid seq l) 24 32 = le_bytes 8 seq"
    "subslice (header_image crc now uuid seq l) 32 40 = le_bytes 8 l"
    "subslice (header_image crc now uuid seq l) 0 48 = header_prefix now uuid seq l"
    "subslice (header_image crc now uuid seq l) 48 52 = le_bytes 4 (crc (header_prefix now uuid seq l))"
  using assms length_header_prefix [OF assms]
  by (simp_all add: header_image_eq subslice_append_left subslice_append_right)
    (simp_all add: header_prefix_def segment_consts subslice_def)

lemma validate_header_image:
  assumes "length uuid = 16" and "dir_read d path = Some (header_image crc now uuid seq l @ body)"
  shows "read_and_validate_segment_header crc d path uuid seq =
    Inr \<lparr>si_path = path, si_segment_seq = seq, si_starting_lsn = l,
         si_file_size = 4096 + length body\<rparr>"
  using assms
  by (simp add: read_and_validate_segment_header_def Let_def length_header_image
      WAL_SEGMENT_HEADER_LEN_def WAL_SEGMENT_HEADER_CRC_COVERAGE_END_def header_image_fields)

section \<open>Directory images\<close>

text \<open>One segment of the history: when its header was written and the records it holds.\<close>

type_synonym segment_run = "u64 \<times> wal_record list"

definition segment_file :: "crc_fn \<Rightarrow> bytes \<Rightarrow> u64 \<Rightarrow> u64 \<Rightarrow> segment_run \<Rightarrow> bytes \<Rightarrow> bytes" where
  "segment_file crc uuid seq l run t =
     header_image crc (fst run) uuid seq l @ frames crc (snd run) @ t"

definition segment_info_of :: "crc_fn \<Rightarrow> bytes \<Rightarrow> u64 \<Rightarrow> u64 \<Rightarrow> segment_run \<Rightarrow> bytes \<Rightarrow> segment_info" where
  "segment_info_of crc uuid seq l run t =
     \<lparr>si_path = segment_path seq, si_segment_seq = seq, si_starting_lsn = l,
      si_file_size = 4096 + length (frames crc (snd run) @ t)\<rparr>"

fun wal_image :: "crc_fn \<Rightarrow> bytes \<Rightarrow> bytes \<Rightarrow> u64 \<Rightarrow> u64 \<Rightarrow> segment_run list \<Rightarrow> (string \<times> bytes) list" where
  "wal_image crc uuid tail seq l [] = []"
| "wal_image crc uuid tail seq l (run # runs) =
     (segment_path seq, segment_file crc uuid seq l run (if runs = [] then tail else [])) #
     wal_image crc uuid tail (seq + 1) (l + of_nat (length (snd run))) runs"

fun image_infos :: "crc_fn \<Rightarrow> bytes \<Rightarrow> bytes \<Rightarrow> u64 \<Rightarrow> u64 \<Rightarrow> segment_run list \<Rightarrow> (segment_info \<times> wal_record list) list" where
  "image_infos crc uuid tail seq l [] = []"
| "image_infos crc uuid tail seq l (run # runs) =
     (segment_info_of crc uuid seq l run (if runs = [] then tail else []), snd run) #
     image_infos crc uuid tail (seq + 1) (l + of_nat (length (snd run))) runs"

definition is_wal_name :: "string \<Rightarrow> bool" where
  "is_wal_name name \<longleftrightarrow> path_extension name = Some ''wal''"

text \<open>A readable directory whose \<open>.wal\<close> files, in whatever order it lists them, are the image.\<close>

definition holds_image :: "crc_fn \<Rightarrow> wal_dir \<Rightarrow> bytes \<Rightarrow> bytes \<Rightarrow> u64 \<Rightarrow> u64 \<Rightarrow> segment_run list \<Rightarrow> bool" where
  "holds_image crc d uuid tail seq l runs \<longleftrightarrow>
     length uuid = 16 \<and> unat seq + length runs \<le> 10 ^ 10 \<and> distinct (map fst (dir_entries d)) \<and>
     (\<forall>n. is_wal_name n \<longrightarrow> \<not> dir_unreadable d n) \<and>
     mset (filter (is_wal_name \<circ> fst) (dir_entries d)) = mset (wal_image crc uuid tail seq l runs)"

lemma unat_seq_succ: "unat (seq :: u64) + Suc n \<le> 10 ^ 10 \<Longrightarrow> unat (seq + 1) = Suc (unat seq)"
proof -
  assume "unat seq + Suc n \<le> 10 ^ 10"
  then have "seq \<noteq> -1" by (auto simp: unsigned_minus_1_eq_mask mask_eq_exp_minus_1)
  then show ?thesis by (rule unat_succ_word)
qed

lemma image_names:
  assumes "unat seq + length runs \<le> 10 ^ 10"
    and "(name, file) \<in> set (wal_image crc uuid tail seq l runs)"
  shows "is_wal_name name"
  using assms
proof (induction runs arbitrary: seq l)
  case (Cons run runs)
  have "unat seq < 10 ^ 10" using Cons.prems(1) by simp
  moreover have "unat (seq + 1) + length runs \<le> 10 ^ 10"
    using Cons.prems(1) unat_seq_succ [of seq "length runs"] by simp
  ultimately show ?case
    using Cons.IH [of "seq + 1" "l + of_nat (length (snd run))"] Cons.prems(2)
    by (auto simp: is_wal_name_def extension_segment_path)
qed simp

lemma dir_read_entry:
  assumes "distinct (map fst (dir_entries d))" and "(name, file) \<in> set (dir_entries d)"
    and "\<not> dir_unreadable d name"
  shows "dir_read d name = Some file"
  using assms by (simp add: dir_read_def)

lemma collect_segments_ok:
  assumes "\<And>p. p \<in> set paths \<Longrightarrow> is_wal_name p \<Longrightarrow>
    \<exists>s. parse_segment_seq_from_filename p = Inr s \<and>
        read_and_validate_segment_header crc d p uuid s = Inr (f p)"
  shows "collect_segments crc d uuid paths = Inr (map f (filter is_wal_name paths))"
  using assms
proof (induction paths)
  case (Cons p paths)
  then have "collect_segments crc d uuid paths = Inr (map f (filter is_wal_name paths))" by simp
  with Cons.prems [of p] show ?case by (auto simp: is_wal_name_def [of p])
qed simp

lemma sort_key_unique:
  assumes "mset xs = mset ys" and "sorted (map f ys)" and "distinct (map f ys)"
  shows "sort_key f xs = ys"
proof -
  have "mset (map f (sort_key f xs)) = mset (map f ys)" using assms(1) by simp
  then have eq: "map f (sort_key f xs) = map f ys"
    using assms(2) by (metis properties_for_sort sorted_sort_key sorted_sort_id)
  have "set (sort_key f xs) = set ys" using assms(1) by (metis mset_sort set_mset_mset)
  with assms(3) have "inj_on f (set (sort_key f xs) \<union> set ys)" by (simp add: distinct_map)
  with eq show ?thesis by (rule map_inj_on)
qed

lemma check_contiguous_image:
  "check_contiguous (map fst (image_infos crc uuid tail seq l runs)) = Inr ()"
proof (induction runs arbitrary: seq l)
  case (Cons run runs)
  from Cons [of "seq + 1" "l + of_nat (length (snd run))"] show ?case
    by (cases runs) (simp_all add: segment_info_of_def)
qed simp

lemma image_infos_seqs:
  assumes "unat seq + length runs \<le> 10 ^ 10"
  shows "sorted (map si_segment_seq (map fst (image_infos crc uuid tail seq l runs))) \<and>
    distinct (map si_segment_seq (map fst (image_infos crc uuid tail seq l runs))) \<and>
    (\<forall>s \<in> set (map si_segment_seq (map fst (image_infos crc uuid tail seq l runs))). seq \<le> s)"
  using assms
proof (induction runs arbitrary: seq l)
  case (Cons run runs)
  have succ: "unat (seq + 1) = Suc (unat seq)"
    using Cons.prems unat_seq_succ [of seq "length runs"] by simp
  then have lt: "seq < seq + 1" by (simp add: word_less_nat_alt)
  from Cons.IH [of "seq + 1" "l + of_nat (length (snd run))"] Cons.prems succ lt show ?case
    by (fastforce simp: segment_info_of_def)
qed simp

lemma image_infos_read:
  assumes "length uuid = 16" and "unat seq + length runs \<le> 10 ^ 10"
    and "\<And>name file. (name, file) \<in> set (wal_image crc uuid tail seq l runs) \<Longrightarrow> dir_read d name = Some file"
    and "numbered l (concat (map snd runs))"
  shows "log_from crc d tail l (image_infos crc uuid tail seq l runs)"
  using assms(2-)
proof (induction runs arbitrary: seq l)
  case (Cons run runs)
  let ?l = "l + of_nat (length (snd run))" and ?t = "if runs = [] then tail else []"
  have succ: "unat (seq + 1) + length runs \<le> 10 ^ 10"
    using Cons.prems(1) unat_seq_succ [of seq "length runs"] by simp
  have "log_from crc d tail ?l (image_infos crc uuid tail (seq + 1) ?l runs)"
    using Cons.IH [OF succ] Cons.prems(2,3) by (auto simp: numbered_append)
  moreover have "dir_read d (segment_path seq) = Some (segment_file crc uuid seq l run ?t)"
    using Cons.prems(2) by simp
  moreover have "image_infos crc uuid tail (seq + 1) ?l runs = [] \<longleftrightarrow> runs = []"
    by (cases runs) simp_all
  ultimately show ?case
    using Cons.prems(3) length_header_image [OF assms(1), of crc "fst run" seq l]
    by (auto simp: segment_info_of_def segment_file_def numbered_append WAL_SEGMENT_HEADER_LEN_def)
qed simp

lemma image_infos_validated:
  assumes "length uuid = 16" and "unat seq + length runs \<le> 10 ^ 10"
    and "\<And>name file. (name, file) \<in> set (wal_image crc uuid tail seq l runs) \<Longrightarrow> dir_read d name = Some file"
  shows "list_all2 (\<lambda>e si. \<exists>s. parse_segment_seq_from_filename (fst e) = Inr s \<and>
      read_and_validate_segment_header crc d (fst e) uuid s = Inr (fst si))
    (wal_image crc uuid tail seq l runs) (image_infos crc uuid tail seq l runs)"
  using assms(2-)
proof (induction runs arbitrary: seq l)
  case (Cons run runs)
  let ?l = "l + of_nat (length (snd run))" and ?t = "if runs = [] then tail else []"
  have succ: "unat (seq + 1) + length runs \<le> 10 ^ 10"
    using Cons.prems(1) unat_seq_succ [of seq "length runs"] by simp
  have "dir_read d (segment_path seq) = Some (segment_file crc uuid seq l run ?t)"
    using Cons.prems(2) by simp
  then have "read_and_validate_segment_header crc d (segment_path seq) uuid seq
      = Inr (segment_info_of crc uuid seq l run ?t)"
    using validate_header_image [OF assms(1)] by (simp add: segment_file_def segment_info_of_def)
  moreover have "parse_segment_seq_from_filename (segment_path seq) = Inr seq"
    using Cons.prems(1) by (intro parse_segment_path) simp
  ultimately show ?case
    using Cons.IH [OF succ, of ?l] Cons.prems(2) by auto
qed simp

lemma holds_image_read:
  assumes "holds_image crc d uuid tail seq l runs"
    and "(name, file) \<in> set (wal_image crc uuid tail seq l runs)"
  shows "dir_read d name = Some file"
proof -
  have "set (filter (is_wal_name \<circ> fst) (dir_entries d)) = set (wal_image crc uuid tail seq l runs)"
    using assms(1) unfolding holds_image_def by (metis set_mset_mset)
  then have "(name, file) \<in> set (dir_entries d)" and "is_wal_name name"
    using assms(2) by (auto simp flip: \<open>set (filter _ _) = _\<close>)
  with assms(1) show ?thesis by (simp add: holds_image_def dir_read_entry)
qed

lemma reader_open_image:
  assumes img: "holds_image crc d uuid tail seq l runs"
  shows "reader_open crc d uuid = Inr (reader_start (map fst (image_infos crc uuid tail seq l runs)) 1)"
proof -
  let ?im = "wal_image crc uuid tail seq l runs" and ?infos = "image_infos crc uuid tail seq l runs"
  let ?w = "filter (is_wal_name \<circ> fst) (dir_entries d)"
  have ms: "mset ?w = mset ?im" and room: "unat seq + length runs \<le> 10 ^ 10" and "length uuid = 16"
    using img by (simp_all add: holds_image_def)
  then have val: "list_all2 (\<lambda>e si. \<exists>s. parse_segment_seq_from_filename (fst e) = Inr s \<and>
      read_and_validate_segment_header crc d (fst e) uuid s = Inr (fst si)) ?im ?infos"
    using holds_image_read [OF img] by (intro image_infos_validated) auto
  define f where "f p = projr (read_and_validate_segment_header crc d p uuid
      (projr (parse_segment_seq_from_filename p)))" for p
  have map_im: "map (f \<circ> fst) ?im = map fst ?infos"
    using val by (auto simp: list_all2_conv_all_nth f_def intro!: nth_equalityI)
  have ok: "\<exists>s. parse_segment_seq_from_filename p = Inr s \<and>
      read_and_validate_segment_header crc d p uuid s = Inr (f p)"
    if p: "p \<in> set (map fst (dir_entries d))" "is_wal_name p" for p
  proof -
    have "p \<in> fst ` set ?w" using p by force
    then obtain e where "e \<in> set ?im" and "fst e = p"
      using ms by (metis (no_types, lifting) imageE mset_eq_setD)
    with val show ?thesis
      by (auto simp: f_def list_all2_conv_all_nth in_set_conv_nth)
  qed
  have coll: "collect_segments crc d uuid (map fst (dir_entries d)) = Inr (map (f \<circ> fst) ?w)"
    using collect_segments_ok [of "map fst (dir_entries d)", OF ok]
    by (simp add: filter_map comp_def)
  have "mset (map (f \<circ> fst) ?w) = mset (map fst ?infos)"
    using ms by (simp flip: map_im)
  then have "sort_key si_segment_seq (map (f \<circ> fst) ?w) = map fst ?infos"
    using image_infos_seqs [OF room, of crc uuid tail l] by (intro sort_key_unique) blast+
  with coll show ?thesis
    by (simp add: reader_open_def Let_def check_contiguous_image del: map_map)
qed

lemma image_infos_records: "log_records (image_infos crc uuid tail seq l runs) = concat (map snd runs)"
  by (induction runs arbitrary: seq l) (simp_all add: log_records_def)

lemma reader_start_image:
  assumes "runs \<noteq> []"
  shows "reader_before (map fst (image_infos crc uuid tail seq l runs)) 0 l
    (reader_start (map fst (image_infos crc uuid tail seq l runs)) e)"
  using assms by (cases runs) (simp_all add: reader_before_def reader_start_def segment_info_of_def)

lemma image_infos_last:
  assumes "runs \<noteq> []"
  shows "si_segment_seq (fst (last (image_infos crc uuid tail seq l runs)))
    = seq + of_nat (length runs) - 1"
  using assms
proof (induction runs arbitrary: seq l)
  case (Cons run runs)
  let ?rest = "image_infos crc uuid tail (seq + 1) (l + of_nat (length (snd run))) runs"
  show ?case
  proof (cases "runs = []")
    case False
    then have "?rest \<noteq> []" by (cases runs) simp_all
    with Cons.IH [OF False, of "seq + 1" "l + of_nat (length (snd run))"] show ?thesis by simp
  qed (simp add: segment_info_of_def)
qed simp

lemma drain_image:
  assumes img: "holds_image crc d uuid tail seq l runs" and "runs \<noteq> []"
    and num: "numbered l (concat (map snd runs))" and tail: "\<not> is_record (decode_one crc tail)"
  shows "\<exists>rd'. reader_drain crc d (reader_start (map fst (image_infos crc uuid tail seq l runs)) 1)
      = (log_items (image_infos crc uuid tail seq l runs),
         tail_verdict crc (seq + of_nat (length runs) - 1)
           (l + of_nat (length (concat (map snd runs)))) tail, rd') \<and>
    rdr_expected_next_lsn rd' = l + of_nat (length (concat (map snd runs)))"
proof -
  let ?infos = "image_infos crc uuid tail seq l runs"
  have "log_from crc d tail l ?infos"
    using img holds_image_read [OF img] num
    by (intro image_infos_read) (auto simp: holds_image_def)
  moreover have "?infos \<noteq> []" using assms(2) by (cases runs) simp_all
  ultimately show ?thesis
    using drain_log [OF reader_start_image [OF assms(2), of crc uuid tail seq l 1], of ?infos crc d tail]
      tail
    by (auto simp: image_infos_records image_infos_last [OF assms(2)])
qed

text \<open>Opening a directory and running the iterator to its end.\<close>

definition read_all :: "crc_fn \<Rightarrow> wal_dir \<Rightarrow> bytes \<Rightarrow> wal_read_error + (wal_record list \<times> wal_read_error option)" where
  "read_all crc d uuid =
     (case reader_open crc d uuid of
        Inl e \<Rightarrow> Inl e
      | Inr rd \<Rightarrow> (let (items, e, _) = reader_drain crc d rd in Inr (map fst items, e)))"

lemma read_all_image:
  assumes "holds_image crc d uuid tail seq l runs" and "runs \<noteq> []"
    and "numbered l (concat (map snd runs))" and "\<not> is_record (decode_one crc tail)"
  shows "read_all crc d uuid = Inr (concat (map snd runs),
    tail_verdict crc (seq + of_nat (length runs) - 1) (l + of_nat (length (concat (map snd runs)))) tail)"
  using drain_image [OF assms] reader_open_image [OF assms(1)]
  by (auto simp: read_all_def log_items_records image_infos_records)

lemma not_record_torn:
  "fits r \<Longrightarrow> k < record_encoded_len r \<Longrightarrow> \<not> is_record (decode_one crc (take k (frame crc r)))"
  using decode_one_torn [OF record_encode_frame, of r k crc] by (simp add: length_frame is_record_def)

lemma survives_iff:
  "valid_record_survives_after crc bs l \<longleftrightarrow>
   (\<exists>start r n. start < length bs \<and> decode_one crc (drop start bs) = Inr (DecodedRecord r n) \<and> l \<le> wr_lsn r)"
proof -
  have "(case out of Inr (DecodedRecord r _) \<Rightarrow> l \<le> wr_lsn r | _ \<Rightarrow> False) \<longleftrightarrow>
      (\<exists>r n. out = Inr (DecodedRecord r n) \<and> l \<le> wr_lsn r)" for out
    by (auto split: sum.split decode_outcome.split)
  note eq = this
  show ?thesis unfolding valid_record_survives_after_def list_ex_iff eq by (auto simp: Bex_def)
qed

lemma survives_after_frame:
  assumes "fits r" and "l \<le> wr_lsn r"
  shows "valid_record_survives_after crc (pre @ frame crc r @ rest) l"
proof -
  have "length pre < length (pre @ frame crc r @ rest)"
    using length_frame [OF assms(1), of crc] by (simp add: record_encoded_len_def record_lens)
  with decode_frame [OF assms(1), of crc rest] assms(2) show ?thesis
    unfolding survives_iff by (intro exI [of _ "length pre"] exI [of _ r] exI) auto
qed

section \<open>Properties\<close>

definition sample_entry :: "u64 \<Rightarrow> wal_record" where
  "sample_entry l = sample_record\<lparr>wr_lsn := l\<rparr>"

definition sample_dir :: "bytes \<Rightarrow> wal_dir" where
  "sample_dir tail =
     \<lparr>dir_entries = (''README'', [1]) #
        rev (wal_image sum_crc (replicate 16 9) tail 0 1
          [(100, [sample_entry 1, sample_entry 2]), (200, [sample_entry 3])]),
      dir_unreadable = (\<lambda>_. False)\<rparr>"

lemma sample_dir_holds:
  "holds_image sum_crc (sample_dir tail) (replicate 16 9) tail 0 1
     [(100, [sample_entry 1, sample_entry 2]), (200, [sample_entry 3])]"
proof -
  have wal: "is_wal_name (segment_path 0)" "is_wal_name (segment_path 1)"
    by (simp_all add: is_wal_name_def extension_segment_path)
  have other: "\<not> is_wal_name ''README''"
    by (simp add: is_wal_name_def path_extension_def Let_def)
  have "segment_path 0 \<noteq> segment_path 1"
    using segment_path_inject [of 0 1] by simp
  with wal other show ?thesis
    by (auto simp: holds_image_def sample_dir_def)
qed

lemma sample_numbered: "numbered 1 [sample_entry 1, sample_entry 2, sample_entry 3]"
  by (simp add: sample_entry_def sample_record_def fits_def)

lemma not_record_empty: "\<not> is_record (decode_one crc [])"
  by (simp add: is_record_def decode_one_def record_lens)

lemma tail_verdict_empty: "tail_verdict crc seq l [] = None"
  by (simp add: tail_verdict_def valid_record_survives_after_def)

lemma sample_read_all:
  "read_all sum_crc (sample_dir []) (replicate 16 9)
     = Inr ([sample_entry 1, sample_entry 2, sample_entry 3], None)"
  using read_all_image [OF sample_dir_holds _ _ not_record_empty] sample_numbered
  by (simp add: tail_verdict_empty)

text \<open>C4. Reading inverts writing: a directory whose \<open>.wal\<close> files, listed in any order and beside
  any other files, are consecutive segments filled with consecutively numbered records is opened
  without error, and iteration yields exactly those records in LSN order and then ends.\<close>

theorem wal_read_back:
  assumes "holds_image crc d uuid [] seq l runs" and "runs \<noteq> []"
    and "numbered l (concat (map snd runs))"
  shows "read_all crc d uuid = Inr (concat (map snd runs), None)"
  using read_all_image [OF assms not_record_empty] by (simp add: tail_verdict_empty)

theorem wal_read_back_witness:
  "read_all sum_crc (sample_dir []) (replicate 16 9)
     = Inr ([sample_entry 1, sample_entry 2, sample_entry 3], None)"
  using wal_read_back [OF sample_dir_holds] sample_numbered by simp

text \<open>C19. After a crash that tore the last record, the reader still yields every complete record. It
  ends without an error exactly when the torn bytes do not contain the complete image of a
  record with an LSN at or above the torn one; if they do, it reports mid-segment corruption.\<close>

theorem wal_torn_tail:
  assumes "holds_image crc d uuid (take k (frame crc r)) seq l runs" and "runs \<noteq> []"
    and "numbered l (concat (map snd runs))" and "fits r" and "k < record_encoded_len r"
  shows "read_all crc d uuid = Inr (concat (map snd runs),
    if \<exists>start r' n. start < k \<and> decode_one crc (drop start (take k (frame crc r))) = Inr (DecodedRecord r' n) \<and>
        l + of_nat (length (concat (map snd runs))) \<le> wr_lsn r'
    then Some (MidSegmentCorruption (seq + of_nat (length runs) - 1)) else None)"
proof -
  have "length (take k (frame crc r)) = k"
    using assms(4,5) by (simp add: length_frame)
  then show ?thesis
    using read_all_image [OF assms(1-3) not_record_torn [OF assms(4,5)]]
    by (simp add: tail_verdict_def survives_iff)
qed

theorem wal_torn_tail_witness:
  "read_all sum_crc (sample_dir (take 20 (frame sum_crc (sample_entry 4)))) (replicate 16 9)
     = Inr ([sample_entry 1, sample_entry 2, sample_entry 3], None)"
proof -
  have "length (drop start (take 20 bs)) < HEADER_LEN" for start and bs :: bytes
    by (auto simp: record_lens min_def)
  then have "decode_one sum_crc (drop start (take 20 bs)) = Inr Truncated" for start bs
    unfolding decode_one_def by (simp only: if_True)
  then show ?thesis
    using wal_torn_tail [OF sample_dir_holds, of "sample_entry 4"] sample_numbered
    by (simp add: sample_entry_def sample_record_def fits_def record_encoded_len_def record_lens)
qed



text \<open>Whatever bytes the directory holds, the records the reader yields carry consecutive LSNs
  and payloads of at most 16 MiB: a gap, a repetition or a reordering is never passed on.\<close>

theorem wal_records_numbered:
  "read_all crc d uuid = Inr (rs, e) \<Longrightarrow> \<exists>l. numbered l rs"
  by (auto simp: read_all_def split: sum.splits prod.splits dest!: drain_numbered)

theorem wal_records_numbered_witness: "\<exists>l. numbered l [sample_entry 1, sample_entry 2, sample_entry 3]"
  by (rule wal_records_numbered, rule sample_read_all)

end
