(* ===== verification/Recovery.thy ===== *)
theory Recovery
  imports Recovery_Apply Wal_Image
begin

text \<open>
  The recovery driver (\<open>brain-storage/src/recovery.rs\<close>, \<open>recover\<close>): the loop over the WAL reader with
  the transaction state machine, the position of the good tail, and the rebuilt allocator.
  The driver is related to a specification that looks ahead in the log: a transaction counts when
  its bracket is closed by its own commit before any other bracket opens.
\<close>

section \<open>Report and loop state\<close>

record recovery_report =
  rep_records_replayed :: u64
  rep_records_skipped :: u64
  rep_records_discarded :: u64
  rep_next_lsn :: u64
  rep_active_tail_offset :: nat
  rep_active_segment_seq :: "u64 option"

text \<open>The locals of \<open>recover\<close> and the two structures it borrows.\<close>

record 's recover_state =
  rv_arena :: arena_file
  rv_sink :: 's
  rv_replayed :: u64
  rv_skipped :: u64
  rv_discarded :: u64
  rv_last_good_lsn :: u64
  rv_good_tail_offset :: "nat option"
  rv_good_tail_segment_seq :: "u64 option"
  rv_active_txn :: "txn_id option"
  rv_active_txn_expected :: u32
  rv_txn_buffer :: "(wal_record \<times> wal_payload) list"

definition recover_start :: "u64 \<Rightarrow> arena_file \<Rightarrow> 's \<Rightarrow> 's recover_state" where
  "recover_start durable_lsn a s =
     \<lparr>rv_arena = a, rv_sink = s, rv_replayed = 0, rv_skipped = 0, rv_discarded = 0,
      rv_last_good_lsn = durable_lsn, rv_good_tail_offset = None, rv_good_tail_segment_seq = None,
      rv_active_txn = None, rv_active_txn_expected = 0, rv_txn_buffer = []\<rparr>"

definition advance_tail :: "wal_item \<Rightarrow> 's recover_state \<Rightarrow> 's recover_state" where
  "advance_tail item st =
     st\<lparr>rv_last_good_lsn := wr_lsn (fst item), rv_good_tail_offset := snd (snd item),
        rv_good_tail_segment_seq := fst (snd item)\<rparr>"

section \<open>One record\<close>

type_synonym 's outcome = "((recovery_error + unit) \<times> 's recover_state) option"

text \<open>\<open>for (record, payload) in ... { apply(...)?; }\<close>\<close>

fun apply_all ::
    "crc_fn \<Rightarrow> arena_env \<Rightarrow> 's metadata_sink \<Rightarrow> (wal_record \<times> wal_payload) list \<Rightarrow> arena_file \<times> 's \<Rightarrow>
     ((recovery_error + unit) \<times> arena_file \<times> 's) option" where
  "apply_all crc env S [] as = Some (Inr (), as)"
| "apply_all crc env S ((r, p) # rest) as =
     (case apply_record crc env S r p as of
        None \<Rightarrow> None
      | Some (Inl e, as') \<Rightarrow> Some (Inl e, as')
      | Some (Inr _, as') \<Rightarrow> apply_all crc env S rest as')"

text \<open>Applying records to the borrowed arena and sink of the loop, then going on unless it failed.\<close>

definition with_applied ::
    "crc_fn \<Rightarrow> arena_env \<Rightarrow> 's metadata_sink \<Rightarrow> (wal_record \<times> wal_payload) list \<Rightarrow>
     ('s recover_state \<Rightarrow> 's recover_state) \<Rightarrow> 's recover_state \<Rightarrow> 's outcome" where
  "with_applied crc env S xs k st =
     (case apply_all crc env S xs (rv_arena st, rv_sink st) of
        None \<Rightarrow> None
      | Some (Inl e, a, s) \<Rightarrow> Some (Inl e, st\<lparr>rv_arena := a, rv_sink := s\<rparr>)
      | Some (Inr _, a, s) \<Rightarrow> Some (Inr (), k (st\<lparr>rv_arena := a, rv_sink := s\<rparr>)))"

definition begin_txn :: "wal_record \<Rightarrow> wal_payload \<Rightarrow> txn_begin_payload \<Rightarrow> 's recover_state \<Rightarrow> 's recover_state" where
  "begin_txn r payload p st =
     st\<lparr>rv_active_txn := Some (tb_txn_id p), rv_active_txn_expected := tb_expected_record_count p,
        rv_txn_buffer := [(r, payload)]\<rparr>"

definition close_txn :: "'s recover_state \<Rightarrow> 's recover_state" where
  "close_txn st = st\<lparr>rv_active_txn := None, rv_active_txn_expected := 0, rv_txn_buffer := []\<rparr>"

definition discard_buffer :: "'s recover_state \<Rightarrow> 's recover_state" where
  "discard_buffer st =
     st\<lparr>rv_discarded := rv_discarded st + of_nat (length (rv_txn_buffer st)), rv_txn_buffer := []\<rparr>"

definition in_txn ::
    "crc_fn \<Rightarrow> arena_env \<Rightarrow> 's metadata_sink \<Rightarrow> txn_id \<Rightarrow> wal_item \<Rightarrow> wal_payload \<Rightarrow> 's recover_state \<Rightarrow> 's outcome" where
  "in_txn crc env S current_txn item payload st =
     (let r = fst item;
          buffer_member =
            (if unat (rv_active_txn_expected st) < length (rv_txn_buffer st)
             then Some (Inl (TxnBufferOverflow current_txn (length (rv_txn_buffer st)) (rv_active_txn_expected st)), st)
             else Some (Inr (), st\<lparr>rv_txn_buffer := rv_txn_buffer st @ [(r, payload)]\<rparr>))
      in case payload of
           TxnCommit p \<Rightarrow>
             if tc_txn_id p = current_txn then
               let buffered = rv_txn_buffer st @ [(r, payload)]
               in with_applied crc env S buffered
                    (\<lambda>st'. advance_tail item (st'\<lparr>rv_replayed := rv_replayed st' + of_nat (length buffered)\<rparr>))
                    (close_txn st)
             else buffer_member
         | TxnAbort p \<Rightarrow>
             if ta_txn_id p = current_txn then Some (Inr (), advance_tail item (close_txn (discard_buffer st)))
             else buffer_member
         | TxnBegin p \<Rightarrow> Some (Inr (), begin_txn r payload p (discard_buffer st))
         | _ \<Rightarrow> buffer_member)"

definition outside_txn ::
    "crc_fn \<Rightarrow> arena_env \<Rightarrow> 's metadata_sink \<Rightarrow> wal_item \<Rightarrow> wal_payload \<Rightarrow> 's recover_state \<Rightarrow> 's outcome" where
  "outside_txn crc env S item payload st =
     (case payload of
        TxnBegin p \<Rightarrow> Some (Inr (), begin_txn (fst item) payload p st)
      | _ \<Rightarrow> with_applied crc env S [(fst item, payload)]
          (\<lambda>st'. advance_tail item (st'\<lparr>rv_replayed := rv_replayed st' + 1\<rparr>)) st)"

definition recover_item ::
    "crc_fn \<Rightarrow> arena_env \<Rightarrow> 's metadata_sink \<Rightarrow> u64 \<Rightarrow> wal_item \<Rightarrow> 's recover_state \<Rightarrow> 's outcome" where
  "recover_item crc env S durable_lsn item st =
     (let r = fst item; l = wr_lsn r
      in if l \<le> durable_lsn then Some (Inr (), advance_tail item (st\<lparr>rv_skipped := rv_skipped st + 1\<rparr>))
         else if wr_flags r AND FLAG_SUBSCRIBE_EVENT \<noteq> 0 then
           let st' = st\<lparr>rv_skipped := rv_skipped st + 1\<rparr>
           in Some (Inr (), if rv_active_txn st = None then advance_tail item st' else st')
         else
           case typed_payload r of
             Inl e \<Rightarrow> Some (Inl (PayloadDecodeError l e), st)
           | Inr payload \<Rightarrow>
               (case rv_active_txn st of
                  Some current_txn \<Rightarrow> in_txn crc env S current_txn item payload st
                | None \<Rightarrow> outside_txn crc env S item payload st))"

section \<open>The loop\<close>

function recover_loop ::
    "crc_fn \<Rightarrow> arena_env \<Rightarrow> 's metadata_sink \<Rightarrow> wal_dir \<Rightarrow> u64 \<Rightarrow> wal_reader \<Rightarrow> 's recover_state \<Rightarrow> 's outcome" where
  "recover_loop crc env S d durable_lsn rd st =
     (case reader_next crc d rd of
        (None, rd') \<Rightarrow> Some (Inr (), st)
      | (Some (Inl e), rd') \<Rightarrow> Some (Inl (WalRead e), st)
      | (Some (Inr r), rd') \<Rightarrow>
          (case recover_item crc env S durable_lsn
                  (r, rdr_last_record_segment_seq rd', rdr_last_record_end_offset rd') st of
             None \<Rightarrow> None
           | Some (Inl e, st') \<Rightarrow> Some (Inl e, st')
           | Some (Inr _, st') \<Rightarrow> recover_loop crc env S d durable_lsn rd' st'))"
  by pat_completeness auto
termination
  by (relation "measure (\<lambda>(_, _, _, d, _, rd, _). reader_left d rd)")
    (auto simp: reader_next_def intro: next_loop_consumes [OF sym] split: if_splits)

declare recover_loop.simps [simp del]

definition recover_report :: "u64 option \<Rightarrow> 's recover_state \<Rightarrow> recovery_report" where
  "recover_report active_segment_seq st =
     \<lparr>rep_records_replayed = rv_replayed st, rep_records_skipped = rv_skipped st,
      rep_records_discarded =
        (if rv_active_txn st \<noteq> None then rv_discarded st + of_nat (length (rv_txn_buffer st)) else rv_discarded st),
      rep_next_lsn = rv_last_good_lsn st + 1,
      rep_active_tail_offset =
        (if rv_good_tail_segment_seq st \<noteq> None \<and> rv_good_tail_segment_seq st = active_segment_seq
         then case rv_good_tail_offset st of Some off \<Rightarrow> off | None \<Rightarrow> WAL_SEGMENT_HEADER_LEN
         else WAL_SEGMENT_HEADER_LEN),
      rep_active_segment_seq = active_segment_seq\<rparr>"

definition recover ::
    "crc_fn \<Rightarrow> arena_env \<Rightarrow> 's metadata_sink \<Rightarrow> wal_dir \<Rightarrow> bytes \<Rightarrow> arena_file \<Rightarrow> 's \<Rightarrow>
     ((recovery_error + recovery_report \<times> slot_allocator) \<times> arena_file \<times> 's) option" where
  "recover crc env S d shard_uuid a s =
     (let durable_lsn = ms_durable_lsn S s
      in case reader_open crc d shard_uuid of
           Inl e \<Rightarrow> Some (Inl (WalRead e), a, s)
         | Inr rd \<Rightarrow>
             (case recover_loop crc env S d durable_lsn rd (recover_start durable_lsn a s) of
                None \<Rightarrow> None
              | Some (Inl e, st) \<Rightarrow> Some (Inl e, rv_arena st, rv_sink st)
              | Some (Inr _, st) \<Rightarrow>
                  Some (Inr (recover_report (reader_active_segment_seq rd) st, rebuild_from_arena (rv_arena st)),
                        rv_arena st, rv_sink st)))"

end
