(* ===== verification/Recovery_Spec.thy ===== *)
theory Recovery_Spec
  imports Recovery
begin

text \<open>
  What recovery is meant to do, and that the driver does it. A log is read as a list of units: single
  records, committed brackets, aborted brackets, and brackets that were never closed. Recovery applies
  the single records and the committed brackets in log order and nothing else, and its tail lies
  behind the last unit that is not left open.
\<close>

section \<open>Log units\<close>

type_synonym entry = "wal_record \<times> wal_payload"

datatype log_unit =
    Single entry
  | Committed entry "entry list" entry
  | Aborted entry "entry list" entry
  | Dropped entry "entry list"

fun is_txn_begin :: "wal_payload \<Rightarrow> bool" where
  "is_txn_begin (TxnBegin _) = True"
| "is_txn_begin _ = False"

text \<open>The records that end the bracket of a transaction: its own commit or abort, or another begin.\<close>

fun closes :: "txn_id \<Rightarrow> wal_payload \<Rightarrow> bool" where
  "closes t (TxnBegin _) = True"
| "closes t (TxnCommit p) = (tc_txn_id p = t)"
| "closes t (TxnAbort p) = (ta_txn_id p = t)"
| "closes t _ = False"

lemma dropWhile_shorter: "dropWhile P xs = y # ys \<Longrightarrow> length ys < length xs"
  using length_dropWhile_le [of P xs] by simp

function units :: "entry list \<Rightarrow> log_unit list" where
  "units [] = []"
| "units (x # rest) =
     (case snd x of
        TxnBegin b \<Rightarrow>
          (let inner = takeWhile (\<lambda>y. \<not> closes (tb_txn_id b) (snd y)) rest
           in case dropWhile (\<lambda>y. \<not> closes (tb_txn_id b) (snd y)) rest of
                [] \<Rightarrow> [Dropped x inner]
              | y # rest' \<Rightarrow>
                  (case snd y of
                     TxnCommit _ \<Rightarrow> Committed x inner y # units rest'
                   | TxnAbort _ \<Rightarrow> Aborted x inner y # units rest'
                   | _ \<Rightarrow> Dropped x inner # units (y # rest')))
      | _ \<Rightarrow> Single x # units rest)"
  by pat_completeness auto
termination
  by (relation "measure length") (auto dest: dropWhile_shorter)

declare units.simps(2) [simp del]

fun unit_applied :: "log_unit \<Rightarrow> entry list" where
  "unit_applied (Single x) = [x]"
| "unit_applied (Committed x inner y) = x # inner @ [y]"
| "unit_applied _ = []"

fun unit_discarded :: "log_unit \<Rightarrow> nat" where
  "unit_discarded (Aborted x inner y) = Suc (length inner)"
| "unit_discarded (Dropped x inner) = Suc (length inner)"
| "unit_discarded _ = 0"

fun is_dropped :: "log_unit \<Rightarrow> bool" where
  "is_dropped (Dropped x inner) = True"
| "is_dropped _ = False"

definition committed :: "entry list \<Rightarrow> entry list" where
  "committed xs = concat (map unit_applied (units xs))"

definition discarded :: "entry list \<Rightarrow> nat" where
  "discarded xs = sum_list (map unit_discarded (units xs))"

text \<open>No bracket holds more members than its begin announces.\<close>

fun inner_bounded :: "entry \<Rightarrow> entry list \<Rightarrow> bool" where
  "inner_bounded (r, TxnBegin b) inner \<longleftrightarrow> length inner \<le> unat (tb_expected_record_count b)"
| "inner_bounded _ inner \<longleftrightarrow> True"

fun unit_bounded :: "log_unit \<Rightarrow> bool" where
  "unit_bounded (Single x) \<longleftrightarrow> True"
| "unit_bounded (Committed x inner y) \<longleftrightarrow> inner_bounded x inner"
| "unit_bounded (Aborted x inner y) \<longleftrightarrow> inner_bounded x inner"
| "unit_bounded (Dropped x inner) \<longleftrightarrow> inner_bounded x inner"

definition bounded :: "entry list \<Rightarrow> bool" where
  "bounded xs \<longleftrightarrow> list_all unit_bounded (units xs)"

lemma committed_Nil [simp]: "committed [] = []" and discarded_Nil [simp]: "discarded [] = 0"
  by (simp_all add: committed_def discarded_def)

section \<open>Units of concatenated logs\<close>

text \<open>The buffer of an open transaction.\<close>

fun open_buffer :: "txn_id \<Rightarrow> u32 \<Rightarrow> entry list \<Rightarrow> bool" where
  "open_buffer t n ((r, TxnBegin b) # ms) \<longleftrightarrow>
     tb_txn_id b = t \<and> tb_expected_record_count b = n \<and> (\<forall>m \<in> set ms. \<not> closes t (snd m))"
| "open_buffer t n _ \<longleftrightarrow> False"

lemma open_bufferE:
  assumes "open_buffer t n xs"
  obtains r b ms where "xs = (r, TxnBegin b) # ms" "tb_txn_id b = t" "tb_expected_record_count b = n"
    "\<forall>m \<in> set ms. \<not> closes t (snd m)"
  using assms by (cases "(t, n, xs)" rule: open_buffer.cases) auto

lemma units_single: "\<not> is_txn_begin (snd x) \<Longrightarrow> units (x # xs) = Single x # units xs"
  by (cases "snd x") (simp_all add: units.simps(2))

lemma units_open:
  assumes "open_buffer t n buf"
  shows "units buf = [Dropped (hd buf) (tl buf)]"
    and "closes t (snd y) \<Longrightarrow> units (buf @ y # ys) =
      (case snd y of
         TxnCommit _ \<Rightarrow> Committed (hd buf) (tl buf) y # units ys
       | TxnAbort _ \<Rightarrow> Aborted (hd buf) (tl buf) y # units ys
       | _ \<Rightarrow> Dropped (hd buf) (tl buf) # units (y # ys))"
  using assms
  by (auto elim!: open_bufferE simp: units.simps(2) takeWhile_append2 dropWhile_append2
      takeWhile_eq_all_conv [THEN iffD2] dropWhile_eq_Nil_conv [THEN iffD2] split: wal_payload.split)

lemma open_buffer_room:
  assumes "open_buffer t n buf" and "\<not> closes t (snd y)" and "bounded (buf @ y # ys)"
  shows "length buf \<le> unat n" and "open_buffer t n (buf @ [y])"
proof -
  obtain r b ms where buf: "buf = (r, TxnBegin b) # ms" "tb_txn_id b = t" "tb_expected_record_count b = n"
    "\<forall>m \<in> set ms. \<not> closes t (snd m)" using assms(1) by (rule open_bufferE)
  then show "open_buffer t n (buf @ [y])" using assms(2) by simp
  let ?inner = "takeWhile (\<lambda>y. \<not> closes t (snd y)) (ms @ y # ys)"
  have "length (ms @ [y]) \<le> length ?inner" using buf(4) assms(2) by (simp add: takeWhile_append2)
  moreover have "length ?inner \<le> unat n"
    using assms(3) buf(1-3)
    by (auto simp: bounded_def units.simps(2) Let_def split: list.splits wal_payload.splits)
  ultimately show "length buf \<le> unat n" using buf(1) by simp
qed

section \<open>What the loop has done after a prefix of the log\<close>

definition live :: "u64 \<Rightarrow> wal_record \<Rightarrow> bool" where
  "live durable_lsn r \<longleftrightarrow> durable_lsn < wr_lsn r \<and> wr_flags r AND FLAG_SUBSCRIBE_EVENT = 0"

definition decoded :: "u64 \<Rightarrow> wal_item list \<Rightarrow> entry list" where
  "decoded durable_lsn items =
     map (\<lambda>i. (fst i, projr (typed_payload (fst i)))) (filter (\<lambda>i. live durable_lsn (fst i)) items)"

definition decodable :: "u64 \<Rightarrow> wal_item list \<Rightarrow> bool" where
  "decodable durable_lsn items \<longleftrightarrow> (\<forall>i \<in> set items. live durable_lsn (fst i) \<longrightarrow> \<not> isl (typed_payload (fst i)))"

lemma decoded_simps [simp]:
  "decoded durable_lsn [] = []"
  "decoded durable_lsn (xs @ ys) = decoded durable_lsn xs @ decoded durable_lsn ys"
  "decoded durable_lsn (i # ys) =
     (if live durable_lsn (fst i) then (fst i, projr (typed_payload (fst i))) # decoded durable_lsn ys
      else decoded durable_lsn ys)"
  by (simp_all add: decoded_def)

definition closed_log :: "entry list \<Rightarrow> bool" where
  "closed_log xs \<longleftrightarrow> (\<forall>ys. units (xs @ ys) = units xs @ units ys)"

definition dropping :: "entry list \<Rightarrow> bool" where
  "dropping xs \<longleftrightarrow> list_all is_dropped (units xs) \<and>
     (\<forall>y ys. is_txn_begin (snd y) \<longrightarrow> units (xs @ y # ys) = units xs @ units (y # ys))"

definition tail_after :: "u64 \<Rightarrow> wal_item list \<Rightarrow> 's recover_state \<Rightarrow> bool" where
  "tail_after durable_lsn good st \<longleftrightarrow>
     (if good = []
      then rv_last_good_lsn st = durable_lsn \<and> rv_good_tail_offset st = None \<and> rv_good_tail_segment_seq st = None
      else rv_last_good_lsn st = wr_lsn (fst (last good)) \<and> rv_good_tail_offset st = snd (snd (last good)) \<and>
        rv_good_tail_segment_seq st = fst (snd (last good)))"

text \<open>The brackets left open behind the good part of the log, as the loop holds them.\<close>

definition opens_txn :: "u64 \<Rightarrow> wal_item \<Rightarrow> bool" where
  "opens_txn durable_lsn i \<longleftrightarrow> live durable_lsn (fst i) \<and> is_txn_begin (projr (typed_payload (fst i)))"

definition pending :: "u64 \<Rightarrow> wal_item list \<Rightarrow> entry list \<Rightarrow> 's recover_state \<Rightarrow> bool" where
  "pending durable_lsn rest D st \<longleftrightarrow>
     decoded durable_lsn rest = D @ rv_txn_buffer st \<and> dropping D \<and>
     (case rv_active_txn st of
        None \<Rightarrow> rest = [] \<and> rv_txn_buffer st = []
      | Some t \<Rightarrow> rest \<noteq> [] \<and> opens_txn durable_lsn (hd rest) \<and>
          open_buffer t (rv_active_txn_expected st) (rv_txn_buffer st))"

definition recovered ::
    "crc_fn \<Rightarrow> arena_env \<Rightarrow> 's metadata_sink \<Rightarrow> u64 \<Rightarrow> arena_file \<times> 's \<Rightarrow> wal_item list \<Rightarrow> wal_item list \<Rightarrow>
     's recover_state \<Rightarrow> bool" where
  "recovered crc env S durable_lsn start items good st \<longleftrightarrow>
     (\<exists>rest D. items = good @ rest \<and> closed_log (decoded durable_lsn good) \<and> pending durable_lsn rest D st \<and>
       apply_all crc env S (committed (decoded durable_lsn good)) start = Some (Inr (), rv_arena st, rv_sink st) \<and>
       rv_replayed st = of_nat (length (committed (decoded durable_lsn good))) \<and>
       rv_skipped st = of_nat (length items - length (decoded durable_lsn items)) \<and>
       rv_discarded st = of_nat (discarded (decoded durable_lsn good) + discarded D) \<and>
       tail_after durable_lsn good st)"

lemma length_decoded: "length (decoded durable_lsn items) \<le> length items"
  by (simp add: decoded_def)

lemma apply_all_append:
  "apply_all crc env S (xs @ ys) start =
     (case apply_all crc env S xs start of
        Some (Inr _, mid) \<Rightarrow> apply_all crc env S ys mid
      | r \<Rightarrow> r)"
  by (induction crc env S xs start rule: apply_all.induct) (simp_all split: option.split sum.split)

lemma dropped_applies_nothing: "list_all is_dropped us \<Longrightarrow> concat (map unit_applied us) = []"
  by (induction us) (auto elim: is_dropped.elims)

lemma dropping_nothing: "dropping xs \<Longrightarrow> concat (map unit_applied (units xs)) = []"
  using dropped_applies_nothing unfolding dropping_def by blast

lemma open_buffer_begin: "open_buffer t n buf \<Longrightarrow> \<exists>x xs. buf = x # xs \<and> is_txn_begin (snd x)"
  by (auto elim: open_bufferE)

text \<open>Units behind a good prefix and its pending brackets.\<close>

lemma units_pending:
  assumes "closed_log G" and "dropping D" and "open_buffer t n buf"
  shows "units (G @ D @ buf @ ys) = units G @ units D @ units (buf @ ys)"
  using assms open_buffer_begin [OF assms(3)] by (auto simp: closed_log_def dropping_def)

lemma committed_pending:
  assumes "closed_log G" and "dropping D" and "open_buffer t n buf"
  shows "committed (G @ D @ buf @ ys) = committed G @ committed (buf @ ys)"
  using units_pending [OF assms] dropping_nothing [OF assms(2)] by (simp add: committed_def)

section \<open>One step of the loop\<close>

definition step_ok ::
    "crc_fn \<Rightarrow> arena_env \<Rightarrow> 's metadata_sink \<Rightarrow> u64 \<Rightarrow> arena_file \<times> 's \<Rightarrow> wal_item list \<Rightarrow> 's outcome \<Rightarrow> bool" where
  "step_ok crc env S durable_lsn start items out \<longleftrightarrow>
     (case out of
        None \<Rightarrow> \<forall>ys. apply_all crc env S (committed (decoded durable_lsn items @ ys)) start = None
      | Some (Inl e, st) \<Rightarrow>
          \<forall>ys. apply_all crc env S (committed (decoded durable_lsn items @ ys)) start = Some (Inl e, rv_arena st, rv_sink st)
      | Some (Inr _, st) \<Rightarrow> \<exists>good. recovered crc env S durable_lsn start items good st)"

text \<open>A group of records that is applied and closes the log behind it.\<close>

lemma applied_step:
  assumes before: "apply_all crc env S (committed G) start = Some (Inr (), rv_arena st, rv_sink st)"
    and group: "\<And>ys. units (decoded durable_lsn items @ ys) = units G @ us @ units ys"
      "concat (map unit_applied us) = xs"
    and after: "\<And>a s. apply_all crc env S (committed (decoded durable_lsn items)) start = Some (Inr (), a, s) \<Longrightarrow>
      recovered crc env S durable_lsn start items items (k (st\<lparr>rv_arena := a, rv_sink := s\<rparr>))"
  shows "step_ok crc env S durable_lsn start items (with_applied crc env S xs k st)"
proof -
  have all: "committed (decoded durable_lsn items @ ys) = committed G @ xs @ committed ys" for ys
    by (simp add: committed_def group)
  have run: "apply_all crc env S (committed (decoded durable_lsn items @ ys)) start =
      (case apply_all crc env S xs (rv_arena st, rv_sink st) of
         Some (Inr _, mid) \<Rightarrow> apply_all crc env S (committed ys) mid
       | r \<Rightarrow> r)" for ys
    unfolding all by (simp add: apply_all_append before)
  have last: "apply_all crc env S (committed (decoded durable_lsn items)) start =
      (case apply_all crc env S xs (rv_arena st, rv_sink st) of Some (Inr _, mid) \<Rightarrow> Some (Inr (), mid) | r \<Rightarrow> r)"
    using run [of "[]"] by (simp only: committed_Nil apply_all.simps append_Nil2)
  show ?thesis
    using run last after by (auto simp: step_ok_def with_applied_def split: option.splits sum.splits)
qed

lemma closed_logI:
  assumes "\<And>ys. units (xs @ ys) = us @ units ys"
  shows "closed_log xs" and "units xs = us"
  using assms assms [of "[]"] by (simp_all add: closed_log_def)

lemma closed_log_units: "closed_log xs \<Longrightarrow> units (xs @ ys) = units xs @ units ys"
  by (simp add: closed_log_def)

lemma tail_after_advance: "tail_after durable_lsn (items @ [i]) (advance_tail i st)"
  by (simp add: tail_after_def advance_tail_def)

lemma recoveredE:
  assumes "recovered crc env S durable_lsn start items good st"
  obtains rest D where "items = good @ rest" "closed_log (decoded durable_lsn good)" "pending durable_lsn rest D st"
    "apply_all crc env S (committed (decoded durable_lsn good)) start = Some (Inr (), rv_arena st, rv_sink st)"
    "rv_replayed st = of_nat (length (committed (decoded durable_lsn good)))"
    "rv_skipped st = of_nat (length items - length (decoded durable_lsn items))"
    "rv_discarded st = of_nat (discarded (decoded durable_lsn good) + discarded D)"
    "tail_after durable_lsn good st"
  using assms unfolding recovered_def by blast

text \<open>Outside a transaction.\<close>

lemma recovered_idle:
  assumes "recovered crc env S durable_lsn start items good st" and "rv_active_txn st = None"
  shows "good = items" and "pending durable_lsn [] [] st"
    and "rv_discarded st = of_nat (discarded (decoded durable_lsn items))"
proof -
  obtain rest D where r: "items = good @ rest" "pending durable_lsn rest D st"
    "rv_discarded st = of_nat (discarded (decoded durable_lsn good) + discarded D)"
    using assms(1) by (rule recoveredE)
  then have "rest = []" "rv_txn_buffer st = []" "D = []" using assms(2) by (auto simp: pending_def)
  with r show "good = items" "pending durable_lsn [] [] st"
    "rv_discarded st = of_nat (discarded (decoded durable_lsn items))"
    by simp_all
qed

lemma skip_idle:
  assumes inv: "recovered crc env S durable_lsn start items good st" and idle: "rv_active_txn st = None"
    and skip: "\<not> live durable_lsn (fst i)"
  shows "step_ok crc env S durable_lsn start (items @ [i])
    (Some (Inr (), advance_tail i (st\<lparr>rv_skipped := rv_skipped st + 1\<rparr>)))"
proof -
  let ?st = "advance_tail i (st\<lparr>rv_skipped := rv_skipped st + 1\<rparr>)"
  note idle' = recovered_idle [OF inv idle]
  have "recovered crc env S durable_lsn start (items @ [i]) (items @ [i]) ?st"
    using inv idle idle'(2,3) skip length_decoded [of durable_lsn items]
    unfolding idle'(1) recovered_def
    by (intro exI [of _ "[]"]) (auto simp: pending_def advance_tail_def tail_after_def Suc_diff_le)
  then show ?thesis by (auto simp: step_ok_def)
qed

lemma apply_idle:
  assumes inv: "recovered crc env S durable_lsn start items good st" and idle: "rv_active_txn st = None"
    and l: "live durable_lsn (fst i)" and p: "typed_payload (fst i) = Inr p" "\<not> is_txn_begin p"
  shows "step_ok crc env S durable_lsn start (items @ [i])
    (with_applied crc env S [(fst i, p)] (\<lambda>st'. advance_tail i (st'\<lparr>rv_replayed := rv_replayed st' + 1\<rparr>)) st)"
proof -
  note idle' = recovered_idle [OF inv idle]
  obtain rest D where r: "closed_log (decoded durable_lsn items)"
    "apply_all crc env S (committed (decoded durable_lsn items)) start = Some (Inr (), rv_arena st, rv_sink st)"
    "rv_replayed st = of_nat (length (committed (decoded durable_lsn items)))"
    "rv_skipped st = of_nat (length items - length (decoded durable_lsn items))"
    using inv unfolding idle'(1) by (rule recoveredE)
  have units: "units (decoded durable_lsn (items @ [i]) @ ys) =
      units (decoded durable_lsn items) @ [Single (fst i, p)] @ units ys" for ys
    using l p closed_log_units [OF r(1)] by (simp add: units_single)
  note new = closed_logI [OF units [unfolded append_assoc [symmetric]]]
  show ?thesis
  proof (rule applied_step [OF r(2) units])
    fix a s
    assume "apply_all crc env S (committed (decoded durable_lsn (items @ [i]))) start = Some (Inr (), a, s)"
    then show "recovered crc env S durable_lsn start (items @ [i]) (items @ [i])
        (advance_tail i ((st\<lparr>rv_arena := a, rv_sink := s\<rparr>)
          \<lparr>rv_replayed := rv_replayed (st\<lparr>rv_arena := a, rv_sink := s\<rparr>) + 1\<rparr>))"
      using new idle idle'(2,3) r(3,4) l
      unfolding recovered_def
      by (intro exI [of _ "[]"])
        (simp add: pending_def advance_tail_def tail_after_def committed_def discarded_def)
  qed simp
qed

lemma dropping_Nil: "dropping []"
  by (simp add: dropping_def)

lemma begin_idle:
  assumes inv: "recovered crc env S durable_lsn start items good st" and idle: "rv_active_txn st = None"
    and l: "live durable_lsn (fst i)" and p: "typed_payload (fst i) = Inr (TxnBegin b)"
  shows "step_ok crc env S durable_lsn start (items @ [i]) (Some (Inr (), begin_txn (fst i) (TxnBegin b) b st))"
proof -
  note idle' = recovered_idle [OF inv idle]
  have "recovered crc env S durable_lsn start (items @ [i]) items (begin_txn (fst i) (TxnBegin b) b st)"
    using inv idle'(2,3) l p
    unfolding idle'(1) recovered_def
    by (intro exI [of _ "[i]"] exI [of _ "[]"])
      (auto simp: pending_def begin_txn_def tail_after_def dropping_Nil opens_txn_def)
  then show ?thesis by (auto simp: step_ok_def)
qed

text \<open>Inside a transaction.\<close>

lemma pendingE:
  assumes "pending durable_lsn rest D st" and "rv_active_txn st = Some t"
  obtains "decoded durable_lsn rest = D @ rv_txn_buffer st" "dropping D" "rest \<noteq> []"
    "opens_txn durable_lsn (hd rest)" "open_buffer t (rv_active_txn_expected st) (rv_txn_buffer st)"
  using assms by (auto simp: pending_def)

lemma pending_lsn:
  assumes "recovered crc env S durable_lsn start items good st" and "rv_active_txn st \<noteq> None"
    and "sorted_wrt (<) (map (wr_lsn \<circ> fst) (items @ [i]))"
  shows "durable_lsn < wr_lsn (fst i)"
proof -
  obtain t where t: "rv_active_txn st = Some t" using assms(2) by blast
  obtain rest D where "items = good @ rest" "pending durable_lsn rest D st" using assms(1) by (rule recoveredE)
  moreover from this(2) t have "rest \<noteq> []" "durable_lsn < wr_lsn (fst (hd rest))"
    by (auto elim!: pendingE simp: opens_txn_def live_def)
  ultimately show ?thesis using assms(3) by (cases rest) (auto simp: sorted_wrt_append)
qed

lemma recovered_extend:
  assumes inv: "recovered crc env S durable_lsn start items good st"
    and ext: "\<And>rest D. pending durable_lsn rest D st \<Longrightarrow> pending durable_lsn (rest @ [i]) (D @ drop_now) st' \<and>
      discarded (D @ drop_now) = discarded D + length drop_now"
    and st': "rv_arena st' = rv_arena st" "rv_sink st' = rv_sink st" "rv_replayed st' = rv_replayed st"
      "rv_discarded st' = rv_discarded st + of_nat (length drop_now)"
      "rv_skipped st' = (if live durable_lsn (fst i) then rv_skipped st else rv_skipped st + 1)"
      "rv_last_good_lsn st' = rv_last_good_lsn st" "rv_good_tail_offset st' = rv_good_tail_offset st"
      "rv_good_tail_segment_seq st' = rv_good_tail_segment_seq st"
  shows "step_ok crc env S durable_lsn start (items @ [i]) (Some (Inr (), st'))"
proof -
  obtain rest D where r: "items = good @ rest" "closed_log (decoded durable_lsn good)" "pending durable_lsn rest D st"
    "apply_all crc env S (committed (decoded durable_lsn good)) start = Some (Inr (), rv_arena st, rv_sink st)"
    "rv_replayed st = of_nat (length (committed (decoded durable_lsn good)))"
    "rv_skipped st = of_nat (length items - length (decoded durable_lsn items))"
    "rv_discarded st = of_nat (discarded (decoded durable_lsn good) + discarded D)"
    "tail_after durable_lsn good st" using inv by (rule recoveredE)
  have skipped: "rv_skipped st' = of_nat (length (items @ [i]) - length (decoded durable_lsn (items @ [i])))"
    using r(6) st'(5) length_decoded [of durable_lsn items] by (simp add: Suc_diff_le)
  have "recovered crc env S durable_lsn start (items @ [i]) good st'"
    unfolding recovered_def using r ext [OF r(3)] st' skipped
    by (intro exI [of _ "rest @ [i]"] exI [of _ "D @ drop_now"]) (simp add: tail_after_def)
  then show ?thesis by (auto simp: step_ok_def)
qed

lemma skip_txn:
  assumes inv: "recovered crc env S durable_lsn start items good st" and t: "rv_active_txn st = Some t"
    and skip: "\<not> live durable_lsn (fst i)"
  shows "step_ok crc env S durable_lsn start (items @ [i]) (Some (Inr (), st\<lparr>rv_skipped := rv_skipped st + 1\<rparr>))"
  by (rule recovered_extend [OF inv, where drop_now = "[]"]) (use t skip in \<open>auto simp: pending_def\<close>)

lemma member_txn:
  assumes inv: "recovered crc env S durable_lsn start items good st" and t: "rv_active_txn st = Some t"
    and l: "live durable_lsn (fst i)" and p: "typed_payload (fst i) = Inr p" "\<not> closes t p"
  shows "step_ok crc env S durable_lsn start (items @ [i])
    (Some (Inr (), st\<lparr>rv_txn_buffer := rv_txn_buffer st @ [(fst i, p)]\<rparr>))"
  by (rule recovered_extend [OF inv, where drop_now = "[]"])
    (use t l p in \<open>auto simp: pending_def elim!: open_bufferE\<close>)

lemma dropping_open:
  assumes D: "dropping D" and buf: "open_buffer t n buf"
  shows "dropping (D @ buf)" and "discarded (D @ buf) = discarded D + length buf"
proof -
  obtain x xs where b: "buf = x # xs" "is_txn_begin (snd x)" using open_buffer_begin [OF buf] by blast
  have split: "units (D @ buf @ ys) = units D @ units (buf @ ys)" for ys
    using D b by (cases x) (auto simp: dropping_def)
  have bu: "units buf = [Dropped x xs]" using units_open(1) [OF buf] b by simp
  have following: "units (buf @ y # ys) = Dropped x xs # units (y # ys)" if "is_txn_begin (snd y)" for y ys
    using units_open(2) [OF buf, of y ys] that b by (cases "snd y") simp_all
  show "dropping (D @ buf)"
    using D split [of "[]"] split bu following by (auto simp: dropping_def)
  show "discarded (D @ buf) = discarded D + length buf"
    using split [of "[]"] bu b by (simp add: discarded_def)
qed

lemma begin_txn_again:
  assumes inv: "recovered crc env S durable_lsn start items good st" and t: "rv_active_txn st = Some t"
    and l: "live durable_lsn (fst i)" and p: "typed_payload (fst i) = Inr (TxnBegin b)"
  shows "step_ok crc env S durable_lsn start (items @ [i])
    (Some (Inr (), begin_txn (fst i) (TxnBegin b) b (discard_buffer st)))"
proof (rule recovered_extend [OF inv, where drop_now = "rv_txn_buffer st"])
  fix rest D
  assume "pending durable_lsn rest D st"
  then show "pending durable_lsn (rest @ [i]) (D @ rv_txn_buffer st) (begin_txn (fst i) (TxnBegin b) b (discard_buffer st)) \<and>
      discarded (D @ rv_txn_buffer st) = discarded D + length (rv_txn_buffer st)"
    using t l p dropping_open by (auto simp: pending_def begin_txn_def discard_buffer_def)
qed (use l in \<open>simp_all add: begin_txn_def discard_buffer_def\<close>)

text \<open>Closing a transaction.\<close>

lemma abort_txn:
  assumes inv: "recovered crc env S durable_lsn start items good st" and t: "rv_active_txn st = Some t"
    and l: "live durable_lsn (fst i)" and p: "typed_payload (fst i) = Inr (TxnAbort q)" "ta_txn_id q = t"
  shows "step_ok crc env S durable_lsn start (items @ [i]) (Some (Inr (), advance_tail i (close_txn (discard_buffer st))))"
proof -
  obtain rest D where r: "items = good @ rest" "closed_log (decoded durable_lsn good)" "pending durable_lsn rest D st"
    "apply_all crc env S (committed (decoded durable_lsn good)) start = Some (Inr (), rv_arena st, rv_sink st)"
    "rv_replayed st = of_nat (length (committed (decoded durable_lsn good)))"
    "rv_skipped st = of_nat (length items - length (decoded durable_lsn items))"
    "rv_discarded st = of_nat (discarded (decoded durable_lsn good) + discarded D)" using inv by (rule recoveredE)
  let ?G = "decoded durable_lsn good" and ?buf = "rv_txn_buffer st" and ?y = "(fst i, TxnAbort q)"
  from r(3) t have pend: "decoded durable_lsn rest = D @ ?buf" "dropping D"
    "open_buffer t (rv_active_txn_expected st) ?buf" by (auto elim: pendingE)
  have items: "decoded durable_lsn (items @ [i]) = ?G @ D @ ?buf @ [?y]" using r(1) pend(1) l p by simp
  have units: "units (decoded durable_lsn (items @ [i]) @ ys) =
      (units ?G @ units D @ [Aborted (hd ?buf) (tl ?buf) ?y]) @ units ys" for ys
    using units_pending [OF r(2) pend(2,3), of "?y # ys"] units_open(2) [OF pend(3), of ?y ys] p
    unfolding items by simp
  note new = closed_logI [OF units]
  have len: "Suc (length (tl ?buf)) = length ?buf" using open_buffer_begin [OF pend(3)] by auto
  have none: "concat (map unit_applied (units D @ [Aborted (hd ?buf) (tl ?buf) ?y])) = []"
    using dropping_nothing [OF pend(2)] by simp
  have counts: "committed (decoded durable_lsn (items @ [i])) = committed ?G"
    using none unfolding committed_def new(2) by simp
  have counts': "discarded (decoded durable_lsn (items @ [i])) = discarded ?G + discarded D + length ?buf"
    using len unfolding discarded_def new(2) by simp
  have "recovered crc env S durable_lsn start (items @ [i]) (items @ [i]) (advance_tail i (close_txn (discard_buffer st)))"
    using new(1) r(4-7) counts counts' l length_decoded [of durable_lsn items] unfolding recovered_def
    by (intro exI [of _ "[]"])
      (simp add: pending_def advance_tail_def close_txn_def discard_buffer_def tail_after_def dropping_Nil)
  then show ?thesis by (auto simp: step_ok_def)
qed

lemma commit_txn:
  assumes inv: "recovered crc env S durable_lsn start items good st" and t: "rv_active_txn st = Some t"
    and l: "live durable_lsn (fst i)" and p: "typed_payload (fst i) = Inr (TxnCommit q)" "tc_txn_id q = t"
    and xs: "xs = rv_txn_buffer st @ [(fst i, TxnCommit q)]"
  shows "step_ok crc env S durable_lsn start (items @ [i])
    (with_applied crc env S xs
      (\<lambda>st'. advance_tail i (st'\<lparr>rv_replayed := rv_replayed st' + of_nat (length xs)\<rparr>)) (close_txn st))"
proof -
  obtain rest D where r: "items = good @ rest" "closed_log (decoded durable_lsn good)" "pending durable_lsn rest D st"
    "apply_all crc env S (committed (decoded durable_lsn good)) start = Some (Inr (), rv_arena st, rv_sink st)"
    "rv_replayed st = of_nat (length (committed (decoded durable_lsn good)))"
    "rv_skipped st = of_nat (length items - length (decoded durable_lsn items))"
    "rv_discarded st = of_nat (discarded (decoded durable_lsn good) + discarded D)" using inv by (rule recoveredE)
  let ?G = "decoded durable_lsn good" and ?buf = "rv_txn_buffer st" and ?y = "(fst i, TxnCommit q)"
  from r(3) t have pend: "decoded durable_lsn rest = D @ ?buf" "dropping D"
    "open_buffer t (rv_active_txn_expected st) ?buf" by (auto elim: pendingE)
  have items: "decoded durable_lsn (items @ [i]) = ?G @ D @ ?buf @ [?y]" using r(1) pend(1) l p by simp
  have units: "units (decoded durable_lsn (items @ [i]) @ ys) =
      units ?G @ (units D @ [Committed (hd ?buf) (tl ?buf) ?y]) @ units ys" for ys
    using units_pending [OF r(2) pend(2,3), of "?y # ys"] units_open(2) [OF pend(3), of ?y ys] p
    unfolding items by simp
  note new = closed_logI [OF units [unfolded append_assoc [symmetric]]]
  have buf: "hd ?buf # tl ?buf = ?buf" using open_buffer_begin [OF pend(3)] by auto
  have group: "concat (map unit_applied (units D @ [Committed (hd ?buf) (tl ?buf) ?y])) = xs"
    using dropping_nothing [OF pend(2)] buf by (simp add: xs flip: append_Cons)
  have before: "apply_all crc env S (committed ?G) start = Some (Inr (), rv_arena (close_txn st), rv_sink (close_txn st))"
    using r(4) by (simp add: close_txn_def)
  show ?thesis
  proof (rule applied_step [OF before units group])
    fix a s
    assume run: "apply_all crc env S (committed (decoded durable_lsn (items @ [i]))) start = Some (Inr (), a, s)"
    have counts: "length (committed (decoded durable_lsn (items @ [i]))) = length (committed ?G) + length xs"
      "discarded (decoded durable_lsn (items @ [i])) = discarded ?G + discarded D"
      using new(2) group by (simp_all add: committed_def discarded_def del: decoded_simps(2))
    let ?st = "advance_tail i ((close_txn st\<lparr>rv_arena := a, rv_sink := s\<rparr>)
        \<lparr>rv_replayed := rv_replayed (close_txn st\<lparr>rv_arena := a, rv_sink := s\<rparr>) + of_nat (length xs)\<rparr>)"
    show "recovered crc env S durable_lsn start (items @ [i]) (items @ [i]) ?st"
      using new(1) run counts r(5-7) l length_decoded [of durable_lsn items] unfolding recovered_def
      by (intro exI [of _ "[]"])
        (simp add: pending_def advance_tail_def close_txn_def tail_after_def dropping_Nil)
  qed
qed

lemma outside_txn_ok:
  assumes inv: "recovered crc env S durable_lsn start items good st" and idle: "rv_active_txn st = None"
    and l: "live durable_lsn (fst i)" and p: "typed_payload (fst i) = Inr p"
  shows "step_ok crc env S durable_lsn start (items @ [i]) (outside_txn crc env S i p st)"
proof (cases "is_txn_begin p")
  case True
  then obtain b where "p = TxnBegin b" by (cases p) auto
  then show ?thesis using begin_idle [OF inv idle l] p by (simp add: outside_txn_def)
next
  case False
  then have "outside_txn crc env S i p st = with_applied crc env S [(fst i, p)]
      (\<lambda>st'. advance_tail i (st'\<lparr>rv_replayed := rv_replayed st' + 1\<rparr>)) st"
    by (cases p) (simp_all add: outside_txn_def)
  then show ?thesis using apply_idle [OF inv idle l p False] by simp
qed

lemma in_txn_room:
  assumes inv: "recovered crc env S durable_lsn start items good st" and t: "rv_active_txn st = Some t"
    and l: "live durable_lsn (fst i)" and p: "typed_payload (fst i) = Inr p" "\<not> closes t p"
    and bound: "bounded (decoded durable_lsn (items @ [i]) @ ys)"
  shows "length (rv_txn_buffer st) \<le> unat (rv_active_txn_expected st)"
proof -
  obtain rest D where r: "items = good @ rest" "closed_log (decoded durable_lsn good)" "pending durable_lsn rest D st"
    using inv by (rule recoveredE)
  from r(3) t have pend: "decoded durable_lsn rest = D @ rv_txn_buffer st" "dropping D"
    "open_buffer t (rv_active_txn_expected st) (rv_txn_buffer st)" by (auto elim: pendingE)
  have "bounded (rv_txn_buffer st @ (fst i, p) # ys)"
    using bound units_pending [OF r(2) pend(2,3), of "(fst i, p) # ys"] r(1) pend(1) p l
    by (simp add: bounded_def)
  then show ?thesis using open_buffer_room(1) [OF pend(3), of "(fst i, p)" ys] p(2) by simp
qed

lemma in_txn_ok:
  assumes inv: "recovered crc env S durable_lsn start items good st" and t: "rv_active_txn st = Some t"
    and l: "live durable_lsn (fst i)" and p: "typed_payload (fst i) = Inr p"
    and bound: "bounded (decoded durable_lsn (items @ [i]) @ ys)"
  shows "step_ok crc env S durable_lsn start (items @ [i]) (in_txn crc env S t i p st)"
proof (cases "closes t p")
  case True
  then consider b where "p = TxnBegin b" | q where "p = TxnCommit q" "tc_txn_id q = t"
    | q where "p = TxnAbort q" "ta_txn_id q = t" by (cases p) auto
  then show ?thesis
  proof cases
    case 1
    then show ?thesis using begin_txn_again [OF inv t l] p by (simp add: in_txn_def Let_def)
  next
    case 2
    then show ?thesis using commit_txn [OF inv t l _ 2(2) refl] p by (simp add: in_txn_def Let_def)
  next
    case 3
    then show ?thesis using abort_txn [OF inv t l _ 3(2)] p by (simp add: in_txn_def Let_def)
  qed
next
  case False
  have "in_txn crc env S t i p st = Some (Inr (), st\<lparr>rv_txn_buffer := rv_txn_buffer st @ [(fst i, p)]\<rparr>)"
    using in_txn_room [OF inv t l p False bound] False by (cases p) (simp_all add: in_txn_def Let_def)
  then show ?thesis using member_txn [OF inv t l p False] by simp
qed

lemma recover_item_ok:
  assumes inv: "recovered crc env S durable_lsn start items good st"
    and sorted: "sorted_wrt (<) (map (wr_lsn \<circ> fst) (items @ [i]))"
    and dec: "live durable_lsn (fst i) \<Longrightarrow> typed_payload (fst i) = Inr p"
    and bound: "bounded (decoded durable_lsn (items @ [i]) @ ys)"
  shows "step_ok crc env S durable_lsn start (items @ [i]) (recover_item crc env S durable_lsn i st)"
proof (cases "live durable_lsn (fst i)")
  case False
  then show ?thesis
  proof (cases "rv_active_txn st")
    case None
    with False show ?thesis using skip_idle [OF inv None False] by (auto simp: recover_item_def live_def Let_def)
  next
    case (Some t)
    then have "\<not> wr_lsn (fst i) \<le> durable_lsn" using pending_lsn [OF inv _ sorted] by auto
    with False Some show ?thesis using skip_txn [OF inv Some False] by (auto simp: recover_item_def live_def Let_def)
  qed
next
  case True
  then have pass: "\<not> wr_lsn (fst i) \<le> durable_lsn" "wr_flags (fst i) AND FLAG_SUBSCRIBE_EVENT = 0"
    by (auto simp: live_def)
  show ?thesis
    using pass dec [OF True] outside_txn_ok [OF inv _ True dec [OF True]] in_txn_ok [OF inv _ True dec [OF True] bound]
    by (simp add: recover_item_def split: option.split)
qed

section \<open>The loop\<close>

fun recover_items ::
    "crc_fn \<Rightarrow> arena_env \<Rightarrow> 's metadata_sink \<Rightarrow> u64 \<Rightarrow> wal_item list \<Rightarrow> 's recover_state \<Rightarrow> 's outcome" where
  "recover_items crc env S durable_lsn [] st = Some (Inr (), st)"
| "recover_items crc env S durable_lsn (i # items) st =
     (case recover_item crc env S durable_lsn i st of
        None \<Rightarrow> None
      | Some (Inl e, st') \<Rightarrow> Some (Inl e, st')
      | Some (Inr _, st') \<Rightarrow> recover_items crc env S durable_lsn items st')"

lemma recover_loop_items:
  assumes "reader_drain crc d rd = (items, verdict, rd')"
  shows "recover_loop crc env S d durable_lsn rd st =
    (case recover_items crc env S durable_lsn items st of
       Some (Inr _, st') \<Rightarrow> Some (case verdict of None \<Rightarrow> Inr () | Some e \<Rightarrow> Inl (WalRead e), st')
     | out \<Rightarrow> out)"
  using assms
proof (induction crc d rd arbitrary: items verdict rd' st rule: reader_drain.induct)
  case (1 crc d rd)
  obtain out rd1 where next1: "reader_next crc d rd = (out, rd1)" by fastforce
  show ?case
  proof (cases out)
    case None
    then show ?thesis using "1.prems" next1
      by (simp add: reader_drain.simps [of crc d rd] recover_loop.simps [of crc env S d durable_lsn rd])
  next
    case (Some res)
    show ?thesis
    proof (cases res)
      case (Inl e)
      then show ?thesis using "1.prems" next1 Some
        by (auto simp: reader_drain.simps [of crc d rd] recover_loop.simps [of crc env S d durable_lsn rd])
    next
      case (Inr r)
      obtain items1 v1 rd2 where drain: "reader_drain crc d rd1 = (items1, v1, rd2)" by (metis prod_cases3)
      have it: "items = (r, rdr_last_record_segment_seq rd1, rdr_last_record_end_offset rd1) # items1" "verdict = v1"
        using "1.prems" next1 Some Inr drain by (simp_all add: reader_drain.simps [of crc d rd])
      note IH = "1.IH" [OF next1 [symmetric] Some Inr drain]
      show ?thesis unfolding it
        by (subst recover_loop.simps) (simp add: next1 Some Inr IH split: option.split sum.split prod.split)
    qed
  qed
qed

lemma recover_items_ok:
  assumes "recovered crc env S durable_lsn start seen good st"
    and "sorted_wrt (<) (map (wr_lsn \<circ> fst) (seen @ items))"
    and "decodable durable_lsn items" and "bounded (decoded durable_lsn (seen @ items))"
  shows "step_ok crc env S durable_lsn start (seen @ items) (recover_items crc env S durable_lsn items st)"
  using assms
proof (induction items arbitrary: seen good st)
  case Nil
  then show ?case by (auto simp: step_ok_def)
next
  case (Cons i items)
  have sorted: "sorted_wrt (<) (map (wr_lsn \<circ> fst) (seen @ [i]))"
    using Cons.prems(2) by (auto simp: sorted_wrt_append comp_def)
  have dec: "typed_payload (fst i) = Inr (projr (typed_payload (fst i)))" if "live durable_lsn (fst i)"
    using Cons.prems(3) that by (auto simp: decodable_def)
  have split: "decoded durable_lsn (seen @ i # items) = decoded durable_lsn (seen @ [i]) @ decoded durable_lsn items"
    by simp
  have bound: "bounded (decoded durable_lsn (seen @ [i]) @ decoded durable_lsn items)"
    using Cons.prems(4) unfolding split .
  have step: "step_ok crc env S durable_lsn start (seen @ [i]) (recover_item crc env S durable_lsn i st)"
    by (rule recover_item_ok [OF Cons.prems(1) sorted dec bound])
  show ?case
  proof (cases "\<exists>st'. recover_item crc env S durable_lsn i st = Some (Inr (), st')")
    case True
    then obtain st' good' where one: "recover_item crc env S durable_lsn i st = Some (Inr (), st')"
      "recovered crc env S durable_lsn start (seen @ [i]) good' st'" using step by (auto simp: step_ok_def)
    have "step_ok crc env S durable_lsn start ((seen @ [i]) @ items) (recover_items crc env S durable_lsn items st')"
      using Cons.IH [OF one(2)] Cons.prems(2-4) by (simp add: decodable_def)
    then show ?thesis using one(1) by simp
  next
    case False
    have "apply_all crc env S (committed (decoded durable_lsn (seen @ i # items) @ ys)) start =
        apply_all crc env S (committed (decoded durable_lsn (seen @ [i]) @ decoded durable_lsn items @ ys)) start" for ys
      unfolding split by simp
    with step False show ?thesis
      unfolding step_ok_def by (auto split: option.splits sum.splits simp del: decoded_simps)
  qed
qed

lemma recovered_start: "recovered crc env S durable_lsn (a, s) [] [] (recover_start durable_lsn a s)"
  by (auto simp: recovered_def recover_start_def pending_def closed_log_def dropping_Nil tail_after_def)

lemma recovered_all:
  assumes "recovered crc env S durable_lsn start items good st"
  shows "apply_all crc env S (committed (decoded durable_lsn items)) start = Some (Inr (), rv_arena st, rv_sink st)"
    and "rep_records_replayed (recover_report seq st) = of_nat (length (committed (decoded durable_lsn items)))"
    and "rep_records_discarded (recover_report seq st) = of_nat (discarded (decoded durable_lsn items))"
    and "\<exists>rest. items = good @ rest \<and> committed (decoded durable_lsn good) = committed (decoded durable_lsn items) \<and>
      closed_log (decoded durable_lsn good) \<and> list_all is_dropped (units (decoded durable_lsn rest)) \<and>
      (rest = [] \<or> opens_txn durable_lsn (hd rest))"
proof -
  obtain rest D where r: "items = good @ rest" "closed_log (decoded durable_lsn good)" "pending durable_lsn rest D st"
    "apply_all crc env S (committed (decoded durable_lsn good)) start = Some (Inr (), rv_arena st, rv_sink st)"
    "rv_replayed st = of_nat (length (committed (decoded durable_lsn good)))"
    "rv_discarded st = of_nat (discarded (decoded durable_lsn good) + discarded D)"
    using assms by (rule recoveredE)
  let ?G = "decoded durable_lsn good" and ?R = "decoded durable_lsn rest" and ?buf = "rv_txn_buffer st"
  have R: "units (?G @ ?R) = units ?G @ units ?R" using r(2) by (rule closed_log_units)
  have facts: "list_all is_dropped (units ?R) \<and> (rest = [] \<or> opens_txn durable_lsn (hd rest)) \<and>
      discarded ?R = discarded D + (if rv_active_txn st = None then 0 else length ?buf)"
  proof (cases "rv_active_txn st")
    case None
    then show ?thesis using r(3) by (auto simp: pending_def dropping_def)
  next
    case (Some t)
    with r(3) have pend: "?R = D @ ?buf" "dropping D" "opens_txn durable_lsn (hd rest)"
      "open_buffer t (rv_active_txn_expected st) ?buf" by (auto elim: pendingE)
    show ?thesis
      using dropping_open [OF pend(2,4)] pend Some by (simp add: dropping_def)
  qed
  have applied: "committed (decoded durable_lsn items) = committed ?G"
    using dropped_applies_nothing [of "units ?R"] facts R unfolding r(1) committed_def decoded_simps(2) by simp
  then show "apply_all crc env S (committed (decoded durable_lsn items)) start = Some (Inr (), rv_arena st, rv_sink st)"
    "rep_records_replayed (recover_report seq st) = of_nat (length (committed (decoded durable_lsn items)))"
    using r(4,5) by (simp_all add: recover_report_def)
  show "rep_records_discarded (recover_report seq st) = of_nat (discarded (decoded durable_lsn items))"
    using facts R r(6) unfolding r(1) decoded_simps(2)
    by (simp add: recover_report_def discarded_def)
  show "\<exists>rest. items = good @ rest \<and> committed ?G = committed (decoded durable_lsn items) \<and>
      closed_log ?G \<and> list_all is_dropped (units (decoded durable_lsn rest)) \<and>
      (rest = [] \<or> opens_txn durable_lsn (hd rest))"
    using facts applied r(1,2) by auto
qed

lemma recover_drained:
  assumes "reader_open crc d uuid = Inr rd" and "reader_drain crc d rd = (items, verdict, rd')"
    and "sorted_wrt (<) (map (wr_lsn \<circ> fst) items)" and "decodable (ms_durable_lsn S s) items"
    and "bounded (decoded (ms_durable_lsn S s) items)"
  obtains "recover crc env S d uuid a s = None"
      "apply_all crc env S (committed (decoded (ms_durable_lsn S s) items)) (a, s) = None"
  | e a' s' where "recover crc env S d uuid a s = Some (Inl e, a', s')"
      "apply_all crc env S (committed (decoded (ms_durable_lsn S s) items)) (a, s) = Some (Inl e, a', s')"
  | good st where "recovered crc env S (ms_durable_lsn S s) (a, s) items good st"
      "recover crc env S d uuid a s = Some (case verdict of
         None \<Rightarrow> Inr (recover_report (reader_active_segment_seq rd) st, rebuild_from_arena (rv_arena st))
       | Some e \<Rightarrow> Inl (WalRead e), rv_arena st, rv_sink st)"
proof -
  let ?D = "ms_durable_lsn S s"
  let ?out = "recover_items crc env S ?D items (recover_start ?D a s)"
  have step: "step_ok crc env S ?D (a, s) items ?out"
    using recover_items_ok [OF recovered_start, where items = items] assms(3-5) by simp
  have rec: "recover crc env S d uuid a s = (case ?out of
       None \<Rightarrow> None
     | Some (Inl e, st) \<Rightarrow> Some (Inl e, rv_arena st, rv_sink st)
     | Some (Inr _, st) \<Rightarrow> Some (case verdict of
         None \<Rightarrow> Inr (recover_report (reader_active_segment_seq rd) st, rebuild_from_arena (rv_arena st))
       | Some e \<Rightarrow> Inl (WalRead e), rv_arena st, rv_sink st))"
    using assms(1) recover_loop_items [OF assms(2), of env S ?D "recover_start ?D a s"]
    by (auto simp: recover_def Let_def split: option.split sum.split)
  show thesis
  proof (cases ?out)
    case None
    then show thesis using that(1) step rec by (auto simp: step_ok_def dest: spec [of _ "[]"])
  next
    case (Some out)
    then show thesis using that(2,3) step rec
      by (cases out; cases "fst out") (auto simp: step_ok_def dest: spec [of _ "[]"])
  qed
qed

end
