(* ===== verification/Wal_Commit.thy ===== *)
theory Wal_Commit
  imports Wal_Image "HOL-Library.Sublist"
begin

text \<open>
  Group commit (\<open>brain-storage/src/wal/group_commit.rs\<close>). The committer task is a state machine
  whose steps are the stretches of \<open>committer_loop\<close> between two awaits: receiving the first
  submission of a batch, gathering more, flushing and signalling. Submissions arrive through a
  queue; an ack is a ticket with the LSN or an error. The result of each flush is the I/O answer
  the step is given.
\<close>

section \<open>State\<close>

record group_commit_config =
  gc_max_batch_bytes :: nat

definition default_group_commit_config :: group_commit_config where
  "default_group_commit_config = \<lparr>gc_max_batch_bytes = 60 * 1024\<rparr>"

datatype broken_reason = FlushFailed segment_error | RolloverFailed | NoCompletion

datatype commit_error = WalBroken broken_reason | ShutDown | AckChannelClosed

type_synonym ticket = nat

type_synonym ack_message = "commit_error + u64"

type_synonym submission = "wal_record \<times> ticket"

record pending_ack =
  pa_ticket :: ticket
  pa_lsn :: u64

datatype phase = AwaitFirst | Gathering | Flushing | Finished

record committer =
  cm_segment :: wal_segment
  cm_queue :: "submission list"
  cm_pending :: "pending_ack list"
  cm_broken :: "broken_reason option"
  cm_shutdown_signal :: bool
  cm_shutdown_requested :: bool
  cm_phase :: phase
  cm_acks :: "(ticket \<times> ack_message) list"

definition committer_start :: "wal_segment \<Rightarrow> committer" where
  "committer_start segment =
     \<lparr>cm_segment = segment, cm_queue = [], cm_pending = [], cm_broken = None,
      cm_shutdown_signal = False, cm_shutdown_requested = False, cm_phase = AwaitFirst, cm_acks = []\<rparr>"

section \<open>Steps\<close>

text \<open>\<open>GroupCommitter::append\<close>: the sender is gone once shutdown has been called.\<close>

definition committer_append :: "wal_record \<Rightarrow> ticket \<Rightarrow> committer \<Rightarrow> commit_error + committer" where
  "committer_append r t cm =
     (if cm_shutdown_signal cm then Inl ShutDown else Inr (cm\<lparr>cm_queue := cm_queue cm @ [(r, t)]\<rparr>))"

definition committer_shutdown :: "committer \<Rightarrow> committer" where
  "committer_shutdown cm = cm\<lparr>cm_shutdown_signal := True\<rparr>"

text \<open>\<open>None\<close> is the panic of the record encoder on an oversized payload.\<close>

definition handle_submission :: "crc_fn \<Rightarrow> submission \<Rightarrow> committer \<Rightarrow> committer option" where
  "handle_submission crc sub cm =
     (case sub of (r, t) \<Rightarrow>
        case cm_broken cm of
          Some reason \<Rightarrow> Some (cm\<lparr>cm_acks := cm_acks cm @ [(t, Inl (WalBroken reason))]\<rparr>)
        | None \<Rightarrow>
            (case append_record crc r (cm_segment cm) of
               None \<Rightarrow> None
             | Some (_, segment) \<Rightarrow>
                 Some (cm\<lparr>cm_segment := segment,
                          cm_pending := cm_pending cm @ [\<lparr>pa_ticket = t, pa_lsn = wr_lsn r\<rparr>]\<rparr>)))"

fun drain_queue :: "crc_fn \<Rightarrow> submission list \<Rightarrow> committer \<Rightarrow> committer option" where
  "drain_queue crc [] cm = Some cm"
| "drain_queue crc (sub # subs) cm =
     (case handle_submission crc sub cm of None \<Rightarrow> None | Some cm' \<Rightarrow> drain_queue crc subs cm')"

text \<open>Step 1 with a submission: step 2 is entered unless the WAL is broken or shutting down.\<close>

definition receive_first :: "crc_fn \<Rightarrow> submission \<Rightarrow> submission list \<Rightarrow> committer \<Rightarrow> committer option" where
  "receive_first crc sub subs cm =
     map_option (\<lambda>cm'. cm'\<lparr>cm_phase :=
         (if cm_broken cm' = None \<and> \<not> cm_shutdown_requested cm' then Gathering else Flushing)\<rparr>)
       (handle_submission crc sub (cm\<lparr>cm_queue := subs\<rparr>))"

text \<open>Step 1 with the shutdown signal, then step 3: everything still queued is taken.\<close>

definition receive_shutdown :: "crc_fn \<Rightarrow> committer \<Rightarrow> committer option" where
  "receive_shutdown crc cm =
     map_option (\<lambda>cm'. cm'\<lparr>cm_phase := Flushing\<rparr>)
       (drain_queue crc (cm_queue cm) (cm\<lparr>cm_shutdown_requested := True, cm_queue := []\<rparr>))"

text \<open>Step 2: one more submission, taken only below the size threshold.\<close>

definition gather_one :: "crc_fn \<Rightarrow> submission \<Rightarrow> submission list \<Rightarrow> committer \<Rightarrow> committer option" where
  "gather_one crc sub subs cm = handle_submission crc sub (cm\<lparr>cm_queue := subs\<rparr>)"

definition ack_all :: "(pending_ack \<Rightarrow> ack_message) \<Rightarrow> committer \<Rightarrow> committer" where
  "ack_all f cm =
     cm\<lparr>cm_acks := cm_acks cm @ map (\<lambda>p. (pa_ticket p, f p)) (cm_pending cm), cm_pending := []\<rparr>"

text \<open>Step 4.\<close>

definition flush_and_signal :: "io_answer \<Rightarrow> committer \<Rightarrow> committer" where
  "flush_and_signal io cm =
     (if cm_pending cm = [] then cm
      else
        case cm_broken cm of
          Some reason \<Rightarrow> ack_all (\<lambda>_. Inl (WalBroken reason)) cm
        | None \<Rightarrow>
            (case flush_durable io (cm_segment cm) of
               (Inr _, segment) \<Rightarrow> ack_all (\<lambda>p. Inr (pa_lsn p)) (cm\<lparr>cm_segment := segment\<rparr>)
             | (Inl e, segment) \<Rightarrow>
                 ack_all (\<lambda>_. Inl (WalBroken (FlushFailed e)))
                   (cm\<lparr>cm_segment := segment, cm_broken := Some (FlushFailed e)\<rparr>)))"

text \<open>Step 5: the loop ends, returning the segment, once shutdown has drained the queue.\<close>

definition end_round :: "committer \<Rightarrow> committer" where
  "end_round cm =
     cm\<lparr>cm_phase := (if cm_shutdown_requested cm \<and> cm_queue cm = [] then Finished else AwaitFirst)\<rparr>"

inductive committer_step :: "crc_fn \<Rightarrow> group_commit_config \<Rightarrow> (io_answer \<Rightarrow> bool) \<Rightarrow> committer \<Rightarrow> committer \<Rightarrow> bool"
  for crc cfg allowed where
  first: "cm_phase cm = AwaitFirst \<Longrightarrow> \<not> cm_shutdown_requested cm \<Longrightarrow> cm_queue cm = sub # subs \<Longrightarrow>
     receive_first crc sub subs cm = Some cm' \<Longrightarrow> committer_step crc cfg allowed cm cm'"
| shutdown: "cm_phase cm = AwaitFirst \<Longrightarrow> cm_shutdown_signal cm \<Longrightarrow> cm_queue cm = [] \<or> cm_shutdown_requested cm \<Longrightarrow>
     receive_shutdown crc cm = Some cm' \<Longrightarrow> committer_step crc cfg allowed cm cm'"
| gather: "cm_phase cm = Gathering \<Longrightarrow> length (seg_write_buf (cm_segment cm)) < gc_max_batch_bytes cfg \<Longrightarrow>
     cm_queue cm = sub # subs \<Longrightarrow> gather_one crc sub subs cm = Some cm' \<Longrightarrow>
     committer_step crc cfg allowed cm cm'"
| window: "cm_phase cm = Gathering \<Longrightarrow> committer_step crc cfg allowed cm (cm\<lparr>cm_phase := Flushing\<rparr>)"
| flush: "cm_phase cm = Flushing \<Longrightarrow> allowed io \<Longrightarrow>
     committer_step crc cfg allowed cm (end_round (flush_and_signal io cm))"

inductive_cases committer_stepE: "committer_step crc cfg allowed cm cm'"

section \<open>The invariant\<close>

text \<open>The segment file starts with its header and the records flushed so far, the buffer holds the
  records awaiting the next flush in the order of their pending acks, and every positive ack
  belongs to a flushed record. As long as no flush has failed, flushed, buffered and queued
  records are numbered without a gap and nothing follows the flushed records in the file.\<close>

definition committer_inv :: "crc_fn \<Rightarrow> bytes \<Rightarrow> u64 \<Rightarrow> committer \<Rightarrow> wal_record list \<Rightarrow> wal_record list \<Rightarrow> bool" where
  "committer_inv crc hdr l cm disk buf \<longleftrightarrow>
     (let s = cm_segment cm in
      length hdr = WAL_SEGMENT_HEADER_LEN \<and>
      take (WAL_SEGMENT_HEADER_LEN + seg_bytes_on_disk s) (seg_file s) = hdr @ frames crc disk \<and>
      seg_bytes_on_disk s = length (frames crc disk) \<and>
      seg_write_buf s = frames crc buf \<and> map pa_lsn (cm_pending cm) = map wr_lsn buf \<and>
      numbered l (disk @ buf) \<and>
      (\<forall>t n. (t, Inr n) \<in> set (cm_acks cm) \<longrightarrow> n \<in> wr_lsn ` set disk) \<and>
      (case cm_broken cm of
         None \<Rightarrow> seg_file s = hdr @ frames crc disk \<and> numbered l (disk @ buf @ map fst (cm_queue cm))
       | Some _ \<Rightarrow> buf = []))"

lemma committer_inv_start:
  assumes "length hdr = WAL_SEGMENT_HEADER_LEN" and "numbered l disk"
    and "seg_file s = hdr @ frames crc disk" and "seg_write_buf s = []"
    and "seg_bytes_on_disk s = length (frames crc disk)"
  shows "committer_inv crc hdr l (committer_start s) disk []"
  using assms by (simp add: committer_inv_def committer_start_def)

lemma append_record_fits:
  "fits r \<Longrightarrow> append_record crc r s =
     Some (record_encoded_len r, s\<lparr>seg_write_buf := seg_write_buf s @ frame crc r\<rparr>)"
  by (simp add: append_record_def record_encode_frame length_frame)

lemma handle_submission_inv:
  assumes inv: "committer_inv crc hdr l cm disk buf" and q: "cm_queue cm = (r, t) # subs"
    and h: "handle_submission crc (r, t) (cm\<lparr>cm_queue := subs\<rparr>) = Some cm'"
  shows "\<exists>buf'. committer_inv crc hdr l cm' disk buf' \<and> cm_broken cm' = cm_broken cm \<and>
    cm_queue cm' = subs \<and> cm_shutdown_requested cm' = cm_shutdown_requested cm \<and>
    cm_shutdown_signal cm' = cm_shutdown_signal cm \<and>
    (cm_broken cm = None \<longrightarrow> buf' = buf @ [r])"
proof (cases "cm_broken cm")
  case None
  with inv q have "fits r"
    by (auto simp: committer_inv_def Let_def numbered_append)
  then have cm': "cm' = cm\<lparr>cm_queue := subs,
      cm_segment := (cm_segment cm)\<lparr>seg_write_buf := seg_write_buf (cm_segment cm) @ frame crc r\<rparr>,
      cm_pending := cm_pending cm @ [\<lparr>pa_ticket = t, pa_lsn = wr_lsn r\<rparr>]\<rparr>"
    using h None by (simp add: handle_submission_def append_record_fits)
  have "committer_inv crc hdr l cm' disk (buf @ [r])"
    using inv q None by (simp add: cm' committer_inv_def Let_def numbered_append frames_append)
  with None show ?thesis by (auto simp: cm')
next
  case (Some reason)
  then have "cm' = cm\<lparr>cm_queue := subs, cm_acks := cm_acks cm @ [(t, Inl (WalBroken reason))]\<rparr>"
    using h by (simp add: handle_submission_def)
  with inv Some show ?thesis
    by (intro exI [of _ buf]) (auto simp: committer_inv_def Let_def)
qed

lemma committer_inv_flags [simp]:
  "committer_inv crc hdr l (cm\<lparr>cm_phase := ph\<rparr>) disk buf = committer_inv crc hdr l cm disk buf"
  "committer_inv crc hdr l (cm\<lparr>cm_shutdown_requested := b\<rparr>) disk buf = committer_inv crc hdr l cm disk buf"
  "committer_inv crc hdr l (cm\<lparr>cm_shutdown_signal := b\<rparr>) disk buf = committer_inv crc hdr l cm disk buf"
  by (simp_all add: committer_inv_def Let_def split: option.split)

lemma handle_submission_queue:
  "handle_submission crc sub (cm\<lparr>cm_queue := q\<rparr>)
     = map_option (\<lambda>c. c\<lparr>cm_queue := q\<rparr>) (handle_submission crc sub cm)"
  by (auto simp: handle_submission_def split: prod.split option.split)

lemma drain_queue_inv:
  assumes "committer_inv crc hdr l cm disk buf" and "cm_queue cm = subs"
    and "drain_queue crc subs (cm\<lparr>cm_queue := []\<rparr>) = Some cm'"
  shows "\<exists>buf'. committer_inv crc hdr l cm' disk buf' \<and> cm_broken cm' = cm_broken cm \<and> cm_queue cm' = [] \<and>
    cm_shutdown_requested cm' = cm_shutdown_requested cm \<and>
    cm_shutdown_signal cm' = cm_shutdown_signal cm \<and>
    (cm_broken cm = None \<longrightarrow> buf' = buf @ map fst subs)"
  using assms
proof (induction subs arbitrary: cm buf)
  case Nil
  moreover from Nil.prems(2) have "cm\<lparr>cm_queue := []\<rparr> = cm" by simp
  ultimately show ?case by auto
next
  case (Cons sub subs)
  obtain r t where sub: "sub = (r, t)" by (cases sub)
  obtain c where c: "handle_submission crc (r, t) (cm\<lparr>cm_queue := []\<rparr>) = Some c"
    and rest: "drain_queue crc subs c = Some cm'"
    using Cons.prems(3) by (auto simp: sub split: option.splits)
  let ?c = "c\<lparr>cm_queue := subs\<rparr>"
  have "handle_submission crc (r, t) (cm\<lparr>cm_queue := subs\<rparr>) = Some ?c" and cq: "c = ?c\<lparr>cm_queue := []\<rparr>"
    using c by (auto simp: handle_submission_queue)
  from handle_submission_inv [OF Cons.prems(1) _ this(1)] Cons.prems(2) obtain buf1 where
    "committer_inv crc hdr l ?c disk buf1" and keep: "cm_broken ?c = cm_broken cm"
    "cm_shutdown_requested ?c = cm_shutdown_requested cm"
    "cm_shutdown_signal ?c = cm_shutdown_signal cm" "cm_broken cm = None \<longrightarrow> buf1 = buf @ [r]"
    by (auto simp: sub)
  from Cons.IH [OF this(1)] rest cq keep show ?case by (auto simp: sub)
qed

lemma take_hdr:
  "length hdr = n \<Longrightarrow> take (n + length body) (write_at (hdr @ body) (n + length body) buf) = hdr @ body"
  by (simp add: take_write_at)

text \<open>Where a failed flush may leave bytes behind, it leaves the flushed prefix intact.\<close>

lemma flush_durable_cases:
  assumes content: "seg_file s = hdr @ frames crc disk" and hdr: "length hdr = WAL_SEGMENT_HEADER_LEN"
    and bytes: "seg_bytes_on_disk s = length (frames crc disk)" and buf: "seg_write_buf s = frames crc buf"
    and flush: "flush_durable io s = (res, s')"
  shows "(case res of
      Inr _ \<Rightarrow> seg_file s' = hdr @ frames crc (disk @ buf) \<and>
        seg_bytes_on_disk s' = length (frames crc (disk @ buf))
    | Inl _ \<Rightarrow> take (WAL_SEGMENT_HEADER_LEN + seg_bytes_on_disk s') (seg_file s') = hdr @ frames crc disk \<and>
        seg_bytes_on_disk s' = length (frames crc disk)) \<and> seg_write_buf s' = []"
proof (cases "frames crc buf = []")
  case True
  then show ?thesis
    using flush content bytes buf by (auto simp: flush_durable_def frames_append split: sum.split)
next
  case False
  then show ?thesis
    using flush content bytes buf hdr
    by (auto simp: flush_durable_def Let_def frames_append write_at_end take_write_at
        split: write_result.splits if_splits sum.split)
qed

lemma flush_and_signal_inv:
  assumes inv: "committer_inv crc hdr l cm disk buf"
  shows "\<exists>disk' buf'. committer_inv crc hdr l (flush_and_signal io cm) disk' buf' \<and>
    (cm_broken (flush_and_signal io cm) = None \<longrightarrow> disk' = disk @ buf \<and> buf' = []) \<and>
    prefix disk disk'"
proof (cases "cm_pending cm = []")
  case True
  with inv have "buf = []" by (auto simp: committer_inv_def Let_def)
  with inv True show ?thesis by (intro exI [of _ disk] exI [of _ "[]"]) (simp add: flush_and_signal_def)
next
  case False
  with inv have ok: "cm_broken cm = None"
    by (cases "cm_broken cm") (auto simp: committer_inv_def Let_def)
  obtain res s' where flush: "flush_durable io (cm_segment cm) = (res, s')" by force
  have eq: "seg_file (cm_segment cm) = hdr @ frames crc disk" "length hdr = WAL_SEGMENT_HEADER_LEN"
    "seg_bytes_on_disk (cm_segment cm) = length (frames crc disk)"
    "seg_write_buf (cm_segment cm) = frames crc buf" and lsns: "map pa_lsn (cm_pending cm) = map wr_lsn buf"
    and num: "numbered l (disk @ buf @ map fst (cm_queue cm))"
    using inv ok by (simp_all add: committer_inv_def Let_def)
  note after = flush_durable_cases [OF eq flush]
  have acked: "pa_lsn p \<in> wr_lsn ` set buf" if "p \<in> set (cm_pending cm)" for p
    using that lsns by (metis image_eqI list.set_map)
  show ?thesis
  proof (cases res)
    case (Inr u)
    then have "committer_inv crc hdr l (flush_and_signal io cm) (disk @ buf) []"
      using inv ok flush after num acked False
      by (auto simp: flush_and_signal_def ack_all_def committer_inv_def Let_def numbered_append image_Un)
    then show ?thesis by (intro exI [of _ "disk @ buf"] exI [of _ "[]"]) simp
  next
    case (Inl e)
    then have "committer_inv crc hdr l (flush_and_signal io cm) disk []"
      using inv ok flush after num False
      by (auto simp: flush_and_signal_def ack_all_def committer_inv_def Let_def numbered_append)
    moreover have "cm_broken (flush_and_signal io cm) \<noteq> None"
      using Inl ok flush False by (simp add: flush_and_signal_def ack_all_def)
    ultimately show ?thesis
      by - (rule exI [of _ disk], rule exI [of _ "[]"], auto)
  qed
qed

text \<open>The records a committer is responsible for: flushed, buffered and queued.\<close>

definition committer_all :: "committer \<Rightarrow> wal_record list \<Rightarrow> wal_record list \<Rightarrow> wal_record list" where
  "committer_all cm disk buf = disk @ buf @ map fst (cm_queue cm)"

lemma flush_and_signal_queue [simp]: "cm_queue (flush_and_signal io cm) = cm_queue cm"
  by (auto simp: flush_and_signal_def ack_all_def split: option.split prod.split sum.split)

lemma end_round_fields [simp]:
  "committer_inv crc hdr l (end_round cm) disk buf = committer_inv crc hdr l cm disk buf"
  "cm_broken (end_round cm) = cm_broken cm" "cm_queue (end_round cm) = cm_queue cm"
  "cm_acks (end_round cm) = cm_acks cm"
  by (simp_all add: end_round_def)

lemma committer_step_inv:
  assumes "committer_step crc cfg allowed cm cm'" and "committer_inv crc hdr l cm disk buf"
  shows "\<exists>disk' buf'. committer_inv crc hdr l cm' disk' buf' \<and> prefix disk disk' \<and>
    (cm_broken cm' = None \<longrightarrow> committer_all cm' disk' buf' = committer_all cm disk buf)"
  using assms
proof (induction rule: committer_step.induct)
  case (first cm sub subs cm')
  obtain r t where sub: "sub = (r, t)" by (cases sub)
  obtain c where c: "handle_submission crc (r, t) (cm\<lparr>cm_queue := subs\<rparr>) = Some c"
    and cm': "cm' = c\<lparr>cm_phase := (if cm_broken c = None \<and> \<not> cm_shutdown_requested c then Gathering else Flushing)\<rparr>"
    using first.hyps by (auto simp: receive_first_def sub)
  obtain buf' where "committer_inv crc hdr l c disk buf'" and "cm_broken c = cm_broken cm"
    and "cm_queue c = subs" and "cm_broken cm = None \<longrightarrow> buf' = buf @ [r]"
    using handle_submission_inv [OF first.prems _ c] first.hyps by (auto simp: sub)
  with first.hyps show ?case
    by (intro exI [of _ disk] exI [of _ buf']) (simp add: cm' sub committer_all_def)
next
  case (shutdown cm cm')
  let ?cm = "cm\<lparr>cm_shutdown_requested := True\<rparr>"
  obtain c where c: "drain_queue crc (cm_queue cm) (?cm\<lparr>cm_queue := []\<rparr>) = Some c"
    and cm': "cm' = c\<lparr>cm_phase := Flushing\<rparr>"
    using shutdown.hyps by (auto simp: receive_shutdown_def)
  have "committer_inv crc hdr l ?cm disk buf" using shutdown.prems by simp
  from drain_queue_inv [OF this _ c] obtain buf' where "committer_inv crc hdr l c disk buf'"
    and "cm_broken c = cm_broken cm" and "cm_queue c = []"
    and "cm_broken cm = None \<longrightarrow> buf' = buf @ map fst (cm_queue cm)" by auto
  then show ?case
    by (intro exI [of _ disk] exI [of _ buf']) (simp add: cm' committer_all_def)
next
  case (gather cm sub subs cm')
  obtain r t where sub: "sub = (r, t)" by (cases sub)
  with gather.hyps have "handle_submission crc (r, t) (cm\<lparr>cm_queue := subs\<rparr>) = Some cm'"
    by (simp add: gather_one_def)
  from handle_submission_inv [OF gather.prems _ this] gather.hyps obtain buf' where
    "committer_inv crc hdr l cm' disk buf'" and "cm_broken cm' = cm_broken cm"
    and "cm_queue cm' = subs" and "cm_broken cm = None \<longrightarrow> buf' = buf @ [r]" by (auto simp: sub)
  with gather.hyps show ?case
    by (intro exI [of _ disk] exI [of _ buf']) (simp add: sub committer_all_def)
next
  case (window cm)
  then show ?case by (intro exI [of _ disk] exI [of _ buf]) (simp add: committer_all_def)
next
  case (flush cm io)
  from flush_and_signal_inv [OF flush.prems, of io] obtain disk' buf' where
    "committer_inv crc hdr l (flush_and_signal io cm) disk' buf'" and "prefix disk disk'"
    and "cm_broken (flush_and_signal io cm) = None \<longrightarrow> disk' = disk @ buf \<and> buf' = []" by auto
  then show ?case
    by (intro exI [of _ disk'] exI [of _ buf']) (simp add: committer_all_def)
qed

text \<open>A flush that succeeds does not break the committer, and only a failed flush does.\<close>

definition io_good :: "io_answer \<Rightarrow> bool" where
  "io_good io \<longleftrightarrow> io_write io = Written \<and> io_sync_ok io"

lemma handle_submission_broken: "handle_submission crc sub cm = Some cm' \<Longrightarrow> cm_broken cm' = cm_broken cm"
  by (auto simp: handle_submission_def split: prod.splits option.splits)

lemma drain_queue_broken: "drain_queue crc subs cm = Some cm' \<Longrightarrow> cm_broken cm' = cm_broken cm"
  by (induction subs arbitrary: cm) (auto dest: handle_submission_broken split: option.splits)

lemma committer_step_good:
  assumes "committer_step crc cfg io_good cm cm'" and "cm_broken cm = None"
  shows "cm_broken cm' = None"
  using assms
  by (induction rule: committer_step.induct)
    (auto simp: receive_first_def receive_shutdown_def gather_one_def flush_and_signal_def
      ack_all_def flush_durable_def io_good_def Let_def
      dest!: handle_submission_broken drain_queue_broken)

section \<open>Properties\<close>

lemma handle_submission_sticky:
  "handle_submission crc sub cm = Some cm' \<Longrightarrow> cm_broken cm = Some reason \<Longrightarrow>
   cm_broken cm' = Some reason \<and> cm_pending cm' = cm_pending cm \<and>
   cm_acks cm' = cm_acks cm @ [(snd sub, Inl (WalBroken reason))]"
  by (auto simp: handle_submission_def split: prod.splits)

lemma drain_queue_sticky:
  "drain_queue crc subs cm = Some cm' \<Longrightarrow> cm_broken cm = Some reason \<Longrightarrow>
   cm_broken cm' = Some reason \<and>
   cm_acks cm' = cm_acks cm @ map (\<lambda>sub. (snd sub, Inl (WalBroken reason))) subs"
  by (induction subs arbitrary: cm) (auto dest!: handle_submission_sticky split: option.splits)

definition broken_sample :: committer where
  "broken_sample =
     (committer_start (open_for_append [] [] 0 1 0))
       \<lparr>cm_broken := Some (FlushFailed SegmentIo), cm_queue := [(sample_record, 7)]\<rparr>"

text \<open>Errors are sticky within one committer: once a flush has failed, no step of the committer
  task clears the failure, and every ack it sends afterwards is \<open>WalBroken\<close> with the original
  reason, never a success.\<close>

theorem broken_committer_sticky:
  assumes "committer_step crc cfg allowed cm cm'" and "cm_broken cm = Some reason"
  shows "cm_broken cm' = Some reason \<and>
    (\<exists>ts. cm_acks cm' = cm_acks cm @ map (\<lambda>t. (t, Inl (WalBroken reason))) ts)"
  using assms
proof (induction rule: committer_step.induct)
  case (first cm sub subs cm')
  then show ?case
    by (auto simp: receive_first_def dest!: handle_submission_sticky intro: exI [of _ "[snd sub]"])
next
  case (shutdown cm cm')
  then show ?case
    by (auto simp: receive_shutdown_def dest!: drain_queue_sticky
        intro!: exI [of _ "map snd (cm_queue cm)"])
next
  case (gather cm sub subs cm')
  then show ?case
    by (auto simp: gather_one_def dest!: handle_submission_sticky intro: exI [of _ "[snd sub]"])
next
  case (flush cm io)
  then show ?case
    by (auto simp: flush_and_signal_def ack_all_def intro!: exI [of _ "map pa_ticket (cm_pending cm)"])
qed auto

theorem broken_committer_sticky_witness:
  "\<exists>cm'. committer_step sum_crc default_group_commit_config (\<lambda>_. True) broken_sample cm' \<and>
    cm_broken cm' = Some (FlushFailed SegmentIo)"
proof -
  obtain cm' where "receive_first sum_crc (sample_record, 7) [] broken_sample = Some cm'"
    by (auto simp: receive_first_def handle_submission_def broken_sample_def)
  then have step: "committer_step sum_crc default_group_commit_config (\<lambda>_. True) broken_sample cm'"
    by (intro committer_step.first [where sub = "(sample_record, 7)" and subs = "[]"])
      (simp_all add: broken_sample_def committer_start_def)
  have "cm_broken broken_sample = Some (FlushFailed SegmentIo)" by (simp add: broken_sample_def)
  with broken_committer_sticky [OF step] step show ?thesis by blast
qed

end
