(* ===== verification/Wal_Log.thy ===== *)
theory Wal_Log
  imports Wal_Commit
begin

text \<open>
  The per-shard WAL handle (\<open>brain-storage/src/wal/wal.rs\<close>): LSN assignment, enqueueing, segment
  rollover, shutdown and reopening. Its atomic steps are the stretches between two awaits; the
  committer of the active segment runs interleaved with them. The rollover semaphore is the state
  \<open>Rolling\<close>: only its holder can finish the rollover, and no other rollover can begin.
\<close>

section \<open>State\<close>

record wal_config =
  wc_group_commit :: group_commit_config
  wc_max_segment_bytes :: nat

definition default_wal_config :: wal_config where
  "default_wal_config =
     \<lparr>wc_group_commit = default_group_commit_config, wc_max_segment_bytes = WAL_SEGMENT_SIZE_BYTES\<rparr>"

datatype wal_error =
    DirectoryNotEmpty
  | NoSegmentsFound
  | RecoveredOffsetOutOfRange nat nat
  | RecordExceedsSegmentLimit nat nat
  | SegmentError segment_error
  | CommitError commit_error
  | ReadError wal_read_error
  | WalIo

text \<open>\<open>SegmentState\<close>. The transient \<open>RollingOver\<close> of the source still knows, through the task
  that awaits it, the committer being shut down; \<open>RollingOver\<close> here is what is left when that
  task failed or the WAL was shut down.\<close>

datatype segment_state = Open committer nat | Rolling committer | Stopping committer | RollingOver

record wal_state =
  w_shard_uuid :: bytes
  w_next_lsn :: u64
  w_active_segment_seq :: u64
  w_segment :: segment_state
  w_config :: wal_config
  w_closed :: "(string \<times> bytes) list"
  w_acks :: "(ticket \<times> ack_message) list"

section \<open>Creating and reopening\<close>

text \<open>\<open>dio\<close> is the outcome of \<open>fsync_dir\<close>.\<close>

definition wal_create :: "crc_fn \<Rightarrow> u64 \<Rightarrow> io_answer \<Rightarrow> io_answer \<Rightarrow> wal_dir \<Rightarrow> bytes \<Rightarrow> wal_config \<Rightarrow> wal_error + wal_state" where
  "wal_create crc now io dio d shard_uuid config =
     (if list_ex (\<lambda>(name, _). path_extension name = Some ''wal'') (dir_entries d) then Inl DirectoryNotEmpty
      else
        case create_new crc now (map_of (dir_entries d) (segment_path 0) \<noteq> None) io 0 1 shard_uuid of
          Inl e \<Rightarrow> Inl (SegmentError e)
        | Inr segment \<Rightarrow>
            if \<not> io_sync_ok dio then Inl WalIo
            else Inr \<lparr>w_shard_uuid = shard_uuid, w_next_lsn = 1, w_active_segment_seq = 0,
                 w_segment = Open (committer_start segment) 0, w_config = config,
                 w_closed = [], w_acks = []\<rparr>)"

text \<open>\<open>io\<close> is the outcome of \<open>set_len\<close> and \<open>sync_all\<close>.\<close>

definition wal_open_existing ::
    "crc_fn \<Rightarrow> io_answer \<Rightarrow> wal_dir \<Rightarrow> bytes \<Rightarrow> u64 \<Rightarrow> nat \<Rightarrow> wal_config \<Rightarrow> wal_error + wal_state" where
  "wal_open_existing crc io d shard_uuid next_lsn recovered_tail_offset config =
     (case reader_open crc d shard_uuid of
        Inl e \<Rightarrow> Inl (ReadError e)
      | Inr rd \<Rightarrow>
          if rdr_segments rd = [] then Inl NoSegmentsFound
          else
            let info = last (rdr_segments rd);
                active_path = segment_path (si_segment_seq info);
                file_size = si_file_size info
            in if recovered_tail_offset < WAL_SEGMENT_HEADER_LEN \<or> recovered_tail_offset > file_size
               then Inl (RecoveredOffsetOutOfRange recovered_tail_offset file_size)
               else
                 (case dir_read d active_path of
                    None \<Rightarrow> Inl (ReadError ReadIo)
                  | Some content \<Rightarrow>
                      if recovered_tail_offset < file_size \<and> \<not> io_sync_ok io then Inl WalIo
                      else
                      let truncated = (if recovered_tail_offset < file_size
                                       then take recovered_tail_offset content else content);
                          bytes_on_disk_pre = recovered_tail_offset - WAL_SEGMENT_HEADER_LEN;
                          segment = open_for_append truncated shard_uuid (si_segment_seq info)
                            (si_starting_lsn info) bytes_on_disk_pre
                      in Inr \<lparr>w_shard_uuid = shard_uuid, w_next_lsn = next_lsn,
                              w_active_segment_seq = si_segment_seq info,
                              w_segment = Open (committer_start segment) bytes_on_disk_pre,
                              w_config = config,
                              w_closed = map (\<lambda>i. (si_path i, the (dir_read d (si_path i))))
                                (butlast (rdr_segments rd)),
                              w_acks = []\<rparr>))"

section \<open>Appending\<close>

datatype append_action = Enqueued u64 | Rollover u64 | AppendFailed wal_error

text \<open>The critical section of \<open>append\<close>, and of one record in \<open>append_many\<close>: no await separates
  reading \<open>next_lsn\<close> from bumping it.\<close>

definition wal_append_try :: "wal_record \<Rightarrow> ticket \<Rightarrow> wal_state \<Rightarrow> append_action \<times> wal_state" where
  "wal_append_try r t w =
     (let record_bytes = record_encoded_len r;
          max_segment_bytes = wc_max_segment_bytes (w_config w);
          segment_capacity_bytes = max_segment_bytes - WAL_SEGMENT_HEADER_LEN
      in if record_bytes > segment_capacity_bytes
         then (AppendFailed (RecordExceedsSegmentLimit record_bytes max_segment_bytes), w)
         else
           case w_segment w of
             Open cm bs \<Rightarrow>
               if WAL_SEGMENT_HEADER_LEN + bs + record_bytes > max_segment_bytes
               then (Rollover (w_active_segment_seq w), w)
               else
                 let l = w_next_lsn w
                 in (case committer_append (r\<lparr>wr_lsn := l\<rparr>) t cm of
                       Inl e \<Rightarrow> (AppendFailed (CommitError e), w)
                     | Inr cm' \<Rightarrow>
                         (Enqueued l, w\<lparr>w_segment := Open cm' (bs + record_bytes), w_next_lsn := l + 1\<rparr>))
           | _ \<Rightarrow> (Rollover (w_active_segment_seq w), w))"

text \<open>The stretch of \<open>append_many\<close> up to its next await: records are enqueued back to back until a
  rollover is needed, an error occurs or the batch is exhausted. Returned are the assigned LSNs,
  the records still to do and what stopped the stretch.\<close>

fun wal_append_many_run ::
    "(wal_record \<times> ticket) list \<Rightarrow> wal_state \<Rightarrow>
     u64 list \<times> (wal_record \<times> ticket) list \<times> append_action option \<times> wal_state" where
  "wal_append_many_run [] w = ([], [], None, w)"
| "wal_append_many_run ((r, t) # rs) w =
     (case wal_append_try r t w of
        (Enqueued l, w') \<Rightarrow>
          (let (assigned, todo, stop, w'') = wal_append_many_run rs w'
           in (l # assigned, todo, stop, w''))
      | (stop, w') \<Rightarrow> ([], (r, t) # rs, Some stop, w'))"

section \<open>Rollover and shutdown\<close>

text \<open>Steps 1 to 3a of \<open>rollover\<close>: a no-op when the sequence has advanced past the observed one.\<close>

definition rollover_begin :: "u64 \<Rightarrow> wal_state \<Rightarrow> wal_error + wal_state" where
  "rollover_begin observed_seq w =
     (if w_active_segment_seq w \<noteq> observed_seq then Inr w
      else
        case w_segment w of
          Open cm _ \<Rightarrow> Inr (w\<lparr>w_segment := Rolling (committer_shutdown cm)\<rparr>)
        | _ \<Rightarrow> Inl (CommitError (WalBroken RolloverFailed)))"

text \<open>Steps 3b to 3d, once the old committer has finished: close the old file, create the next
  segment, sync the directory and install the new committer; \<open>cio\<close> and \<open>dio\<close> are the outcomes of
  \<open>close\<close> and \<open>fsync_dir\<close>. A failure leaves the WAL without a committer.\<close>

definition rollover_finish ::
    "crc_fn \<Rightarrow> u64 \<Rightarrow> io_answer \<Rightarrow> io_answer \<Rightarrow> io_answer \<Rightarrow> committer \<Rightarrow> wal_state \<Rightarrow>
     (wal_error + unit) \<times> wal_state" where
  "rollover_finish crc now cio io dio cm w =
     (let new_seq = w_active_segment_seq w + 1;
          w' = w\<lparr>w_closed := w_closed w @ [(segment_path (w_active_segment_seq w), seg_file (cm_segment cm))],
                w_acks := w_acks w @ cm_acks cm, w_segment := RollingOver\<rparr>
      in if \<not> io_sync_ok cio then (Inl (SegmentError SegmentIo), w')
         else
           case create_new crc now False io new_seq (w_next_lsn w) (w_shard_uuid w) of
             Inl e \<Rightarrow> (Inl (SegmentError e), w')
           | Inr segment \<Rightarrow>
               if \<not> io_sync_ok dio
               then (Inl WalIo, w'\<lparr>w_closed := w_closed w' @ [(segment_path new_seq, seg_file segment)]\<rparr>)
               else (Inr (), w'\<lparr>w_segment := Open (committer_start segment) 0, w_active_segment_seq := new_seq\<rparr>))"

definition shutdown_begin :: "wal_state \<Rightarrow> wal_state" where
  "shutdown_begin w =
     (case w_segment w of
        Open cm _ \<Rightarrow> w\<lparr>w_segment := Stopping (committer_shutdown cm)\<rparr>
      | _ \<Rightarrow> w)"

definition shutdown_finish :: "committer \<Rightarrow> wal_state \<Rightarrow> wal_state" where
  "shutdown_finish cm w =
     w\<lparr>w_closed := w_closed w @ [(segment_path (w_active_segment_seq w), seg_file (cm_segment cm))],
       w_acks := w_acks w @ cm_acks cm, w_segment := RollingOver\<rparr>"

section \<open>Runs of the WAL\<close>

text \<open>Every interleaving of appends, committer steps, rollovers and shutdown from a fresh directory,
  together with the records appended so far under the LSNs they were given. \<open>allowed\<close> restricts
  the I/O answers.\<close>

inductive wal_reach ::
    "crc_fn \<Rightarrow> (io_answer \<Rightarrow> bool) \<Rightarrow> bytes \<Rightarrow> wal_config \<Rightarrow> wal_state \<Rightarrow> wal_record list \<Rightarrow> bool"
  for crc allowed uuid config where
  create: "wal_create crc now io dio d uuid config = Inr w \<Longrightarrow> allowed io \<Longrightarrow> allowed dio \<Longrightarrow>
     wal_reach crc allowed uuid config w []"
| append: "wal_reach crc allowed uuid config w log \<Longrightarrow> fits r \<Longrightarrow>
     wal_append_try r t w = (Enqueued l, w') \<Longrightarrow>
     wal_reach crc allowed uuid config w' (log @ [r\<lparr>wr_lsn := l\<rparr>])"
| commit: "wal_reach crc allowed uuid config w log \<Longrightarrow> w_segment w = Open cm bs \<Longrightarrow>
     committer_step crc (wc_group_commit config) allowed cm cm' \<Longrightarrow>
     wal_reach crc allowed uuid config (w\<lparr>w_segment := Open cm' bs\<rparr>) log"
| commit_rolling: "wal_reach crc allowed uuid config w log \<Longrightarrow> w_segment w = Rolling cm \<Longrightarrow>
     committer_step crc (wc_group_commit config) allowed cm cm' \<Longrightarrow>
     wal_reach crc allowed uuid config (w\<lparr>w_segment := Rolling cm'\<rparr>) log"
| commit_stopping: "wal_reach crc allowed uuid config w log \<Longrightarrow> w_segment w = Stopping cm \<Longrightarrow>
     committer_step crc (wc_group_commit config) allowed cm cm' \<Longrightarrow>
     wal_reach crc allowed uuid config (w\<lparr>w_segment := Stopping cm'\<rparr>) log"
| roll: "wal_reach crc allowed uuid config w log \<Longrightarrow> w_segment w = Open cm bs \<Longrightarrow>
     wal_append_try r t w = (Rollover observed_seq, w) \<Longrightarrow> rollover_begin observed_seq w = Inr w' \<Longrightarrow>
     wal_reach crc allowed uuid config w' log"
| rolled: "wal_reach crc allowed uuid config w log \<Longrightarrow> w_segment w = Rolling cm \<Longrightarrow>
     cm_phase cm = Finished \<Longrightarrow> allowed cio \<Longrightarrow> allowed io \<Longrightarrow> allowed dio \<Longrightarrow>
     rollover_finish crc now cio io dio cm w = (res, w') \<Longrightarrow>
     wal_reach crc allowed uuid config w' log"
| stop: "wal_reach crc allowed uuid config w log \<Longrightarrow> wal_reach crc allowed uuid config (shutdown_begin w) log"
| stopped: "wal_reach crc allowed uuid config w log \<Longrightarrow> w_segment w = Stopping cm \<Longrightarrow>
     cm_phase cm = Finished \<Longrightarrow> wal_reach crc allowed uuid config (shutdown_finish cm w) log"

section \<open>Control invariant of the committer\<close>

definition committer_ctl :: "committer \<Rightarrow> bool" where
  "committer_ctl cm \<longleftrightarrow>
     (cm_shutdown_requested cm \<longrightarrow> cm_shutdown_signal cm) \<and>
     (cm_phase cm = Finished \<longrightarrow> cm_shutdown_requested cm \<and> cm_queue cm = [] \<and> cm_pending cm = [])"

lemma handle_submission_flags:
  "handle_submission crc sub cm = Some cm' \<Longrightarrow>
   cm_shutdown_requested cm' = cm_shutdown_requested cm \<and> cm_shutdown_signal cm' = cm_shutdown_signal cm \<and>
   cm_phase cm' = cm_phase cm"
  by (auto simp: handle_submission_def split: prod.splits option.splits)

lemma drain_queue_flags:
  "drain_queue crc subs cm = Some cm' \<Longrightarrow>
   cm_shutdown_requested cm' = cm_shutdown_requested cm \<and> cm_shutdown_signal cm' = cm_shutdown_signal cm"
  by (induction subs arbitrary: cm) (auto dest!: handle_submission_flags split: option.splits)

lemma flush_and_signal_flags:
  "cm_shutdown_requested (flush_and_signal io cm) = cm_shutdown_requested cm"
  "cm_shutdown_signal (flush_and_signal io cm) = cm_shutdown_signal cm"
  "cm_pending (flush_and_signal io cm) = []"
  by (auto simp: flush_and_signal_def ack_all_def split: option.split prod.split sum.split)

lemma committer_step_ctl:
  assumes "committer_step crc cfg allowed cm cm'" and "committer_ctl cm"
  shows "committer_ctl cm' \<and> cm_shutdown_signal cm' = cm_shutdown_signal cm"
  using assms
proof (induction rule: committer_step.induct)
  case (first cm sub subs cm')
  then obtain c where "handle_submission crc sub (cm\<lparr>cm_queue := subs\<rparr>) = Some c"
    and cm': "cm' = c\<lparr>cm_phase := (if cm_broken c = None \<and> \<not> cm_shutdown_requested c then Gathering else Flushing)\<rparr>"
    by (auto simp: receive_first_def)
  with handle_submission_flags [OF this(1)] first.prems show ?case
    by (simp add: committer_ctl_def)
next
  case (shutdown cm cm')
  then obtain c where "drain_queue crc (cm_queue cm) (cm\<lparr>cm_shutdown_requested := True, cm_queue := []\<rparr>) = Some c"
    and cm': "cm' = c\<lparr>cm_phase := Flushing\<rparr>"
    by (auto simp: receive_shutdown_def)
  with drain_queue_flags [OF this(1)] shutdown show ?case
    by (simp add: committer_ctl_def)
next
  case (gather cm sub subs cm')
  then have "handle_submission crc sub (cm\<lparr>cm_queue := subs\<rparr>) = Some cm'"
    by (simp add: gather_one_def)
  from handle_submission_flags [OF this] gather show ?case
    by (simp add: committer_ctl_def)
next
  case (window cm)
  then show ?case by (simp add: committer_ctl_def)
next
  case (flush cm io)
  then show ?case by (simp add: committer_ctl_def end_round_def flush_and_signal_flags)
qed

lemma committer_ctl_start: "committer_ctl (committer_start s)"
  by (simp add: committer_ctl_def committer_start_def)

lemma committer_ctl_append:
  "committer_ctl cm \<Longrightarrow> committer_append r t cm = Inr cm' \<Longrightarrow> committer_ctl cm'"
  by (auto simp: committer_ctl_def committer_append_def split: if_splits)

lemma committer_ctl_shutdown: "committer_ctl cm \<Longrightarrow> committer_ctl (committer_shutdown cm)"
  by (simp add: committer_ctl_def committer_shutdown_def)

section \<open>The invariant of the WAL\<close>

definition wal_committer :: "wal_state \<Rightarrow> committer option" where
  "wal_committer w =
     (case w_segment w of Open cm _ \<Rightarrow> Some cm | Rolling cm \<Rightarrow> Some cm | Stopping cm \<Rightarrow> Some cm
      | RollingOver \<Rightarrow> None)"

text \<open>The LSNs reported durable to a caller.\<close>

definition acked_lsns :: "(ticket \<times> ack_message) list \<Rightarrow> u64 set" where
  "acked_lsns acks = {n. \<exists>t. (t, Inr n) \<in> set acks}"

definition wal_acked :: "wal_state \<Rightarrow> u64 set" where
  "wal_acked w = acked_lsns (w_acks w) \<union>
     (case wal_committer w of Some cm \<Rightarrow> acked_lsns (cm_acks cm) | None \<Rightarrow> {})"

abbreviation runs_log :: "segment_run list \<Rightarrow> wal_record list" where
  "runs_log runs \<equiv> concat (map snd runs)"

definition closed_inv :: "crc_fn \<Rightarrow> bytes \<Rightarrow> wal_config \<Rightarrow> wal_state \<Rightarrow> segment_run list \<Rightarrow> bool" where
  "closed_inv crc uuid config w runs \<longleftrightarrow>
     w_shard_uuid w = uuid \<and> w_config w = config \<and> w_closed w = wal_image crc uuid [] 0 1 runs \<and>
     numbered 1 (runs_log runs) \<and> acked_lsns (w_acks w) \<subseteq> wr_lsn ` set (runs_log runs) \<and>
     list_all (\<lambda>run. WAL_SEGMENT_HEADER_LEN + length (frames crc (snd run))
       \<le> max WAL_SEGMENT_HEADER_LEN (wc_max_segment_bytes config)) runs"

definition live_inv ::
    "crc_fn \<Rightarrow> bytes \<Rightarrow> wal_config \<Rightarrow> wal_state \<Rightarrow> wal_record list \<Rightarrow> committer \<Rightarrow>
     segment_run list \<Rightarrow> u64 \<Rightarrow> wal_record list \<Rightarrow> wal_record list \<Rightarrow> bool" where
  "live_inv crc uuid config w log cm runs now disk buf \<longleftrightarrow>
     closed_inv crc uuid config w runs \<and> w_active_segment_seq w = of_nat (length runs) \<and>
     committer_inv crc (header_image crc now uuid (of_nat (length runs)) (1 + of_nat (length (runs_log runs))))
       (1 + of_nat (length (runs_log runs))) cm disk buf \<and>
     committer_ctl cm \<and> cm_broken cm = None \<and> log = runs_log runs @ committer_all cm disk buf \<and>
     w_next_lsn w = 1 + of_nat (length log) \<and>
     WAL_SEGMENT_HEADER_LEN + length (frames crc (committer_all cm disk buf))
       \<le> max WAL_SEGMENT_HEADER_LEN (wc_max_segment_bytes config) \<and>
     (\<forall>bs. w_segment w = Open cm bs \<longrightarrow>
       \<not> cm_shutdown_signal cm \<and> bs = length (frames crc (committer_all cm disk buf)))"

definition wal_inv :: "crc_fn \<Rightarrow> bytes \<Rightarrow> wal_config \<Rightarrow> wal_state \<Rightarrow> wal_record list \<Rightarrow> bool" where
  "wal_inv crc uuid config w log \<longleftrightarrow>
     (case wal_committer w of
        Some cm \<Rightarrow> \<exists>runs now disk buf. live_inv crc uuid config w log cm runs now disk buf
      | None \<Rightarrow> \<exists>runs. runs \<noteq> [] \<and> closed_inv crc uuid config w runs \<and> log = runs_log runs)"

lemma acked_lsns_append [simp]: "acked_lsns (xs @ ys) = acked_lsns xs \<union> acked_lsns ys"
  by (auto simp: acked_lsns_def)

lemma acked_lsns_Nil [simp]: "acked_lsns [] = {}"
  by (simp add: acked_lsns_def)

lemma wal_image_snoc:
  "wal_image crc uuid tail seq l (runs @ [run]) =
     wal_image crc uuid [] seq l runs @
     [(segment_path (seq + of_nat (length runs)),
       segment_file crc uuid (seq + of_nat (length runs)) (l + of_nat (length (runs_log runs))) run tail)]"
  by (induction runs arbitrary: seq l) (simp_all add: algebra_simps)

lemma create_new_good:
  assumes "length uuid = 16" and "io_good io" and "create_new crc now ex io seq l uuid = Inr s"
  shows "s = \<lparr>seg_file = header_image crc now uuid seq l, seg_seq = seq, seg_starting_lsn = l,
    seg_shard_uuid = uuid, seg_write_buf = [], seg_bytes_on_disk = 0\<rparr>"
  using assms by (simp add: create_new_def io_good_def header_image_def Let_def split: if_splits)

lemma live_inv_start:
  assumes uuid: "length uuid = 16" and closed: "closed_inv crc uuid config w runs"
    and "w_active_segment_seq w = of_nat (length runs)" and "w_next_lsn w = 1 + of_nat (length (runs_log runs))"
    and s: "s = \<lparr>seg_file = header_image crc now uuid (of_nat (length runs)) (1 + of_nat (length (runs_log runs))),
      seg_seq = sq, seg_starting_lsn = l, seg_shard_uuid = u, seg_write_buf = [], seg_bytes_on_disk = 0\<rparr>"
    and "w_segment w = Open (committer_start s) 0"
  shows "live_inv crc uuid config w (runs_log runs) (committer_start s) runs now [] []"
proof -
  have "committer_inv crc (header_image crc now uuid (of_nat (length runs)) (1 + of_nat (length (runs_log runs))))
      (1 + of_nat (length (runs_log runs))) (committer_start s) [] []"
    by (rule committer_inv_start)
      (simp_all add: s length_header_image [OF uuid] WAL_SEGMENT_HEADER_LEN_def)
  moreover have "committer_all (committer_start s) [] [] = []"
    by (simp add: committer_all_def committer_start_def)
  ultimately show ?thesis
    using assms by (simp add: live_inv_def committer_ctl_start) (simp add: committer_start_def)
qed

text \<open>A committer step keeps the log; only the split between flushed, buffered and queued moves.\<close>

lemma live_inv_step:
  assumes inv: "live_inv crc uuid config w log cm runs now disk buf"
    and step: "committer_step crc cfg io_good cm cm'"
    and slot: "\<And>bs. X = Open cm' bs \<Longrightarrow> w_segment w = Open cm bs"
  shows "\<exists>disk' buf'. live_inv crc uuid config (w\<lparr>w_segment := X\<rparr>) log cm' runs now disk' buf'"
proof -
  have good: "cm_broken cm' = None" using committer_step_good [OF step] inv by (simp add: live_inv_def)
  obtain disk' buf' where "committer_inv crc
      (header_image crc now uuid (of_nat (length runs)) (1 + of_nat (length (runs_log runs))))
      (1 + of_nat (length (runs_log runs))) cm' disk' buf'"
    and same: "committer_all cm' disk' buf' = committer_all cm disk buf"
    using committer_step_inv [OF step] inv good unfolding live_inv_def by blast
  then have "live_inv crc uuid config (w\<lparr>w_segment := X\<rparr>) log cm' runs now disk' buf'"
    using inv good committer_step_ctl [OF step] slot by (auto simp: live_inv_def closed_inv_def)
  then show ?thesis by blast
qed

lemma committer_all_shutdown [simp]: "committer_all (committer_shutdown cm) disk buf = committer_all cm disk buf"
  by (simp add: committer_all_def committer_shutdown_def)

lemma live_inv_shutdown:
  assumes "live_inv crc uuid config w log cm runs now disk buf" and "\<And>bs. X \<noteq> Open (committer_shutdown cm) bs"
  shows "live_inv crc uuid config (w\<lparr>w_segment := X\<rparr>) log (committer_shutdown cm) runs now disk buf"
  using assms committer_ctl_shutdown [of cm]
  by (auto simp: live_inv_def closed_inv_def) (simp_all add: committer_shutdown_def)

lemma committer_all_enqueue [simp]:
  "committer_all (cm\<lparr>cm_queue := cm_queue cm @ [(r, t)]\<rparr>) disk buf = committer_all cm disk buf @ [r]"
  by (simp add: committer_all_def)

lemma live_inv_append:
  assumes inv: "live_inv crc uuid config w log cm runs now disk buf" and seg: "w_segment w = Open cm bs"
    and "fits r" and tried: "wal_append_try r t w = (Enqueued l, w')"
  shows "\<exists>cm'. wal_committer w' = Some cm' \<and>
    live_inv crc uuid config w' (log @ [r\<lparr>wr_lsn := l\<rparr>]) cm' runs now disk buf"
proof -
  let ?r = "r\<lparr>wr_lsn := l\<rparr>" and ?cm = "cm\<lparr>cm_queue := cm_queue cm @ [(r\<lparr>wr_lsn := l\<rparr>, t)]\<rparr>"
  have l: "l = w_next_lsn w" and room: "WAL_SEGMENT_HEADER_LEN + bs + record_encoded_len r \<le> wc_max_segment_bytes config"
    and w': "w' = w\<lparr>w_segment := Open ?cm (bs + record_encoded_len r), w_next_lsn := l + 1\<rparr>"
    and app: "committer_append ?r t cm = Inr ?cm"
    using tried inv seg
    by (auto simp: wal_append_try_def Let_def committer_append_def live_inv_def closed_inv_def split: if_splits)
  have fit: "fits ?r" and len: "record_encoded_len ?r = record_encoded_len r"
    using assms(3) by (simp_all add: fits_def record_encoded_len_def)
  have "committer_inv crc (header_image crc now uuid (of_nat (length runs)) (1 + of_nat (length (runs_log runs))))
      (1 + of_nat (length (runs_log runs))) ?cm disk buf"
    using inv fit l by (auto simp: live_inv_def committer_inv_def committer_all_def Let_def numbered_append algebra_simps)
  moreover have "length (frames crc (committer_all ?cm disk buf)) = bs + record_encoded_len r"
    using inv seg fit len by (simp add: frames_append length_frame live_inv_def)
  ultimately have "live_inv crc uuid config w' (log @ [?r]) ?cm runs now disk buf"
    using inv seg room committer_ctl_append [OF _ app]
    by (auto simp: live_inv_def closed_inv_def w' l)
  then show ?thesis by (auto simp: w' wal_committer_def)
qed

lemma live_inv_finished:
  assumes inv: "live_inv crc uuid config w log cm runs now disk buf" and "cm_phase cm = Finished"
    and w': "w_closed w' = w_closed w @ [(segment_path (w_active_segment_seq w), seg_file (cm_segment cm))]"
      "w_acks w' = w_acks w @ cm_acks cm" "w_shard_uuid w' = w_shard_uuid w" "w_config w' = w_config w"
  shows "closed_inv crc uuid config w' (runs @ [(now, disk)]) \<and> log = runs_log (runs @ [(now, disk)])"
proof -
  have "cm_queue cm = []" and "cm_pending cm = []" using assms(1,2) by (auto simp: live_inv_def committer_ctl_def)
  then have all: "committer_all cm disk buf = disk" and "buf = []"
    using inv by (auto simp: live_inv_def committer_inv_def committer_all_def Let_def)
  have "wr_lsn ` set disk \<supseteq> acked_lsns (cm_acks cm)"
    using inv by (auto simp: live_inv_def committer_inv_def Let_def acked_lsns_def)
  moreover have "acked_lsns (w_acks w) \<subseteq> wr_lsn ` set (runs_log runs)"
    using inv by (simp add: live_inv_def closed_inv_def)
  ultimately have "acked_lsns (w_acks w') \<subseteq> wr_lsn ` set (runs_log (runs @ [(now, disk)]))"
    by (simp add: w' image_Un) blast
  moreover have "seg_file (cm_segment cm) = header_image crc now uuid (of_nat (length runs))
      (1 + of_nat (length (runs_log runs))) @ frames crc disk"
    using inv by (auto simp: live_inv_def committer_inv_def Let_def)
  ultimately show ?thesis
    using inv all w' unfolding live_inv_def closed_inv_def committer_inv_def Let_def
    by (simp add: wal_image_snoc segment_file_def numbered_append \<open>buf = []\<close>)
qed

lemma wal_inv_live:
  assumes "wal_inv crc uuid config w log" and "wal_committer w = Some cm"
  obtains runs now disk buf where "live_inv crc uuid config w log cm runs now disk buf"
  using assms by (auto simp: wal_inv_def)

lemma wal_invI:
  "wal_committer w = Some cm \<Longrightarrow> live_inv crc uuid config w log cm runs now disk buf \<Longrightarrow>
   wal_inv crc uuid config w log"
  by (auto simp: wal_inv_def)

lemma wal_create_inv:
  assumes "wal_create crc now io dio d uuid config = Inr w" and "io_good io" and "length uuid = 16"
  shows "wal_inv crc uuid config w []"
proof -
  obtain s where s: "create_new crc now (map_of (dir_entries d) (segment_path 0) \<noteq> None) io 0 1 uuid = Inr s"
    and w: "w = \<lparr>w_shard_uuid = uuid, w_next_lsn = 1, w_active_segment_seq = 0,
      w_segment = Open (committer_start s) 0, w_config = config, w_closed = [], w_acks = []\<rparr>"
    using assms(1) by (auto simp: wal_create_def split: if_splits sum.splits)
  have "closed_inv crc uuid config w []" by (simp add: closed_inv_def w)
  from live_inv_start [OF assms(3) this, of s now 0 1 uuid] create_new_good [OF assms(3,2) s]
  have "live_inv crc uuid config w [] (committer_start s) [] now [] []" by (simp add: w)
  then show ?thesis by (rule wal_invI [rotated]) (simp add: wal_committer_def w)
qed

lemma rollover_finish_inv:
  assumes inv: "live_inv crc uuid config w log cm runs now0 disk buf" and "cm_phase cm = Finished"
    and "io_good io" and "length uuid = 16" and fin: "rollover_finish crc now cio io dio cm w = (res, w')"
    and other: "io_good cio" "io_good dio"
  shows "wal_inv crc uuid config w' log"
proof -
  let ?runs = "runs @ [(now0, disk)]"
  let ?w = "w\<lparr>w_closed := w_closed w @ [(segment_path (w_active_segment_seq w), seg_file (cm_segment cm))],
    w_acks := w_acks w @ cm_acks cm\<rparr>"
  have uuid: "w_shard_uuid w = uuid" using inv by (simp add: live_inv_def closed_inv_def)
  obtain s where s: "create_new crc now False io (w_active_segment_seq w + 1) (w_next_lsn w) uuid = Inr s"
    using assms(3) by (auto simp: create_new_def io_good_def Let_def)
  have w': "w' = ?w\<lparr>w_segment := Open (committer_start s) 0, w_active_segment_seq := w_active_segment_seq w + 1\<rparr>"
    using fin s other by (simp add: rollover_finish_def Let_def uuid io_good_def)
  have closed: "closed_inv crc uuid config w' ?runs" and log: "log = runs_log ?runs"
    using live_inv_finished [OF inv assms(2), of w'] by (simp_all add: w')
  have "w_next_lsn w = 1 + of_nat (length (runs_log ?runs))" and "w_active_segment_seq w + 1 = of_nat (length ?runs)"
    using inv log by (auto simp: live_inv_def)
  with create_new_good [OF assms(4,3) s]
  have "live_inv crc uuid config w' (runs_log ?runs) (committer_start s) ?runs now [] []"
    by (intro live_inv_start [OF assms(4) closed]) (simp_all add: w')
  with log show ?thesis by (intro wal_invI) (simp_all add: wal_committer_def w')
qed

lemma shutdown_finish_inv:
  assumes "live_inv crc uuid config w log cm runs now disk buf" and "cm_phase cm = Finished"
  shows "wal_inv crc uuid config (shutdown_finish cm w) log"
proof -
  have "closed_inv crc uuid config (shutdown_finish cm w) (runs @ [(now, disk)])"
    and "log = runs_log (runs @ [(now, disk)])"
    using live_inv_finished [OF assms, of "shutdown_finish cm w"] by (simp_all add: shutdown_finish_def)
  then show ?thesis
    unfolding wal_inv_def
    by (simp add: wal_committer_def shutdown_finish_def) (rule exI [of _ "runs @ [(now, disk)]"], simp)
qed

lemma wal_reach_inv:
  assumes "wal_reach crc io_good uuid config w log" and uuid: "length uuid = 16"
  shows "wal_inv crc uuid config w log"
  using assms(1)
proof (induction rule: wal_reach.induct)
  case (create now io dio d w)
  then show ?case using wal_create_inv uuid by blast
next
  case (append w log r t l w')
  then obtain cm bs where seg: "w_segment w = Open cm bs"
    by (auto simp: wal_append_try_def Let_def split: if_splits segment_state.splits)
  then have "wal_committer w = Some cm" by (simp add: wal_committer_def)
  with append.IH obtain runs now disk buf where "live_inv crc uuid config w log cm runs now disk buf"
    by (rule wal_inv_live)
  from live_inv_append [OF this seg append.hyps(2,3)] show ?case using wal_invI by blast
next
  case (commit w log cm bs cm')
  then obtain runs now disk buf where "live_inv crc uuid config w log cm runs now disk buf"
    by (auto simp: wal_committer_def elim: wal_inv_live)
  from live_inv_step [OF this commit.hyps(3), of "Open cm' bs"] commit.hyps(2) show ?case
    by (auto intro: wal_invI [where cm = cm'] simp: wal_committer_def)
next
  case (commit_rolling w log cm cm')
  then obtain runs now disk buf where "live_inv crc uuid config w log cm runs now disk buf"
    by (auto simp: wal_committer_def elim: wal_inv_live)
  from live_inv_step [OF this commit_rolling.hyps(3), of "Rolling cm'"] show ?case
    by (auto intro: wal_invI [where cm = cm'] simp: wal_committer_def)
next
  case (commit_stopping w log cm cm')
  then obtain runs now disk buf where "live_inv crc uuid config w log cm runs now disk buf"
    by (auto simp: wal_committer_def elim: wal_inv_live)
  from live_inv_step [OF this commit_stopping.hyps(3), of "Stopping cm'"] show ?case
    by (auto intro: wal_invI [where cm = cm'] simp: wal_committer_def)
next
  case (roll w log cm bs r t observed_seq w')
  then obtain runs now disk buf where "live_inv crc uuid config w log cm runs now disk buf"
    by (auto simp: wal_committer_def elim: wal_inv_live)
  from live_inv_shutdown [OF this, of "Rolling (committer_shutdown cm)"] roll.hyps show ?case
    by (auto intro!: wal_invI [where cm = "committer_shutdown cm"]
        simp: wal_committer_def rollover_begin_def wal_append_try_def Let_def split: if_splits sum.splits)
next
  case (rolled w log cm cio io dio now res w')
  then obtain runs now0 disk buf where "live_inv crc uuid config w log cm runs now0 disk buf"
    by (auto simp: wal_committer_def elim: wal_inv_live)
  from rollover_finish_inv [OF this rolled.hyps(3,5) uuid rolled.hyps(7,4,6)] show ?case .
next
  case (stop w log)
  show ?case
  proof (cases "w_segment w")
    case (Open cm bs)
    with stop obtain runs now disk buf where "live_inv crc uuid config w log cm runs now disk buf"
      by (auto simp: wal_committer_def elim: wal_inv_live)
    from live_inv_shutdown [OF this, of "Stopping (committer_shutdown cm)"] Open show ?thesis
      by (auto intro!: wal_invI [where cm = "committer_shutdown cm"] simp: wal_committer_def shutdown_begin_def)
  qed (use stop in \<open>simp_all add: shutdown_begin_def\<close>)
next
  case (stopped w log cm)
  then obtain runs now disk buf where "live_inv crc uuid config w log cm runs now disk buf"
    by (auto simp: wal_committer_def elim: wal_inv_live)
  from shutdown_finish_inv [OF this stopped.hyps(3)] show ?case .
qed

end
