(* ===== verification/Wal_Durability.thy ===== *)
theory Wal_Durability
  imports Wal_Log
begin

text \<open>
  What a crash leaves of the WAL and what the reader makes of it: in runs without I/O faults every
  acknowledged record is read back after a crash at any point, and nothing that was not appended
  is. The end of the theory shows the runs in which this fails.
\<close>

section \<open>The directory after a crash\<close>

text \<open>The segment files, \<open>n\<close> bytes of the buffer the committer is about to flush having reached the
  last one.\<close>

definition wal_files :: "nat \<Rightarrow> wal_state \<Rightarrow> (string \<times> bytes) list" where
  "wal_files n w = w_closed w @
     (case wal_committer w of
        Some cm \<Rightarrow> [(segment_path (w_active_segment_seq w),
                   seg_file (cm_segment cm) @ take n (seg_write_buf (cm_segment cm)))]
      | None \<Rightarrow> [])"

definition crash_dir :: "nat \<Rightarrow> wal_state \<Rightarrow> wal_dir \<Rightarrow> bool" where
  "crash_dir n w d \<longleftrightarrow>
     distinct (map fst (dir_entries d)) \<and> (\<forall>name. is_wal_name name \<longrightarrow> \<not> dir_unreadable d name) \<and>
     mset (filter (is_wal_name \<circ> fst) (dir_entries d)) = mset (wal_files n w)"

text \<open>A record whose torn image contains the complete image of another record.\<close>

definition embeds_record :: "crc_fn \<Rightarrow> wal_record \<Rightarrow> bool" where
  "embeds_record crc r \<longleftrightarrow>
     (\<exists>k start. k < record_encoded_len r \<and> is_record (decode_one crc (drop start (take k (frame crc r)))))"

lemma take_frames:
  assumes "\<forall>r \<in> set buf. fits r"
  shows "\<exists>k t. take n (frames crc buf) = frames crc (take k buf) @ t \<and>
    (t = [] \<or> (\<exists>r m. r \<in> set buf \<and> m < record_encoded_len r \<and> t = take m (frame crc r)))"
  using assms
proof (induction buf arbitrary: n)
  case (Cons r buf)
  then have len: "length (frame crc r) = record_encoded_len r" by (simp add: length_frame)
  show ?case
  proof (cases "n < record_encoded_len r")
    case True
    then show ?thesis by (intro exI [of _ 0] exI [of _ "take n (frame crc r)"]) (auto simp: len)
  next
    case False
    obtain k t where "take (n - record_encoded_len r) (frames crc buf) = frames crc (take k buf) @ t"
      and "t = [] \<or> (\<exists>r' m. r' \<in> set buf \<and> m < record_encoded_len r' \<and> t = take m (frame crc r'))"
      using Cons.IH [of "n - record_encoded_len r"] Cons.prems by auto
    with False show ?thesis
      by - (rule exI [of _ "Suc k"], rule exI [of _ t], auto simp: len)
  qed
qed simp

lemma numbered_fits: "numbered l rs \<Longrightarrow> r \<in> set rs \<Longrightarrow> fits r"
  by (induction rs arbitrary: l) auto

lemma is_record_iff: "is_record out \<longleftrightarrow> (\<exists>r n. out = Inr (DecodedRecord r n))"
  by (auto simp: is_record_def split: sum.splits decode_outcome.splits)

lemma torn_verdict:
  assumes "t = [] \<or> (\<exists>r m. r \<in> set buf \<and> m < record_encoded_len r \<and> t = take m (frame crc r))"
    and "\<forall>r \<in> set buf. fits r"
  shows "\<not> is_record (decode_one crc t)"
    and "(\<forall>r \<in> set buf. \<not> embeds_record crc r) \<Longrightarrow> tail_verdict crc seq l t = None"
proof -
  show "\<not> is_record (decode_one crc t)"
    using assms not_record_empty not_record_torn by blast
  show "tail_verdict crc seq l t = None" if "\<forall>r \<in> set buf. \<not> embeds_record crc r"
  proof -
    have "\<not> is_record (decode_one crc (drop start t))" for start
      using assms(1) that not_record_empty unfolding embeds_record_def by (metis drop_Nil)
    then have "decode_one crc (drop start t) \<noteq> Inr (DecodedRecord r n)" for start r n
      unfolding is_record_iff by blast
    then show ?thesis by (simp add: tail_verdict_def survives_iff)
  qed
qed

text \<open>A live log on disk, with part of the buffer, is an image of the runs and a torn tail.\<close>

lemma live_crash_image:
  assumes inv: "live_inv crc uuid config w log cm runs now disk buf" and cm: "wal_committer w = Some cm"
  obtains k t where "wal_files n w = wal_image crc uuid t 0 1 (runs @ [(now, disk @ take k buf)])"
    and "t = [] \<or> (\<exists>r m. r \<in> set buf \<and> m < record_encoded_len r \<and> t = take m (frame crc r))"
    and "\<forall>r \<in> set buf. fits r" and "numbered 1 log"
    and "prefix (runs_log (runs @ [(now, disk @ take k buf)])) log" and "set buf \<subseteq> set log"
proof -
  have num: "numbered (1 + of_nat (length (runs_log runs))) (disk @ buf @ map fst (cm_queue cm))"
    and closed: "closed_inv crc uuid config w runs" and log: "log = runs_log runs @ disk @ buf @ map fst (cm_queue cm)"
    and content: "seg_file (cm_segment cm) = header_image crc now uuid (of_nat (length runs))
      (1 + of_nat (length (runs_log runs))) @ frames crc disk" "seg_write_buf (cm_segment cm) = frames crc buf"
    using inv by (auto simp: live_inv_def committer_inv_def committer_all_def Let_def)
  have fit: "\<forall>r \<in> set buf. fits r" using numbered_fits [OF num] by auto
  from take_frames [OF this, of n crc] obtain k t where
    t: "take n (frames crc buf) = frames crc (take k buf) @ t"
      "t = [] \<or> (\<exists>r m. r \<in> set buf \<and> m < record_encoded_len r \<and> t = take m (frame crc r))" by auto
  have "log = runs_log (runs @ [(now, disk @ take k buf)]) @ drop k buf @ map fst (cm_queue cm)"
    by (simp add: log)
  then have "prefix (runs_log (runs @ [(now, disk @ take k buf)])) log" unfolding prefix_def by blast
  moreover have "wal_files n w = wal_image crc uuid t 0 1 (runs @ [(now, disk @ take k buf)])"
    using inv closed content t(1) cm
    by (simp add: wal_files_def wal_image_snoc segment_file_def frames_append closed_inv_def live_inv_def)
  moreover have "numbered 1 log" using num closed by (simp add: log numbered_append closed_inv_def)
  ultimately show ?thesis using that fit t(2) log by auto
qed

lemma live_acked:
  assumes "live_inv crc uuid config w log cm runs now disk buf" and "wal_committer w = Some cm"
  shows "wal_acked w \<subseteq> wr_lsn ` set (runs_log (runs @ [(now, disk @ extra)]))"
proof -
  have "acked_lsns (cm_acks cm) \<subseteq> wr_lsn ` set disk" and "acked_lsns (w_acks w) \<subseteq> wr_lsn ` set (runs_log runs)"
    using assms(1) by (auto simp: live_inv_def committer_inv_def closed_inv_def Let_def acked_lsns_def)
  then show ?thesis by (auto simp: wal_acked_def assms(2) image_Un)
qed

text \<open>What the reader makes of the directory.\<close>

lemma length_wal_image: "length (wal_image crc uuid t seq l runs) = length runs"
  by (induction runs arbitrary: seq l) simp_all

lemma crash_read_back:
  assumes "crash_dir n w d" and "wal_files n w = wal_image crc uuid t 0 1 runs"
    and "length uuid = 16" and "length (wal_files n w) \<le> 10 ^ 10" and "runs \<noteq> []"
    and "numbered 1 (runs_log runs)" and "\<not> is_record (decode_one crc t)"
  shows "read_all crc d uuid = Inr (runs_log runs,
    tail_verdict crc (of_nat (length runs) - 1) (1 + of_nat (length (runs_log runs))) t)"
proof -
  have "holds_image crc d uuid t 0 1 runs"
    using assms by (simp add: holds_image_def crash_dir_def length_wal_image)
  from read_all_image [OF this assms(5-)] show ?thesis by simp
qed

lemma crash_recovery:
  assumes inv: "wal_inv crc uuid config w log" and uuid: "length uuid = 16"
    and dir: "crash_dir n w d" and room: "length (wal_files n w) \<le> 10 ^ 10"
  shows "\<exists>rs v. read_all crc d uuid = Inr (rs, v) \<and> prefix rs log \<and> wal_acked w \<subseteq> wr_lsn ` set rs \<and>
    ((\<forall>r \<in> set log. \<not> embeds_record crc r) \<longrightarrow> v = None)"
proof (cases "wal_committer w")
  case None
  with inv obtain runs where runs: "runs \<noteq> []" "closed_inv crc uuid config w runs" "log = runs_log runs"
    by (auto simp: wal_inv_def)
  then have "wal_files n w = wal_image crc uuid [] 0 1 runs" and "numbered 1 (runs_log runs)"
    using None by (simp_all add: wal_files_def closed_inv_def)
  from crash_read_back [OF dir this(1) uuid room runs(1) this(2) not_record_empty]
  have "read_all crc d uuid = Inr (log, None)" by (simp add: runs(3) tail_verdict_empty)
  moreover have "wal_acked w \<subseteq> wr_lsn ` set log"
    using runs(2) None by (simp add: wal_acked_def runs(3) closed_inv_def)
  ultimately show ?thesis by auto
next
  case (Some cm)
  with inv obtain runs now disk buf where live: "live_inv crc uuid config w log cm runs now disk buf"
    by (rule wal_inv_live)
  obtain k t where files: "wal_files n w = wal_image crc uuid t 0 1 (runs @ [(now, disk @ take k buf)])"
    and t: "t = [] \<or> (\<exists>r m. r \<in> set buf \<and> m < record_encoded_len r \<and> t = take m (frame crc r))"
    and buf: "\<forall>r \<in> set buf. fits r" and num: "numbered 1 log"
    and pre: "prefix (runs_log (runs @ [(now, disk @ take k buf)])) log" and sub: "set buf \<subseteq> set log"
    by (rule live_crash_image [OF live Some])
  have "numbered 1 (runs_log (runs @ [(now, disk @ take k buf)]))"
    using pre num by (auto simp: prefix_def numbered_append)
  note read = crash_read_back [OF dir files uuid room _ this torn_verdict(1) [OF t buf]]
  have "(\<forall>r \<in> set log. \<not> embeds_record crc r) \<longrightarrow> tail_verdict crc seq l t = None" for seq l
    using torn_verdict(2) [OF t buf] sub by blast
  with read pre live_acked [OF live Some, of "take k buf"] show ?thesis by blast
qed

section \<open>Sample runs\<close>

text \<open>A WAL whose segments hold one sample record each, and one round of its committer: append,
  receive, end of the window, flush.\<close>

definition sample_uuid :: bytes where
  "sample_uuid = replicate 16 9"

definition sample_config :: wal_config where
  "sample_config = \<lparr>wc_group_commit = default_group_commit_config,
     wc_max_segment_bytes = WAL_SEGMENT_HEADER_LEN + record_encoded_len sample_record\<rparr>"

definition io_fine :: io_answer where
  "io_fine = \<lparr>io_write = Written, io_sync_ok = True\<rparr>"

definition io_fails :: io_answer where
  "io_fails = \<lparr>io_write = WriteFailed 0, io_sync_ok = True\<rparr>"

definition fresh_segment :: "u64 \<Rightarrow> u64 \<Rightarrow> wal_segment" where
  "fresh_segment seq l = \<lparr>seg_file = header_image sum_crc 100 sample_uuid seq l, seg_seq = seq,
     seg_starting_lsn = l, seg_shard_uuid = sample_uuid, seg_write_buf = [], seg_bytes_on_disk = 0\<rparr>"

definition sample_wal :: "u64 \<Rightarrow> u64 \<Rightarrow> committer \<Rightarrow> nat \<Rightarrow> (string \<times> bytes) list \<Rightarrow> (ticket \<times> ack_message) list \<Rightarrow> wal_state" where
  "sample_wal seq l cm bs closed acks =
     \<lparr>w_shard_uuid = sample_uuid, w_next_lsn = l, w_active_segment_seq = seq, w_segment = Open cm bs,
      w_config = sample_config, w_closed = closed, w_acks = acks\<rparr>"

abbreviation sample_len :: nat where
  "sample_len \<equiv> record_encoded_len sample_record"

text \<open>The committer after one round with one record.\<close>

definition round_committer :: "io_answer \<Rightarrow> u64 \<Rightarrow> u64 \<Rightarrow> committer" where
  "round_committer io seq l =
     end_round (flush_and_signal io ((committer_start (fresh_segment seq l))
       \<lparr>cm_segment := (fresh_segment seq l)\<lparr>seg_write_buf := frame sum_crc (sample_entry l)\<rparr>,
        cm_pending := [\<lparr>pa_ticket = 7, pa_lsn = l\<rparr>]\<rparr>))"

lemma fits_sample: "fits (sample_entry l)" "fits sample_record"
  by (simp_all add: sample_entry_def sample_record_def fits_def)

lemma sample_round:
  assumes reach: "wal_reach sum_crc allowed sample_uuid sample_config
      (sample_wal seq l (committer_start (fresh_segment seq l)) 0 closed acks) log" and "allowed io"
  shows "wal_reach sum_crc allowed sample_uuid sample_config
      (sample_wal seq (l + 1) (round_committer io seq l) sample_len closed acks) (log @ [sample_entry l])"
proof -
  let ?w = "\<lambda>cm. sample_wal seq (l + 1) cm sample_len closed acks" and ?s = "fresh_segment seq l"
  let ?c0 = "(committer_start ?s)\<lparr>cm_queue := [(sample_entry l, 7)]\<rparr>"
  let ?c1 = "(committer_start ?s)\<lparr>cm_segment := ?s\<lparr>seg_write_buf := frame sum_crc (sample_entry l)\<rparr>,
    cm_pending := [\<lparr>pa_ticket = 7, pa_lsn = l\<rparr>]\<rparr>"
  let ?log = "log @ [sample_entry l]"
  have "wal_append_try sample_record 7 (sample_wal seq l (committer_start ?s) 0 closed acks)
      = (Enqueued l, ?w ?c0)"
    by (simp add: wal_append_try_def sample_wal_def sample_config_def committer_append_def
        committer_start_def Let_def sample_entry_def)
  from wal_reach.append [OF reach fits_sample(2) this] have r0: "wal_reach sum_crc allowed sample_uuid sample_config (?w ?c0) ?log"
    by (simp add: sample_entry_def)
  have step: "wal_reach sum_crc allowed sample_uuid sample_config (?w cm') ?log"
    if "wal_reach sum_crc allowed sample_uuid sample_config (?w cm) ?log"
      and "committer_step sum_crc default_group_commit_config allowed cm cm'" for cm cm'
    using wal_reach.commit [OF that(1), of cm sample_len cm'] that(2)
    by (simp add: sample_wal_def sample_config_def)
  have "receive_first sum_crc (sample_entry l, 7) [] ?c0 = Some (?c1\<lparr>cm_phase := Gathering\<rparr>)"
    by (simp add: receive_first_def handle_submission_def append_record_fits fits_sample
        committer_start_def fresh_segment_def) (simp add: sample_entry_def)
  then have "committer_step sum_crc default_group_commit_config allowed ?c0 (?c1\<lparr>cm_phase := Gathering\<rparr>)"
    by (intro committer_step.first) (simp_all add: committer_start_def)
  from step [OF r0 this] have r1: "wal_reach sum_crc allowed sample_uuid sample_config (?w (?c1\<lparr>cm_phase := Gathering\<rparr>)) ?log" .
  have "committer_step sum_crc default_group_commit_config allowed (?c1\<lparr>cm_phase := Gathering\<rparr>) (?c1\<lparr>cm_phase := Flushing\<rparr>)"
    using committer_step.window [of "?c1\<lparr>cm_phase := Gathering\<rparr>"] by simp
  from step [OF r1 this] have r2: "wal_reach sum_crc allowed sample_uuid sample_config (?w (?c1\<lparr>cm_phase := Flushing\<rparr>)) ?log" .
  have "end_round (flush_and_signal io (?c1\<lparr>cm_phase := Flushing\<rparr>)) = round_committer io seq l"
    by (simp add: round_committer_def end_round_def flush_and_signal_def ack_all_def committer_start_def
        split: prod.split sum.split)
  then have "committer_step sum_crc default_group_commit_config allowed (?c1\<lparr>cm_phase := Flushing\<rparr>) (round_committer io seq l)"
    using committer_step.flush [of "?c1\<lparr>cm_phase := Flushing\<rparr>" allowed io] assms(2) by simp
  from step [OF r2 this] show ?thesis .
qed

lemma sample_create:
  assumes "allowed io_fine"
  shows "wal_reach sum_crc allowed sample_uuid sample_config
    (sample_wal 0 1 (committer_start (fresh_segment 0 1)) 0 [] []) []"
proof (rule wal_reach.create [where io = io_fine and dio = io_fine])
  show "wal_create sum_crc 100 io_fine io_fine \<lparr>dir_entries = [], dir_unreadable = (\<lambda>_. False)\<rparr> sample_uuid sample_config
      = Inr (sample_wal 0 1 (committer_start (fresh_segment 0 1)) 0 [] [])"
    by (simp add: wal_create_def create_new_def io_fine_def sample_wal_def fresh_segment_def
        header_image_def Let_def)
qed (rule assms)+

lemma sample_rolling:
  assumes reach: "wal_reach sum_crc allowed sample_uuid sample_config (sample_wal seq l cm sample_len closed acks) log"
  shows "wal_reach sum_crc allowed sample_uuid sample_config
    ((sample_wal seq l cm sample_len closed acks)\<lparr>w_segment := Rolling (committer_shutdown cm)\<rparr>) log"
proof -
  let ?w = "sample_wal seq l cm sample_len closed acks"
  have "sample_len > 0" by (simp add: record_encoded_len_def record_lens)
  then have "wal_append_try sample_record 7 ?w = (Rollover seq, ?w)"
    by (simp add: wal_append_try_def sample_wal_def sample_config_def Let_def)
  from wal_reach.roll [OF reach _ this, of cm sample_len] show ?thesis
    by (simp add: sample_wal_def rollover_begin_def)
qed

lemma sample_rollover:
  assumes reach: "wal_reach sum_crc allowed sample_uuid sample_config (sample_wal seq l cm sample_len closed acks) log"
    and idle: "cm_phase cm = AwaitFirst" "cm_queue cm = []" "cm_pending cm = []"
    and "allowed io_fine"
  shows "wal_reach sum_crc allowed sample_uuid sample_config
    (sample_wal (seq + 1) l (committer_start (fresh_segment (seq + 1) l)) 0
      (closed @ [(segment_path seq, seg_file (cm_segment cm))]) (acks @ cm_acks cm)) log"
proof -
  let ?w = "sample_wal seq l cm sample_len closed acks" and ?c = "committer_shutdown cm"
  let ?f = "?c\<lparr>cm_shutdown_requested := True, cm_phase := Flushing\<rparr>"
  let ?reach = "\<lambda>w. wal_reach sum_crc allowed sample_uuid sample_config w log"
  have r0: "?reach (?w\<lparr>w_segment := Rolling ?c\<rparr>)" using reach by (rule sample_rolling)
  have "receive_shutdown sum_crc ?c = Some ?f"
    using idle by (simp add: receive_shutdown_def committer_shutdown_def)
  then have "committer_step sum_crc default_group_commit_config allowed ?c ?f"
    using idle by (intro committer_step.shutdown) (simp_all add: committer_shutdown_def)
  from wal_reach.commit_rolling [OF r0 _, of ?c ?f] this
  have r1: "?reach (?w\<lparr>w_segment := Rolling ?f\<rparr>)" by (simp add: sample_config_def)
  have "end_round (flush_and_signal io_fine ?f) = ?f\<lparr>cm_phase := Finished\<rparr>"
    using idle by (simp add: flush_and_signal_def end_round_def committer_shutdown_def)
  then have "committer_step sum_crc default_group_commit_config allowed ?f (?f\<lparr>cm_phase := Finished\<rparr>)"
    using committer_step.flush [of ?f allowed io_fine] assms(5) by simp
  from wal_reach.commit_rolling [OF r1 _, of ?f "?f\<lparr>cm_phase := Finished\<rparr>"] this
  have r2: "?reach (?w\<lparr>w_segment := Rolling (?f\<lparr>cm_phase := Finished\<rparr>)\<rparr>)" by (simp add: sample_config_def)
  have fin: "rollover_finish sum_crc 100 io_fine io_fine io_fine (?f\<lparr>cm_phase := Finished\<rparr>)
      (?w\<lparr>w_segment := Rolling (?f\<lparr>cm_phase := Finished\<rparr>)\<rparr>) = (Inr (),
      sample_wal (seq + 1) l (committer_start (fresh_segment (seq + 1) l)) 0
        (closed @ [(segment_path seq, seg_file (cm_segment cm))]) (acks @ cm_acks cm))"
    by (simp add: rollover_finish_def create_new_def io_fine_def sample_wal_def fresh_segment_def
        header_image_def Let_def committer_shutdown_def)
  from wal_reach.rolled [OF r2 _ _ assms(5) assms(5) assms(5) fin] show ?thesis by simp
qed

lemma round_fine:
  "round_committer io_fine seq l = (committer_start
     ((fresh_segment seq l)\<lparr>seg_file := header_image sum_crc 100 sample_uuid seq l @ frame sum_crc (sample_entry l),
       seg_bytes_on_disk := sample_len\<rparr>))\<lparr>cm_acks := [(7, Inr l)]\<rparr>"
proof -
  have "length (header_image sum_crc 100 sample_uuid seq l) = 4096" and "length (frame sum_crc (sample_entry l)) = sample_len"
    by (simp_all add: length_header_image sample_uuid_def length_frame fits_sample)
      (simp add: sample_entry_def record_encoded_len_def)
  moreover from this(2) have "frame sum_crc (sample_entry l) \<noteq> []"
    by (auto simp: record_encoded_len_def record_lens)
  ultimately show ?thesis
    by (simp add: round_committer_def end_round_def flush_and_signal_def flush_durable_def io_fine_def
        ack_all_def committer_start_def fresh_segment_def Let_def write_at_end WAL_SEGMENT_HEADER_LEN_def)
qed

lemma round_fails:
  "round_committer io_fails seq l = (committer_start (fresh_segment seq l))
     \<lparr>cm_broken := Some (FlushFailed SegmentIo), cm_acks := [(7, Inl (WalBroken (FlushFailed SegmentIo)))]\<rparr>"
proof -
  have "length (header_image sum_crc 100 sample_uuid seq l) = 4096" and "length (frame sum_crc (sample_entry l)) > 0"
    by (simp_all add: length_header_image sample_uuid_def length_frame fits_sample)
      (simp add: record_encoded_len_def record_lens)
  then show ?thesis
    by (simp add: round_committer_def end_round_def flush_and_signal_def flush_durable_def io_fails_def
        ack_all_def committer_start_def fresh_segment_def Let_def write_at_def WAL_SEGMENT_HEADER_LEN_def)
qed

lemma sample_committed:
  "wal_reach sum_crc io_good sample_uuid sample_config
     (sample_wal 0 2 (round_committer io_fine 0 1) sample_len [] []) [sample_entry 1]"
proof -
  have good: "io_good io_fine" by (simp add: io_good_def io_fine_def)
  note created = sample_create [of io_good, OF good]
  from sample_round [OF created, of io_fine] good show ?thesis by simp
qed

lemma gap_read:
  assumes uuid: "length uuid = 16"
  shows "read_all crc \<lparr>dir_entries = [(segment_path 0, header_image crc now uuid 0 1),
      (segment_path 1, header_image crc now' uuid 1 2 @ body)], dir_unreadable = (\<lambda>_. False)\<rparr> uuid
    = Inr ([], Some (LsnGapAtSegmentBoundary 1 1 2))"
proof -
  let ?d = "\<lparr>dir_entries = [(segment_path 0, header_image crc now uuid 0 1),
      (segment_path 1, header_image crc now' uuid 1 2 @ body)], dir_unreadable = (\<lambda>_. False)\<rparr>"
  let ?i0 = "\<lparr>si_path = segment_path 0, si_segment_seq = 0, si_starting_lsn = 1, si_file_size = 4096\<rparr>"
  let ?i1 = "\<lparr>si_path = segment_path 1, si_segment_seq = 1, si_starting_lsn = 2, si_file_size = 4096 + length body\<rparr>"
  have ne: "segment_path 0 \<noteq> segment_path 1" using segment_path_inject [of 0 1] by simp
  then have rd: "dir_read ?d (segment_path 0) = Some (header_image crc now uuid 0 1)"
    "dir_read ?d (segment_path 1) = Some (header_image crc now' uuid 1 2 @ body)"
    by (simp_all add: dir_read_def)
  have "read_and_validate_segment_header crc ?d (segment_path 0) uuid 0 = Inr ?i0"
    using validate_header_image [OF uuid, of ?d "segment_path 0" crc now 0 1 "[]"] rd by simp
  moreover have "read_and_validate_segment_header crc ?d (segment_path 1) uuid 1 = Inr ?i1"
    using validate_header_image [OF uuid rd(2)] by simp
  ultimately have "reader_open crc ?d uuid = Inr (reader_start [?i0, ?i1] 1)"
    by (simp add: reader_open_def parse_segment_path extension_segment_path Let_def)
  moreover have "fst (next_loop crc ?d (reader_start [?i0, ?i1] 1)) = Some (Inl (LsnGapAtSegmentBoundary 1 1 2))"
    by (subst next_loop.simps, simp add: reader_start_def rd, subst next_loop.simps,
        simp add: length_header_image [OF uuid] WAL_SEGMENT_HEADER_LEN_def, subst next_loop.simps, simp)
  then obtain rd' where "reader_next crc ?d (reader_start [?i0, ?i1] 1) = (Some (Inl (LsnGapAtSegmentBoundary 1 1 2)), rd')"
    by (cases "next_loop crc ?d (reader_start [?i0, ?i1] 1)") (simp add: reader_next_def reader_start_def)
  ultimately show ?thesis by (simp add: read_all_def reader_drain.simps)
qed

lemma image_lengths:
  assumes "length uuid = 16" and "list_all (\<lambda>run. WAL_SEGMENT_HEADER_LEN + length (frames crc (snd run)) \<le> m) runs"
  shows "list_all (\<lambda>(_, content). length content \<le> m) (wal_image crc uuid [] seq l runs)"
  using assms(2)
  by (induction runs arbitrary: seq l)
    (simp_all add: segment_file_def length_header_image [OF assms(1)] WAL_SEGMENT_HEADER_LEN_def)

text \<open>Opening fails as soon as one segment file is rejected; if it is the only one, with its error.\<close>

lemma collect_segments_reject:
  assumes "p \<in> set paths" and "is_wal_name p"
    and "parse_segment_seq_from_filename p = Inr sq" and "read_and_validate_segment_header crc d p uuid sq = Inl e"
    and "\<And>q. q \<in> set paths \<Longrightarrow> is_wal_name q \<Longrightarrow> q \<noteq> p \<Longrightarrow>
      \<exists>s info. parse_segment_seq_from_filename q = Inr s \<and>
        read_and_validate_segment_header crc d q uuid s = Inr info"
  shows "collect_segments crc d uuid paths = Inl e"
  using assms(1,5)
proof (induction paths)
  case (Cons q paths)
  show ?case
  proof (cases "q = p")
    case True
    then show ?thesis using assms(2-4) by (simp add: is_wal_name_def)
  next
    case False
    then have "collect_segments crc d uuid paths = Inl e" using Cons by simp
    with Cons.prems(2) [of q] False show ?thesis by (auto simp: is_wal_name_def [of q])
  qed
qed simp

lemma unat_small: "m < 10 ^ 10 \<Longrightarrow> unat (of_nat m :: u64) = m"
proof -
  assume "m < 10 ^ 10"
  then have "m < 2 ^ 64" by (rule less_trans) simp
  then show ?thesis by (rule unat_of_nat_u64)
qed

lemma unat_of_nat_Suc: "Suc n < 10 ^ 10 \<Longrightarrow> unat (of_nat n + 1 :: u64) = Suc n"
  using unat_small [of "Suc n"] unfolding of_nat_Suc add.commute [of 1] .

lemma image_entries_validated:
  assumes "length uuid = 16" and "length runs \<le> 10 ^ 10"
    and "\<And>name content. (name, content) \<in> set (wal_image crc uuid t 0 1 runs) \<Longrightarrow> dir_read d name = Some content"
    and "(name, content) \<in> set (wal_image crc uuid t 0 1 runs)"
  shows "\<exists>s info. parse_segment_seq_from_filename name = Inr s \<and>
    read_and_validate_segment_header crc d name uuid s = Inr info"
proof -
  have "unat (0 :: u64) + length runs \<le> 10 ^ 10" using assms(2) by simp
  from image_infos_validated [OF assms(1) this assms(3)]
  have all: "list_all2 (\<lambda>e si. \<exists>s. parse_segment_seq_from_filename (fst e) = Inr s \<and>
      read_and_validate_segment_header crc d (fst e) uuid s = Inr (fst si))
    (wal_image crc uuid t 0 1 runs) (image_infos crc uuid t 0 1 runs)" .
  obtain i where "i < length (wal_image crc uuid t 0 1 runs)" and "wal_image crc uuid t 0 1 runs ! i = (name, content)"
    using assms(4) unfolding in_set_conv_nth by blast
  with list_all2_nthD [OF all this(1)] show ?thesis by auto
qed

lemma unfinished_segment_rejected:
  assumes uuid: "length uuid = 16" and len: "length runs \<le> 10 ^ 10"
    and distinct: "distinct (map fst (dir_entries d))" and readable: "\<forall>name. is_wal_name name \<longrightarrow> \<not> dir_unreadable d name"
    and ms: "mset (filter (is_wal_name \<circ> fst) (dir_entries d)) = mset (wal_image crc uuid t 0 1 runs @ [(segment_path sq, f)])"
    and small: "unat sq < 10 ^ 10" and short: "length f < WAL_SEGMENT_HEADER_LEN"
  shows "read_all crc d uuid = Inl (SegmentTooSmall (segment_path sq) (length f))"
proof -
  let ?p = "segment_path sq" and ?im = "wal_image crc uuid t 0 1 runs"
  have entries: "set (filter (is_wal_name \<circ> fst) (dir_entries d)) = set (?im @ [(?p, f)])"
    using ms by (rule mset_eq_setD)
  have read: "dir_read d name = Some content" if "(name, content) \<in> set (?im @ [(?p, f)])" for name content
  proof -
    have "(name, content) \<in> set (filter (is_wal_name \<circ> fst) (dir_entries d))" using that entries by simp
    then show ?thesis using distinct readable by (intro dir_read_entry) auto
  qed
  have "collect_segments crc d uuid (map fst (dir_entries d)) = Inl (SegmentTooSmall ?p (length f))"
  proof (rule collect_segments_reject)
    have "(?p, f) \<in> set (filter (is_wal_name \<circ> fst) (dir_entries d))" using entries by simp
    then show "?p \<in> set (map fst (dir_entries d))" by (auto intro: image_eqI [where x = "(?p, f)"])
    show "is_wal_name ?p" using small by (simp add: is_wal_name_def extension_segment_path)
    show "parse_segment_seq_from_filename ?p = Inr sq" using small by (rule parse_segment_path)
    have "dir_read d ?p = Some f" using read by simp
    then show "read_and_validate_segment_header crc d ?p uuid sq = Inl (SegmentTooSmall ?p (length f))"
      using short by (simp add: read_and_validate_segment_header_def)
  next
    fix q assume q: "q \<in> set (map fst (dir_entries d))" "is_wal_name q" "q \<noteq> ?p"
    then obtain c where "(q, c) \<in> set (dir_entries d)" by auto
    with q(2) have "(q, c) \<in> set (filter (is_wal_name \<circ> fst) (dir_entries d))" by simp
    with entries q(3) have "(q, c) \<in> set ?im" by simp
    from image_entries_validated [OF uuid len _ this, of d] read
    show "\<exists>s info. parse_segment_seq_from_filename q = Inr s \<and>
        read_and_validate_segment_header crc d q uuid s = Inr info" by simp
  qed
  then show ?thesis by (simp add: read_all_def reader_open_def)
qed

section \<open>Properties\<close>



text \<open>C20. LSN assignment. Whatever faults occur and however tasks interleave, the records enqueued so
  far carry the LSNs 1, 2, 3 and so on without gap or repetition, and \<open>next_lsn\<close> is the one after
  them.\<close>

theorem wal_lsns_consecutive:
  "wal_reach crc allowed uuid config w log \<Longrightarrow>
   numbered 1 log \<and> w_next_lsn w = 1 + of_nat (length log)"
proof (induction rule: wal_reach.induct)
  case (create now io dio d w)
  then show ?case by (auto simp: wal_create_def split: if_splits sum.splits)
next
  case (append w log r t l w')
  then show ?case
    by (auto simp: wal_append_try_def Let_def numbered_append fits_def
        split: if_splits segment_state.splits sum.splits)
next
  case (roll w log cm bs r t observed_seq w')
  then show ?case by (auto simp: rollover_begin_def split: if_splits)
next
  case (rolled w log cm cio io dio now res w')
  then show ?case by (auto simp: rollover_finish_def Let_def split: sum.splits if_splits)
next
  case (stop w log)
  then show ?case by (auto simp: shutdown_begin_def split: segment_state.split)
qed (simp_all add: shutdown_finish_def)

theorem wal_lsns_consecutive_witness: "numbered 1 [sample_entry 1] \<and> (2 :: u64) = 1 + of_nat (length [sample_entry 1])"
  using wal_lsns_consecutive [OF sample_round [OF sample_create, of "\<lambda>_. True" io_fails]]
  by (simp add: sample_wal_def)

text \<open>Size bound. Without faults no segment file ever exceeds the configured maximum (or one
  header, if the maximum is smaller than that), whatever part of the buffer has been written.\<close>

theorem wal_segments_bounded:
  assumes "wal_reach crc io_good uuid config w log" and "length uuid = 16"
  shows "list_all (\<lambda>(_, content). length content \<le> max WAL_SEGMENT_HEADER_LEN (wc_max_segment_bytes config))
    (wal_files n w)"
proof -
  let ?max = "max WAL_SEGMENT_HEADER_LEN (wc_max_segment_bytes config)"
  have closed: "list_all (\<lambda>(_, content). length content \<le> ?max) (w_closed w)" if "closed_inv crc uuid config w runs" for runs
    using that image_lengths [OF assms(2), of crc ?max runs 0 1] by (simp add: closed_inv_def)
  from wal_reach_inv [OF assms] show ?thesis
  proof (cases "wal_committer w")
    case (Some cm)
    with wal_reach_inv [OF assms] obtain runs now disk buf where live: "live_inv crc uuid config w log cm runs now disk buf"
      by (rule wal_inv_live)
    then have "length (seg_file (cm_segment cm) @ take n (seg_write_buf (cm_segment cm))) \<le> ?max"
      by (auto simp: live_inv_def committer_inv_def committer_all_def Let_def frames_append)
    moreover have "closed_inv crc uuid config w runs" using live by (simp add: live_inv_def)
    ultimately show ?thesis using closed Some by (auto simp: wal_files_def)
  qed (auto simp: wal_inv_def wal_files_def intro: closed)
qed

theorem wal_segments_bounded_witness:
  "list_all (\<lambda>(_, content). length content \<le> 4096 + sample_len)
    (wal_files 0 (sample_wal 0 2 (round_committer io_fine 0 1) sample_len [] []))"
  using wal_segments_bounded [OF sample_committed, of 0]
  by (simp add: sample_uuid_def sample_config_def WAL_SEGMENT_HEADER_LEN_def)

text \<open>A failed flush is forgotten by a rollover: the committer hands its segment over on shutdown
  even when it is broken, and the fresh segment starts at the next LSN although the failed records
  are missing. Here record 1 fails, record 2 is acknowledged in the next segment, and the reader
  then refuses the directory at the segment boundary, so the acknowledged record is not read back.\<close>

theorem rollover_after_failed_flush:
  "\<exists>w d. wal_reach sum_crc (\<lambda>_. True) sample_uuid sample_config w [sample_entry 1, sample_entry 2] \<and>
    2 \<in> wal_acked w \<and> crash_dir 0 w d \<and>
    read_all sum_crc d sample_uuid = Inr ([], Some (LsnGapAtSegmentBoundary 1 1 2))"
proof -
  let ?closed = "[(segment_path 0, header_image sum_crc 100 sample_uuid 0 1)]"
  let ?acks = "[(7, Inl (WalBroken (FlushFailed SegmentIo)))]"
  let ?w = "sample_wal 1 3 (round_committer io_fine 1 2) sample_len ?closed ?acks"
  let ?d = "\<lparr>dir_entries = wal_files 0 ?w, dir_unreadable = (\<lambda>_. False)\<rparr>"
  have "wal_reach sum_crc (\<lambda>_. True) sample_uuid sample_config
      (sample_wal 0 2 (round_committer io_fails 0 1) sample_len [] []) [sample_entry 1]"
    using sample_round [OF sample_create, of "\<lambda>_. True" io_fails] by simp
  from sample_rollover [OF this] have "wal_reach sum_crc (\<lambda>_. True) sample_uuid sample_config
      (sample_wal 1 2 (committer_start (fresh_segment 1 2)) 0 ?closed ?acks) [sample_entry 1]"
    by (simp add: round_fails) (simp add: committer_start_def fresh_segment_def)
  from sample_round [OF this, of io_fine] have reach: "wal_reach sum_crc (\<lambda>_. True) sample_uuid sample_config ?w
      [sample_entry 1, sample_entry 2]" by simp
  have files: "wal_files 0 ?w = [(segment_path 0, header_image sum_crc 100 sample_uuid 0 1),
      (segment_path 1, header_image sum_crc 100 sample_uuid 1 2 @ frame sum_crc (sample_entry 2))]"
    by (simp add: wal_files_def sample_wal_def wal_committer_def round_fine) (simp add: committer_start_def fresh_segment_def)
  have "is_wal_name (segment_path 0)" "is_wal_name (segment_path 1)" "segment_path 0 \<noteq> segment_path 1"
    using segment_path_inject [of 0 1] by (simp_all add: is_wal_name_def extension_segment_path)
  then have "crash_dir 0 ?w ?d" by (auto simp: crash_dir_def files)
  moreover have "2 \<in> wal_acked ?w"
    by (simp add: wal_acked_def wal_committer_def sample_wal_def round_fine acked_lsns_def)
  moreover have "read_all sum_crc ?d sample_uuid = Inr ([], Some (LsnGapAtSegmentBoundary 1 1 2))"
    unfolding files by (rule gap_read) (simp add: sample_uuid_def)
  ultimately show ?thesis using reach by blast
qed

text \<open>The directory while a rollover creates the next segment: the old files and the new one, of
  which only the first \<open>k\<close> bytes of the header have reached the disk.\<close>

definition creating_dir :: "crc_fn \<Rightarrow> u64 \<Rightarrow> nat \<Rightarrow> wal_state \<Rightarrow> wal_dir \<Rightarrow> bool" where
  "creating_dir crc now k w d \<longleftrightarrow>
     distinct (map fst (dir_entries d)) \<and> (\<forall>name. is_wal_name name \<longrightarrow> \<not> dir_unreadable d name) \<and>
     mset (filter (is_wal_name \<circ> fst) (dir_entries d)) = mset (wal_files 0 w @
       [(segment_path (w_active_segment_seq w + 1),
         take k (header_image crc now (w_shard_uuid w) (w_active_segment_seq w + 1) (w_next_lsn w)))])"

text \<open>A crash while a rollover creates the next segment, after the file exists but before its
  whole header is on disk, leaves a directory the reader refuses: the unfinished file is reported as
  \<open>SegmentTooSmall\<close>, and none of the records of the earlier segments is read.\<close>

theorem create_crash_unreadable:
  assumes "wal_reach crc io_good uuid config w log" and uuid: "length uuid = 16"
    and seg: "w_segment w = Rolling cm" and dir: "creating_dir crc now k w d" and "k < WAL_SEGMENT_HEADER_LEN"
    and room: "Suc (length (wal_files 0 w)) \<le> 10 ^ 10"
  shows "read_all crc d uuid = Inl (SegmentTooSmall (segment_path (w_active_segment_seq w + 1)) k)"
proof -
  have cm: "wal_committer w = Some cm" using seg by (simp add: wal_committer_def)
  with wal_reach_inv [OF assms(1,2)] obtain runs now0 disk buf where
    live: "live_inv crc uuid config w log cm runs now0 disk buf" by (rule wal_inv_live)
  obtain j t where files: "wal_files 0 w = wal_image crc uuid t 0 1 (runs @ [(now0, disk @ take j buf)])"
    by (rule live_crash_image [OF live cm])
  have seq: "w_active_segment_seq w = of_nat (length runs)" "w_shard_uuid w = uuid"
    using live by (simp_all add: live_inv_def closed_inv_def)
  have len: "length (runs @ [(now0, disk @ take j buf)]) \<le> 10 ^ 10"
    and small: "unat (w_active_segment_seq w + 1) < 10 ^ 10"
    using room by (simp_all add: files length_wal_image seq unat_of_nat_Suc)
  let ?hdr = "header_image crc now (w_shard_uuid w) (w_active_segment_seq w + 1) (w_next_lsn w)"
  have hdr: "length (take k ?hdr) = k"
    using seq uuid assms(5) by (simp add: length_header_image WAL_SEGMENT_HEADER_LEN_def)
  with assms(5) have "length (take k ?hdr) < WAL_SEGMENT_HEADER_LEN" by simp
  from unfinished_segment_rejected [OF uuid len _ _ _ small this] dir
  show ?thesis unfolding creating_dir_def files hdr by blast
qed

theorem create_crash_unreadable_witness:
  "\<exists>w d. wal_reach sum_crc io_good sample_uuid sample_config w [sample_entry 1] \<and>
    creating_dir sum_crc 100 0 w d \<and> read_all sum_crc d sample_uuid = Inl (SegmentTooSmall (segment_path 1) 0)"
proof -
  let ?cm = "committer_shutdown (round_committer io_fine 0 1)"
  let ?w = "(sample_wal 0 2 (round_committer io_fine 0 1) sample_len [] [])\<lparr>w_segment := Rolling ?cm\<rparr>"
  let ?d = "\<lparr>dir_entries = wal_files 0 ?w @ [(segment_path 1, [])], dir_unreadable = (\<lambda>_. False)\<rparr>"
  have reach: "wal_reach sum_crc io_good sample_uuid sample_config ?w [sample_entry 1]"
    by (rule sample_rolling) (rule sample_committed)
  have "is_wal_name (segment_path 0)" "is_wal_name (segment_path 1)" "segment_path 0 \<noteq> segment_path 1"
    using segment_path_inject [of 0 1] by (simp_all add: is_wal_name_def extension_segment_path)
  then have dir: "creating_dir sum_crc 100 0 ?w ?d"
    by (auto simp: creating_dir_def wal_files_def wal_committer_def sample_wal_def)
  have "read_all sum_crc ?d sample_uuid = Inl (SegmentTooSmall (segment_path (w_active_segment_seq ?w + 1)) 0)"
    by (rule create_crash_unreadable [OF reach _ _ dir])
      (simp_all add: sample_uuid_def wal_files_def wal_committer_def sample_wal_def WAL_SEGMENT_HEADER_LEN_def)
  with reach dir show ?thesis by (auto simp: sample_wal_def)
qed

end
