(* ===== verification/Recovery_Props.thy ===== *)
theory Recovery_Props
  imports Recovery_Spec Wal_Durability
begin

text \<open>
  Recovery on logs that the WAL has written. The lemmas connect the driver with the image of a WAL
  directory on one side and with the slot-wise view of the arena on the other. The properties cover a
  crash followed by recovery, a recovery that is itself interrupted and started over, and forgotten
  memories.
\<close>

section \<open>Applying a run of records\<close>

definition accepting :: "'s metadata_sink \<Rightarrow> bool" where
  "accepting S \<longleftrightarrow> (\<forall>l ts p s. fst (ms_apply S l ts p s) = Inr ())"

lemma accepting_in_memory: "accepting in_memory_metadata_sink"
  by (simp add: accepting_def in_memory_metadata_sink_def in_memory_apply_def Let_def)

lemma apply_all_ok:
  assumes "arena_ok crc a" and "\<forall>l. growable (env l)" and "\<forall>x \<in> set xs. applicable (snd x)" and "accepting S"
  shows "\<exists>a'. apply_all crc env S xs (a, s) = Some (Inr (), a', fold (sink_step S) xs s) \<and> arena_ok crc a' \<and>
    slot_at a' = fold (store_step crc) xs (slot_at a)"
  using assms(1,3)
proof (induction xs arbitrary: a s)
  case (Cons x xs)
  obtain r p where x: "x = (r, p)" by (cases x)
  have grow: "growable (env (wr_lsn r))" using assms(2) by blast
  obtain a1 where a1: "apply_to_arena crc env r p a = Some (Inr (), a1)" "arena_ok crc a1"
    "slot_at a1 = store_step crc x (slot_at a)"
    using apply_to_arena_refines [where env = env, OF Cons.prems(1) grow, of p] Cons.prems(2) x by auto
  have "ms_apply S (wr_lsn r) (wr_timestamp_ns r) p s = (Inr (), sink_step S x s)"
    using assms(4) x by (simp add: sink_step_def accepting_def prod_eq_iff)
  then have one: "apply_record crc env S r p (a, s) = Some (Inr (), a1, sink_step S x s)"
    using a1(1) by (simp add: apply_record_def)
  obtain a' where "apply_all crc env S xs (a1, sink_step S x s)
      = Some (Inr (), a', fold (sink_step S) xs (sink_step S x s))" "arena_ok crc a'"
    "slot_at a' = fold (store_step crc) xs (slot_at a1)"
    using Cons.IH [OF a1(2), of "sink_step S x s"] Cons.prems(2) by auto
  then show ?case using one a1(3) x by simp
qed simp

text \<open>A slot depends only on its own history.\<close>

lemma store_step_local: "st i = st' i \<Longrightarrow> store_step crc x st i = store_step crc x st' i"
  by (simp add: store_step_def split: option.split)

lemma fold_store_local: "st i = st' i \<Longrightarrow> fold (store_step crc) xs st i = fold (store_step crc) xs st' i"
proof (induction xs arbitrary: st st')
  case (Cons x xs)
  from Cons.IH [of "store_step crc x st" "store_step crc x st'"] store_step_local [of st i st'] Cons.prems
  show ?case by simp
qed simp

lemma fold_store_untouched:
  "\<forall>x \<in> set xs. slot_target (snd x) \<noteq> Some i \<Longrightarrow> fold (store_step crc) xs st i = st i"
proof (induction xs arbitrary: st)
  case (Cons x xs)
  have "store_step crc x st i = st i" using Cons.prems by (auto simp: store_step_def split: option.split)
  with Cons show ?case by simp
qed simp

lemma wf_fold_store:
  "\<forall>x \<in> set xs. applicable (snd x) \<Longrightarrow> \<forall>i. wf_slot (st i) \<Longrightarrow> wf_slot (fold (store_step crc) xs st i)"
  using slots.keep_run [of xs st crc] by auto

section \<open>Logs on disk\<close>

lemma numbered_sorted:
  "numbered l rs \<Longrightarrow> unat l + length rs \<le> 2 ^ 64 \<Longrightarrow>
   sorted_wrt (<) (map wr_lsn rs) \<and> (\<forall>r \<in> set rs. l \<le> wr_lsn r)"
proof (induction rs arbitrary: l)
  case (Cons r rs)
  show ?case
  proof (cases "rs = []")
    case True
    then show ?thesis using Cons.prems(1) by simp
  next
    case False
    then have "unat l + 1 < 2 ^ 64" using Cons.prems(2) by (cases rs) auto
    then have "l \<noteq> - 1" by (auto simp: unat_max_u64)
    then have succ: "unat (l + 1) = unat l + 1" by (simp add: unat_succ_word)
    then have "sorted_wrt (<) (map wr_lsn rs) \<and> (\<forall>r \<in> set rs. l + 1 \<le> wr_lsn r)"
      using Cons.IH [of "l + 1"] Cons.prems by simp
    moreover have "l < l + 1" using succ by (simp add: word_less_nat_alt)
    ultimately show ?thesis using Cons.prems(1) by auto
  qed
qed simp

definition log_entries :: "wal_record list \<Rightarrow> entry list" where
  "log_entries rs = map (\<lambda>r. (r, projr (typed_payload r))) (filter (live 0) rs)"

lemma decoded_records: "decoded 0 items = log_entries (map fst items)"
  by (induction items) (simp_all add: log_entries_def)

text \<open>Logs that recovery can replay: typed records with payloads that fit the arena, in brackets of
  the announced sizes.\<close>

definition replayable :: "wal_record list \<Rightarrow> bool" where
  "replayable rs \<longleftrightarrow> bounded (log_entries rs) \<and>
     (\<forall>r \<in> set rs. live 0 r \<longrightarrow> (\<exists>p. typed_payload r = Inr p \<and> applicable p))"

lemma replayableD:
  assumes "replayable (map fst items)"
  shows "decodable 0 items" "bounded (decoded 0 items)" "\<forall>x \<in> set (decoded 0 items). applicable (snd x)"
proof -
  show "decodable 0 items" using assms by (force simp: decodable_def replayable_def)
  show "bounded (decoded 0 items)" using assms by (simp add: replayable_def decoded_records)
  show "\<forall>x \<in> set (decoded 0 items). applicable (snd x)"
    using assms by (fastforce simp: decoded_def replayable_def)
qed

lemma units_Cons_cases:
  obtains "units (x # rest) = Single x # units rest"
  | "units (x # rest) = [Dropped x rest]"
  | inner y rest' where "rest = inner @ y # rest'" "units (x # rest) = Committed x inner y # units rest'"
  | inner y rest' where "rest = inner @ y # rest'" "units (x # rest) = Aborted x inner y # units rest'"
  | inner y rest' where "rest = inner @ y # rest'" "units (x # rest) = Dropped x inner # units (y # rest')"
proof (cases "is_txn_begin (snd x)")
  case False
  then show thesis using that(1) units_single by blast
next
  case True
  then obtain b where b: "snd x = TxnBegin b" by (cases "snd x") auto
  let ?P = "\<lambda>y. \<not> closes (tb_txn_id b) (snd y)"
  show thesis
  proof (cases "dropWhile ?P rest")
    case Nil
    then have "takeWhile ?P rest = rest" by (metis append_Nil2 takeWhile_dropWhile_id)
    with Nil show thesis using that(2) b by (simp add: units.simps(2) Let_def del: dropWhile_eq_Nil_conv)
  next
    case (Cons y rest')
    then have rest: "rest = takeWhile ?P rest @ y # rest'" by (metis takeWhile_dropWhile_id)
    show thesis
      using that(3-5) [OF rest] Cons b by (cases "snd y") (simp_all add: units.simps(2) [of x] Let_def)
  qed
qed

lemma set_units: "u \<in> set (units xs) \<Longrightarrow> set (unit_applied u) \<subseteq> set xs"
proof (induction xs arbitrary: u rule: length_induct)
  case (1 xs)
  show ?case
  proof (cases xs)
    case (Cons x rest)
    have IH: "length ys < length xs \<Longrightarrow> u \<in> set (units ys) \<Longrightarrow> set (unit_applied u) \<subseteq> set ys" for ys u
      using "1.IH" by blast
    show ?thesis
    proof (rule units_Cons_cases [of x rest])
      fix inner y rest'
      assume "rest = inner @ y # rest'" "units (x # rest) = Dropped x inner # units (y # rest')"
      then show ?thesis using "1.prems" IH [of "y # rest'" u] Cons by auto
    qed (use "1.prems" IH Cons in fastforce)+
  qed (use "1.prems" in simp)
qed

lemma set_committed: "set (committed xs) \<subseteq> set xs"
  using set_units [of _ xs] by (fastforce simp: committed_def)

lemma bounded_prefix: "bounded (xs @ ys) \<Longrightarrow> bounded xs"
proof (induction xs rule: length_induct)
  case (1 xs)
  show ?case
  proof (cases xs)
    case (Cons x rest)
    show ?thesis
    proof (cases "is_txn_begin (snd x)")
      case False
      then show ?thesis using 1 Cons by (simp add: bounded_def units_single)
    next
      case True
      then obtain r b where x: "x = (r, TxnBegin b)" by (cases x; cases "snd x") auto
      let ?P = "\<lambda>y. \<not> closes (tb_txn_id b) (snd y)"
      show ?thesis
      proof (cases "dropWhile ?P rest")
        case Nil
        then have all: "takeWhile ?P rest = rest" by (metis append_Nil2 takeWhile_dropWhile_id)
        have "length rest \<le> length (takeWhile ?P (rest @ ys))"
          using all by (metis length_append le_add1 takeWhile_append2 takeWhile_eq_all_conv)
        moreover have "length (takeWhile ?P (rest @ ys)) \<le> unat (tb_expected_record_count b)"
          using "1.prems" Cons x
          by (auto simp: bounded_def units.simps(2) Let_def split: list.splits wal_payload.splits)
        ultimately show ?thesis
          using Nil all Cons x
          by (simp add: bounded_def units.simps(2) Let_def del: dropWhile_eq_Nil_conv takeWhile_eq_all_conv)
      next
        case drop: (Cons y rest')
        then have rest: "rest = takeWhile ?P rest @ y # rest'" by (metis takeWhile_dropWhile_id)
        then have y: "closes (tb_txn_id b) (snd y)" using drop by (metis dropWhile_eq_Cons_conv)
        have buf: "open_buffer (tb_txn_id b) (tb_expected_record_count b) (x # takeWhile ?P rest)"
          using x by (auto dest: set_takeWhileD)
        have IH: "bounded (zs @ ys) \<Longrightarrow> bounded zs" if "length zs < length xs" for zs using 1 that by blast
        have xs: "xs = (x # takeWhile ?P rest) @ y # rest'" using rest Cons by simp
        have len: "length rest' < length xs" "length (y # rest') < length xs" unfolding xs by simp_all
        show ?thesis
          using "1.prems" IH [OF len(1)] IH [OF len(2)] units_open(2) [OF buf y, of rest'] units_open(2) [OF buf y, of "rest' @ ys"]
          unfolding xs by (cases "snd y") (simp_all add: bounded_def)
      qed
    qed
  qed (simp add: bounded_def)
qed

lemma replayable_prefix: "replayable log \<Longrightarrow> prefix rs log \<Longrightarrow> replayable rs"
  unfolding replayable_def prefix_def
  using bounded_prefix by (auto simp: log_entries_def)

lemma wal_inv_numbered:
  assumes "wal_inv crc uuid config w log"
  shows "numbered 1 log"
proof (cases "wal_committer w")
  case None
  then show ?thesis using assms by (auto simp: wal_inv_def closed_inv_def)
next
  case (Some cm)
  obtain runs now disk buf where "live_inv crc uuid config w log cm runs now disk buf"
    using assms Some by (rule wal_inv_live)
  then show ?thesis using Some by (rule live_crash_image [where n = 0]) simp
qed

section \<open>Recovery of a readable log\<close>

lemma recover_replays:
  assumes "reader_open crc d uuid = Inr rd" and "reader_drain crc d rd = (items, verdict, rd')"
    and "sorted_wrt (<) (map (wr_lsn \<circ> fst) items)" and "decodable (ms_durable_lsn S s) items"
    and "bounded (decoded (ms_durable_lsn S s) items)"
    and "\<forall>x \<in> set (decoded (ms_durable_lsn S s) items). applicable (snd x)"
    and "arena_ok crc a" and "\<forall>l. growable (env l)" and "accepting S"
    and ops: "ops = committed (decoded (ms_durable_lsn S s) items)"
  shows "\<exists>rep a'. recover crc env S d uuid a s =
      Some (case verdict of None \<Rightarrow> Inr (rep, rebuild_from_arena a') | Some e \<Rightarrow> Inl (WalRead e), a', fold (sink_step S) ops s) \<and>
    arena_ok crc a' \<and> slot_at a' = fold (store_step crc) ops (slot_at a)"
proof -
  have app: "\<forall>x \<in> set ops. applicable (snd x)" using assms(6) set_committed ops by blast
  obtain a' where run: "apply_all crc env S ops (a, s) = Some (Inr (), a', fold (sink_step S) ops s)"
    "arena_ok crc a'" "slot_at a' = fold (store_step crc) ops (slot_at a)"
    using apply_all_ok [OF assms(7,8) app assms(9)] by blast
  show ?thesis
  proof (rule recover_drained [OF assms(1-5), of env a])
    fix good st
    assume rec: "recovered crc env S (ms_durable_lsn S s) (a, s) items good st"
      "recover crc env S d uuid a s = Some (case verdict of
         None \<Rightarrow> Inr (recover_report (reader_active_segment_seq rd) st, rebuild_from_arena (rv_arena st))
       | Some e \<Rightarrow> Inl (WalRead e), rv_arena st, rv_sink st)"
    have "rv_arena st = a'" "rv_sink st = fold (sink_step S) ops s"
      using recovered_all(1) [OF rec(1)] run(1) unfolding ops by simp_all
    with rec(2) run(2,3) show ?thesis by (auto split: option.split)
  qed (use run(1) ops in simp_all)
qed

section \<open>Sample logs\<close>

definition typed_entry :: "u64 \<Rightarrow> wal_payload \<Rightarrow> wal_record" where
  "typed_entry l p = the (record_from_typed l 0 6 7 p)"

lemma typed_entry:
  assumes "wf_payload p"
  shows "typed_payload (typed_entry l p) = Inr p" "wr_lsn (typed_entry l p) = l" "wr_flags (typed_entry l p) = 0"
    "wr_timestamp_ns (typed_entry l p) = 6" "wr_payload (typed_entry l p) = the (encode_to_bytes p)"
proof -
  obtain bs where "encode_to_bytes p = Some bs" using encode_total [OF assms] by blast
  with decode_encoded [OF this assms] show "typed_payload (typed_entry l p) = Inr p" "wr_lsn (typed_entry l p) = l" "wr_flags (typed_entry l p) = 0"
    "wr_timestamp_ns (typed_entry l p) = 6" "wr_payload (typed_entry l p) = the (encode_to_bytes p)"
    by (simp_all add: typed_entry_def record_from_typed_def typed_payload_def)
qed

definition one_segment :: "wal_record list \<Rightarrow> wal_dir" where
  "one_segment rs = \<lparr>dir_entries = wal_image sum_crc sample_uuid [] 0 1 [(100, rs)], dir_unreadable = (\<lambda>_. False)\<rparr>"

lemma one_segment_drained:
  assumes "numbered 1 rs"
  obtains rd rd' where "reader_open sum_crc (one_segment rs) sample_uuid = Inr rd"
    "reader_drain sum_crc (one_segment rs) rd = (items_at 0 WAL_SEGMENT_HEADER_LEN rs, None, rd')"
    "reader_active_segment_seq rd = Some 0"
proof -
  have "is_wal_name (segment_path 0)" by (simp add: is_wal_name_def extension_segment_path)
  then have img: "holds_image sum_crc (one_segment rs) sample_uuid [] 0 1 [(100, rs)]"
    by (simp add: holds_image_def one_segment_def sample_uuid_def)
  note opened = reader_open_image [OF img] and drained = drain_image [OF img _ _ not_record_empty]
  show thesis
    using that [OF opened] drained assms
    by (auto simp: log_items_def segment_info_of_def tail_verdict_empty reader_active_segment_seq_def reader_start_def)
qed

lemma sorted_items: "numbered 1 rs \<Longrightarrow> length rs < 2 ^ 63 \<Longrightarrow> sorted_wrt (<) (map (wr_lsn \<circ> fst) (items_at seq off rs))"
  using numbered_sorted [of 1 rs] by (simp flip: map_map)

definition sample_txn :: txn_id where
  "sample_txn = replicate 16 3"

text \<open>A hard forget outside, one inside a committed bracket, and one in a bracket left open.\<close>

definition sample_forget :: "u64 \<Rightarrow> forget_payload" where
  "sample_forget i = \<lparr>fg_memory_id = memory_id_pack 0 i 1, fg_request_id = replicate 16 1, fg_space_id = replicate 16 2,
     fg_mode = Hard, fg_reason = ClientRequest\<rparr>"

definition sample_log :: "wal_record list" where
  "sample_log =
     [typed_entry 1 (Forget (sample_forget 0)),
      typed_entry 2 (TxnBegin \<lparr>tb_txn_id = sample_txn, tb_expected_record_count = 1\<rparr>),
      typed_entry 3 (Forget (sample_forget 1)),
      typed_entry 4 (TxnCommit \<lparr>tc_txn_id = sample_txn\<rparr>),
      typed_entry 5 (TxnBegin \<lparr>tb_txn_id = sample_txn, tb_expected_record_count = 1\<rparr>),
      typed_entry 6 (Forget (sample_forget 2))]"

abbreviation sample_begin :: wal_payload where
  "sample_begin \<equiv> TxnBegin \<lparr>tb_txn_id = sample_txn, tb_expected_record_count = 1\<rparr>"

abbreviation sample_commit :: wal_payload where
  "sample_commit \<equiv> TxnCommit \<lparr>tc_txn_id = sample_txn\<rparr>"

lemma sample_wf: "wf_payload (Forget (sample_forget i))" "wf_payload sample_begin" "wf_payload sample_commit"
  by (simp_all add: sample_forget_def sample_txn_def)

lemma sample_fits: "fits (typed_entry l (Forget (sample_forget i)))" "fits (typed_entry l sample_begin)"
  "fits (typed_entry l sample_commit)"
  unfolding fits_def typed_entry [OF sample_wf(1)] typed_entry [OF sample_wf(2)] typed_entry [OF sample_wf(3)]
  by (simp_all add: encode_forget_def encode_txn_begin_def encode_txn_commit_def sample_forget_def sample_txn_def
      put_memory_id_def put_array_def put_u8_def put_u32_le_def)

lemmas sample_entries = typed_entry [OF sample_wf(1)] typed_entry [OF sample_wf(2)] typed_entry [OF sample_wf(3)]

lemma sample_log_numbered: "numbered 1 sample_log"
  by (simp add: sample_log_def sample_entries sample_fits)

lemma sample_log_entries:
  "log_entries sample_log =
     [(typed_entry 1 (Forget (sample_forget 0)), Forget (sample_forget 0)), (typed_entry 2 sample_begin, sample_begin),
      (typed_entry 3 (Forget (sample_forget 1)), Forget (sample_forget 1)), (typed_entry 4 sample_commit, sample_commit),
      (typed_entry 5 sample_begin, sample_begin), (typed_entry 6 (Forget (sample_forget 2)), Forget (sample_forget 2))]"
  by (simp add: log_entries_def sample_log_def live_def sample_entries)

lemma sample_log_units:
  "units (log_entries sample_log) =
     [Single (typed_entry 1 (Forget (sample_forget 0)), Forget (sample_forget 0)),
      Committed (typed_entry 2 sample_begin, sample_begin)
        [(typed_entry 3 (Forget (sample_forget 1)), Forget (sample_forget 1))] (typed_entry 4 sample_commit, sample_commit),
      Dropped (typed_entry 5 sample_begin, sample_begin)
        [(typed_entry 6 (Forget (sample_forget 2)), Forget (sample_forget 2))]]"
  unfolding sample_log_entries by (simp add: units.simps(2))

lemma sample_log_replayable: "replayable sample_log"
  unfolding replayable_def bounded_def sample_log_units
  by (simp add: sample_log_def sample_entries)

definition sample_sink :: in_memory_sink where
  "sample_sink = in_memory_new"

lemma sample_durable: "ms_durable_lsn in_memory_metadata_sink sample_sink = 0"
  by (simp add: in_memory_metadata_sink_def sample_sink_def in_memory_new_def)

lemma sample_drained:
  obtains rd rd' where "reader_open sum_crc (one_segment sample_log) sample_uuid = Inr rd"
    "reader_drain sum_crc (one_segment sample_log) rd = (items_at 0 WAL_SEGMENT_HEADER_LEN sample_log, None, rd')"
    "reader_active_segment_seq rd = Some 0"
    "sorted_wrt (<) (map (wr_lsn \<circ> fst) (items_at 0 WAL_SEGMENT_HEADER_LEN sample_log))"
    "decodable 0 (items_at 0 WAL_SEGMENT_HEADER_LEN sample_log)" "bounded (decoded 0 (items_at 0 WAL_SEGMENT_HEADER_LEN sample_log))"
    "\<forall>x \<in> set (decoded 0 (items_at 0 WAL_SEGMENT_HEADER_LEN sample_log)). applicable (snd x)"
    "decoded 0 (items_at 0 WAL_SEGMENT_HEADER_LEN sample_log) = log_entries sample_log"
proof (rule one_segment_drained [OF sample_log_numbered])
  fix rd rd'
  assume "reader_open sum_crc (one_segment sample_log) sample_uuid = Inr rd"
    "reader_drain sum_crc (one_segment sample_log) rd = (items_at 0 WAL_SEGMENT_HEADER_LEN sample_log, None, rd')"
    "reader_active_segment_seq rd = Some 0"
  moreover have "length sample_log < 2 ^ 63" by (simp add: sample_log_def)
  ultimately show thesis
    using replayableD [of "items_at 0 WAL_SEGMENT_HEADER_LEN sample_log"] sample_log_replayable
      sorted_items [OF sample_log_numbered] decoded_records [of "items_at 0 WAL_SEGMENT_HEADER_LEN sample_log"]
    by (intro that) simp_all
qed

section \<open>Properties\<close>

text \<open>C3. Recovery applies exactly the committed part of the log. Whatever the sink and whatever the
  system calls answer, running \<open>recover\<close> on a readable log of ascending, decodable records whose
  brackets respect their declared sizes has the result, the arena and the sink state that come from
  applying, in log order, the records after the durable LSN that are outside every bracket or inside
  a bracket closed by its own commit, and no others; a first error stops both at the same point. An
  error of the reader is reported after everything before it was applied.\<close>

theorem recover_refines:
  assumes "reader_open crc d uuid = Inr rd" and "reader_drain crc d rd = (items, verdict, rd')"
    and "sorted_wrt (<) (map (wr_lsn \<circ> fst) items)" and "decodable (ms_durable_lsn S s) items"
    and "bounded (decoded (ms_durable_lsn S s) items)"
  shows "map_option (\<lambda>(res, state). (map_sum id (\<lambda>_. ()) res, state)) (recover crc env S d uuid a s) =
    (case apply_all crc env S (committed (decoded (ms_durable_lsn S s) items)) (a, s) of
       Some (Inr _, state) \<Rightarrow> Some (case verdict of None \<Rightarrow> Inr () | Some e \<Rightarrow> Inl (WalRead e), state)
     | out \<Rightarrow> out)"
proof (rule recover_drained [OF assms, of env a])
  fix good st
  assume "recovered crc env S (ms_durable_lsn S s) (a, s) items good st"
    and "recover crc env S d uuid a s = Some (case verdict of
         None \<Rightarrow> Inr (recover_report (reader_active_segment_seq rd) st, rebuild_from_arena (rv_arena st))
       | Some e \<Rightarrow> Inl (WalRead e), rv_arena st, rv_sink st)"
  with recovered_all(1) [OF this(1)] show ?thesis by (simp split: option.split)
qed simp_all

theorem recover_refines_witness:
  "map_option (\<lambda>(res, state). (map_sum id (\<lambda>_. ()) res, state))
      (recover sum_crc (\<lambda>_. (7, io_all_ok)) in_memory_metadata_sink (one_segment sample_log) sample_uuid sample_arena sample_sink) =
    (case apply_all sum_crc (\<lambda>_. (7, io_all_ok)) in_memory_metadata_sink
        [(typed_entry 1 (Forget (sample_forget 0)), Forget (sample_forget 0)), (typed_entry 2 sample_begin, sample_begin),
         (typed_entry 3 (Forget (sample_forget 1)), Forget (sample_forget 1)), (typed_entry 4 sample_commit, sample_commit)]
        (sample_arena, sample_sink) of
       Some (Inr _, state) \<Rightarrow> Some (Inr (), state)
     | out \<Rightarrow> out)"
proof (rule sample_drained)
  fix rd rd'
  assume r: "reader_open sum_crc (one_segment sample_log) sample_uuid = Inr rd"
    "reader_drain sum_crc (one_segment sample_log) rd = (items_at 0 WAL_SEGMENT_HEADER_LEN sample_log, None, rd')"
    "sorted_wrt (<) (map (wr_lsn \<circ> fst) (items_at 0 WAL_SEGMENT_HEADER_LEN sample_log))"
    "decodable 0 (items_at 0 WAL_SEGMENT_HEADER_LEN sample_log)" "bounded (decoded 0 (items_at 0 WAL_SEGMENT_HEADER_LEN sample_log))"
    "decoded 0 (items_at 0 WAL_SEGMENT_HEADER_LEN sample_log) = log_entries sample_log"
  show ?thesis
    using recover_refines [OF r(1-3), of in_memory_metadata_sink sample_sink "\<lambda>_. (7, io_all_ok)" sample_arena] r(4-6)
    by (simp only: sample_durable committed_def sample_log_units)
      (simp del: apply_all.simps split: option.split sum.split)
qed





text \<open>C17. Hard forget survives recovery. If a hard forget of a memory is among the replayed records and
  no later replayed record writes its slot, then after recovery the slot's vector is all zeros, the
  slot is marked tombstoned and hard-forgotten, and its checksum is valid, although the record that
  carries the plaintext vector has been replayed as well.\<close>

theorem recover_hard_forget:
  assumes "reader_open crc d uuid = Inr rd" and "reader_drain crc d rd = (items, None, rd')"
    and "sorted_wrt (<) (map (wr_lsn \<circ> fst) items)" and "decodable (ms_durable_lsn S s) items"
    and "bounded (decoded (ms_durable_lsn S s) items)"
    and "\<forall>x \<in> set (decoded (ms_durable_lsn S s) items). applicable (snd x)"
    and "arena_ok crc a" and "\<forall>l. growable (env l)" and "accepting S"
    and "committed (decoded (ms_durable_lsn S s) items) = xs @ (r, Forget p) # ys"
    and "fg_mode p = Hard" and "i = memory_id_slot (fg_memory_id p)" and "\<forall>y \<in> set ys. slot_target (snd y) \<noteq> Some i"
  shows "\<exists>rep a' s'. recover crc env S d uuid a s = Some (Inr (rep, rebuild_from_arena a'), a', s') \<and>
    sl_vector (slot_at a' i) = replicate VECTOR_DIM 0 \<and> is_tombstoned (slot_at a' i) \<and>
    is_hard_forgotten (slot_at a' i) \<and> slot_is_valid crc (slot_at a' i)"
proof -
  obtain rep a' s' where r: "recover crc env S d uuid a s = Some (Inr (rep, rebuild_from_arena a'), a', s')"
    "slot_at a' = fold (store_step crc) (xs @ (r, Forget p) # ys) (slot_at a)"
    using recover_replays [OF assms(1-9) refl] assms(10) by auto
  let ?s = "fold (store_step crc) xs (slot_at a) i"
  have fit: "\<forall>x \<in> set xs. applicable (snd x)"
    using assms(6,10) set_committed [of "decoded (ms_durable_lsn S s) items"] by auto
  have slot: "slot_at a' i = refresh_crc crc (tombstoned_slot (wr_timestamp_ns r) p ?s)"
    using r(2) assms(12,13) by (simp add: fold_store_untouched store_step_def)
  have wf: "wf_slot (tombstoned_slot (wr_timestamp_ns r) p ?s)"
    using wf_slot_effect [of "Forget p" ?s "wr_timestamp_ns r"] wf_fold_store [OF fit] wf_slot_at [OF assms(7)] by simp
  show ?thesis
    using r(1) slot refresh_crc_valid [OF wf] assms(11)
    by (auto simp: tombstoned_slot_def Let_def is_flag_bits bit_set_flag bit_flag_consts)
qed

theorem recover_hard_forget_witness:
  "\<exists>rep a' s'. recover sum_crc (\<lambda>_. (7, io_all_ok)) in_memory_metadata_sink (one_segment sample_log) sample_uuid sample_arena sample_sink
      = Some (Inr (rep, rebuild_from_arena a'), a', s') \<and> sl_vector (slot_at a' 1) = replicate VECTOR_DIM 0"
proof (rule sample_drained)
  fix rd rd'
  let ?items = "items_at 0 WAL_SEGMENT_HEADER_LEN sample_log"
  assume r: "reader_open sum_crc (one_segment sample_log) sample_uuid = Inr rd"
    "reader_drain sum_crc (one_segment sample_log) rd = (?items, None, rd')"
    "sorted_wrt (<) (map (wr_lsn \<circ> fst) ?items)" "decodable 0 ?items" "bounded (decoded 0 ?items)"
    "\<forall>x \<in> set (decoded 0 ?items). applicable (snd x)" "decoded 0 ?items = log_entries sample_log"
  have ops: "committed (log_entries sample_log) =
      [(typed_entry 1 (Forget (sample_forget 0)), Forget (sample_forget 0)), (typed_entry 2 sample_begin, sample_begin)] @
      (typed_entry 3 (Forget (sample_forget 1)), Forget (sample_forget 1)) # [(typed_entry 4 sample_commit, sample_commit)]"
    unfolding committed_def sample_log_units by simp
  have grow: "\<forall>l. growable ((\<lambda>_. (7, io_all_ok)) l)" by (simp add: growable_def io_all_ok_def)
  have slot: "1 = memory_id_slot (fg_memory_id (sample_forget 1))" "fg_mode (sample_forget 1) = Hard"
    by (simp_all add: sample_forget_def memory_id_pack_def memory_id_slot_def MAX_SLOT_INDEX_def)
  let ?D = "ms_durable_lsn in_memory_metadata_sink sample_sink"
  have facts: "decodable ?D ?items" "bounded (decoded ?D ?items)" "\<forall>x \<in> set (decoded ?D ?items). applicable (snd x)"
    using r(4-6) by (simp_all only: sample_durable)
  have eq: "decoded ?D ?items = log_entries sample_log" using r(7) by (simp only: sample_durable)
  have last: "\<forall>y \<in> set [(typed_entry 4 sample_commit, sample_commit)]. slot_target (snd y) \<noteq> Some 1" by simp
  show ?thesis
    using recover_hard_forget [where env = "\<lambda>_. (7, io_all_ok)", OF r(1-3) facts sample_arena_facts(2) grow
        accepting_in_memory ops [folded eq] slot(2,1) last] by blast
qed

end
