(* ===== verification/Recovery_Reopen.thy ===== *)
theory Recovery_Reopen
  imports Recovery_Props
begin

text \<open>
  From recovery back to a running WAL: the report of \<open>recover\<close>, the truncation that
  \<open>Wal::open_existing\<close> performs with it, and the log that results. When the discarded tail lies
  within the active segment the reopened WAL satisfies the invariant of a WAL that has just
  appended the good part of the log. When it reaches back into an earlier segment, the next
  append produces a log that cannot be read.
\<close>

section \<open>The report\<close>

lemma recover_reported:
  assumes "reader_open crc d uuid = Inr rd" and "reader_drain crc d rd = (items, None, rd')"
    and "sorted_wrt (<) (map (wr_lsn \<circ> fst) items)" and "decodable (ms_durable_lsn S s) items"
    and "bounded (decoded (ms_durable_lsn S s) items)"
    and rec: "recover crc env S d uuid a s = Some (Inr (rep, al), a', s')"
  obtains good st where "recovered crc env S (ms_durable_lsn S s) (a, s) items good st"
    "rep = recover_report (reader_active_segment_seq rd) st"
  using recover_drained [OF assms(1-5), of env a] rec that by (auto split: option.splits)

definition report_tail :: "u64 \<Rightarrow> u64 option \<Rightarrow> wal_item list \<Rightarrow> recovery_report \<Rightarrow> bool" where
  "report_tail durable_lsn active good rep \<longleftrightarrow>
     rep_next_lsn rep = (if good = [] then durable_lsn else wr_lsn (fst (last good))) + 1 \<and>
     rep_active_tail_offset rep =
       (if good \<noteq> [] \<and> fst (snd (last good)) \<noteq> None \<and> fst (snd (last good)) = active
        then case snd (snd (last good)) of Some off \<Rightarrow> off | None \<Rightarrow> WAL_SEGMENT_HEADER_LEN
        else WAL_SEGMENT_HEADER_LEN) \<and>
     rep_active_segment_seq rep = active"

lemma recovered_report_tail:
  assumes "recovered crc env S durable_lsn start items good st"
  shows "report_tail durable_lsn active good (recover_report active st)"
proof -
  have "tail_after durable_lsn good st" using assms by (rule recoveredE)
  then show ?thesis by (auto simp: report_tail_def tail_after_def recover_report_def)
qed

lemma recovered_skipped:
  "recovered crc env S durable_lsn start items good st \<Longrightarrow>
   rep_records_skipped (recover_report active st) = of_nat (length items - length (decoded durable_lsn items))"
  by (elim recoveredE) (simp add: recover_report_def)

section \<open>Reopening an image\<close>

lemma image_infos_snoc:
  "image_infos crc uuid tail seq l (runs @ [run]) =
     image_infos crc uuid [] seq l runs @
     [(segment_info_of crc uuid (seq + of_nat (length runs)) (l + of_nat (length (runs_log runs))) run tail, snd run)]"
  by (induction runs arbitrary: seq l) (simp_all add: algebra_simps)

lemma image_paths:
  assumes "\<And>name file. (name, file) \<in> set (wal_image crc uuid tail seq l runs) \<Longrightarrow> dir_read d name = Some file"
  shows "map (\<lambda>i. (si_path i, the (dir_read d (si_path i)))) (map fst (image_infos crc uuid tail seq l runs))
    = wal_image crc uuid tail seq l runs"
  using assms
proof (induction runs arbitrary: seq l)
  case (Cons run runs)
  have "dir_read d (segment_path seq) = Some (segment_file crc uuid seq l run (if runs = [] then tail else []))"
    by (rule Cons.prems) simp
  moreover have "map (\<lambda>i. (si_path i, the (dir_read d (si_path i))))
      (map fst (image_infos crc uuid tail (seq + 1) (l + of_nat (length (snd run))) runs))
    = wal_image crc uuid tail (seq + 1) (l + of_nat (length (snd run))) runs"
    by (rule Cons.IH) (rule Cons.prems, simp)
  ultimately show ?case by (simp add: segment_info_of_def)
qed simp

lemma reopen_image:
  assumes img: "holds_image crc d uuid tail 0 1 (pre @ [(now, kept @ gone)])"
    and num: "numbered 1 (runs_log (pre @ [(now, kept @ gone)]))" and io: "io_sync_ok io"
  shows "wal_open_existing crc io d uuid next_lsn (WAL_SEGMENT_HEADER_LEN + length (frames crc kept)) config =
    Inr \<lparr>w_shard_uuid = uuid, w_next_lsn = next_lsn, w_active_segment_seq = of_nat (length pre),
      w_segment = Open (committer_start (open_for_append
          (header_image crc now uuid (of_nat (length pre)) (1 + of_nat (length (runs_log pre))) @ frames crc kept)
          uuid (of_nat (length pre)) (1 + of_nat (length (runs_log pre))) (length (frames crc kept))))
        (length (frames crc kept)),
      w_config = config, w_closed = wal_image crc uuid [] 0 1 pre, w_acks = []\<rparr>"
proof -
  let ?seq = "of_nat (length pre) :: u64" and ?l = "1 + of_nat (length (runs_log pre)) :: u64"
  let ?hdr = "header_image crc now uuid ?seq ?l" and ?off = "WAL_SEGMENT_HEADER_LEN + length (frames crc kept)"
  let ?info = "segment_info_of crc uuid ?seq ?l (now, kept @ gone) tail"
  let ?content = "?hdr @ frames crc kept @ frames crc gone @ tail"
  have infos: "map fst (image_infos crc uuid tail 0 1 (pre @ [(now, kept @ gone)]))
      = map fst (image_infos crc uuid [] 0 1 pre) @ [?info]" by (simp add: image_infos_snoc)
  have read: "dir_read d name = Some content"
    if "(name, content) \<in> set (wal_image crc uuid [] 0 1 pre) \<union>
      {(segment_path ?seq, segment_file crc uuid ?seq ?l (now, kept @ gone) tail)}" for name content
    using holds_image_read [OF img, of name content] that by (simp add: wal_image_snoc)
  then have active: "dir_read d (segment_path ?seq) = Some ?content"
    by (simp add: segment_file_def frames_append)
  have closed: "map (\<lambda>i. (si_path i, the (dir_read d (si_path i)))) (map fst (image_infos crc uuid [] 0 1 pre))
      = wal_image crc uuid [] 0 1 pre" by (rule image_paths) (use read in blast)
  have len: "length ?hdr = WAL_SEGMENT_HEADER_LEN"
    using img by (simp add: holds_image_def length_header_image WAL_SEGMENT_HEADER_LEN_def)
  have size: "si_file_size ?info = length ?content"
    using len by (simp add: segment_info_of_def frames_append WAL_SEGMENT_HEADER_LEN_def)
  have trunc: "(if ?off < length ?content then take ?off ?content else ?content) = ?hdr @ frames crc kept"
    using len by auto
  have info: "si_path ?info = segment_path ?seq" "si_segment_seq ?info = ?seq" "si_starting_lsn ?info = ?l"
    by (simp_all add: segment_info_of_def)
  have le: "\<not> length ?content < ?off" "\<not> ?off < WAL_SEGMENT_HEADER_LEN" using len by simp_all
  show ?thesis
    unfolding wal_open_existing_def reader_open_image [OF img] reader_start_def infos sum.case Let_def
      wal_reader.select_convs last_snoc butlast_snoc info size active option.case closed
    using io le by (simp only: trunc) (simp add: len)
qed

section \<open>Where the good part of an image ends\<close>

lemma take_items_at: "take k (items_at seq off rs) = items_at seq off (take k rs)"
proof (induction rs arbitrary: k off)
  case (Cons r rs)
  then show ?case by (cases k) (simp_all add: Let_def)
qed simp

lemma last_items_at:
  "rs \<noteq> [] \<Longrightarrow> \<forall>r \<in> set rs. fits r \<Longrightarrow>
   last (items_at seq off rs) = (last rs, Some seq, Some (off + length (frames crc rs)))"
proof (induction rs arbitrary: off)
  case (Cons r rs)
  have "items_at seq off' rs = [] \<longleftrightarrow> rs = []" for off' by (metis map_fst_items_at map_is_Nil_conv)
  with Cons show ?case by (cases "rs = []") (simp_all add: Let_def length_frame add.assoc)
qed simp

lemma numbered_last:
  "numbered l rs \<Longrightarrow> rs \<noteq> [] \<Longrightarrow> wr_lsn (last rs) + 1 = l + of_nat (length rs)"
proof (induction rs arbitrary: l)
  case (Cons r rs)
  then show ?case using Cons.IH [of "l + 1"] by (cases "rs = []") (simp_all add: algebra_simps)
qed simp

lemma log_items_seqs:
  "i \<in> set (log_items (image_infos crc uuid tail seq l runs)) \<Longrightarrow>
   \<exists>k < length runs. fst (snd i) = Some (seq + of_nat k)"
proof (induction runs arbitrary: seq l)
  case (Cons run runs)
  have here: "fst (snd i) = Some q" if "i \<in> set (items_at q off rs)" for q off rs
    using that by (induction rs arbitrary: off) (auto simp: Let_def)
  from Cons.prems consider "i \<in> set (items_at seq WAL_SEGMENT_HEADER_LEN (snd run))"
    | "i \<in> set (log_items (image_infos crc uuid tail (seq + 1) (l + of_nat (length (snd run))) runs))"
    by (auto simp: log_items_def segment_info_of_def)
  then show ?case
  proof cases
    case 1
    then show ?thesis using here by (intro exI [of _ 0]) simp
  next
    case 2
    then obtain k where "k < length runs" "fst (snd i) = Some (seq + 1 + of_nat k)" using Cons.IH by blast
    then show ?thesis by (intro exI [of _ "Suc k"]) (simp add: algebra_simps)
  qed
qed (simp add: log_items_def)

lemma image_items_snoc:
  "log_items (image_infos crc uuid tail seq l (pre @ [(now, rs)])) =
     log_items (image_infos crc uuid [] seq l pre) @ items_at (seq + of_nat (length pre)) WAL_SEGMENT_HEADER_LEN rs"
  by (simp add: image_infos_snoc log_items_def segment_info_of_def)

lemma good_in_active:
  assumes items: "good @ rest = log_items (image_infos crc uuid tail 0 1 (pre @ [(now, rs)]))"
    and len: "length (runs_log pre) \<le> length good"
  obtains kept gone where "rs = kept @ gone"
    "good = log_items (image_infos crc uuid [] 0 1 pre) @ items_at (of_nat (length pre)) WAL_SEGMENT_HEADER_LEN kept"
    "map fst good = runs_log pre @ kept"
proof
  let ?P = "log_items (image_infos crc uuid [] 0 1 pre)" and ?k = "length good - length (runs_log pre)"
  have P: "map fst ?P = runs_log pre" by (simp add: log_items_records image_infos_records)
  then have lenP: "length ?P = length (runs_log pre)" by (metis length_map)
  have "good = take (length good) (?P @ items_at (of_nat (length pre)) WAL_SEGMENT_HEADER_LEN rs)"
    using items by (metis append_eq_conv_conj image_items_snoc add_0)
  then show good: "good = ?P @ items_at (of_nat (length pre)) WAL_SEGMENT_HEADER_LEN (take ?k rs)"
    using len lenP by (simp add: take_items_at)
  show "rs = take ?k rs @ drop ?k rs" by simp
  show "map fst good = runs_log pre @ take ?k rs" using P by (subst good) simp
qed

lemma report_offset_before:
  assumes tail: "report_tail durable_lsn (Some (of_nat (length pre))) good rep"
    and good: "set good \<subseteq> set (log_items (image_infos crc uuid [] 0 1 pre))" and few: "length pre < 10 ^ 10"
  shows "rep_active_tail_offset rep = WAL_SEGMENT_HEADER_LEN"
proof -
  have "fst (snd (last good)) \<noteq> Some (of_nat (length pre))" if "good \<noteq> []"
  proof
    assume seq: "fst (snd (last good)) = Some (of_nat (length pre))"
    have "last good \<in> set (log_items (image_infos crc uuid [] 0 1 pre))" using good that by auto
    then obtain k where "k < length pre" "fst (snd (last good)) = Some (of_nat k)"
      using log_items_seqs [of "last good" crc uuid "[]" 0 1 pre] by auto
    with seq few unat_small [of k] unat_small [of "length pre"] show False by auto
  qed
  with tail show ?thesis by (auto simp: report_tail_def)
qed

lemma report_offset:
  assumes tail: "report_tail durable_lsn (Some (of_nat (length pre))) good rep"
    and good: "good = log_items (image_infos crc uuid [] 0 1 pre) @ items_at (of_nat (length pre)) WAL_SEGMENT_HEADER_LEN kept"
    and fits: "\<forall>r \<in> set kept. fits r" and few: "length pre < 10 ^ 10"
  shows "rep_active_tail_offset rep = WAL_SEGMENT_HEADER_LEN + length (frames crc kept)"
proof (cases "kept = []")
  case True
  then show ?thesis using report_offset_before [OF tail, of crc uuid] good few by simp
next
  case False
  have "items_at (of_nat (length pre)) WAL_SEGMENT_HEADER_LEN kept \<noteq> []"
    using False by (metis map_fst_items_at map_is_Nil_conv)
  then have "last good = (last kept, Some (of_nat (length pre)), Some (WAL_SEGMENT_HEADER_LEN + length (frames crc kept)))"
    "good \<noteq> []" using good last_items_at [OF False fits] by simp_all
  with tail show ?thesis by (simp add: report_tail_def)
qed

lemma reopened_inv:
  assumes img: "holds_image crc d uuid tail 0 1 (pre @ [(now, kept @ gone)])"
    and num: "numbered 1 (runs_log (pre @ [(now, kept @ gone)]))"
    and size: "list_all (\<lambda>run. WAL_SEGMENT_HEADER_LEN + length (frames crc (snd run))
       \<le> max WAL_SEGMENT_HEADER_LEN (wc_max_segment_bytes config)) (pre @ [(now, kept @ gone)])"
    and io: "io_sync_ok io" and next_lsn: "next_lsn = 1 + of_nat (length (runs_log pre @ kept))"
  shows "\<exists>w. wal_open_existing crc io d uuid next_lsn (WAL_SEGMENT_HEADER_LEN + length (frames crc kept)) config = Inr w \<and>
    wal_inv crc uuid config w (runs_log pre @ kept) \<and> w_next_lsn w = next_lsn \<and>
    (\<forall>n. wal_files n w = wal_image crc uuid [] 0 1 (pre @ [(now, kept)]))"
proof -
  let ?seq = "of_nat (length pre) :: u64" and ?l = "1 + of_nat (length (runs_log pre)) :: u64"
  let ?hdr = "header_image crc now uuid ?seq ?l"
  let ?cm = "committer_start (open_for_append (?hdr @ frames crc kept) uuid ?seq ?l (length (frames crc kept)))"
  let ?w = "\<lparr>w_shard_uuid = uuid, w_next_lsn = next_lsn, w_active_segment_seq = ?seq,
      w_segment = Open ?cm (length (frames crc kept)), w_config = config,
      w_closed = wal_image crc uuid [] 0 1 pre, w_acks = []\<rparr>"
  have numbers: "numbered 1 (runs_log pre)" "numbered ?l kept" using num by (simp_all add: numbered_append)
  have closed: "closed_inv crc uuid config ?w pre"
    using numbers(1) size by (simp add: closed_inv_def acked_lsns_def)
  have hdr: "length ?hdr = WAL_SEGMENT_HEADER_LEN"
    using img by (simp add: holds_image_def length_header_image WAL_SEGMENT_HEADER_LEN_def)
  have cm: "committer_inv crc ?hdr ?l ?cm kept []"
    by (rule committer_inv_start [OF hdr numbers(2)]) (simp_all add: open_for_append_def)
  have "live_inv crc uuid config ?w (runs_log pre @ kept) ?cm pre now kept []"
    using closed cm size next_lsn committer_ctl_start
    by (auto simp: live_inv_def committer_all_def committer_start_def frames_append)
  then have "wal_inv crc uuid config ?w (runs_log pre @ kept)"
    by (rule wal_invI [rotated]) (simp add: wal_committer_def)
  moreover have "\<forall>n. wal_files n ?w = wal_image crc uuid [] 0 1 (pre @ [(now, kept)])"
    by (simp add: wal_files_def wal_committer_def committer_start_def open_for_append_def wal_image_snoc segment_file_def)
  ultimately show ?thesis using reopen_image [OF img num io] by auto
qed

section \<open>Recovery of an image\<close>

lemma recover_image:
  assumes img: "holds_image crc d uuid tail 0 1 (pre @ [(now, rs)])"
    and num: "numbered 1 (runs_log (pre @ [(now, rs)]))" and short: "length (runs_log (pre @ [(now, rs)])) < 2 ^ 63"
    and tail: "\<not> is_record (decode_one crc tail)"
      "tail_verdict crc (of_nat (length pre)) (1 + of_nat (length (runs_log (pre @ [(now, rs)])))) tail = None"
    and replay: "replayable (runs_log (pre @ [(now, rs)]))" and dur: "ms_durable_lsn S s = 0"
    and rec: "recover crc env S d uuid a s = Some (Inr (rep, al), a', s')"
  obtains good rest where "good @ rest = log_items (image_infos crc uuid tail 0 1 (pre @ [(now, rs)]))"
    "report_tail 0 (Some (of_nat (length pre))) good rep"
    "committed (log_entries (map fst good)) = committed (log_entries (runs_log (pre @ [(now, rs)])))"
    "rep_next_lsn rep = 1 + of_nat (length good)" "closed_log (log_entries (map fst good))"
proof -
  let ?runs = "pre @ [(now, rs)]"
  let ?infos = "image_infos crc uuid tail 0 1 ?runs"
  let ?rd = "reader_start (map fst ?infos) 1"
  have recs: "map fst (log_items ?infos) = runs_log ?runs" by (simp add: log_items_records image_infos_records)
  obtain rd' where drain: "reader_drain crc d ?rd = (log_items ?infos, None, rd')"
    using drain_image [OF img _ num tail(1)] tail(2) by auto
  have sorted: "sorted_wrt (<) (map (wr_lsn \<circ> fst) (log_items ?infos))"
    using numbered_sorted [OF num] short unfolding map_map [symmetric] recs by simp
  note ok = replayableD [of "log_items ?infos", unfolded recs, OF replay]
  have active: "reader_active_segment_seq ?rd = Some (of_nat (length pre))"
    by (simp add: reader_active_segment_seq_def reader_start_def image_infos_snoc segment_info_of_def)
  obtain good st where r: "recovered crc env S 0 (a, s) (log_items ?infos) good st"
    "rep = recover_report (Some (of_nat (length pre))) st"
    using recover_reported [OF reader_open_image [OF img] drain sorted _ _ rec] ok(1,2) dur active by auto
  note all = recovered_all [OF r(1)] and tl = recovered_report_tail [OF r(1), of "Some (of_nat (length pre))", folded r(2)]
  obtain rest where rest: "log_items ?infos = good @ rest" "closed_log (decoded 0 good)"
    "committed (decoded 0 good) = committed (decoded 0 (log_items ?infos))" using all(4) by blast
  have "numbered 1 (map fst good)" using num recs rest(1) by (metis map_append numbered_append)
  then have "rep_next_lsn rep = 1 + of_nat (length good)"
    using tl numbered_last [of 1 "map fst good"] by (auto simp: report_tail_def last_map)
  then show thesis
    using that [OF rest(1) [symmetric] tl] rest(2,3) by (simp add: decoded_records recs)
qed

section \<open>Directories that consist of an image\<close>

lemma image_path_range:
  "(name, file) \<in> set (wal_image crc uuid tail seq l runs) \<Longrightarrow> unat seq + length runs \<le> 10 ^ 10 \<Longrightarrow>
   \<exists>q. name = segment_path q \<and> unat seq \<le> unat q \<and> unat q < 10 ^ 10"
proof (induction runs arbitrary: seq l)
  case (Cons run runs)
  have succ: "unat (seq + 1) = Suc (unat seq)" using Cons.prems(2) unat_seq_succ [of seq "length runs"] by simp
  consider "name = segment_path seq" | "(name, file) \<in> set (wal_image crc uuid tail (seq + 1) (l + of_nat (length (snd run))) runs)"
    using Cons.prems(1) by auto
  then show ?case
  proof cases
    case 1
    then show ?thesis using Cons.prems(2) by auto
  next
    case 2
    then obtain q where "name = segment_path q" "unat (seq + 1) \<le> unat q" "unat q < 10 ^ 10"
      using Cons.IH Cons.prems(2) succ by fastforce
    then show ?thesis using succ by auto
  qed
qed simp

lemma distinct_image: "unat seq + length runs \<le> 10 ^ 10 \<Longrightarrow> distinct (map fst (wal_image crc uuid tail seq l runs))"
proof (induction runs arbitrary: seq l)
  case (Cons run runs)
  have succ: "unat (seq + 1) = Suc (unat seq)" using Cons.prems unat_seq_succ [of seq "length runs"] by simp
  let ?rest = "wal_image crc uuid tail (seq + 1) (l + of_nat (length (snd run))) runs"
  have "segment_path seq \<notin> fst ` set ?rest"
  proof
    assume "segment_path seq \<in> fst ` set ?rest"
    then obtain f where "(segment_path seq, f) \<in> set ?rest" by auto
    then obtain q where "segment_path seq = segment_path q" "unat (seq + 1) \<le> unat q" "unat q < 10 ^ 10"
      using image_path_range [of "segment_path seq" f] Cons.prems succ by fastforce
    moreover have "unat seq < 10 ^ 10" using Cons.prems by simp
    ultimately show False using segment_path_inject [of seq q] succ by simp
  qed
  then show ?case using Cons succ by simp
qed simp

lemma holds_image_self:
  assumes "length uuid = 16" and "unat seq + length runs \<le> 10 ^ 10"
  shows "holds_image crc \<lparr>dir_entries = wal_image crc uuid tail seq l runs, dir_unreadable = (\<lambda>_. False)\<rparr>
    uuid tail seq l runs"
proof -
  have "filter (is_wal_name \<circ> fst) (wal_image crc uuid tail seq l runs) = wal_image crc uuid tail seq l runs"
    using image_names [OF assms(2)] by (auto intro!: filter_True)
  then show ?thesis using assms distinct_image [OF assms(2)] by (simp add: holds_image_def)
qed

lemma read_wrong_lsn:
  assumes uuid: "length uuid = 16" and few: "length pre < 10 ^ 10" and num: "numbered 1 (runs_log pre)"
    and r: "fits r" "wr_lsn r \<noteq> 1 + of_nat (length (runs_log pre))"
  shows "read_all crc \<lparr>dir_entries = wal_image crc uuid (frame crc r) 0 1 (pre @ [(now, [])]), dir_unreadable = (\<lambda>_. False)\<rparr> uuid
    = Inr (runs_log pre, Some (LsnGap (of_nat (length pre)) (1 + of_nat (length (runs_log pre))) (wr_lsn r)))"
proof -
  let ?runs = "pre @ [(now, [])]" and ?L = "1 + of_nat (length (runs_log pre)) :: u64"
  let ?d = "\<lparr>dir_entries = wal_image crc uuid (frame crc r) 0 1 ?runs, dir_unreadable = (\<lambda>_. False)\<rparr>"
  let ?infos = "image_infos crc uuid (frame crc r) 0 1 ?runs"
  have img: "holds_image crc ?d uuid (frame crc r) 0 1 ?runs" by (rule holds_image_self [OF uuid]) (use few in simp)
  have num': "numbered 1 (concat (map snd ?runs))" using num by simp
  have log: "log_from crc ?d (frame crc r) 1 ?infos"
    by (rule image_infos_read [OF uuid _ holds_image_read [OF img] num']) (use few in simp_all)
  have "\<exists>rd'. reader_drain crc ?d (reader_start (map fst ?infos) 1)
      = (log_items ?infos, Some (LsnGap (of_nat (length pre)) ?L (wr_lsn r)), rd') \<and>
    rdr_expected_next_lsn rd' = ?L \<and> rdr_segments rd' = map fst ?infos"
  proof (rule drain_log_with [OF reader_start_image _ log])
    fix i bs c rd
    assume a: "reader_in (map fst ?infos) i bs c ?L rd" "length (map fst ?infos) = i + 1" "drop c bs = frame crc r"
    have "map fst ?infos ! i = fst (last ?infos)"
      using a(2) by (simp add: last_conv_nth image_infos_snoc nth_append)
    then have "si_segment_seq (map fst ?infos ! i) = of_nat (length pre)"
      by (simp add: image_infos_snoc segment_info_of_def)
    then show "\<exists>rd'. reader_drain crc ?d rd = ([], Some (LsnGap (of_nat (length pre)) ?L (wr_lsn r)), rd') \<and>
        rdr_expected_next_lsn rd' = ?L \<and> rdr_segments rd' = map fst ?infos"
      using drain_wrong_lsn [OF a(1,3) r] by simp
  qed (simp_all add: image_infos_snoc log_records_def image_infos_records [unfolded log_records_def])
  then show ?thesis
    using reader_open_image [OF img] by (auto simp: read_all_def log_items_records image_infos_records)
qed

lemma image_recovers:
  assumes img: "holds_image sum_crc d sample_uuid tail 0 1 (pre @ [(now, rs)])" and log: "log = runs_log (pre @ [(now, rs)])"
    and num: "numbered 1 log" and short: "length log < 2 ^ 63" and tail: "\<not> is_record (decode_one sum_crc tail)"
      "tail_verdict sum_crc (of_nat (length pre)) (1 + of_nat (length log)) tail = None" and replay: "replayable log"
  obtains rep al a' s' where "recover sum_crc (\<lambda>_. (7, io_all_ok)) in_memory_metadata_sink d
      sample_uuid sample_arena sample_sink = Some (Inr (rep, al), a', s')"
proof -
  let ?infos = "image_infos sum_crc sample_uuid tail 0 1 (pre @ [(now, rs)])"
  let ?items = "log_items ?infos" and ?D = "ms_durable_lsn in_memory_metadata_sink sample_sink"
  have recs: "map fst ?items = log" by (simp add: log log_items_records image_infos_records)
  obtain rd' where drain: "reader_drain sum_crc d (reader_start (map fst ?infos) 1) = (?items, None, rd')"
    using drain_image [OF img _ num [unfolded log] tail(1)] tail(2) log by auto
  have sorted: "sorted_wrt (<) (map (wr_lsn \<circ> fst) ?items)"
    using numbered_sorted [OF num] short unfolding map_map [symmetric] recs by simp
  have facts: "decodable ?D ?items" "bounded (decoded ?D ?items)" "\<forall>x \<in> set (decoded ?D ?items). applicable (snd x)"
    using replayableD [of ?items, unfolded recs, OF replay] by (simp_all only: sample_durable)
  have grow: "\<forall>l. growable ((\<lambda>_. (7, io_all_ok)) l)" by (simp add: growable_def io_all_ok_def)
  show thesis
    using recover_replays [where env = "\<lambda>_. (7, io_all_ok)", OF reader_open_image [OF img] drain sorted facts
        sample_arena_facts(2) grow accepting_in_memory refl] that by auto
qed

lemma sample_image: "holds_image sum_crc (one_segment sample_log) sample_uuid [] 0 1 ([] @ [(100, sample_log)])"
  using holds_image_self [of sample_uuid 0 "[(100, sample_log)]" sum_crc "[]" 1]
  by (simp add: one_segment_def sample_uuid_def)

lemma sample_recovers:
  obtains rep al a' s' where "recover sum_crc (\<lambda>_. (7, io_all_ok)) in_memory_metadata_sink (one_segment sample_log)
      sample_uuid sample_arena sample_sink = Some (Inr (rep, al), a', s')"
  by (rule image_recovers [OF sample_image _ sample_log_numbered _ not_record_empty _ sample_log_replayable])
    (simp_all add: sample_log_def tail_verdict_empty)

section \<open>Properties\<close>

text \<open>The report. The counts of \<open>recover\<close> are those of the specification: records replayed,
  skipped because they are already durable or flagged as events, and discarded with an aborted or
  unclosed bracket. The next LSN and the tail offset point just behind a prefix of the log that
  ends outside every bracket; what follows that prefix starts with the begin of an unclosed bracket
  and contains nothing that was applied.\<close>

theorem recover_report_exact:
  assumes "reader_open crc d uuid = Inr rd" and "reader_drain crc d rd = (items, None, rd')"
    and "sorted_wrt (<) (map (wr_lsn \<circ> fst) items)" and "decodable (ms_durable_lsn S s) items"
    and "bounded (decoded (ms_durable_lsn S s) items)"
    and "recover crc env S d uuid a s = Some (Inr (rep, al), a', s')"
  shows "rep_records_replayed rep = of_nat (length (committed (decoded (ms_durable_lsn S s) items))) \<and>
    rep_records_skipped rep = of_nat (length items - length (decoded (ms_durable_lsn S s) items)) \<and>
    rep_records_discarded rep = of_nat (discarded (decoded (ms_durable_lsn S s) items)) \<and>
    al = rebuild_from_arena a' \<and>
    (\<exists>good rest. items = good @ rest \<and> report_tail (ms_durable_lsn S s) (reader_active_segment_seq rd) good rep \<and>
      committed (decoded (ms_durable_lsn S s) good) = committed (decoded (ms_durable_lsn S s) items) \<and>
      list_all is_dropped (units (decoded (ms_durable_lsn S s) rest)) \<and>
      (rest = [] \<or> opens_txn (ms_durable_lsn S s) (hd rest)))"
proof -
  obtain good st where r: "recovered crc env S (ms_durable_lsn S s) (a, s) items good st"
    "rep = recover_report (reader_active_segment_seq rd) st" by (rule recover_reported [OF assms])
  have "al = rebuild_from_arena a'"
    using assms(6) by (auto simp: recover_def Let_def split: sum.splits option.splits)
  with recovered_all [OF r(1)] recovered_report_tail [OF r(1)] recovered_skipped [OF r(1)] r(2) show ?thesis
    by metis
qed

theorem recover_report_exact_witness:
  "\<exists>rep al a' s'. recover sum_crc (\<lambda>_. (7, io_all_ok)) in_memory_metadata_sink (one_segment sample_log) sample_uuid
      sample_arena sample_sink = Some (Inr (rep, al), a', s') \<and>
    rep_records_replayed rep = 4 \<and> rep_records_skipped rep = 0 \<and> rep_records_discarded rep = 2"
proof (rule sample_drained)
  fix rd rd'
  let ?items = "items_at 0 WAL_SEGMENT_HEADER_LEN sample_log" and ?D = "ms_durable_lsn in_memory_metadata_sink sample_sink"
  assume r: "reader_open sum_crc (one_segment sample_log) sample_uuid = Inr rd"
    "reader_drain sum_crc (one_segment sample_log) rd = (?items, None, rd')"
    "sorted_wrt (<) (map (wr_lsn \<circ> fst) ?items)" "decodable 0 ?items" "bounded (decoded 0 ?items)"
    "\<forall>x \<in> set (decoded 0 ?items). applicable (snd x)" "decoded 0 ?items = log_entries sample_log"
  have facts: "decodable ?D ?items" "bounded (decoded ?D ?items)" "\<forall>x \<in> set (decoded ?D ?items). applicable (snd x)"
    and eq: "decoded ?D ?items = log_entries sample_log"
    using r(4-7) by (simp_all only: sample_durable)
  obtain rep al a' s' where ok: "recover sum_crc (\<lambda>_. (7, io_all_ok)) in_memory_metadata_sink (one_segment sample_log)
      sample_uuid sample_arena sample_sink = Some (Inr (rep, al), a', s')" by (rule sample_recovers)
  have "length ?items = length sample_log" by (metis length_map map_fst_items_at)
  then have "length ?items = 6" by (simp add: sample_log_def)
  moreover have "length (log_entries sample_log) = 6" unfolding sample_log_entries by simp
  moreover have "length (committed (log_entries sample_log)) = 4" "discarded (log_entries sample_log) = 2"
    unfolding committed_def discarded_def sample_log_units by simp_all
  ultimately show ?thesis
    using recover_report_exact [OF r(1-3) facts(1,2) ok] ok unfolding eq by auto
qed



text \<open>A bracket across a rollover. If the discarded bracket began before the active segment, recovery
  and reopening still succeed, but the active segment keeps its starting LSN while appends resume at
  the LSN of the discarded begin. Whatever record is written next, reading the directory back stops
  with an LSN gap in front of it: the record is lost although it was written where the WAL resumed.\<close>

theorem reopen_straddling_bracket:
  assumes "holds_image crc d uuid tail 0 1 (pre @ [(now, rs)])" and "log = runs_log (pre @ [(now, rs)])"
    and "numbered 1 log" and "length log < 2 ^ 63"
    and "\<not> is_record (decode_one crc tail)"
    and "tail_verdict crc (of_nat (length pre)) (1 + of_nat (length log)) tail = None"
    and "replayable log" and "ms_durable_lsn S s = 0"
    and "recover crc env S d uuid a s = Some (Inr (rep, al), a', s')"
    and "rep_next_lsn rep \<le> of_nat (length (runs_log pre))" and "io_sync_ok io"
  shows "\<exists>w cm bs. wal_open_existing crc io d uuid (rep_next_lsn rep) (rep_active_tail_offset rep) config = Inr w \<and>
    w_segment w = Open cm bs \<and>
    (\<forall>r. fits r \<longrightarrow> read_all crc \<lparr>dir_entries = w_closed w @ [(segment_path (w_active_segment_seq w),
          seg_file (cm_segment cm) @ frame crc (r\<lparr>wr_lsn := w_next_lsn w\<rparr>))], dir_unreadable = (\<lambda>_. False)\<rparr> uuid
      = Inr (runs_log pre, Some (LsnGap (of_nat (length pre)) (1 + of_nat (length (runs_log pre))) (w_next_lsn w))))"
proof -
  let ?P = "log_items (image_infos crc uuid [] 0 1 pre)" and ?l = "1 + of_nat (length (runs_log pre)) :: u64"
  have room: "length uuid = 16" "length pre < 10 ^ 10" using assms(1) by (simp_all add: holds_image_def)
  obtain good rest where r: "good @ rest = log_items (image_infos crc uuid tail 0 1 (pre @ [(now, rs)]))"
    "report_tail 0 (Some (of_nat (length pre))) good rep" "rep_next_lsn rep = 1 + of_nat (length good)"
    using recover_image [OF assms(1)] assms(2-9) by metis
  have "length good \<le> length log"
    using arg_cong [OF r(1), of "length \<circ> map fst"] assms(2) by (simp add: log_items_records image_infos_records)
  then have next_nat: "unat (rep_next_lsn rep) = 1 + length good"
    using r(3) assms(4) unat_of_nat_u64 [of "1 + length good"] by simp
  have pre_nat: "unat (of_nat (length (runs_log pre)) :: u64) = length (runs_log pre)"
    using assms(2,4) by (intro unat_of_nat_u64) simp
  have before: "length good < length (runs_log pre)"
    using assms(10) next_nat pre_nat by (simp add: word_le_nat_alt)
  have "length ?P = length (runs_log pre)"
    by (metis image_infos_records length_map log_items_records)
  then have "good = take (length good) ?P"
    using before r(1) unfolding image_items_snoc by (metis append_eq_append_conv_if less_imp_le_nat)
  then have "set good \<subseteq> set ?P" by (metis set_take_subset)
  then have off: "rep_active_tail_offset rep = WAL_SEGMENT_HEADER_LEN"
    by (rule report_offset_before [OF r(2) _ room(2)])
  have gap: "rep_next_lsn rep \<noteq> ?l"
  proof
    assume "rep_next_lsn rep = ?l"
    moreover have "unat ?l = 1 + length (runs_log pre)"
      using assms(2,4) unat_of_nat_u64 [of "1 + length (runs_log pre)"] by simp
    ultimately show False using before next_nat by simp
  qed
  have num: "numbered 1 (runs_log (pre @ [(now, [] @ rs)]))" using assms(2,3) by simp
  note opened = reopen_image [where kept = "[]" and gone = rs, unfolded append_Nil, OF assms(1) num [unfolded append_Nil]
      assms(11), of "rep_next_lsn rep" config]
  have "numbered 1 (runs_log pre)" using num by (simp add: numbered_append)
  note unread = read_wrong_lsn [OF room this, where now = now]
  show ?thesis
    unfolding off using opened unread gap
    by (auto simp: wal_image_snoc segment_file_def committer_start_def open_for_append_def fits_def)
qed

text \<open>A bracket that begins in one segment and is left open in the next.\<close>

definition straddling_runs :: "segment_run list" where
  "straddling_runs = [(100, [typed_entry 1 sample_begin])]"

definition straddling_dir :: wal_dir where
  "straddling_dir = \<lparr>dir_entries = wal_image sum_crc sample_uuid [] 0 1
     (straddling_runs @ [(200, [typed_entry 2 (Forget (sample_forget 0))])]), dir_unreadable = (\<lambda>_. False)\<rparr>"

lemma straddling_not_closed:
  assumes "xs \<noteq> []" and "prefix xs [(typed_entry 1 sample_begin, sample_begin),
      (typed_entry 2 (Forget (sample_forget 0)), Forget (sample_forget 0))]"
  shows "\<not> closed_log xs"
proof -
  have "open_buffer sample_txn 1 xs" using assms by (auto simp: prefix_Cons)
  note u = units_open(1) [OF this] units_open(2) [OF this, of "(typed_entry 3 sample_commit, sample_commit)" "[]"]
  show ?thesis
  proof
    assume "closed_log xs"
    from closed_log_units [OF this, of "[(typed_entry 3 sample_commit, sample_commit)]"] u show False by simp
  qed
qed

theorem reopen_straddling_bracket_witness:
  "\<exists>(rep :: recovery_report) w cm bs. wal_open_existing sum_crc io_fine straddling_dir sample_uuid
      (rep_next_lsn rep) (rep_active_tail_offset rep) default_wal_config = Inr w \<and> w_segment w = Open cm bs \<and>
    read_all sum_crc \<lparr>dir_entries = w_closed w @ [(segment_path (w_active_segment_seq w),
        seg_file (cm_segment cm) @ frame sum_crc (sample_record\<lparr>wr_lsn := w_next_lsn w\<rparr>))], dir_unreadable = (\<lambda>_. False)\<rparr>
      sample_uuid = Inr ([typed_entry 1 sample_begin], Some (LsnGap 1 2 (w_next_lsn w)))"
proof -
  let ?last = "(200, [typed_entry 2 (Forget (sample_forget 0))])"
  let ?log = "[typed_entry 1 sample_begin, typed_entry 2 (Forget (sample_forget 0))]"
  have img: "holds_image sum_crc straddling_dir sample_uuid [] 0 1 (straddling_runs @ [?last])"
    using holds_image_self [of sample_uuid 0 "straddling_runs @ [?last]" sum_crc "[]" 1]
    by (simp add: straddling_dir_def sample_uuid_def straddling_runs_def)
  have log: "?log = runs_log (straddling_runs @ [?last])" and num: "numbered 1 ?log" and short: "length ?log < 2 ^ 63"
    by (simp_all add: straddling_runs_def sample_entries sample_fits)
  have entries: "log_entries ?log = [(typed_entry 1 sample_begin, sample_begin),
      (typed_entry 2 (Forget (sample_forget 0)), Forget (sample_forget 0))]"
    by (simp add: log_entries_def live_def sample_entries)
  have replay: "replayable ?log"
    unfolding replayable_def bounded_def entries by (simp add: units.simps(2) sample_entries)
  have verdict: "tail_verdict sum_crc (of_nat (length straddling_runs)) (1 + of_nat (length ?log)) [] = None"
    by (simp add: tail_verdict_empty)
  obtain rep al a' s' where ok: "recover sum_crc (\<lambda>_. (7, io_all_ok)) in_memory_metadata_sink straddling_dir
      sample_uuid sample_arena sample_sink = Some (Inr (rep, al), a', s')"
    by (rule image_recovers [OF img log num short not_record_empty verdict replay])
  obtain good rest where g: "good @ rest = log_items (image_infos sum_crc sample_uuid [] 0 1 (straddling_runs @ [?last]))"
    "rep_next_lsn rep = 1 + of_nat (length good)" "closed_log (log_entries (map fst good))"
    using recover_image [OF img] log num short not_record_empty verdict replay sample_durable ok by metis
  have "map fst good @ map fst rest = ?log"
    using arg_cong [OF g(1), of "map fst"] log by (simp add: log_items_records image_infos_records)
  then have "prefix (log_entries (map fst good)) (log_entries ?log)"
    by (metis log_entries_def filter_append map_append prefixI)
  then have "log_entries (map fst good) = []" using straddling_not_closed g(3) entries by metis
  moreover have "set (map fst good) \<subseteq> set ?log" using \<open>map fst good @ map fst rest = ?log\<close> by (metis set_append sup_ge1)
  moreover have "\<forall>r \<in> set ?log. live 0 r" by (simp add: live_def sample_entries)
  ultimately have "filter (live 0) (map fst good) = map fst good" "log_entries (map fst good) = []"
    by (auto intro!: filter_True simp del: set_map)
  then have "good = []" by (simp add: log_entries_def)
  then have le: "rep_next_lsn rep \<le> of_nat (length (runs_log straddling_runs))"
    using g(2) by (simp add: straddling_runs_def)
  have fine: "io_sync_ok io_fine" by (simp add: io_fine_def)
  show ?thesis
    using reopen_straddling_bracket [OF img log num short not_record_empty verdict replay sample_durable ok le fine,
        of default_wal_config] fits_sample(2)
    by (simp add: straddling_runs_def) blast
qed

end
