(* ===== verification/Proto_Error.thy ===== *)
theory Proto_Error
  imports Brain_Prelude
begin

text \<open>
  The error taxonomy of the wire protocol (\<open>brain-protocol/src/error.rs\<close>): the nine categories with
  the retry rule, the error codes with their category, and the codec's own error type with its code.
  The codes are grouped by the sections of the Rust enum, one small datatype per section.
\<close>

section \<open>Categories and codes\<close>

datatype error_category =
    Cat_Protocol | Cat_Authentication | Cat_Authorization | Cat_Validation | Cat_NotFound
  | Cat_Conflict | Cat_ResourceExhausted | Cat_Internal | Cat_Unavailable

definition is_retryable :: "error_category \<Rightarrow> bool" where
  "is_retryable c \<longleftrightarrow> c \<in> {Cat_ResourceExhausted, Cat_Internal, Cat_Unavailable}"

datatype protocol_code =
    E_BadMagic | E_BadHeaderCrc | E_BadPayloadCrc | E_BadOpcode | E_BadVersion | E_BadFrame
  | E_OversizePayload | E_ReservedFieldNonZero | E_BadFlagCombination | E_MalformedPayload
  | E_MalformedVector

datatype handshake_code =
    E_VersionNotSupported | E_NoSuchAuthMethod | E_Unauthenticated | E_NotAuthenticated
  | E_AuthBackendUnavailable | E_SessionExpired

datatype authorization_code =
    E_PermissionDenied | E_AdminPermissionRequired | E_WrongShard | E_ActAsDenied

datatype validation_code =
    E_InvalidArgument | E_MissingRequiredField | E_TextTooLarge | E_TextEmpty | E_BadSessionId
  | E_BadMemoryKind | E_BadEdgeKind | E_BadStrategyHint | E_TopKOutOfRange | E_BudgetTooLarge
  | E_BadModelFingerprint | E_PredicateNotInSchema | E_RelationTypeNotInSchema

datatype not_found_code =
    E_MemoryNotFound | E_ContextNotFound | E_SubscriptionNotFound | E_SnapshotNotFound
  | E_TxnNotFound

datatype conflict_code =
    E_IdempotencyConflict | E_TransactionConflict | E_TransactionTimeout | E_StreamIdInUse
  | E_SubscriptionLsnTooOld | E_CardinalityViolation | E_LlmCredentialMissing

datatype exhausted_code =
    E_OutOfSlots | E_OutOfDisk | E_OutOfMemory | E_RateLimited | E_StreamLimitExceeded
  | E_ConnectionLimitExceeded | E_TransactionLimitExceeded | E_TransactionTooLarge

datatype internal_code =
    E_Internal | E_StorageError | E_IndexError | E_EmbeddingError | E_MetadataError | E_Cancelled

datatype unavailable_code =
    E_ShardUnavailable | E_Overloaded | E_Restarting | E_Maintenance | E_RetrieverDegraded
  | E_LlmCredentialUnavailable

datatype graph_code =
    E_SchemaInvalid | E_SchemaMigrationRequired | E_EntityNotFound | E_EntityTypeMismatch
  | E_EntityAmbiguous | E_EntityMergeConflict | E_StatementNotFound
  | E_StatementObjectTypeMismatch | E_StatementContradictsExisting | E_QueryTimeout
  | E_QueryOverBudget | E_ExtractorDisabled | E_ExtractorBudgetExceeded | E_ExtractionFailed

datatype error_code =
    Ec_Protocol protocol_code | Ec_Handshake handshake_code | Ec_Authorization authorization_code
  | Ec_Validation validation_code | Ec_NotFound not_found_code | Ec_Conflict conflict_code
  | Ec_Exhausted exhausted_code | Ec_Internal internal_code | Ec_Unavailable unavailable_code
  | Ec_Graph graph_code

fun handshake_category :: "handshake_code \<Rightarrow> error_category" where
  "handshake_category E_VersionNotSupported = Cat_Protocol"
| "handshake_category E_NoSuchAuthMethod = Cat_Protocol"
| "handshake_category E_Unauthenticated = Cat_Authentication"
| "handshake_category E_NotAuthenticated = Cat_Authentication"
| "handshake_category E_AuthBackendUnavailable = Cat_Authentication"
| "handshake_category E_SessionExpired = Cat_Authentication"

fun graph_category :: "graph_code \<Rightarrow> error_category" where
  "graph_category E_SchemaInvalid = Cat_Validation"
| "graph_category E_SchemaMigrationRequired = Cat_Conflict"
| "graph_category E_EntityNotFound = Cat_NotFound"
| "graph_category E_EntityTypeMismatch = Cat_Validation"
| "graph_category E_EntityAmbiguous = Cat_Conflict"
| "graph_category E_EntityMergeConflict = Cat_Conflict"
| "graph_category E_StatementNotFound = Cat_NotFound"
| "graph_category E_StatementObjectTypeMismatch = Cat_Validation"
| "graph_category E_StatementContradictsExisting = Cat_Conflict"
| "graph_category E_QueryTimeout = Cat_Unavailable"
| "graph_category E_QueryOverBudget = Cat_ResourceExhausted"
| "graph_category E_ExtractorDisabled = Cat_Conflict"
| "graph_category E_ExtractorBudgetExceeded = Cat_ResourceExhausted"
| "graph_category E_ExtractionFailed = Cat_Internal"

fun error_code_category :: "error_code \<Rightarrow> error_category" where
  "error_code_category (Ec_Protocol c) = Cat_Protocol"
| "error_code_category (Ec_Handshake c) = handshake_category c"
| "error_code_category (Ec_Authorization c) = Cat_Authorization"
| "error_code_category (Ec_Validation c) = Cat_Validation"
| "error_code_category (Ec_NotFound c) = Cat_NotFound"
| "error_code_category (Ec_Conflict c) = Cat_Conflict"
| "error_code_category (Ec_Exhausted c) = Cat_ResourceExhausted"
| "error_code_category (Ec_Internal c) = Cat_Internal"
| "error_code_category (Ec_Unavailable c) = Cat_Unavailable"
| "error_code_category (Ec_Graph c) = graph_category c"

section \<open>Codec errors\<close>

datatype protocol_error =
    Pe_BadMagic
  | Pe_BadVersion u8 u8
  | Pe_BadHeaderCrc
  | Pe_BadPayloadCrc
  | Pe_OversizePayload u32 u32
  | Pe_ReservedFieldNonZero
  | UnknownOpcode u16
  | Pe_Truncated nat nat
  | Pe_BadFrame string
  | Pe_BadFlagCombination string
  | Pe_MalformedPayload string

fun protocol_error_code :: "protocol_error \<Rightarrow> error_code" where
  "protocol_error_code Pe_BadMagic = Ec_Protocol E_BadMagic"
| "protocol_error_code (Pe_BadVersion got expected) = Ec_Protocol E_BadVersion"
| "protocol_error_code Pe_BadHeaderCrc = Ec_Protocol E_BadHeaderCrc"
| "protocol_error_code Pe_BadPayloadCrc = Ec_Protocol E_BadPayloadCrc"
| "protocol_error_code (Pe_OversizePayload len max_len) = Ec_Protocol E_OversizePayload"
| "protocol_error_code Pe_ReservedFieldNonZero = Ec_Protocol E_ReservedFieldNonZero"
| "protocol_error_code (UnknownOpcode v) = Ec_Protocol E_BadOpcode"
| "protocol_error_code (Pe_Truncated have_len need) = Ec_Protocol E_BadFrame"
| "protocol_error_code (Pe_BadFrame why) = Ec_Protocol E_BadFrame"
| "protocol_error_code (Pe_BadFlagCombination why) = Ec_Protocol E_BadFlagCombination"
| "protocol_error_code (Pe_MalformedPayload why) = Ec_Protocol E_MalformedPayload"

definition protocol_error_category :: "protocol_error \<Rightarrow> error_category" where
  "protocol_error_category e = error_code_category (protocol_error_code e)"

lemma protocol_errors_not_retried: "\<not> is_retryable (protocol_error_category e)"
  by (cases e) (simp_all add: protocol_error_category_def is_retryable_def)

end
