(* ===== verification/Proto_Opcode.thy ===== *)
theory Proto_Opcode
  imports Proto_Error
begin

text \<open>
  The wire opcodes (\<open>brain-protocol/src/codec/opcode.rs\<close>). The Rust enum has 158 variants; here they
  are grouped by the sections of the enum, one small datatype per section, with the variants' names
  and values unchanged. \<open>opcode_as_u16\<close> is the discriminant, \<open>opcode_from_u16\<close> the match of
  \<open>from_u16\<close> arm by arm.
  The lemmas show that the table inverts the discriminants and assigns no value twice, that the
  direction bit pairs every response with its request, and which opcodes the administrative and the
  connection-level predicates select.
\<close>

section \<open>Opcodes\<close>

datatype connection_opcode =
    O_Hello | O_Welcome | O_Auth | O_AuthOk | O_Ping | O_Pong | O_ServerPing | O_ClientPong
  | O_Bye

datatype cognitive_opcode =
    O_EncodeReq | O_EncodeResp | O_RecallReq | O_RecallResp | O_PlanReq | O_PlanResp | O_ReasonReq
  | O_ReasonResp | O_ForgetReq | O_ForgetResp | O_LinkReq | O_LinkResp | O_UnlinkReq
  | O_UnlinkResp | O_MemoryListReq | O_MemoryListResp | O_MemoryInspectReq | O_MemoryInspectResp
  | O_EncodeVectorDirectReq | O_EncodeVectorDirectResp

datatype subscription_opcode =
    O_SubscribeReq | O_SubscribeEvent | O_UnsubscribeReq | O_UnsubscribeResp
  | O_GetCapabilitiesReq | O_GetCapabilitiesResp

datatype transaction_opcode =
    O_TxnBegin | O_TxnBeginResp | O_TxnCommit | O_TxnCommitResp | O_TxnAbort | O_TxnAbortResp

datatype stream_opcode =
    O_CancelStream | O_CancelStreamAck

datatype admin_opcode =
    O_AdminStatsReq | O_AdminStatsResp | O_AdminSnapshotReq | O_AdminSnapshotResp
  | O_AdminRestoreReq | O_AdminRestoreResp | O_AdminIntegrityCheckReq
  | O_AdminIntegrityCheckResp | O_AdminMigrateEmbeddingsReq | O_AdminMigrateEmbeddingsResp
  | O_AdminCreateSessionReq | O_AdminCreateSessionResp | O_AdminRenameSessionReq
  | O_AdminRenameSessionResp | O_AdminMoveMemoryReq | O_AdminMoveMemoryResp
  | O_AdminReclassifyReq | O_AdminReclassifyResp | O_AdminListTombstonedReq
  | O_AdminListTombstonedResp | O_AdminTokenizeReq | O_AdminTokenizeResp
  | O_AdminRegisterModelReq | O_AdminRegisterModelResp | O_AdminAbortMigrationReq
  | O_AdminAbortMigrationResp | O_AdminRetireFingerprintReq | O_AdminRetireFingerprintResp
  | O_AdminBackfillReq | O_AdminBackfillResp | O_AdminBackfillCancelReq
  | O_AdminBackfillCancelResp

datatype registry_opcode =
    O_SpaceCreateReq | O_SpaceCreateResp | O_SpaceListReq | O_SpaceListResp | O_SpaceDeleteReq
  | O_SpaceDeleteResp | O_SessionCreateReq | O_SessionCreateResp | O_SessionListReq
  | O_SessionListResp | O_SessionDeleteReq | O_SessionDeleteResp

datatype schema_opcode =
    O_SchemaUploadReq | O_SchemaUploadResp | O_SchemaGetReq | O_SchemaGetResp | O_SchemaListReq
  | O_SchemaListResp | O_SchemaValidateReq | O_SchemaValidateResp | O_ExtractorListReq
  | O_ExtractorListResp | O_SchemaDropReq | O_SchemaDropResp | O_SchemaReplaceReq
  | O_SchemaReplaceResp

datatype entity_opcode =
    O_EntityCreateReq | O_EntityCreateResp | O_EntityGetReq | O_EntityGetResp | O_EntityUpdateReq
  | O_EntityUpdateResp | O_EntityRenameReq | O_EntityRenameResp | O_EntityMergeReq
  | O_EntityMergeResp | O_EntityUnmergeReq | O_EntityUnmergeResp | O_EntityResolveReq
  | O_EntityResolveResp | O_EntityListReq | O_EntityListResp | O_EntityTombstoneReq
  | O_EntityTombstoneResp

datatype statement_opcode =
    O_StatementCreateReq | O_StatementCreateResp | O_StatementGetReq | O_StatementGetResp
  | O_StatementSupersedeReq | O_StatementSupersedeResp | O_StatementTombstoneReq
  | O_StatementTombstoneResp | O_StatementRetractReq | O_StatementRetractResp
  | O_StatementHistoryReq | O_StatementHistoryResp | O_StatementListReq | O_StatementListResp

datatype relation_opcode =
    O_RelationCreateReq | O_RelationCreateResp | O_RelationGetReq | O_RelationGetResp
  | O_RelationSupersedeReq | O_RelationSupersedeResp | O_RelationTombstoneReq
  | O_RelationTombstoneResp | O_RelationListFromReq | O_RelationListFromResp
  | O_RelationListToReq | O_RelationListToResp | O_RelationTraverseReq | O_RelationTraverseResp

datatype query_opcode =
    O_QueryExplainReq | O_QueryExplainResp | O_QueryTraceReq | O_QueryTraceResp | O_GraphFetchReq
  | O_GraphFetchResp | O_MaterializeProceduralReq | O_MaterializeProceduralResp

datatype graph_admin_opcode =
    O_AdminListPendingContradictionsReq | O_AdminListPendingContradictionsResp

datatype opcode =
    Op_Connection connection_opcode | Op_Cognitive cognitive_opcode
  | Op_Subscription subscription_opcode | Op_Transaction transaction_opcode
  | Op_Stream stream_opcode | Op_Admin admin_opcode | Op_Registry registry_opcode
  | Op_Schema schema_opcode | Op_Entity entity_opcode | Op_Statement statement_opcode
  | Op_Relation relation_opcode | Op_Query query_opcode | Op_GraphAdmin graph_admin_opcode
  | O_Error

fun connection_value :: "connection_opcode \<Rightarrow> u16" where
  "connection_value O_Hello = 0x0001"
| "connection_value O_Welcome = 0x0081"
| "connection_value O_Auth = 0x0002"
| "connection_value O_AuthOk = 0x0082"
| "connection_value O_Ping = 0x0010"
| "connection_value O_Pong = 0x0090"
| "connection_value O_ServerPing = 0x0091"
| "connection_value O_ClientPong = 0x0011"
| "connection_value O_Bye = 0x001F"

fun cognitive_value :: "cognitive_opcode \<Rightarrow> u16" where
  "cognitive_value O_EncodeReq = 0x0020"
| "cognitive_value O_EncodeResp = 0x00A0"
| "cognitive_value O_RecallReq = 0x0021"
| "cognitive_value O_RecallResp = 0x00A1"
| "cognitive_value O_PlanReq = 0x0022"
| "cognitive_value O_PlanResp = 0x00A2"
| "cognitive_value O_ReasonReq = 0x0023"
| "cognitive_value O_ReasonResp = 0x00A3"
| "cognitive_value O_ForgetReq = 0x0024"
| "cognitive_value O_ForgetResp = 0x00A4"
| "cognitive_value O_LinkReq = 0x0025"
| "cognitive_value O_LinkResp = 0x00A5"
| "cognitive_value O_UnlinkReq = 0x0026"
| "cognitive_value O_UnlinkResp = 0x00A6"
| "cognitive_value O_MemoryListReq = 0x0027"
| "cognitive_value O_MemoryListResp = 0x00A7"
| "cognitive_value O_MemoryInspectReq = 0x0028"
| "cognitive_value O_MemoryInspectResp = 0x00A8"
| "cognitive_value O_EncodeVectorDirectReq = 0x002A"
| "cognitive_value O_EncodeVectorDirectResp = 0x00AA"

fun subscription_value :: "subscription_opcode \<Rightarrow> u16" where
  "subscription_value O_SubscribeReq = 0x0030"
| "subscription_value O_SubscribeEvent = 0x00B0"
| "subscription_value O_UnsubscribeReq = 0x0031"
| "subscription_value O_UnsubscribeResp = 0x00B1"
| "subscription_value O_GetCapabilitiesReq = 0x0032"
| "subscription_value O_GetCapabilitiesResp = 0x00B2"

fun transaction_value :: "transaction_opcode \<Rightarrow> u16" where
  "transaction_value O_TxnBegin = 0x0040"
| "transaction_value O_TxnBeginResp = 0x00C0"
| "transaction_value O_TxnCommit = 0x0041"
| "transaction_value O_TxnCommitResp = 0x00C1"
| "transaction_value O_TxnAbort = 0x0042"
| "transaction_value O_TxnAbortResp = 0x00C2"

fun stream_value :: "stream_opcode \<Rightarrow> u16" where
  "stream_value O_CancelStream = 0x0050"
| "stream_value O_CancelStreamAck = 0x00D0"

fun admin_value :: "admin_opcode \<Rightarrow> u16" where
  "admin_value O_AdminStatsReq = 0x0060"
| "admin_value O_AdminStatsResp = 0x00E0"
| "admin_value O_AdminSnapshotReq = 0x0061"
| "admin_value O_AdminSnapshotResp = 0x00E1"
| "admin_value O_AdminRestoreReq = 0x0062"
| "admin_value O_AdminRestoreResp = 0x00E2"
| "admin_value O_AdminIntegrityCheckReq = 0x0063"
| "admin_value O_AdminIntegrityCheckResp = 0x00E3"
| "admin_value O_AdminMigrateEmbeddingsReq = 0x0064"
| "admin_value O_AdminMigrateEmbeddingsResp = 0x00E4"
| "admin_value O_AdminCreateSessionReq = 0x0065"
| "admin_value O_AdminCreateSessionResp = 0x00E5"
| "admin_value O_AdminRenameSessionReq = 0x0066"
| "admin_value O_AdminRenameSessionResp = 0x00E6"
| "admin_value O_AdminMoveMemoryReq = 0x0067"
| "admin_value O_AdminMoveMemoryResp = 0x00E7"
| "admin_value O_AdminReclassifyReq = 0x0068"
| "admin_value O_AdminReclassifyResp = 0x00E8"
| "admin_value O_AdminListTombstonedReq = 0x0069"
| "admin_value O_AdminListTombstonedResp = 0x00E9"
| "admin_value O_AdminTokenizeReq = 0x006A"
| "admin_value O_AdminTokenizeResp = 0x00EA"
| "admin_value O_AdminRegisterModelReq = 0x006B"
| "admin_value O_AdminRegisterModelResp = 0x00EB"
| "admin_value O_AdminAbortMigrationReq = 0x006C"
| "admin_value O_AdminAbortMigrationResp = 0x00EC"
| "admin_value O_AdminRetireFingerprintReq = 0x006D"
| "admin_value O_AdminRetireFingerprintResp = 0x00ED"
| "admin_value O_AdminBackfillReq = 0x006E"
| "admin_value O_AdminBackfillResp = 0x00EE"
| "admin_value O_AdminBackfillCancelReq = 0x006F"
| "admin_value O_AdminBackfillCancelResp = 0x00EF"

fun registry_value :: "registry_opcode \<Rightarrow> u16" where
  "registry_value O_SpaceCreateReq = 0x0070"
| "registry_value O_SpaceCreateResp = 0x00F0"
| "registry_value O_SpaceListReq = 0x0071"
| "registry_value O_SpaceListResp = 0x00F1"
| "registry_value O_SpaceDeleteReq = 0x0072"
| "registry_value O_SpaceDeleteResp = 0x00F2"
| "registry_value O_SessionCreateReq = 0x0073"
| "registry_value O_SessionCreateResp = 0x00F3"
| "registry_value O_SessionListReq = 0x0074"
| "registry_value O_SessionListResp = 0x00F4"
| "registry_value O_SessionDeleteReq = 0x0075"
| "registry_value O_SessionDeleteResp = 0x00F5"

fun schema_value :: "schema_opcode \<Rightarrow> u16" where
  "schema_value O_SchemaUploadReq = 0x0120"
| "schema_value O_SchemaUploadResp = 0x01A0"
| "schema_value O_SchemaGetReq = 0x0121"
| "schema_value O_SchemaGetResp = 0x01A1"
| "schema_value O_SchemaListReq = 0x0122"
| "schema_value O_SchemaListResp = 0x01A2"
| "schema_value O_SchemaValidateReq = 0x0123"
| "schema_value O_SchemaValidateResp = 0x01A3"
| "schema_value O_ExtractorListReq = 0x0124"
| "schema_value O_ExtractorListResp = 0x01A4"
| "schema_value O_SchemaDropReq = 0x0125"
| "schema_value O_SchemaDropResp = 0x01A5"
| "schema_value O_SchemaReplaceReq = 0x0127"
| "schema_value O_SchemaReplaceResp = 0x01A7"

fun entity_value :: "entity_opcode \<Rightarrow> u16" where
  "entity_value O_EntityCreateReq = 0x0130"
| "entity_value O_EntityCreateResp = 0x01B0"
| "entity_value O_EntityGetReq = 0x0131"
| "entity_value O_EntityGetResp = 0x01B1"
| "entity_value O_EntityUpdateReq = 0x0132"
| "entity_value O_EntityUpdateResp = 0x01B2"
| "entity_value O_EntityRenameReq = 0x0133"
| "entity_value O_EntityRenameResp = 0x01B3"
| "entity_value O_EntityMergeReq = 0x0134"
| "entity_value O_EntityMergeResp = 0x01B4"
| "entity_value O_EntityUnmergeReq = 0x0135"
| "entity_value O_EntityUnmergeResp = 0x01B5"
| "entity_value O_EntityResolveReq = 0x0136"
| "entity_value O_EntityResolveResp = 0x01B6"
| "entity_value O_EntityListReq = 0x0137"
| "entity_value O_EntityListResp = 0x01B7"
| "entity_value O_EntityTombstoneReq = 0x0138"
| "entity_value O_EntityTombstoneResp = 0x01B8"

fun statement_value :: "statement_opcode \<Rightarrow> u16" where
  "statement_value O_StatementCreateReq = 0x0140"
| "statement_value O_StatementCreateResp = 0x01C0"
| "statement_value O_StatementGetReq = 0x0141"
| "statement_value O_StatementGetResp = 0x01C1"
| "statement_value O_StatementSupersedeReq = 0x0142"
| "statement_value O_StatementSupersedeResp = 0x01C2"
| "statement_value O_StatementTombstoneReq = 0x0143"
| "statement_value O_StatementTombstoneResp = 0x01C3"
| "statement_value O_StatementRetractReq = 0x0144"
| "statement_value O_StatementRetractResp = 0x01C4"
| "statement_value O_StatementHistoryReq = 0x0145"
| "statement_value O_StatementHistoryResp = 0x01C5"
| "statement_value O_StatementListReq = 0x0146"
| "statement_value O_StatementListResp = 0x01C6"

fun relation_value :: "relation_opcode \<Rightarrow> u16" where
  "relation_value O_RelationCreateReq = 0x0150"
| "relation_value O_RelationCreateResp = 0x01D0"
| "relation_value O_RelationGetReq = 0x0151"
| "relation_value O_RelationGetResp = 0x01D1"
| "relation_value O_RelationSupersedeReq = 0x0152"
| "relation_value O_RelationSupersedeResp = 0x01D2"
| "relation_value O_RelationTombstoneReq = 0x0153"
| "relation_value O_RelationTombstoneResp = 0x01D3"
| "relation_value O_RelationListFromReq = 0x0154"
| "relation_value O_RelationListFromResp = 0x01D4"
| "relation_value O_RelationListToReq = 0x0155"
| "relation_value O_RelationListToResp = 0x01D5"
| "relation_value O_RelationTraverseReq = 0x0156"
| "relation_value O_RelationTraverseResp = 0x01D6"

fun query_value :: "query_opcode \<Rightarrow> u16" where
  "query_value O_QueryExplainReq = 0x0161"
| "query_value O_QueryExplainResp = 0x01E1"
| "query_value O_QueryTraceReq = 0x0162"
| "query_value O_QueryTraceResp = 0x01E2"
| "query_value O_GraphFetchReq = 0x0163"
| "query_value O_GraphFetchResp = 0x01E3"
| "query_value O_MaterializeProceduralReq = 0x0164"
| "query_value O_MaterializeProceduralResp = 0x01E4"

fun graph_admin_value :: "graph_admin_opcode \<Rightarrow> u16" where
  "graph_admin_value O_AdminListPendingContradictionsReq = 0x0178"
| "graph_admin_value O_AdminListPendingContradictionsResp = 0x01F8"

fun opcode_as_u16 :: "opcode \<Rightarrow> u16" where
  "opcode_as_u16 (Op_Connection c) = connection_value c"
| "opcode_as_u16 (Op_Cognitive c) = cognitive_value c"
| "opcode_as_u16 (Op_Subscription c) = subscription_value c"
| "opcode_as_u16 (Op_Transaction c) = transaction_value c"
| "opcode_as_u16 (Op_Stream c) = stream_value c"
| "opcode_as_u16 (Op_Admin c) = admin_value c"
| "opcode_as_u16 (Op_Registry c) = registry_value c"
| "opcode_as_u16 (Op_Schema c) = schema_value c"
| "opcode_as_u16 (Op_Entity c) = entity_value c"
| "opcode_as_u16 (Op_Statement c) = statement_value c"
| "opcode_as_u16 (Op_Relation c) = relation_value c"
| "opcode_as_u16 (Op_Query c) = query_value c"
| "opcode_as_u16 (Op_GraphAdmin c) = graph_admin_value c"
| "opcode_as_u16 O_Error = 0x00FF"

definition OPCODE_TABLE :: "(u16 \<times> opcode) list" where
  "OPCODE_TABLE =
     [
      (0x0001, Op_Connection O_Hello), (0x0081, Op_Connection O_Welcome)
      , (0x0002, Op_Connection O_Auth), (0x0082, Op_Connection O_AuthOk)
      , (0x0010, Op_Connection O_Ping), (0x0090, Op_Connection O_Pong)
      , (0x0091, Op_Connection O_ServerPing), (0x0011, Op_Connection O_ClientPong)
      , (0x001F, Op_Connection O_Bye), (0x0020, Op_Cognitive O_EncodeReq)
      , (0x00A0, Op_Cognitive O_EncodeResp), (0x0021, Op_Cognitive O_RecallReq)
      , (0x00A1, Op_Cognitive O_RecallResp), (0x0022, Op_Cognitive O_PlanReq)
      , (0x00A2, Op_Cognitive O_PlanResp), (0x0023, Op_Cognitive O_ReasonReq)
      , (0x00A3, Op_Cognitive O_ReasonResp), (0x0024, Op_Cognitive O_ForgetReq)
      , (0x00A4, Op_Cognitive O_ForgetResp), (0x0025, Op_Cognitive O_LinkReq)
      , (0x00A5, Op_Cognitive O_LinkResp), (0x0026, Op_Cognitive O_UnlinkReq)
      , (0x00A6, Op_Cognitive O_UnlinkResp), (0x0027, Op_Cognitive O_MemoryListReq)
      , (0x00A7, Op_Cognitive O_MemoryListResp), (0x0028, Op_Cognitive O_MemoryInspectReq)
      , (0x00A8, Op_Cognitive O_MemoryInspectResp), (0x002A, Op_Cognitive O_EncodeVectorDirectReq)
      , (0x00AA, Op_Cognitive O_EncodeVectorDirectResp), (0x0030, Op_Subscription O_SubscribeReq)
      , (0x00B0, Op_Subscription O_SubscribeEvent), (0x0031, Op_Subscription O_UnsubscribeReq)
      , (0x00B1, Op_Subscription O_UnsubscribeResp)
      , (0x0032, Op_Subscription O_GetCapabilitiesReq)
      , (0x00B2, Op_Subscription O_GetCapabilitiesResp), (0x0040, Op_Transaction O_TxnBegin)
      , (0x00C0, Op_Transaction O_TxnBeginResp), (0x0041, Op_Transaction O_TxnCommit)
      , (0x00C1, Op_Transaction O_TxnCommitResp), (0x0042, Op_Transaction O_TxnAbort)
      , (0x00C2, Op_Transaction O_TxnAbortResp), (0x0050, Op_Stream O_CancelStream)
      , (0x00D0, Op_Stream O_CancelStreamAck), (0x0060, Op_Admin O_AdminStatsReq)
      , (0x00E0, Op_Admin O_AdminStatsResp), (0x0061, Op_Admin O_AdminSnapshotReq)
      , (0x00E1, Op_Admin O_AdminSnapshotResp), (0x0062, Op_Admin O_AdminRestoreReq)
      , (0x00E2, Op_Admin O_AdminRestoreResp), (0x0063, Op_Admin O_AdminIntegrityCheckReq)
      , (0x00E3, Op_Admin O_AdminIntegrityCheckResp)
      , (0x0064, Op_Admin O_AdminMigrateEmbeddingsReq)
      , (0x00E4, Op_Admin O_AdminMigrateEmbeddingsResp)
      , (0x0065, Op_Admin O_AdminCreateSessionReq), (0x00E5, Op_Admin O_AdminCreateSessionResp)
      , (0x0066, Op_Admin O_AdminRenameSessionReq), (0x00E6, Op_Admin O_AdminRenameSessionResp)
      , (0x0067, Op_Admin O_AdminMoveMemoryReq), (0x00E7, Op_Admin O_AdminMoveMemoryResp)
      , (0x0068, Op_Admin O_AdminReclassifyReq), (0x00E8, Op_Admin O_AdminReclassifyResp)
      , (0x0069, Op_Admin O_AdminListTombstonedReq), (0x00E9, Op_Admin O_AdminListTombstonedResp)
      , (0x006A, Op_Admin O_AdminTokenizeReq), (0x00EA, Op_Admin O_AdminTokenizeResp)
      , (0x006B, Op_Admin O_AdminRegisterModelReq), (0x00EB, Op_Admin O_AdminRegisterModelResp)
      , (0x006C, Op_Admin O_AdminAbortMigrationReq), (0x00EC, Op_Admin O_AdminAbortMigrationResp)
      , (0x006D, Op_Admin O_AdminRetireFingerprintReq)
      , (0x00ED, Op_Admin O_AdminRetireFingerprintResp), (0x006E, Op_Admin O_AdminBackfillReq)
      , (0x00EE, Op_Admin O_AdminBackfillResp), (0x006F, Op_Admin O_AdminBackfillCancelReq)
      , (0x00EF, Op_Admin O_AdminBackfillCancelResp), (0x0070, Op_Registry O_SpaceCreateReq)
      , (0x00F0, Op_Registry O_SpaceCreateResp), (0x0071, Op_Registry O_SpaceListReq)
      , (0x00F1, Op_Registry O_SpaceListResp), (0x0072, Op_Registry O_SpaceDeleteReq)
      , (0x00F2, Op_Registry O_SpaceDeleteResp), (0x0073, Op_Registry O_SessionCreateReq)
      , (0x00F3, Op_Registry O_SessionCreateResp), (0x0074, Op_Registry O_SessionListReq)
      , (0x00F4, Op_Registry O_SessionListResp), (0x0075, Op_Registry O_SessionDeleteReq)
      , (0x00F5, Op_Registry O_SessionDeleteResp), (0x00FF, O_Error)
      , (0x0130, Op_Entity O_EntityCreateReq), (0x01B0, Op_Entity O_EntityCreateResp)
      , (0x0131, Op_Entity O_EntityGetReq), (0x01B1, Op_Entity O_EntityGetResp)
      , (0x0132, Op_Entity O_EntityUpdateReq), (0x01B2, Op_Entity O_EntityUpdateResp)
      , (0x0133, Op_Entity O_EntityRenameReq), (0x01B3, Op_Entity O_EntityRenameResp)
      , (0x0134, Op_Entity O_EntityMergeReq), (0x01B4, Op_Entity O_EntityMergeResp)
      , (0x0135, Op_Entity O_EntityUnmergeReq), (0x01B5, Op_Entity O_EntityUnmergeResp)
      , (0x0136, Op_Entity O_EntityResolveReq), (0x01B6, Op_Entity O_EntityResolveResp)
      , (0x0137, Op_Entity O_EntityListReq), (0x01B7, Op_Entity O_EntityListResp)
      , (0x0138, Op_Entity O_EntityTombstoneReq), (0x01B8, Op_Entity O_EntityTombstoneResp)
      , (0x0140, Op_Statement O_StatementCreateReq), (0x01C0, Op_Statement O_StatementCreateResp)
      , (0x0141, Op_Statement O_StatementGetReq), (0x01C1, Op_Statement O_StatementGetResp)
      , (0x0142, Op_Statement O_StatementSupersedeReq)
      , (0x01C2, Op_Statement O_StatementSupersedeResp)
      , (0x0143, Op_Statement O_StatementTombstoneReq)
      , (0x01C3, Op_Statement O_StatementTombstoneResp)
      , (0x0144, Op_Statement O_StatementRetractReq)
      , (0x01C4, Op_Statement O_StatementRetractResp)
      , (0x0145, Op_Statement O_StatementHistoryReq)
      , (0x01C5, Op_Statement O_StatementHistoryResp), (0x0146, Op_Statement O_StatementListReq)
      , (0x01C6, Op_Statement O_StatementListResp), (0x0150, Op_Relation O_RelationCreateReq)
      , (0x01D0, Op_Relation O_RelationCreateResp), (0x0151, Op_Relation O_RelationGetReq)
      , (0x01D1, Op_Relation O_RelationGetResp), (0x0152, Op_Relation O_RelationSupersedeReq)
      , (0x01D2, Op_Relation O_RelationSupersedeResp)
      , (0x0153, Op_Relation O_RelationTombstoneReq)
      , (0x01D3, Op_Relation O_RelationTombstoneResp), (0x0154, Op_Relation O_RelationListFromReq)
      , (0x01D4, Op_Relation O_RelationListFromResp), (0x0155, Op_Relation O_RelationListToReq)
      , (0x01D5, Op_Relation O_RelationListToResp), (0x0156, Op_Relation O_RelationTraverseReq)
      , (0x01D6, Op_Relation O_RelationTraverseResp), (0x0161, Op_Query O_QueryExplainReq)
      , (0x01E1, Op_Query O_QueryExplainResp), (0x0162, Op_Query O_QueryTraceReq)
      , (0x01E2, Op_Query O_QueryTraceResp), (0x0163, Op_Query O_GraphFetchReq)
      , (0x01E3, Op_Query O_GraphFetchResp), (0x0164, Op_Query O_MaterializeProceduralReq)
      , (0x01E4, Op_Query O_MaterializeProceduralResp)
      , (0x0178, Op_GraphAdmin O_AdminListPendingContradictionsReq)
      , (0x01F8, Op_GraphAdmin O_AdminListPendingContradictionsResp)
      , (0x0120, Op_Schema O_SchemaUploadReq), (0x01A0, Op_Schema O_SchemaUploadResp)
      , (0x0121, Op_Schema O_SchemaGetReq), (0x01A1, Op_Schema O_SchemaGetResp)
      , (0x0122, Op_Schema O_SchemaListReq), (0x01A2, Op_Schema O_SchemaListResp)
      , (0x0123, Op_Schema O_SchemaValidateReq), (0x01A3, Op_Schema O_SchemaValidateResp)
      , (0x0124, Op_Schema O_ExtractorListReq), (0x01A4, Op_Schema O_ExtractorListResp)
      , (0x0125, Op_Schema O_SchemaDropReq), (0x01A5, Op_Schema O_SchemaDropResp)
      , (0x0127, Op_Schema O_SchemaReplaceReq), (0x01A7, Op_Schema O_SchemaReplaceResp)
     ]"

definition opcode_from_u16 :: "u16 \<Rightarrow> protocol_error + opcode" where
  "opcode_from_u16 v =
     (case map_of OPCODE_TABLE v of Some op \<Rightarrow> Inr op | None \<Rightarrow> Inl (UnknownOpcode v))"

section \<open>Classification\<close>

definition opcode_namespace :: "opcode \<Rightarrow> u8" where
  "opcode_namespace op = ucast (drop_bit 8 (opcode_as_u16 op))"

definition opcode_low_byte :: "opcode \<Rightarrow> u8" where
  "opcode_low_byte op = ucast (opcode_as_u16 op)"

definition is_request :: "opcode \<Rightarrow> bool" where
  "is_request op \<longleftrightarrow> opcode_low_byte op < 0x80"

definition is_response :: "opcode \<Rightarrow> bool" where
  "is_response op \<longleftrightarrow> \<not> is_request op"

definition is_admin :: "opcode \<Rightarrow> bool" where
  "is_admin op \<longleftrightarrow>
     op \<in> {Op_Schema O_SchemaReplaceReq, Op_Schema O_SchemaReplaceResp,
           Op_Schema O_SchemaDropReq, Op_Schema O_SchemaDropResp} \<or>
     opcode_namespace op = 0x00 \<and>
       (0x60 \<le> opcode_low_byte op \<and> opcode_low_byte op \<le> 0x6F \<or>
        0xE0 \<le> opcode_low_byte op \<and> opcode_low_byte op \<le> 0xEF) \<or>
     opcode_namespace op = 0x01 \<and>
       (0x70 \<le> opcode_low_byte op \<and> opcode_low_byte op \<le> 0x7F \<or>
        0xF0 \<le> opcode_low_byte op \<and> opcode_low_byte op \<le> 0xFF)"

definition is_typed_graph :: "opcode \<Rightarrow> bool" where
  "is_typed_graph op \<longleftrightarrow> opcode_namespace op = 0x01"

definition is_connection_level :: "opcode \<Rightarrow> bool" where
  "is_connection_level op \<longleftrightarrow>
     op \<in> {Op_Connection O_Hello, Op_Connection O_Welcome, Op_Connection O_Auth,
           Op_Connection O_AuthOk, Op_Connection O_Ping, Op_Connection O_Pong,
           Op_Connection O_ServerPing, Op_Connection O_ClientPong, Op_Connection O_Bye}"

section \<open>The table inverts the discriminants\<close>

lemmas opcode_values =
  connection_value.simps cognitive_value.simps subscription_value.simps transaction_value.simps
  stream_value.simps admin_value.simps registry_value.simps schema_value.simps entity_value.simps
  statement_value.simps relation_value.simps query_value.simps graph_admin_value.simps

lemma table_sound: "\<forall>(v, op) \<in> set OPCODE_TABLE. opcode_as_u16 op = v"
  by (simp add: OPCODE_TABLE_def)

lemma table_lists: "list_ex (\<lambda>(v, op'). op' = op) OPCODE_TABLE"
proof (cases op)
  case (Op_Connection c)
  then show ?thesis by (simp add: OPCODE_TABLE_def) (cases c; simp)
next
  case (Op_Cognitive c)
  then show ?thesis by (simp add: OPCODE_TABLE_def) (cases c; simp)
next
  case (Op_Subscription c)
  then show ?thesis by (simp add: OPCODE_TABLE_def) (cases c; simp)
next
  case (Op_Transaction c)
  then show ?thesis by (simp add: OPCODE_TABLE_def) (cases c; simp)
next
  case (Op_Stream c)
  then show ?thesis by (simp add: OPCODE_TABLE_def) (cases c; simp)
next
  case (Op_Admin c)
  then show ?thesis by (simp add: OPCODE_TABLE_def) (cases c; simp)
next
  case (Op_Registry c)
  then show ?thesis by (simp add: OPCODE_TABLE_def) (cases c; simp)
next
  case (Op_Schema c)
  then show ?thesis by (simp add: OPCODE_TABLE_def) (cases c; simp)
next
  case (Op_Entity c)
  then show ?thesis by (simp add: OPCODE_TABLE_def) (cases c; simp)
next
  case (Op_Statement c)
  then show ?thesis by (simp add: OPCODE_TABLE_def) (cases c; simp)
next
  case (Op_Relation c)
  then show ?thesis by (simp add: OPCODE_TABLE_def) (cases c; simp)
next
  case (Op_Query c)
  then show ?thesis by (simp add: OPCODE_TABLE_def) (cases c; simp)
next
  case (Op_GraphAdmin c)
  then show ?thesis by (simp add: OPCODE_TABLE_def) (cases c; simp)
qed (simp add: OPCODE_TABLE_def)

lemma table_complete: "\<exists>v. (v, op) \<in> set OPCODE_TABLE"
  using table_lists [of op] by (auto simp: list_ex_iff)

lemma table_distinct: "distinct (map fst OPCODE_TABLE)"
proof -
  have "distinct (map (unat \<circ> fst) OPCODE_TABLE)"
    by (simp add: OPCODE_TABLE_def)
  then show ?thesis by (auto simp: distinct_map inj_on_def)
qed

lemma opcode_from_u16_iff: "opcode_from_u16 v = Inr op \<longleftrightarrow> opcode_as_u16 op = v"
proof -
  have "map_of OPCODE_TABLE v = Some op \<longleftrightarrow> (v, op) \<in> set OPCODE_TABLE"
    by (rule map_of_eq_Some_iff [OF table_distinct])
  also have "\<dots> \<longleftrightarrow> opcode_as_u16 op = v"
    using table_sound table_complete [of op] by force
  finally show ?thesis
    by (auto simp: opcode_from_u16_def split: option.splits)
qed

end
