(* ===== verification/Proto_Frame.thy ===== *)
theory Proto_Frame
  imports Proto_Error
begin

text \<open>
  Wire frames: the 32-byte header (\<open>brain-protocol/src/codec/header.rs\<close>), its checksums
  (\<open>codec/crc.rs\<close>) and the frame envelope (\<open>codec/frame.rs\<close>). A header is a record of the byte
  arrays of the Rust struct; \<open>frame_header_bytes\<close> and \<open>frame_header_cast\<close> are the \<open>bytemuck\<close> casts of
  the packed struct. The checksum function is a parameter; a panic is \<open>None\<close>.
  The lemmas show that decoding inverts encoding whatever follows in the buffer, that the decoder
  accepts nothing but encoder output, that a prefix of a frame is reported as truncated, and that a
  frame with any one byte damaged is rejected.
\<close>

section \<open>Header\<close>

definition FRAME_MAGIC :: bytes where
  "FRAME_MAGIC = [0x42, 0x52, 0x4E, 0x30]"

definition FRAME_HEADER_SIZE :: nat where
  "FRAME_HEADER_SIZE = 32"

definition MAX_PAYLOAD_BYTES :: nat where
  "MAX_PAYLOAD_BYTES = 2 ^ 24 - 1"

definition WIRE_VERSION :: u8 where
  "WIRE_VERSION = 1"

definition FLAGS_RESERVED_MASK :: u8 where
  "FLAGS_RESERVED_MASK = 0x1F"

record frame_header =
  fh_magic :: bytes
  fh_version :: u8
  fh_opcode :: bytes
  fh_flags :: u8
  fh_header_crc32c :: bytes
  fh_stream_id :: bytes
  fh_payload_len :: bytes
  fh_reserved_a :: u8
  fh_payload_crc32c :: bytes
  fh_reserved_b :: bytes

definition frame_header_bytes :: "frame_header \<Rightarrow> bytes" where
  "frame_header_bytes h =
     fh_magic h @ [fh_version h] @ fh_opcode h @ [fh_flags h] @ fh_header_crc32c h @
     fh_stream_id h @ fh_payload_len h @ [fh_reserved_a h] @ fh_payload_crc32c h @ fh_reserved_b h"

definition frame_header_cast :: "bytes \<Rightarrow> frame_header" where
  "frame_header_cast bs =
     \<lparr>fh_magic = subslice bs 0 4, fh_version = bs ! 4, fh_opcode = subslice bs 5 7,
      fh_flags = bs ! 7, fh_header_crc32c = subslice bs 8 12, fh_stream_id = subslice bs 12 16,
      fh_payload_len = subslice bs 16 19, fh_reserved_a = bs ! 19,
      fh_payload_crc32c = subslice bs 20 24, fh_reserved_b = subslice bs 24 32\<rparr>"

definition header_crc :: "crc_fn \<Rightarrow> bytes \<Rightarrow> u32" where
  "header_crc crc header_bytes_excl_crc = crc header_bytes_excl_crc"

definition payload_crc :: "crc_fn \<Rightarrow> bytes \<Rightarrow> u32" where
  "payload_crc crc payload = crc payload"

definition compute_frame_crc :: "crc_fn \<Rightarrow> frame_header \<Rightarrow> u32" where
  "compute_frame_crc crc h =
     (let bs = frame_header_bytes h in header_crc crc (subslice bs 0 8 @ subslice bs 12 32))"

definition frame_header_seal :: "crc_fn \<Rightarrow> frame_header \<Rightarrow> frame_header" where
  "frame_header_seal crc h =
     (let z = h\<lparr>fh_header_crc32c := [0, 0, 0, 0]\<rparr>
      in z\<lparr>fh_header_crc32c := be_bytes 4 (compute_frame_crc crc z)\<rparr>)"

definition frame_header_new :: "crc_fn \<Rightarrow> u16 \<Rightarrow> u8 \<Rightarrow> u32 \<Rightarrow> u32 \<Rightarrow> frame_header option" where
  "frame_header_new crc opcode flags stream_id payload_len =
     (if unat payload_len \<le> MAX_PAYLOAD_BYTES then
        Some (frame_header_seal crc
          \<lparr>fh_magic = FRAME_MAGIC, fh_version = WIRE_VERSION, fh_opcode = be_bytes 2 opcode,
           fh_flags = flags, fh_header_crc32c = [0, 0, 0, 0], fh_stream_id = be_bytes 4 stream_id,
           fh_payload_len = drop 1 (be_bytes 4 payload_len), fh_reserved_a = 0,
           fh_payload_crc32c = [0, 0, 0, 0], fh_reserved_b = replicate 8 0\<rparr>)
      else None)"

definition payload_len_u32 :: "frame_header \<Rightarrow> u32" where
  "payload_len_u32 h = be_word (0 # fh_payload_len h)"

definition stream_id_u32 :: "frame_header \<Rightarrow> u32" where
  "stream_id_u32 h = be_word (fh_stream_id h)"

definition opcode_u16 :: "frame_header \<Rightarrow> u16" where
  "opcode_u16 h = be_word (fh_opcode h)"

definition frame_header_validate :: "crc_fn \<Rightarrow> frame_header \<Rightarrow> protocol_error + unit" where
  "frame_header_validate crc h =
     (if fh_magic h \<noteq> FRAME_MAGIC then Inl Pe_BadMagic
      else if fh_version h \<noteq> WIRE_VERSION then Inl (Pe_BadVersion (fh_version h) WIRE_VERSION)
      else if fh_reserved_a h \<noteq> 0 \<or> fh_reserved_b h \<noteq> replicate 8 0 then Inl Pe_ReservedFieldNonZero
      else if fh_flags h AND FLAGS_RESERVED_MASK \<noteq> 0 then Inl Pe_ReservedFieldNonZero
      else if unat (payload_len_u32 h) > MAX_PAYLOAD_BYTES
        then Inl (Pe_OversizePayload (payload_len_u32 h) (of_nat MAX_PAYLOAD_BYTES))
      else if be_word (fh_header_crc32c h) \<noteq> compute_frame_crc crc h then Inl Pe_BadHeaderCrc
      else Inr ())"

section \<open>Frames\<close>

record frame =
  fr_header :: frame_header
  fr_payload :: bytes

definition frame_new :: "crc_fn \<Rightarrow> u16 \<Rightarrow> u8 \<Rightarrow> u32 \<Rightarrow> bytes \<Rightarrow> frame option" where
  "frame_new crc opcode flags stream_id payload =
     (if length payload \<le> MAX_PAYLOAD_BYTES then
        map_option (\<lambda>h. \<lparr>fr_header = frame_header_seal crc
                            (h\<lparr>fh_payload_crc32c := be_bytes 4 (payload_crc crc payload)\<rparr>),
                         fr_payload = payload\<rparr>)
          (frame_header_new crc opcode flags stream_id (of_nat (length payload)))
      else None)"

definition frame_seal :: "crc_fn \<Rightarrow> frame \<Rightarrow> frame_header" where
  "frame_seal crc f =
     frame_header_seal crc ((fr_header f)
       \<lparr>fh_payload_len := drop 1 (be_bytes 4 (of_nat (length (fr_payload f)) :: u32)),
        fh_payload_crc32c := be_bytes 4 (payload_crc crc (fr_payload f))\<rparr>)"

definition frame_encode :: "crc_fn \<Rightarrow> frame \<Rightarrow> bytes" where
  "frame_encode crc f = frame_header_bytes (frame_seal crc f) @ fr_payload f"

definition decode_with_max :: "crc_fn \<Rightarrow> bytes \<Rightarrow> u32 \<Rightarrow> protocol_error + (frame \<times> bytes)" where
  "decode_with_max crc bs max_payload_bytes =
     (if length bs < FRAME_HEADER_SIZE then Inl (Pe_Truncated (length bs) FRAME_HEADER_SIZE)
      else
        let header = frame_header_cast (subslice bs 0 FRAME_HEADER_SIZE)
        in (case frame_header_validate crc header of
              Inl e \<Rightarrow> Inl e
            | Inr _ \<Rightarrow>
                let payload_len = payload_len_u32 header; need = FRAME_HEADER_SIZE + unat payload_len
                in if payload_len > max_payload_bytes
                   then Inl (Pe_OversizePayload payload_len max_payload_bytes)
                   else if length bs < need then Inl (Pe_Truncated (length bs) need)
                   else
                     let payload_slice = subslice bs FRAME_HEADER_SIZE need
                     in if be_word (fh_payload_crc32c header) \<noteq> payload_crc crc payload_slice
                        then Inl Pe_BadPayloadCrc
                        else Inr (\<lparr>fr_header = header, fr_payload = payload_slice\<rparr>, drop need bs)))"

definition frame_decode :: "crc_fn \<Rightarrow> bytes \<Rightarrow> protocol_error + (frame \<times> bytes)" where
  "frame_decode crc bs = decode_with_max crc bs (of_nat MAX_PAYLOAD_BYTES)"


section \<open>Layout\<close>

definition wf_frame_header :: "frame_header \<Rightarrow> bool" where
  "wf_frame_header h \<longleftrightarrow>
     length (fh_magic h) = 4 \<and> length (fh_opcode h) = 2 \<and> length (fh_header_crc32c h) = 4 \<and>
     length (fh_stream_id h) = 4 \<and> length (fh_payload_len h) = 3 \<and>
     length (fh_payload_crc32c h) = 4 \<and> length (fh_reserved_b h) = 8"

lemma length_frame_header_bytes: "wf_frame_header h \<Longrightarrow> length (frame_header_bytes h) = 32"
  by (simp add: wf_frame_header_def frame_header_bytes_def)

lemma frame_header_cast_bytes:
  assumes "wf_frame_header h"
  shows "frame_header_cast (frame_header_bytes h) = h"
  using assms
  by (simp add: wf_frame_header_def frame_header_cast_def frame_header_bytes_def subslice_def nth_append)

lemma subslice_single: "i < length xs \<Longrightarrow> subslice xs i (Suc i) = [xs ! i]"
  by (simp add: subslice_def take_Suc_conv_app_nth)

lemma frame_header_bytes_cast:
  assumes "length bs = 32"
  shows "frame_header_bytes (frame_header_cast bs) = bs" and "wf_frame_header (frame_header_cast bs)"
proof -
  have single: "[bs ! 4] = subslice bs 4 5" "[bs ! 7] = subslice bs 7 8" "[bs ! 19] = subslice bs 19 20"
    using subslice_single [of 4 bs] subslice_single [of 7 bs] subslice_single [of 19 bs] assms by simp_all
  show "frame_header_bytes (frame_header_cast bs) = bs"
    using assms by (simp add: frame_header_bytes_def frame_header_cast_def single subslice_join del: append_Cons)
  show "wf_frame_header (frame_header_cast bs)"
    using assms by (simp add: wf_frame_header_def frame_header_cast_def)
qed

text \<open>The bytes under the header checksum.\<close>

definition sealed_part :: "bytes \<Rightarrow> bytes" where
  "sealed_part hb = subslice hb 0 8 @ subslice hb 12 32"

lemma compute_frame_crc_part: "compute_frame_crc crc h = crc (sealed_part (frame_header_bytes h))"
  by (simp add: compute_frame_crc_def header_crc_def sealed_part_def Let_def)

lemma compute_frame_crc_ignores:
  assumes "wf_frame_header h" and "length c = 4"
  shows "compute_frame_crc crc (h\<lparr>fh_header_crc32c := c\<rparr>) = compute_frame_crc crc h"
  using assms
  by (simp add: compute_frame_crc_part sealed_part_def frame_header_bytes_def wf_frame_header_def subslice_def)

lemma frame_header_seal_fields [simp]:
  "fh_magic (frame_header_seal crc h) = fh_magic h" "fh_version (frame_header_seal crc h) = fh_version h"
  "fh_opcode (frame_header_seal crc h) = fh_opcode h" "fh_flags (frame_header_seal crc h) = fh_flags h"
  "fh_stream_id (frame_header_seal crc h) = fh_stream_id h"
  "fh_payload_len (frame_header_seal crc h) = fh_payload_len h"
  "fh_reserved_a (frame_header_seal crc h) = fh_reserved_a h"
  "fh_payload_crc32c (frame_header_seal crc h) = fh_payload_crc32c h"
  "fh_reserved_b (frame_header_seal crc h) = fh_reserved_b h"
  by (simp_all add: frame_header_seal_def Let_def)

lemma length_sealed_crc [simp]: "length (fh_header_crc32c (frame_header_seal crc h)) = 4"
  by (simp add: frame_header_seal_def Let_def)

lemma wf_frame_header_seal: "wf_frame_header h \<Longrightarrow> wf_frame_header (frame_header_seal crc h)"
  by (simp add: wf_frame_header_def frame_header_seal_def Let_def)

lemma frame_header_sealed:
  assumes "wf_frame_header h"
  shows "be_word (fh_header_crc32c (frame_header_seal crc h)) = compute_frame_crc crc (frame_header_seal crc h)"
proof -
  have "wf_frame_header (h\<lparr>fh_header_crc32c := [0, 0, 0, 0]\<rparr>)"
    using assms by (simp add: wf_frame_header_def)
  from compute_frame_crc_ignores [OF this, of "be_bytes 4 w" crc for w :: u32] show ?thesis
    by (simp add: frame_header_seal_def Let_def)
qed

lemma frame_header_seal_idem:
  assumes "wf_frame_header h" and "be_word (fh_header_crc32c h) = compute_frame_crc crc h"
  shows "frame_header_seal crc h = h"
proof -
  have "be_bytes 4 (compute_frame_crc crc h) = fh_header_crc32c h"
    using assms by (simp flip: assms(2) add: wf_frame_header_def be_bytes_be_word)
  then show ?thesis
    using compute_frame_crc_ignores [OF assms(1), of "[0, 0, 0, 0]" crc]
    by (simp add: frame_header_seal_def Let_def)
qed

section \<open>The length field\<close>

lemma be_bytes_top_zero:
  assumes "n \<le> MAX_PAYLOAD_BYTES"
  shows "0 # drop 1 (be_bytes 4 (of_nat n :: u32)) = be_bytes 4 (of_nat n :: u32)"
proof -
  have "n < 2 ^ 24" using assms by (simp add: MAX_PAYLOAD_BYTES_def)
  then have "drop_bit 24 (of_nat n :: u32) = 0"
    by (simp add: word_unat_eq_iff drop_bit_eq_div unat_div unsigned_of_nat take_bit_nat_eq_self)
  then show ?thesis
    by (simp add: be_bytes_def eval_nat_numeral)
qed

lemma payload_len_of_nat:
  assumes "n \<le> MAX_PAYLOAD_BYTES" and "fh_payload_len h = drop 1 (be_bytes 4 (of_nat n :: u32))"
  shows "payload_len_u32 h = of_nat n" and "unat (payload_len_u32 h) = n"
proof -
  show "payload_len_u32 h = of_nat n"
    using be_bytes_top_zero [OF assms(1)] by (simp add: payload_len_u32_def assms(2))
  then show "unat (payload_len_u32 h) = n"
    using assms(1) by (simp add: MAX_PAYLOAD_BYTES_def unsigned_of_nat take_bit_nat_eq_self)
qed

lemma payload_len_field:
  assumes "length (fh_payload_len h) = 3"
  shows "drop 1 (be_bytes 4 (payload_len_u32 h)) = fh_payload_len h"
  using assms by (simp add: payload_len_u32_def be_bytes_be_word)

text \<open>Three bytes cannot exceed the bound: the length test of \<open>validate\<close> never fires.\<close>

lemma payload_len_bounded:
  assumes "length (fh_payload_len h) = 3"
  shows "unat (payload_len_u32 h) \<le> MAX_PAYLOAD_BYTES"
proof -
  have "payload_len_u32 h = take_bit 24 (payload_len_u32 h)"
    using assms by (intro bit_word_eqI)
      (auto simp: payload_len_u32_def be_word_def bit_le_word bit_take_bit_iff nth_append)
  then have "unat (payload_len_u32 h) = take_bit 24 (unat (payload_len_u32 h))"
    by (metis unsigned_take_bit_eq)
  then have "unat (payload_len_u32 h) < 2 ^ 24"
    by (metis take_bit_nat_less_exp)
  then show ?thesis by (simp add: MAX_PAYLOAD_BYTES_def)
qed


section \<open>Decoding a frame cut into header and payload\<close>

definition valid_header :: "crc_fn \<Rightarrow> frame_header \<Rightarrow> bool" where
  "valid_header crc h \<longleftrightarrow>
     wf_frame_header h \<and> fh_magic h = FRAME_MAGIC \<and> fh_version h = WIRE_VERSION \<and>
     fh_reserved_a h = 0 \<and> fh_reserved_b h = replicate 8 0 \<and>
     fh_flags h AND FLAGS_RESERVED_MASK = 0 \<and>
     be_word (fh_header_crc32c h) = compute_frame_crc crc h"

lemma frame_header_validate_iff:
  assumes "wf_frame_header h"
  shows "frame_header_validate crc h = Inr () \<longleftrightarrow> valid_header crc h"
  using assms payload_len_bounded [of h]
  by (auto simp: frame_header_validate_def valid_header_def wf_frame_header_def not_less)

lemma frame_header_validate_Inr: "frame_header_validate crc h = Inr u \<Longrightarrow> frame_header_validate crc h = Inr ()"
  by simp

lemma decode_framed:
  assumes "length hb = 32" and "valid_header crc (frame_header_cast hb)"
    and "unat (payload_len_u32 (frame_header_cast hb)) = length p"
  shows "decode_with_max crc (hb @ p @ rest) m =
    (if payload_len_u32 (frame_header_cast hb) > m
       then Inl (Pe_OversizePayload (payload_len_u32 (frame_header_cast hb)) m)
     else if be_word (fh_payload_crc32c (frame_header_cast hb)) \<noteq> crc p then Inl Pe_BadPayloadCrc
     else Inr (\<lparr>fr_header = frame_header_cast hb, fr_payload = p\<rparr>, rest))"
proof -
  have ok: "frame_header_validate crc (frame_header_cast hb) = Inr ()"
    using assms(2) frame_header_validate_iff by (simp add: valid_header_def)
  have cut: "subslice (hb @ p @ rest) 0 32 = hb" "subslice (hb @ p @ rest) 32 (32 + length p) = p"
    "drop (32 + length p) (hb @ p @ rest) = rest"
    using assms(1) by (simp_all add: subslice_def)
  show ?thesis
    using assms(1,3) by (simp add: decode_with_max_def FRAME_HEADER_SIZE_def cut ok payload_crc_def Let_def)
qed

lemma decode_invalid_header:
  assumes "length hb = 32" and "\<not> valid_header crc (frame_header_cast hb)"
  shows "\<exists>e. decode_with_max crc (hb @ tail) m = Inl e"
proof -
  have "frame_header_validate crc (frame_header_cast hb) \<noteq> Inr ()"
    using frame_header_validate_iff [OF frame_header_bytes_cast(2) [OF assms(1)]] assms(2) by simp
  then obtain e where "frame_header_validate crc (frame_header_cast hb) = Inl e"
    by (metis old.sum.exhaust old.unit.exhaust)
  moreover have "subslice (hb @ tail) 0 32 = hb"
    using assms(1) by (simp add: subslice_def)
  ultimately show ?thesis
    using assms(1) by (simp add: decode_with_max_def FRAME_HEADER_SIZE_def)
qed

section \<open>Encoder output\<close>

text \<open>A header the encoder may seal: everything \<open>encode\<close> does not overwrite is already legal.\<close>

definition sendable :: "frame \<Rightarrow> bool" where
  "sendable f \<longleftrightarrow>
     wf_frame_header (fr_header f) \<and> fh_magic (fr_header f) = FRAME_MAGIC \<and>
     fh_version (fr_header f) = WIRE_VERSION \<and> fh_reserved_a (fr_header f) = 0 \<and>
     fh_reserved_b (fr_header f) = replicate 8 0 \<and>
     fh_flags (fr_header f) AND FLAGS_RESERVED_MASK = 0 \<and> length (fr_payload f) \<le> MAX_PAYLOAD_BYTES"

lemma frame_seal_fields:
  "fh_payload_len (frame_seal crc f) = drop 1 (be_bytes 4 (of_nat (length (fr_payload f)) :: u32))"
  "fh_payload_crc32c (frame_seal crc f) = be_bytes 4 (crc (fr_payload f))"
  "fh_opcode (frame_seal crc f) = fh_opcode (fr_header f)"
  "fh_flags (frame_seal crc f) = fh_flags (fr_header f)"
  "fh_stream_id (frame_seal crc f) = fh_stream_id (fr_header f)"
  by (simp_all add: frame_seal_def payload_crc_def)

lemma frame_seal_valid:
  assumes "sendable f"
  shows "valid_header crc (frame_seal crc f)"
proof -
  let ?h = "(fr_header f)\<lparr>fh_payload_len := drop 1 (be_bytes 4 (of_nat (length (fr_payload f)) :: u32)),
    fh_payload_crc32c := be_bytes 4 (payload_crc crc (fr_payload f))\<rparr>"
  have "wf_frame_header ?h" using assms by (simp add: sendable_def wf_frame_header_def FRAME_MAGIC_def)
  with assms show ?thesis
    by (simp add: valid_header_def frame_seal_def frame_header_sealed wf_frame_header_seal sendable_def)
qed

lemma decode_encode_frame:
  assumes "sendable f" and "of_nat (length (fr_payload f)) \<le> m"
  shows "decode_with_max crc (frame_encode crc f @ rest) m = Inr (f\<lparr>fr_header := frame_seal crc f\<rparr>, rest)"
proof -
  let ?h = "frame_seal crc f"
  note valid = frame_seal_valid [OF assms(1), of crc]
  then have wf: "wf_frame_header ?h" by (simp add: valid_header_def)
  have len: "payload_len_u32 ?h = of_nat (length (fr_payload f))" "unat (payload_len_u32 ?h) = length (fr_payload f)"
    using assms(1) payload_len_of_nat [OF _ frame_seal_fields(1), of f crc] by (simp_all add: sendable_def)
  show ?thesis
    using decode_framed [OF length_frame_header_bytes [OF wf], of crc "fr_payload f" rest m] assms(2) valid len
    by (simp add: frame_encode_def frame_header_cast_bytes [OF wf] frame_seal_fields not_less)
qed

lemma decode_canonical:
  assumes "decode_with_max crc bs m = Inr (f, rest)"
  shows "bs = frame_encode crc f @ rest" and "sendable f" and "of_nat (length (fr_payload f)) \<le> m"
    and "frame_seal crc f = fr_header f"
proof -
  define hb where "hb = subslice bs 0 32"
  define h where "h = frame_header_cast hb"
  define n where "n = unat (payload_len_u32 h)"
  have room: "32 + n \<le> length bs" and val: "frame_header_validate crc h = Inr ()"
    and small: "payload_len_u32 h \<le> m" and pcrc: "be_word (fh_payload_crc32c h) = crc (subslice bs 32 (32 + n))"
    and f: "f = \<lparr>fr_header = h, fr_payload = subslice bs 32 (32 + n)\<rparr>" and rest: "rest = drop (32 + n) bs"
    using assms unfolding decode_with_max_def
    by (auto simp: FRAME_HEADER_SIZE_def Let_def hb_def h_def n_def payload_crc_def not_less split: if_splits sum.splits)
  have hb: "length hb = 32" using room by (simp add: hb_def)
  note wf = frame_header_bytes_cast(2) [OF hb, folded h_def]
  have valid: "valid_header crc h" using val wf by (simp add: frame_header_validate_iff)
  have payload: "fr_header f = h" "fr_payload f = subslice bs 32 (32 + n)" "length (fr_payload f) = n"
    using room by (simp_all add: f)
  have len: "of_nat n = payload_len_u32 h" by (simp add: n_def)
  have "drop 1 (be_bytes 4 (of_nat n :: u32)) = fh_payload_len h"
    using wf payload_len_field [of h] by (simp add: len wf_frame_header_def)
  moreover have "be_bytes 4 (crc (fr_payload f)) = fh_payload_crc32c h"
    using wf by (simp add: payload(2) flip: pcrc) (simp add: wf_frame_header_def be_bytes_be_word)
  ultimately have "frame_seal crc f = frame_header_seal crc h"
    by (simp add: frame_seal_def payload(1,3) payload_crc_def)
  also have "\<dots> = h"
    using valid by (intro frame_header_seal_idem) (simp_all add: valid_header_def)
  finally show seal: "frame_seal crc f = fr_header f" by (simp add: payload)
  have "bs = hb @ subslice bs 32 (32 + n) @ drop (32 + n) bs"
    using subslice_join [of 0 32 "32 + n" bs] by (simp add: hb_def flip: append_assoc) (simp add: subslice_def)
  moreover have "frame_header_bytes h = hb" by (simp add: h_def frame_header_bytes_cast(1) [OF hb])
  ultimately show "bs = frame_encode crc f @ rest"
    by (simp add: frame_encode_def seal rest payload)
  show "sendable f"
    using valid wf payload_len_bounded [of h]
    by (simp add: sendable_def valid_header_def payload(1,3) n_def)
      (simp add: wf_frame_header_def)
  show "of_nat (length (fr_payload f)) \<le> m" using small by (simp add: payload(3) len)
qed


lemma frame_new_Some:
  assumes "length payload \<le> MAX_PAYLOAD_BYTES" and "flags AND FLAGS_RESERVED_MASK = 0"
  obtains f where "frame_new crc opcode flags stream_id payload = Some f" and "sendable f"
    and "frame_seal crc f = fr_header f" and "fr_payload f = payload"
    and "opcode_u16 (fr_header f) = opcode" and "fh_flags (fr_header f) = flags"
    and "stream_id_u32 (fr_header f) = stream_id"
proof -
  obtain h where h: "frame_header_new crc opcode flags stream_id (of_nat (length payload)) = Some h"
    using assms(1) by (auto simp: frame_header_new_def unsigned_of_nat take_bit_nat_eq_self MAX_PAYLOAD_BYTES_def)
  let ?h = "frame_header_seal crc (h\<lparr>fh_payload_crc32c := be_bytes 4 (crc payload)\<rparr>)"
  let ?f = "\<lparr>fr_header = ?h, fr_payload = payload\<rparr>"
  have fields: "wf_frame_header h" "fh_magic h = FRAME_MAGIC" "fh_version h = WIRE_VERSION"
    "fh_opcode h = be_bytes 2 opcode" "fh_flags h = flags" "fh_stream_id h = be_bytes 4 stream_id"
    "fh_reserved_a h = 0" "fh_reserved_b h = replicate 8 0"
    "fh_payload_len h = drop 1 (be_bytes 4 (of_nat (length payload) :: u32))"
    using h by (auto simp: frame_header_new_def wf_frame_header_def FRAME_MAGIC_def split: if_splits)
  have wf: "wf_frame_header ?h"
    using fields(1) by (intro wf_frame_header_seal) (simp add: wf_frame_header_def)
  have "frame_seal crc ?f = frame_header_seal crc ?h"
    by (simp add: frame_seal_def payload_crc_def frame_header_seal_def Let_def flip: fields(9) [unfolded One_nat_def])
  also have "\<dots> = ?h"
    using fields(1) by (intro frame_header_seal_idem [OF wf] frame_header_sealed) (simp add: wf_frame_header_def)
  finally have seal: "frame_seal crc ?f = fr_header ?f" by simp
  have "sendable ?f" using wf fields assms by (simp add: sendable_def)
  moreover have "frame_new crc opcode flags stream_id payload = Some ?f"
    using assms(1) h by (simp add: frame_new_def payload_crc_def)
  ultimately show thesis
    using that [of ?f] seal fields by (simp add: opcode_u16_def stream_id_u32_def)
qed

section \<open>Truncated and damaged frames\<close>

lemma decode_truncated:
  assumes "sendable f" and "k < length (frame_encode crc f)" and "of_nat (length (fr_payload f)) \<le> m"
  shows "decode_with_max crc (take k (frame_encode crc f)) m =
    Inl (Pe_Truncated k (if k < FRAME_HEADER_SIZE then FRAME_HEADER_SIZE else length (frame_encode crc f)))"
proof (cases "k < 32")
  case True
  then show ?thesis
    using assms(2) by (simp add: decode_with_max_def FRAME_HEADER_SIZE_def)
next
  case False
  let ?h = "frame_seal crc f"
  note valid = frame_seal_valid [OF assms(1), of crc]
  then have wf: "wf_frame_header ?h" by (simp add: valid_header_def)
  have len: "payload_len_u32 ?h = of_nat (length (fr_payload f))" "unat (payload_len_u32 ?h) = length (fr_payload f)"
    using assms(1) payload_len_of_nat [OF _ frame_seal_fields(1), of f crc] by (simp_all add: sendable_def)
  have "subslice (take k (frame_encode crc f)) 0 32 = frame_header_bytes ?h"
    using False length_frame_header_bytes [OF wf] by (simp add: frame_encode_def subslice_def min_def)
  moreover have "frame_header_validate crc ?h = Inr ()"
    using frame_header_validate_iff [OF wf] valid by simp
  ultimately show ?thesis
    using False assms(2,3) len length_frame_header_bytes [OF wf]
    by (simp add: decode_with_max_def FRAME_HEADER_SIZE_def frame_header_cast_bytes [OF wf] frame_encode_def Let_def not_less)
qed

lemma sealed_part_update:
  assumes "length hb = 32" and "i < 32" and "i \<notin> {8..<12}"
  shows "sealed_part (hb[i := b]) = (sealed_part hb)[if i < 8 then i else i - 4 := b]"
    and "(if i < 8 then i else i - 4) < length (sealed_part hb)"
    and "sealed_part hb ! (if i < 8 then i else i - 4) = hb ! i"
proof -
  have "take 8 (hb[i := b]) = (take 8 hb)[i := b]" by (rule take_update_swap)
  moreover have "drop 12 (hb[i := b]) = (if i < 12 then drop 12 hb else (drop 12 hb)[i - 12 := b])"
    by (simp add: drop_update_cancel drop_update_swap)
  ultimately show "sealed_part (hb[i := b]) = (sealed_part hb)[if i < 8 then i else i - 4 := b]"
    using assms by (auto simp: sealed_part_def subslice_def list_update_append take_update_swap list_update_beyond)
  show "(if i < 8 then i else i - 4) < length (sealed_part hb)"
    using assms by (auto simp: sealed_part_def)
  show "sealed_part hb ! (if i < 8 then i else i - 4) = hb ! i"
    using assms by (auto simp: sealed_part_def subslice_def nth_append)
qed

lemma be_word_4_inject:
  assumes "(be_word xs :: u32) = be_word ys" and "length xs = 4" and "length ys = 4"
  shows "xs = ys"
proof -
  have "be_bytes 4 (be_word zs :: u32) = zs" if "length zs = 4" for zs
    using that by (simp add: be_bytes_be_word)
  with assms show ?thesis by metis
qed

lemma damaged_header:
  assumes "detects_single_byte crc" and "length hb = 32" and "valid_header crc (frame_header_cast hb)"
    and "i < 32" and "b \<noteq> hb ! i"
  shows "\<not> valid_header crc (frame_header_cast (hb[i := b]))"
proof
  assume "valid_header crc (frame_header_cast (hb[i := b]))"
  then have new: "be_word (subslice (hb[i := b]) 8 12) = crc (sealed_part (hb[i := b]))"
    using assms(2) by (simp add: valid_header_def compute_frame_crc_part frame_header_bytes_cast(1))
      (simp add: frame_header_cast_def)
  have old: "be_word (subslice hb 8 12) = crc (sealed_part hb)"
    using assms(2,3) by (simp add: valid_header_def compute_frame_crc_part frame_header_bytes_cast(1))
      (simp add: frame_header_cast_def)
  show False
  proof (cases "i \<in> {8..<12}")
    case True
    then have "sealed_part (hb[i := b]) = sealed_part hb"
      using subslice_update_outside [of i 12 32 hb b] subslice_update_outside [of i 0 8 hb b]
      by (auto simp: sealed_part_def)
    then have "be_word (subslice (hb[i := b]) 8 12) = (be_word (subslice hb 8 12) :: u32)"
      using new old by simp
    then have "subslice (hb[i := b]) 8 12 = subslice hb 8 12"
      using assms(2) by (intro be_word_4_inject) simp_all
    then have "subslice (hb[i := b]) 8 12 ! (i - 8) = subslice hb 8 12 ! (i - 8)" by simp
    then show False using True assms(2,5) by (auto simp: nth_subslice)
  next
    case False
    note upd = sealed_part_update [OF assms(2,4) False]
    have "crc (sealed_part (hb[i := b])) \<noteq> crc (sealed_part hb)"
      using assms(1,5) upd(2,3) unfolding upd(1) detects_single_byte_def by metis
    moreover have "subslice (hb[i := b]) 8 12 = subslice hb 8 12"
      using False by (intro subslice_update_outside) auto
    ultimately show False using new old by simp
  qed
qed

lemma decode_damaged:
  assumes crc: "detects_single_byte crc" and f: "sendable f"
    and i: "i < length (frame_encode crc f)" and b: "b \<noteq> frame_encode crc f ! i"
  shows "\<exists>e. decode_with_max crc ((frame_encode crc f)[i := b] @ rest) m = Inl e"
proof -
  let ?hb = "frame_header_bytes (frame_seal crc f)" and ?p = "fr_payload f"
  note valid = frame_seal_valid [OF f, of crc]
  then have wf: "wf_frame_header (frame_seal crc f)" by (simp add: valid_header_def)
  note len = length_frame_header_bytes [OF wf] and cast = frame_header_cast_bytes [OF wf]
  show ?thesis
  proof (cases "i < 32")
    case True
    have "\<not> valid_header crc (frame_header_cast (?hb[i := b]))"
      using damaged_header [OF crc len _ True] valid cast b True len
      by (simp add: frame_encode_def nth_append)
    then show ?thesis
      using decode_invalid_header [of "?hb[i := b]" crc "?p @ rest" m] len True
      by (simp add: frame_encode_def list_update_append)
  next
    case False
    then obtain j where j: "i = length ?hb + j" using len by (metis le_Suc_ex not_less)
    have "b \<noteq> ?p ! j" and "j < length ?p" using i b by (simp_all add: frame_encode_def j nth_append)
    then have neq: "crc (?p[j := b]) \<noteq> crc ?p"
      using crc by (simp add: detects_single_byte_def)
    have plen: "unat (payload_len_u32 (frame_seal crc f)) = length (?p[j := b])"
      using f payload_len_of_nat [OF _ frame_seal_fields(1), of f crc] by (simp add: sendable_def)
    show ?thesis
      using decode_framed [OF len, of crc "?p[j := b]" rest m] valid plen neq
      by (simp add: cast frame_encode_def j list_update_after frame_seal_fields)
  qed
qed


section \<open>Properties\<close>

text \<open>C32. The frame decoder accepts exactly the encoder's output: a buffer decodes to a frame and an
  unconsumed tail if and only if it is the encoding of that frame followed by that tail, the frame is
  one the encoder may send (legal magic, version, flags and reserved bytes, a payload that fits the
  24-bit length), its stored checksums are the recomputed ones, and its payload is within the
  negotiated maximum.\<close>

theorem frame_decode_exact:
  "decode_with_max crc bs m = Inr (f, rest) \<longleftrightarrow>
   bs = frame_encode crc f @ rest \<and> sendable f \<and> frame_seal crc f = fr_header f \<and>
   of_nat (length (fr_payload f)) \<le> m"
  using decode_canonical [of crc bs m f rest] decode_encode_frame [of f m crc rest] by auto

text \<open>C33. No single damaged byte of a frame goes unnoticed: changing any one byte of an encoded frame,
  in the header, its checksum fields, its length field or the payload, makes the decoder report an
  error, whatever follows the frame in the buffer.\<close>

theorem frame_damage_detected:
  assumes "detects_single_byte crc"
    and "frame_new crc opcode flags stream_id payload = Some f" and "flags AND FLAGS_RESERVED_MASK = 0"
    and "i < length (frame_encode crc f)" and "b \<noteq> frame_encode crc f ! i"
  shows "\<exists>e. decode_with_max crc ((frame_encode crc f)[i := b] @ rest) m = Inl e"
proof -
  have "length payload \<le> MAX_PAYLOAD_BYTES"
    using assms(2) by (simp add: frame_new_def split: if_splits)
  then have "sendable f"
    using frame_new_Some [of payload flags crc opcode stream_id] assms(2,3) by (metis option.inject)
  with assms show ?thesis by (intro decode_damaged)
qed

theorem frame_damage_detected_witness:
  "\<exists>f e. frame_new sum_crc 0x0010 0x80 0 [1, 2, 3] = Some f \<and>
     decode_with_max sum_crc ((frame_encode sum_crc f)[33 := 7]) 100 = Inl e"
proof -
  obtain f where f: "frame_new sum_crc 0x0010 0x80 0 [1, 2, 3] = Some f" "sendable f"
    "fr_payload f = [1, 2, 3]"
    using frame_new_Some [of "[1, 2, 3]" "0x80" sum_crc "0x0010" 0]
    by (auto simp: MAX_PAYLOAD_BYTES_def FLAGS_RESERVED_MASK_def)
  have "length (frame_encode sum_crc f) = 35" "frame_encode sum_crc f ! 33 = 2"
    using frame_seal_valid [OF f(2), of sum_crc] f(3)
    by (simp_all add: frame_encode_def length_frame_header_bytes valid_header_def nth_append)
  then show ?thesis
    using frame_damage_detected [OF sum_crc_detects f(1), of 33 7 "[]" 100] f(1)
    by (simp add: FLAGS_RESERVED_MASK_def)
qed

end
