(* ===== verification/Proto_Handshake.thy ===== *)
theory Proto_Handshake
  imports Proto_Opcode Proto_Frame Core_Ids
begin

text \<open>
  The handshake messages and version negotiation (\<open>brain-protocol/src/connection/handshake.rs\<close>) and
  the CBOR entry points (\<open>codec/cbor.rs\<close>). Reading one CBOR item off a buffer is \<open>ciborium\<close>'s work:
  a reader of that kind is a parameter that returns the value and the number of bytes it consumed, or
  an error text. A Rust \<open>String\<close> is its UTF-8 bytes.
  The lemmas show that negotiation picks the highest version both sides support, and that the
  whole-buffer decoder rejects trailing bytes.
\<close>

type_synonym text_bytes = bytes

section \<open>CBOR entry points\<close>

type_synonym 'a cbor_reader = "bytes \<Rightarrow> string + 'a \<times> nat"

definition from_cbor_bytes :: "'a cbor_reader \<Rightarrow> bytes \<Rightarrow> protocol_error + 'a" where
  "from_cbor_bytes rd bs =
     (case rd bs of
        Inl e \<Rightarrow> Inl (Pe_MalformedPayload (''CBOR decode failed: '' @ e))
      | Inr (v, position) \<Rightarrow>
          if position \<noteq> length bs then Inl (Pe_MalformedPayload ''trailing bytes after CBOR payload'')
          else Inr v)"

definition from_cbor_prefix :: "'a cbor_reader \<Rightarrow> bytes \<Rightarrow> protocol_error + 'a \<times> nat" where
  "from_cbor_prefix rd bs =
     (case rd bs of
        Inl e \<Rightarrow> Inl (Pe_MalformedPayload (''CBOR decode failed: '' @ e))
      | Inr (v, position) \<Rightarrow> Inr (v, position))"

definition f32_slice_to_le_bytes :: "f32 list \<Rightarrow> bytes" where
  "f32_slice_to_le_bytes v = concat (map (le_bytes 4) v)"

fun le_chunks :: "bytes \<Rightarrow> f32 list" where
  "le_chunks (a # b # c # d # bs) = le_word [a, b, c, d] # le_chunks bs"
| "le_chunks bs = []"

definition le_bytes_to_f32_vec :: "bytes \<Rightarrow> protocol_error + f32 list" where
  "le_bytes_to_f32_vec bs =
     (if length bs mod 4 \<noteq> 0
      then Inl (Pe_MalformedPayload ''trailing vector section is not a multiple of 4'')
      else Inr (le_chunks bs))"

section \<open>Messages\<close>

record hello_capabilities =
  hc_streaming :: bool
  hc_compression_zstd :: bool
  hc_server_push :: bool

datatype auth_method = AuthToken | AuthMtls

record server_features =
  sf_max_payload_size :: u32
  sf_max_concurrent_streams :: u32
  sf_idle_timeout_seconds :: u32
  sf_auth_methods :: "auth_method list"

record mtls_claim =
  mc_cert_fingerprint :: bytes
  mc_asserted_subject :: text_bytes

datatype auth_credentials = TokenCredential bytes | MtlsCredential mtls_claim

record space_permissions =
  can_encode :: bool
  can_recall :: bool
  can_plan :: bool
  can_reason :: bool
  can_forget :: bool
  can_admin :: bool
  can_act_as :: bool

record hello_payload =
  hp_client_id :: text_bytes
  hp_supported_versions :: "u8 list"
  hp_capabilities :: hello_capabilities
  hp_client_connection_token :: "bytes option"

record welcome_payload =
  wp_server_id :: text_bytes
  wp_chosen_version :: u8
  wp_connection_id :: bytes
  wp_capabilities :: hello_capabilities
  wp_server_features :: server_features

record auth_payload =
  ap_method :: auth_method
  ap_credentials :: auth_credentials

record auth_ok_payload =
  ao_space_id :: space_id
  ao_bound_shard_id :: shard_id
  ao_permissions :: space_permissions
  ao_namespace :: text_bytes
  ao_server_time_unix_nanos :: u64

section \<open>Negotiation\<close>

record server_capabilities =
  sc_supported_versions :: "u8 list"
  sc_capabilities :: hello_capabilities
  sc_server_features :: server_features
  sc_server_id :: text_bytes

definition v1_default :: "text_bytes \<Rightarrow> auth_method list \<Rightarrow> server_capabilities" where
  "v1_default server_id auth_methods =
     \<lparr>sc_supported_versions = [WIRE_VERSION],
      sc_capabilities = \<lparr>hc_streaming = True, hc_compression_zstd = False, hc_server_push = False\<rparr>,
      sc_server_features =
        \<lparr>sf_max_payload_size = of_nat MAX_PAYLOAD_BYTES, sf_max_concurrent_streams = 1024,
         sf_idle_timeout_seconds = 300, sf_auth_methods = auth_methods\<rparr>,
      sc_server_id = server_id\<rparr>"

record negotiated_session =
  ns_chosen_version :: u8
  ns_capabilities :: hello_capabilities

text \<open>\<open>Iterator::max\<close>: \<open>None\<close> on an empty list.\<close>

fun iter_max :: "u8 list \<Rightarrow> u8 option" where
  "iter_max [] = None"
| "iter_max (v # vs) = Some (fold max vs v)"

definition max_or_zero :: "u8 list \<Rightarrow> u8" where
  "max_or_zero vs = (case iter_max vs of Some v \<Rightarrow> v | None \<Rightarrow> 0)"

definition negotiate :: "hello_payload \<Rightarrow> server_capabilities \<Rightarrow> protocol_error + negotiated_session" where
  "negotiate client server =
     (case iter_max (filter (\<lambda>v. v \<in> set (sc_supported_versions server)) (hp_supported_versions client)) of
        None \<Rightarrow> Inl (Pe_BadVersion (max_or_zero (hp_supported_versions client))
                       (max_or_zero (sc_supported_versions server)))
      | Some v \<Rightarrow>
          Inr \<lparr>ns_chosen_version = v,
               ns_capabilities =
                 \<lparr>hc_streaming = (hc_streaming (hp_capabilities client) \<and> hc_streaming (sc_capabilities server)),
                  hc_compression_zstd = (hc_compression_zstd (hp_capabilities client) \<and>
                    hc_compression_zstd (sc_capabilities server)),
                  hc_server_push = (hc_server_push (hp_capabilities client) \<and>
                    hc_server_push (sc_capabilities server))\<rparr>\<rparr>)"

section \<open>Lemmas\<close>

lemma from_cbor_bytes_Inr:
  "from_cbor_bytes rd bs = Inr v \<longleftrightarrow> rd bs = Inr (v, length bs)"
  by (auto simp: from_cbor_bytes_def split: sum.splits prod.splits)

lemma le_chunks_append:
  assumes "length xs = 4"
  shows "le_chunks (xs @ ys) = le_word xs # le_chunks ys"
proof -
  obtain a b c d where "xs = [a, b, c, d]"
    using assms by (auto simp: numeral_eq_Suc length_Suc_conv)
  then show ?thesis by simp
qed

lemma f32_section_roundtrip: "le_bytes_to_f32_vec (f32_slice_to_le_bytes v) = Inr v"
proof -
  have "le_chunks (f32_slice_to_le_bytes v) = v \<and> length (f32_slice_to_le_bytes v) = 4 * length v"
    by (induction v) (simp_all add: f32_slice_to_le_bytes_def le_chunks_append)
  then show ?thesis by (simp add: le_bytes_to_f32_vec_def)
qed

lemma fold_max_Max: "fold max vs v = Max (insert v (set vs))" for v :: u8
  by (simp flip: Max.set_eq_fold)

lemma iter_max_None: "iter_max vs = None \<longleftrightarrow> vs = []"
  by (cases vs) simp_all

lemma iter_max_Some:
  assumes "iter_max vs = Some m"
  shows "m \<in> set vs \<and> (\<forall>v \<in> set vs. v \<le> m)"
proof -
  have "vs \<noteq> []" and "m = Max (set vs)"
    using assms by (cases vs; auto simp: fold_max_Max)+
  then show ?thesis using Max_in [of "set vs"] Max_ge [of "set vs"] by simp
qed

lemma negotiate_common:
  "(\<exists>s. negotiate client server = Inr s) \<longleftrightarrow>
   set (hp_supported_versions client) \<inter> set (sc_supported_versions server) \<noteq> {}"
proof -
  let ?c = "filter (\<lambda>v. v \<in> set (sc_supported_versions server)) (hp_supported_versions client)"
  have "(\<exists>s. negotiate client server = Inr s) \<longleftrightarrow> iter_max ?c \<noteq> None"
    by (simp add: negotiate_def split: option.splits)
  also have "\<dots> \<longleftrightarrow> ?c \<noteq> []" by (simp add: iter_max_None)
  finally show ?thesis by (auto simp: filter_empty_conv)
qed

lemma negotiate_highest:
  assumes "negotiate client server = Inr s"
  shows "ns_chosen_version s \<in> set (hp_supported_versions client) \<inter> set (sc_supported_versions server)"
    and "v \<in> set (hp_supported_versions client) \<inter> set (sc_supported_versions server) \<Longrightarrow> v \<le> ns_chosen_version s"
proof -
  have "iter_max (filter (\<lambda>v. v \<in> set (sc_supported_versions server)) (hp_supported_versions client)) =
      Some (ns_chosen_version s)"
    using assms unfolding negotiate_def by (auto split: option.splits)
  from iter_max_Some [OF this]
  show "ns_chosen_version s \<in> set (hp_supported_versions client) \<inter> set (sc_supported_versions server)"
    and "v \<in> set (hp_supported_versions client) \<inter> set (sc_supported_versions server) \<Longrightarrow> v \<le> ns_chosen_version s"
    by auto
qed

end
