(* ===== verification/Proto_Request.thy ===== *)
theory Proto_Request
  imports Proto_Handshake Core_Edges
begin

text \<open>
  Request bodies (\<open>brain-protocol/src/envelope/request.rs\<close>). The variants whose fields the network
  layer reads are constructors with those fields; the remaining variants, which it only transports to
  a shard, are one constructor that carries the opcode, the \<open>act_as\<close> selector and the encoded body.
  The CBOR readers of the bodies are parameters.
  The lemmas show that a decoded body is always of the variant its opcode announces and that opcodes
  without a request body are refused.
\<close>

section \<open>Bodies\<close>

record act_as =
  aa_namespace :: text_bytes
  aa_space :: text_bytes
  aa_grant :: u32

record subscription_filter =
  flt_session_filter :: "session_id list option"
  flt_kinds :: "memory_kind list option"
  flt_similar_to :: "(memory_id \<times> f32) option"
  flt_spaces :: "space_id list option"
  flt_memory_ids :: "memory_id list option"

record subscribe_request =
  sub_filter :: subscription_filter
  sub_include_history :: bool
  sub_from_lsn :: "u64 option"
  sub_max_inflight :: u32
  sub_act_as :: "act_as option"

datatype cancellation_reason = ClientUnneeded | CancelTimeout | CancelOther text_bytes

record cancel_stream_request =
  cs_target_stream_id :: u32
  cs_reason :: cancellation_reason

record txn_begin_request =
  tb_txn_id :: txn_id
  tb_timeout_seconds :: u32
  tb_act_as :: "act_as option"

datatype wire_forget_mode = WireSoft | WireHard

record forget_request =
  fq_memory_id :: memory_id
  fq_mode :: wire_forget_mode
  fq_request_id :: request_id
  fq_txn_id :: "txn_id option"
  fq_act_as :: "act_as option"

record link_request =
  lq_source :: memory_id
  lq_target :: memory_id
  lq_kind :: edge_kind
  lq_weight :: f32
  lq_request_id :: request_id
  lq_txn_id :: "txn_id option"
  lq_act_as :: "act_as option"

record unlink_request =
  uq_source :: memory_id
  uq_target :: memory_id
  uq_kind :: edge_kind
  uq_request_id :: request_id
  uq_txn_id :: "txn_id option"
  uq_act_as :: "act_as option"

datatype request_body =
    Rq_Hello hello_payload
  | Rq_Auth auth_payload
  | Rq_EncodeVectorDirect "act_as option" bytes "f32 list"
  | Rq_Forget forget_request
  | Rq_Link link_request
  | Rq_Unlink unlink_request
  | Rq_Subscribe subscribe_request
  | Rq_Unsubscribe u32
  | Rq_TxnBegin txn_begin_request
  | Rq_TxnCommit txn_id
  | Rq_TxnAbort txn_id
  | Rq_CancelStream cancel_stream_request
  | Rq_Ping u64
  | Rq_ClientPong u64 u64
  | Rq_Bye "text_bytes option"
  | Rq_Other opcode "act_as option" bytes

text \<open>The transported variants: those with an \<open>act_as\<close> field, and those that always run as the
  connection's own identity.\<close>

definition DELEGABLE_REQUESTS :: "opcode list" where
  "DELEGABLE_REQUESTS =
     [
      Op_Cognitive O_EncodeReq, Op_Cognitive O_RecallReq, Op_Cognitive O_PlanReq,
      Op_Cognitive O_ReasonReq, Op_Cognitive O_MemoryListReq, Op_Cognitive O_MemoryInspectReq,
      Op_Query O_GraphFetchReq, Op_Subscription O_GetCapabilitiesReq,
      Op_Entity O_EntityCreateReq, Op_Entity O_EntityGetReq, Op_Entity O_EntityUpdateReq,
      Op_Entity O_EntityRenameReq, Op_Entity O_EntityMergeReq, Op_Entity O_EntityUnmergeReq,
      Op_Entity O_EntityResolveReq, Op_Entity O_EntityListReq, Op_Entity O_EntityTombstoneReq,
      Op_Statement O_StatementCreateReq, Op_Statement O_StatementGetReq,
      Op_Statement O_StatementSupersedeReq, Op_Statement O_StatementTombstoneReq,
      Op_Statement O_StatementRetractReq, Op_Statement O_StatementHistoryReq,
      Op_Statement O_StatementListReq, Op_Relation O_RelationCreateReq,
      Op_Relation O_RelationGetReq, Op_Relation O_RelationSupersedeReq,
      Op_Relation O_RelationTombstoneReq, Op_Relation O_RelationListFromReq,
      Op_Relation O_RelationListToReq, Op_Relation O_RelationTraverseReq,
      Op_Schema O_SchemaUploadReq, Op_Schema O_SchemaGetReq, Op_Schema O_SchemaListReq,
      Op_Schema O_SchemaValidateReq, Op_Schema O_SchemaReplaceReq, Op_Schema O_SchemaDropReq,
      Op_Schema O_ExtractorListReq, Op_Query O_QueryExplainReq, Op_Query O_QueryTraceReq,
      Op_Query O_MaterializeProceduralReq, Op_Registry O_SpaceCreateReq,
      Op_Registry O_SpaceListReq, Op_Registry O_SpaceDeleteReq, Op_Registry O_SessionCreateReq,
      Op_Registry O_SessionListReq, Op_Registry O_SessionDeleteReq
     ]"

definition OWN_REQUESTS :: "opcode list" where
  "OWN_REQUESTS =
     [
      Op_Admin O_AdminStatsReq, Op_Admin O_AdminSnapshotReq, Op_Admin O_AdminRestoreReq,
      Op_Admin O_AdminIntegrityCheckReq, Op_Admin O_AdminMigrateEmbeddingsReq,
      Op_Admin O_AdminCreateSessionReq, Op_Admin O_AdminRenameSessionReq,
      Op_Admin O_AdminMoveMemoryReq, Op_Admin O_AdminReclassifyReq,
      Op_Admin O_AdminListTombstonedReq, Op_GraphAdmin O_AdminListPendingContradictionsReq,
      Op_Admin O_AdminBackfillReq, Op_Admin O_AdminBackfillCancelReq
     ]"

fun request_opcode :: "request_body \<Rightarrow> opcode" where
  "request_opcode (Rq_Hello r) = Op_Connection O_Hello"
| "request_opcode (Rq_Auth r) = Op_Connection O_Auth"
| "request_opcode (Rq_EncodeVectorDirect a bs v) = Op_Cognitive O_EncodeVectorDirectReq"
| "request_opcode (Rq_Forget r) = Op_Cognitive O_ForgetReq"
| "request_opcode (Rq_Link r) = Op_Cognitive O_LinkReq"
| "request_opcode (Rq_Unlink r) = Op_Cognitive O_UnlinkReq"
| "request_opcode (Rq_Subscribe r) = Op_Subscription O_SubscribeReq"
| "request_opcode (Rq_Unsubscribe sid) = Op_Subscription O_UnsubscribeReq"
| "request_opcode (Rq_TxnBegin r) = Op_Transaction O_TxnBegin"
| "request_opcode (Rq_TxnCommit t) = Op_Transaction O_TxnCommit"
| "request_opcode (Rq_TxnAbort t) = Op_Transaction O_TxnAbort"
| "request_opcode (Rq_CancelStream r) = Op_Stream O_CancelStream"
| "request_opcode (Rq_Ping t) = Op_Connection O_Ping"
| "request_opcode (Rq_ClientPong s t) = Op_Connection O_ClientPong"
| "request_opcode (Rq_Bye why) = Op_Connection O_Bye"
| "request_opcode (Rq_Other op a bs) = op"

section \<open>Decoding\<close>

record cbor_readers =
  rd_hello :: "hello_payload cbor_reader"
  rd_auth :: "auth_payload cbor_reader"
  rd_vector_direct :: "act_as option cbor_reader"
  rd_forget :: "forget_request cbor_reader"
  rd_link :: "link_request cbor_reader"
  rd_unlink :: "unlink_request cbor_reader"
  rd_subscribe :: "subscribe_request cbor_reader"
  rd_unsubscribe :: "u32 cbor_reader"
  rd_txn_begin :: "txn_begin_request cbor_reader"
  rd_txn_end :: "txn_id cbor_reader"
  rd_cancel_stream :: "cancel_stream_request cbor_reader"
  rd_ping :: "u64 cbor_reader"
  rd_client_pong :: "(u64 \<times> u64) cbor_reader"
  rd_bye :: "text_bytes option cbor_reader"
  rd_other :: "opcode \<Rightarrow> act_as option cbor_reader"

definition decode_vector_direct :: "act_as option cbor_reader \<Rightarrow> bytes \<Rightarrow> protocol_error + request_body" where
  "decode_vector_direct rd bs =
     (case from_cbor_prefix rd bs of
        Inl e \<Rightarrow> Inl e
      | Inr (a, consumed) \<Rightarrow>
          (case le_bytes_to_f32_vec (drop consumed bs) of
             Inl e \<Rightarrow> Inl e
           | Inr v \<Rightarrow> Inr (Rq_EncodeVectorDirect a (take consumed bs) v)))"

definition request_decode :: "cbor_readers \<Rightarrow> opcode \<Rightarrow> bytes \<Rightarrow> protocol_error + request_body" where
  "request_decode rd op bs =
     (if op = Op_Connection O_Hello then map_sum id Rq_Hello (from_cbor_bytes (rd_hello rd) bs)
      else if op = Op_Connection O_Auth then map_sum id Rq_Auth (from_cbor_bytes (rd_auth rd) bs)
      else if op = Op_Cognitive O_EncodeVectorDirectReq then decode_vector_direct (rd_vector_direct rd) bs
      else if op = Op_Cognitive O_ForgetReq then map_sum id Rq_Forget (from_cbor_bytes (rd_forget rd) bs)
      else if op = Op_Cognitive O_LinkReq then map_sum id Rq_Link (from_cbor_bytes (rd_link rd) bs)
      else if op = Op_Cognitive O_UnlinkReq then map_sum id Rq_Unlink (from_cbor_bytes (rd_unlink rd) bs)
      else if op = Op_Subscription O_SubscribeReq
        then map_sum id Rq_Subscribe (from_cbor_bytes (rd_subscribe rd) bs)
      else if op = Op_Subscription O_UnsubscribeReq
        then map_sum id Rq_Unsubscribe (from_cbor_bytes (rd_unsubscribe rd) bs)
      else if op = Op_Transaction O_TxnBegin
        then map_sum id Rq_TxnBegin (from_cbor_bytes (rd_txn_begin rd) bs)
      else if op = Op_Transaction O_TxnCommit
        then map_sum id Rq_TxnCommit (from_cbor_bytes (rd_txn_end rd) bs)
      else if op = Op_Transaction O_TxnAbort
        then map_sum id Rq_TxnAbort (from_cbor_bytes (rd_txn_end rd) bs)
      else if op = Op_Stream O_CancelStream
        then map_sum id Rq_CancelStream (from_cbor_bytes (rd_cancel_stream rd) bs)
      else if op = Op_Connection O_Ping then map_sum id Rq_Ping (from_cbor_bytes (rd_ping rd) bs)
      else if op = Op_Connection O_ClientPong
        then map_sum id (\<lambda>(s, c). Rq_ClientPong s c) (from_cbor_bytes (rd_client_pong rd) bs)
      else if op = Op_Connection O_Bye then map_sum id Rq_Bye (from_cbor_bytes (rd_bye rd) bs)
      else if op \<in> set DELEGABLE_REQUESTS \<or> op \<in> set OWN_REQUESTS
        then map_sum id (\<lambda>a. Rq_Other op a bs) (from_cbor_bytes (rd_other rd op) bs)
      else Inl (UnknownOpcode (opcode_as_u16 op)))"

fun act_as_of :: "request_body \<Rightarrow> act_as option" where
  "act_as_of (Rq_EncodeVectorDirect a bs v) = a"
| "act_as_of (Rq_Forget r) = fq_act_as r"
| "act_as_of (Rq_Link r) = lq_act_as r"
| "act_as_of (Rq_Unlink r) = uq_act_as r"
| "act_as_of (Rq_Subscribe r) = sub_act_as r"
| "act_as_of (Rq_TxnBegin r) = tb_act_as r"
| "act_as_of (Rq_Other op a bs) = (if op \<in> set DELEGABLE_REQUESTS then a else None)"
| "act_as_of (Rq_Hello r) = None"
| "act_as_of (Rq_Auth r) = None"
| "act_as_of (Rq_Unsubscribe sid) = None"
| "act_as_of (Rq_TxnCommit t) = None"
| "act_as_of (Rq_TxnAbort t) = None"
| "act_as_of (Rq_CancelStream r) = None"
| "act_as_of (Rq_Ping t) = None"
| "act_as_of (Rq_ClientPong s t) = None"
| "act_as_of (Rq_Bye why) = None"

section \<open>Typing\<close>

lemma map_sum_Inr: "map_sum id f s = Inr y \<longleftrightarrow> (\<exists>x. s = Inr x \<and> y = f x)"
  by (cases s) auto

lemma decode_vector_direct_opcode:
  "decode_vector_direct rd bs = Inr body \<Longrightarrow> request_opcode body = Op_Cognitive O_EncodeVectorDirectReq"
  by (auto simp: decode_vector_direct_def split: sum.splits prod.splits)

lemma request_decode_opcode:
  assumes "request_decode rd op bs = Inr body"
  shows "request_opcode body = op"
  using assms decode_vector_direct_opcode [of "rd_vector_direct rd" bs body]
  by (auto simp: request_decode_def map_sum_Inr split: if_splits prod.splits)

lemma requests_are_requests:
  "list_all is_request DELEGABLE_REQUESTS" "list_all is_request OWN_REQUESTS"
  by (simp_all add: DELEGABLE_REQUESTS_def OWN_REQUESTS_def is_request_def opcode_low_byte_def)

lemma request_decode_is_request:
  assumes "request_decode rd op bs = Inr body"
  shows "is_request op"
proof -
  have "op \<in> set DELEGABLE_REQUESTS \<or> op \<in> set OWN_REQUESTS \<Longrightarrow> is_request op"
    using requests_are_requests by (auto simp: list_all_iff)
  then show ?thesis
    using assms by (auto simp: request_decode_def is_request_def opcode_low_byte_def split: if_splits)
qed


lemma own_not_delegable: "list_all (\<lambda>op. op \<notin> set DELEGABLE_REQUESTS) OWN_REQUESTS"
  by (simp add: DELEGABLE_REQUESTS_def OWN_REQUESTS_def)

text \<open>Readers that accept any buffer, for the concrete instances.\<close>

definition accepting_readers :: cbor_readers where
  "accepting_readers =
     \<lparr>rd_hello = (\<lambda>bs. Inr (\<lparr>hp_client_id = [], hp_supported_versions = [1],
        hp_capabilities = \<lparr>hc_streaming = True, hc_compression_zstd = False, hc_server_push = False\<rparr>,
        hp_client_connection_token = None\<rparr>, length bs)),
      rd_auth = (\<lambda>bs. Inr (\<lparr>ap_method = AuthToken, ap_credentials = TokenCredential bs\<rparr>, length bs)),
      rd_vector_direct = (\<lambda>bs. Inr (None, length bs)), rd_forget = (\<lambda>bs. Inl ''unused''),
      rd_link = (\<lambda>bs. Inl ''unused''), rd_unlink = (\<lambda>bs. Inl ''unused''),
      rd_subscribe = (\<lambda>bs. Inl ''unused''), rd_unsubscribe = (\<lambda>bs. Inr (1, length bs)),
      rd_txn_begin = (\<lambda>bs. Inr (\<lparr>tb_txn_id = bs, tb_timeout_seconds = 5, tb_act_as = None\<rparr>, length bs)),
      rd_txn_end = (\<lambda>bs. Inr (bs, length bs)), rd_cancel_stream = (\<lambda>bs. Inl ''unused''),
      rd_ping = (\<lambda>bs. Inr (7, length bs)), rd_client_pong = (\<lambda>bs. Inr ((7, 8), length bs)),
      rd_bye = (\<lambda>bs. Inr (None, length bs)), rd_other = (\<lambda>op bs. Inr (None, length bs))\<rparr>"

section \<open>Properties\<close>



end
