(* ===== verification/Server_Auth.thy ===== *)
theory Server_Auth
  imports Proto_Request
begin

text \<open>
  Credentials: the API-key table (\<open>brain-metadata/src/tables/api_keys.rs\<close>, \<open>api_keys/mod.rs\<close>), the
  scope a connection inherits from its key and the identity its requests run as
  (\<open>brain-server/src/network/auth.rs\<close>, \<open>brain-ops/src/dispatch.rs\<close>). The \<open>redb\<close> tables are maps and an
  I/O failure is an outcome passed to the operation; BLAKE3, base64 and UUIDv5 are parameters.
  The lemmas show that a minted key authenticates to exactly the scope it was minted with until it is
  revoked, that a revoked key is never accepted again whatever is done to the store, and that a
  delegated request never runs with more rights than the standard ones and those its principal holds.
\<close>

section \<open>Permissions\<close>

definition PERM_ENCODE :: u32 where "PERM_ENCODE = push_bit 0 1"
definition PERM_RECALL :: u32 where "PERM_RECALL = push_bit 1 1"
definition PERM_FORGET :: u32 where "PERM_FORGET = push_bit 2 1"
definition PERM_LINK :: u32 where "PERM_LINK = push_bit 3 1"
definition PERM_SCHEMA_UPLOAD :: u32 where "PERM_SCHEMA_UPLOAD = push_bit 4 1"
definition PERM_ADMIN :: u32 where "PERM_ADMIN = push_bit 5 1"
definition PERM_ACT_AS :: u32 where "PERM_ACT_AS = push_bit 6 1"

definition STANDARD_SPACE :: u32 where
  "STANDARD_SPACE = PERM_ENCODE OR PERM_RECALL OR PERM_FORGET OR PERM_LINK"

definition PERM_FULL :: u32 where
  "PERM_FULL = PERM_ENCODE OR PERM_RECALL OR PERM_FORGET OR PERM_LINK OR PERM_SCHEMA_UPLOAD OR PERM_ADMIN"

definition DELEGABLE :: u32 where
  "DELEGABLE = PERM_SCHEMA_UPLOAD OR PERM_ADMIN"

section \<open>The key table\<close>

type_synonym key_hash = bytes

record api_key_row =
  ak_key_hash :: key_hash
  ak_org_id :: uuid
  ak_user_id :: uuid
  ak_namespace :: text_bytes
  ak_space_id :: space_id
  ak_permissions :: u32
  ak_may_act :: "text_bytes list"
  ak_created_at_unix_nanos :: u64
  ak_last_used_at_unix_nanos :: u64
  ak_revoked :: bool

definition api_key_row_new ::
  "key_hash \<Rightarrow> uuid \<Rightarrow> uuid \<Rightarrow> text_bytes \<Rightarrow> space_id \<Rightarrow> u32 \<Rightarrow> u64 \<Rightarrow> api_key_row" where
  "api_key_row_new kh org user namespace space perms created =
     \<lparr>ak_key_hash = kh, ak_org_id = org, ak_user_id = user, ak_namespace = namespace,
      ak_space_id = space, ak_permissions = perms, ak_may_act = [],
      ak_created_at_unix_nanos = created, ak_last_used_at_unix_nanos = 0, ak_revoked = False\<rparr>"

definition api_key_row_allows :: "api_key_row \<Rightarrow> u32 \<Rightarrow> bool" where
  "api_key_row_allows row op \<longleftrightarrow> ak_permissions row AND op = op"

record api_key_db =
  db_keys :: "key_hash \<rightharpoonup> api_key_row"
  db_by_space :: "(space_id \<times> key_hash) set"

datatype api_key_error = KeyStorage | KeyDuplicate

text \<open>The third-party functions: BLAKE3, UUIDv5 and base64url decoding.\<close>

record net_deps =
  dep_blake3 :: "bytes \<Rightarrow> bytes"
  dep_uuid_v5 :: "uuid \<Rightarrow> bytes \<Rightarrow> uuid"
  dep_base64_decode :: "bytes \<Rightarrow> bytes option"

definition hash_secret :: "net_deps \<Rightarrow> bytes \<Rightarrow> key_hash" where
  "hash_secret d secret = dep_blake3 d secret"

definition api_key_create ::
  "net_deps \<Rightarrow> bool \<Rightarrow> bytes \<Rightarrow> uuid \<Rightarrow> uuid \<Rightarrow> text_bytes \<Rightarrow> space_id \<Rightarrow> u32 \<Rightarrow> text_bytes list \<Rightarrow> u64 \<Rightarrow>
     api_key_db \<Rightarrow> api_key_error + (api_key_row \<times> api_key_db)" where
  "api_key_create d io_ok secret org user namespace space perms may_act now db =
     (let kh = hash_secret d secret;
          row = (api_key_row_new kh org user namespace space perms now)\<lparr>ak_may_act := may_act\<rparr>
      in if \<not> io_ok then Inl KeyStorage
         else if db_keys db kh \<noteq> None then Inl KeyDuplicate
         else Inr (row, db\<lparr>db_keys := (db_keys db)(kh \<mapsto> row),
                           db_by_space := insert (space, kh) (db_by_space db)\<rparr>))"

definition api_key_lookup_by_hash ::
  "bool \<Rightarrow> key_hash \<Rightarrow> api_key_db \<Rightarrow> api_key_error + api_key_row option" where
  "api_key_lookup_by_hash io_ok kh db = (if io_ok then Inr (db_keys db kh) else Inl KeyStorage)"

definition api_key_lookup_by_secret ::
  "net_deps \<Rightarrow> bool \<Rightarrow> bytes \<Rightarrow> api_key_db \<Rightarrow> api_key_error + api_key_row option" where
  "api_key_lookup_by_secret d io_ok secret db = api_key_lookup_by_hash io_ok (hash_secret d secret) db"

definition api_key_revoke :: "bool \<Rightarrow> key_hash \<Rightarrow> api_key_db \<Rightarrow> api_key_error + (bool \<times> api_key_db)" where
  "api_key_revoke io_ok kh db =
     (if \<not> io_ok then Inl KeyStorage
      else (case db_keys db kh of
              None \<Rightarrow> Inr (False, db)
            | Some row \<Rightarrow>
                if \<not> ak_revoked row
                then Inr (True, db\<lparr>db_keys := (db_keys db)(kh \<mapsto> row\<lparr>ak_revoked := True\<rparr>)\<rparr>)
                else Inr (True, db)))"

definition api_key_touch_last_used ::
  "bool \<Rightarrow> key_hash \<Rightarrow> u64 \<Rightarrow> api_key_db \<Rightarrow> api_key_error + (bool \<times> api_key_db)" where
  "api_key_touch_last_used io_ok kh now db =
     (if \<not> io_ok then Inl KeyStorage
      else (case db_keys db kh of
              None \<Rightarrow> Inr (False, db)
            | Some row \<Rightarrow>
                if ak_last_used_at_unix_nanos row < now
                then Inr (True, db\<lparr>db_keys := (db_keys db)(kh \<mapsto> row\<lparr>ak_last_used_at_unix_nanos := now\<rparr>)\<rparr>)
                else Inr (True, db)))"

definition is_key_active :: "bool \<Rightarrow> key_hash \<Rightarrow> api_key_db \<Rightarrow> api_key_error + bool" where
  "is_key_active io_ok kh db =
     (case api_key_lookup_by_hash io_ok kh db of
        Inl e \<Rightarrow> Inl e
      | Inr (Some row) \<Rightarrow> Inr (\<not> ak_revoked row)
      | Inr None \<Rightarrow> Inr False)"

section \<open>Scope of a connection\<close>

record request_scope =
  rs_space_id :: space_id
  rs_org_id :: uuid
  rs_user_id :: uuid
  rs_namespace :: text_bytes
  rs_permissions :: u32
  rs_may_act :: "text_bytes list"
  rs_key_hash :: key_hash

text \<open>\<open>RequestScope::from_resolved\<close> after \<open>ResolvedScope::from_row\<close>.\<close>

definition scope_of_row :: "api_key_row \<Rightarrow> request_scope" where
  "scope_of_row row =
     \<lparr>rs_space_id = ak_space_id row, rs_org_id = ak_org_id row, rs_user_id = ak_user_id row,
      rs_namespace = ak_namespace row, rs_permissions = ak_permissions row,
      rs_may_act = ak_may_act row, rs_key_hash = ak_key_hash row\<rparr>"

definition to_space_permissions :: "request_scope \<Rightarrow> space_permissions" where
  "to_space_permissions sc =
     \<lparr>can_encode = (rs_permissions sc AND PERM_ENCODE \<noteq> 0),
      can_recall = (rs_permissions sc AND PERM_RECALL \<noteq> 0),
      can_plan = (rs_permissions sc AND PERM_RECALL \<noteq> 0),
      can_reason = (rs_permissions sc AND PERM_RECALL \<noteq> 0),
      can_forget = (rs_permissions sc AND PERM_FORGET \<noteq> 0),
      can_admin = (rs_permissions sc AND PERM_ADMIN \<noteq> 0),
      can_act_as = (rs_permissions sc AND PERM_ACT_AS \<noteq> 0)\<rparr>"

record request_caller =
  rc_space_id :: space_id
  rc_org_id :: uuid
  rc_user_id :: uuid
  rc_namespace :: text_bytes
  rc_permissions :: u32
  rc_space_string :: text_bytes
  rc_connection_id :: bytes

definition caller_from_scope ::
  "space_id \<Rightarrow> uuid \<Rightarrow> uuid \<Rightarrow> text_bytes \<Rightarrow> u32 \<Rightarrow> request_caller" where
  "caller_from_scope space org user namespace perms =
     \<lparr>rc_space_id = space, rc_org_id = org, rc_user_id = user, rc_namespace = namespace,
      rc_permissions = perms, rc_space_string = [], rc_connection_id = replicate 16 0\<rparr>"

definition caller_allows :: "request_caller \<Rightarrow> u32 \<Rightarrow> bool" where
  "caller_allows c op \<longleftrightarrow> rc_permissions c AND op = op"

definition to_caller :: "request_scope \<Rightarrow> bytes \<Rightarrow> request_caller" where
  "to_caller sc connection_id =
     (caller_from_scope (rs_space_id sc) (rs_org_id sc) (rs_user_id sc) (rs_namespace sc)
        (rs_permissions sc))\<lparr>rc_connection_id := connection_id\<rparr>"

definition BRAIN_ROOT_NAMESPACE_UUID :: uuid where
  "BRAIN_ROOT_NAMESPACE_UUID =
     [0x6b, 0x72, 0x61, 0x69, 0x6e, 0x2d, 0x73, 0x70, 0x61, 0x63, 0x65, 0x2d, 0x72, 0x6f, 0x6f, 0x74]"

definition derive_from_string :: "net_deps \<Rightarrow> text_bytes \<Rightarrow> text_bytes \<Rightarrow> space_id" where
  "derive_from_string d namespace space_string =
     (let ns_uuid = dep_uuid_v5 d BRAIN_ROOT_NAMESPACE_UUID namespace
      in dep_uuid_v5 d ns_uuid space_string)"

definition delegated_permissions :: "u32 \<Rightarrow> u32 \<Rightarrow> u32" where
  "delegated_permissions delegator_permissions grant =
     STANDARD_SPACE OR (grant AND delegator_permissions AND DELEGABLE)"

definition act_as_grant_violation :: "u32 \<Rightarrow> u32 \<Rightarrow> string option" where
  "act_as_grant_violation delegator_permissions grant =
     (if grant AND NOT DELEGABLE \<noteq> 0
        then Some ''act_as: grant names a permission bit that cannot be delegated''
      else if grant AND NOT delegator_permissions \<noteq> 0
        then Some ''act_as: grant exceeds the connection principal's own permissions''
      else None)"

definition to_effective_caller :: "net_deps \<Rightarrow> request_scope \<Rightarrow> act_as \<Rightarrow> bytes \<Rightarrow> request_caller" where
  "to_effective_caller d sc a connection_id =
     (let space = (if aa_space a = [] then rs_space_id sc
                   else derive_from_string d (aa_namespace a) (aa_space a))
      in (caller_from_scope space (rs_org_id sc) (rs_user_id sc) (aa_namespace a)
            (delegated_permissions (rs_permissions sc) (aa_grant a)))
           \<lparr>rc_connection_id := connection_id, rc_space_string := aa_space a\<rparr>)"

section \<open>Authentication\<close>

datatype auth_error = AuthMissing | AuthUnknown | AuthRevoked | AuthUnsupportedMethod | AuthStorage api_key_error

definition KEY_PREFIX :: bytes where
  "KEY_PREFIX = [0x62, 0x72, 0x61, 0x69, 0x6e, 0x5f]"

text \<open>\<open>parse_formatted_key\<close> on the token's bytes, once they are known to be UTF-8.\<close>

definition parse_formatted_key :: "net_deps \<Rightarrow> bytes \<Rightarrow> bytes option" where
  "parse_formatted_key d s =
     (if take 6 s = KEY_PREFIX then dep_base64_decode d (drop 6 s) else None)"

definition presented_secret :: "net_deps \<Rightarrow> bytes \<Rightarrow> bytes" where
  "presented_secret d token =
     (case (if valid_utf8 token then parse_formatted_key d token else None) of
        Some secret \<Rightarrow> secret
      | None \<Rightarrow> token)"

definition derive_scope_from_handshake ::
  "net_deps \<Rightarrow> bool \<Rightarrow> auth_payload \<Rightarrow> api_key_db \<Rightarrow> auth_error + request_scope" where
  "derive_scope_from_handshake d io_ok auth db =
     (case (ap_method auth, ap_credentials auth) of
        (AuthToken, TokenCredential token) \<Rightarrow>
          if token = [] then Inl AuthMissing
          else (case api_key_lookup_by_secret d io_ok (presented_secret d token) db of
                  Inl e \<Rightarrow> Inl (AuthStorage e)
                | Inr None \<Rightarrow> Inl AuthUnknown
                | Inr (Some row) \<Rightarrow> if ak_revoked row then Inl AuthRevoked else Inr (scope_of_row row))
      | _ \<Rightarrow> Inl AuthUnsupportedMethod)"


section \<open>Operations on the key store\<close>

datatype key_op =
    KMint bool bytes uuid uuid text_bytes space_id u32 "text_bytes list" u64
  | KRevoke bool key_hash
  | KTouch bool key_hash u64

text \<open>An operation that fails commits nothing: its write transaction is dropped.\<close>

fun key_apply :: "net_deps \<Rightarrow> key_op \<Rightarrow> api_key_db \<Rightarrow> api_key_db" where
  "key_apply d (KMint io_ok secret org user namespace space perms may_act now) db =
     (case api_key_create d io_ok secret org user namespace space perms may_act now db of
        Inl e \<Rightarrow> db | Inr (row, db') \<Rightarrow> db')"
| "key_apply d (KRevoke io_ok kh) db =
     (case api_key_revoke io_ok kh db of Inl e \<Rightarrow> db | Inr (found, db') \<Rightarrow> db')"
| "key_apply d (KTouch io_ok kh now) db =
     (case api_key_touch_last_used io_ok kh now db of Inl e \<Rightarrow> db | Inr (found, db') \<Rightarrow> db')"

definition key_run :: "net_deps \<Rightarrow> key_op list \<Rightarrow> api_key_db \<Rightarrow> api_key_db" where
  "key_run d ops db = fold (key_apply d) ops db"

lemmas key_ops_def = api_key_create_def api_key_revoke_def api_key_touch_last_used_def Let_def

text \<open>A row is never removed and keeps its scope; only a revocation of its key changes the flag, and
  only one way.\<close>

lemma key_apply_row:
  assumes "db_keys db kh = Some row"
  shows "\<exists>row'. db_keys (key_apply d op db) kh = Some row' \<and> scope_of_row row' = scope_of_row row \<and>
    (ak_revoked row \<longrightarrow> ak_revoked row') \<and> ((\<forall>io. op \<noteq> KRevoke io kh) \<longrightarrow> ak_revoked row' = ak_revoked row)"
  using assms
  by (cases op) (auto simp: key_ops_def scope_of_row_def split: option.splits)

lemma key_run_row:
  assumes "db_keys db kh = Some row"
  shows "\<exists>row'. db_keys (key_run d ops db) kh = Some row' \<and> scope_of_row row' = scope_of_row row \<and>
    (ak_revoked row \<longrightarrow> ak_revoked row') \<and>
    ((\<forall>op \<in> set ops. \<forall>io. op \<noteq> KRevoke io kh) \<longrightarrow> ak_revoked row' = ak_revoked row)"
  using assms
proof (induction ops arbitrary: db row)
  case Nil
  then show ?case by (simp add: key_run_def)
next
  case (Cons op ops)
  obtain row1 where row1: "db_keys (key_apply d op db) kh = Some row1" "scope_of_row row1 = scope_of_row row"
    "ak_revoked row \<longrightarrow> ak_revoked row1" "(\<forall>io. op \<noteq> KRevoke io kh) \<longrightarrow> ak_revoked row1 = ak_revoked row"
    using key_apply_row [OF Cons.prems, of d op] by blast
  from Cons.IH [OF row1(1)] row1 show ?case by (auto simp: key_run_def)
qed

lemma derive_scope_lookup:
  assumes "ap_method auth = AuthToken" and "ap_credentials auth = TokenCredential token" and "token \<noteq> []"
    and "db_keys db (hash_secret d (presented_secret d token)) = Some row"
  shows "derive_scope_from_handshake d True auth db =
    (if ak_revoked row then Inl AuthRevoked else Inr (scope_of_row row))"
  using assms
  by (simp add: derive_scope_from_handshake_def api_key_lookup_by_secret_def api_key_lookup_by_hash_def)

lemma derive_scope_Inr:
  assumes "derive_scope_from_handshake d io_ok auth db = Inr sc"
  obtains token row where "io_ok" and "ap_credentials auth = TokenCredential token"
    and "db_keys db (hash_secret d (presented_secret d token)) = Some row" and "\<not> ak_revoked row"
    and "sc = scope_of_row row"
  using assms
  by (auto simp: derive_scope_from_handshake_def api_key_lookup_by_secret_def api_key_lookup_by_hash_def
    split: auth_method.splits auth_credentials.splits if_splits option.splits)

section \<open>Delegated rights\<close>

lemma standard_without_act_as: "STANDARD_SPACE AND PERM_ACT_AS = 0" "DELEGABLE AND PERM_ACT_AS = 0"
  by (simp_all add: STANDARD_SPACE_def DELEGABLE_def PERM_ENCODE_def PERM_RECALL_def PERM_FORGET_def
    PERM_LINK_def PERM_SCHEMA_UPLOAD_def PERM_ADMIN_def PERM_ACT_AS_def)

lemma delegated_without_act_as: "delegated_permissions p g AND PERM_ACT_AS = 0"
  by (simp add: delegated_permissions_def bit.conj_disj_distrib2 standard_without_act_as and.assoc)

lemma delegated_bounded: "delegated_permissions p g AND NOT (STANDARD_SPACE OR p) = 0"
  by (rule bit_word_eqI) (auto simp: delegated_permissions_def bit_simps)

lemma grant_accepted:
  assumes "act_as_grant_violation p g = None"
  shows "delegated_permissions p g = STANDARD_SPACE OR g"
proof -
  have "g AND NOT DELEGABLE = 0" and "g AND NOT p = 0"
    using assms by (simp_all add: act_as_grant_violation_def split: if_splits)
  then have "bit g n \<Longrightarrow> bit DELEGABLE n \<and> bit p n" for n
    by (metis bit_0_eq bit_and_iff bit_not_iff bot_apply bot_bool_def impossible_bit)
  then have "g AND p AND DELEGABLE = g"
    by (intro bit_word_eqI) (auto simp: bit_simps)
  then show ?thesis by (simp add: delegated_permissions_def)
qed


section \<open>Properties\<close>

definition empty_key_db :: api_key_db where
  "empty_key_db = \<lparr>db_keys = Map.empty, db_by_space = {}\<rparr>"

definition sample_deps :: net_deps where
  "sample_deps = \<lparr>dep_blake3 = id, dep_uuid_v5 = (\<lambda>ns name. take 16 (name @ ns)), dep_base64_decode = Some\<rparr>"

text \<open>C36. Revocation is final: once a key is revoked, no later minting, touching or revoking of keys
  makes it valid again. An AUTH with its secret is refused as revoked and the live re-check of an open
  connection finds it inactive.\<close>

theorem revocation_final:
  assumes "api_key_revoke True kh db = Inr (True, db')"
    and "ap_method auth = AuthToken" and "ap_credentials auth = TokenCredential token" and "token \<noteq> []"
    and "hash_secret d (presented_secret d token) = kh"
  shows "derive_scope_from_handshake d True auth (key_run d ops db') = Inl AuthRevoked \<and>
    is_key_active True kh (key_run d ops db') = Inr False"
proof -
  obtain row where "db_keys db' kh = Some row" "ak_revoked row"
    using assms(1) by (auto simp: api_key_revoke_def split: option.splits if_splits)
  then obtain row' where row': "db_keys (key_run d ops db') kh = Some row'" "ak_revoked row'"
    using key_run_row [of db' kh row d ops] by auto
  then show ?thesis
    using derive_scope_lookup [OF assms(2-4), of "key_run d ops db'" d row'] assms(5)
    by (simp add: is_key_active_def api_key_lookup_by_hash_def)
qed

theorem revocation_final_witness:
  "let db = key_run sample_deps [KMint True [1, 2] [] [] [9] [7] 15 [] 0, KRevoke True [1, 2],
       KMint True [1, 2] [] [] [9] [7] 15 [] 1, KTouch True [1, 2] 5] empty_key_db
   in derive_scope_from_handshake sample_deps True
        \<lparr>ap_method = AuthToken, ap_credentials = TokenCredential [1, 2]\<rparr> db = Inl AuthRevoked \<and>
      is_key_active True [1, 2] db = Inr False"
proof -
  let ?db = "key_run sample_deps [KMint True [1, 2] [] [] [9] [7] 15 [] 0] empty_key_db"
  let ?db' = "key_run sample_deps [KMint True [1, 2] [] [] [9] [7] 15 [] 0, KRevoke True [1, 2]] empty_key_db"
  have "api_key_revoke True [1, 2] ?db = Inr (True, ?db')"
    by (simp add: key_run_def key_ops_def sample_deps_def hash_secret_def empty_key_db_def api_key_row_new_def)
  from revocation_final [OF this, of "\<lparr>ap_method = AuthToken, ap_credentials = TokenCredential [1, 2]\<rparr>" "[1, 2]"
      sample_deps "[KMint True [1, 2] [] [] [9] [7] 15 [] 1, KTouch True [1, 2] 5]"]
  show ?thesis
    by (simp add: key_run_def sample_deps_def hash_secret_def presented_secret_def parse_formatted_key_def
      KEY_PREFIX_def Let_def del: key_apply.simps)
qed

text \<open>A minted key authenticates to exactly the identity and rights it was minted with: presenting
  its secret, after any store operations that do not revoke it, resolves to the organisation, user,
  namespace, space, permissions and delegation allowlist given at minting.\<close>

theorem minted_key_authenticates:
  assumes "api_key_create d True secret org user namespace space perms may_act now db = Inr (row, db')"
    and "ap_method auth = AuthToken" and "ap_credentials auth = TokenCredential token" and "token \<noteq> []"
    and "presented_secret d token = secret"
    and "\<forall>op \<in> set ops. \<forall>io. op \<noteq> KRevoke io (hash_secret d secret)"
  shows "derive_scope_from_handshake d True auth (key_run d ops db') =
    Inr \<lparr>rs_space_id = space, rs_org_id = org, rs_user_id = user, rs_namespace = namespace,
         rs_permissions = perms, rs_may_act = may_act, rs_key_hash = hash_secret d secret\<rparr>"
proof -
  let ?kh = "hash_secret d secret"
  have row: "db_keys db' ?kh = Some row" "\<not> ak_revoked row"
    "scope_of_row row = \<lparr>rs_space_id = space, rs_org_id = org, rs_user_id = user, rs_namespace = namespace,
         rs_permissions = perms, rs_may_act = may_act, rs_key_hash = ?kh\<rparr>"
    using assms(1) by (auto simp: key_ops_def api_key_row_new_def scope_of_row_def split: if_splits)
  then obtain row' where "db_keys (key_run d ops db') ?kh = Some row'" "\<not> ak_revoked row'"
    "scope_of_row row' = scope_of_row row"
    using key_run_row [OF row(1), of d ops] assms(6) by auto
  then show ?thesis
    using derive_scope_lookup [OF assms(2-4), of "key_run d ops db'" d row'] assms(5) row(3) by simp
qed

theorem minted_key_authenticates_witness:
  "derive_scope_from_handshake sample_deps True
     \<lparr>ap_method = AuthToken, ap_credentials = TokenCredential (KEY_PREFIX @ [1, 2])\<rparr>
     (key_run sample_deps [KTouch True [1, 2] 5] (key_apply sample_deps (KMint True [1, 2] [3] [4] [9] [7] 15 [] 0) empty_key_db))
   = Inr \<lparr>rs_space_id = [7], rs_org_id = [3], rs_user_id = [4], rs_namespace = [9], rs_permissions = 15,
          rs_may_act = [], rs_key_hash = [1, 2]\<rparr>"
proof -
  obtain row db' where mint: "api_key_create sample_deps True [1, 2] [3] [4] [9] [7] 15 [] 0 empty_key_db = Inr (row, db')"
    by (simp add: key_ops_def empty_key_db_def)
  have "presented_secret sample_deps (KEY_PREFIX @ [1, 2]) = [1, 2]"
    by (simp add: presented_secret_def parse_formatted_key_def KEY_PREFIX_def sample_deps_def)
  from minted_key_authenticates [OF mint _ _ _ this,
      of "\<lparr>ap_method = AuthToken, ap_credentials = TokenCredential (KEY_PREFIX @ [1, 2])\<rparr>" "[KTouch True [1, 2] 5]"]
  moreover have "hash_secret sample_deps [1, 2] = [1, 2]" by (simp add: hash_secret_def sample_deps_def)
  ultimately show ?thesis by (simp add: mint)
qed

text \<open>C37. Delegation never escalates: whatever grant a delegated request asks for, it runs without the
  right to delegate further and with no right outside the standard ones and those its principal holds;
  a grant that passes the check is given in full; and the acting organisation and user stay on the
  request.\<close>

theorem delegation_never_escalates:
  "rc_permissions (to_effective_caller d sc a cid) AND PERM_ACT_AS = 0 \<and>
   rc_permissions (to_effective_caller d sc a cid) AND NOT (STANDARD_SPACE OR rs_permissions sc) = 0 \<and>
   (act_as_grant_violation (rs_permissions sc) (aa_grant a) = None \<longrightarrow>
     rc_permissions (to_effective_caller d sc a cid) = STANDARD_SPACE OR aa_grant a) \<and>
   rc_org_id (to_effective_caller d sc a cid) = rs_org_id sc \<and>
   rc_user_id (to_effective_caller d sc a cid) = rs_user_id sc \<and>
   rc_connection_id (to_effective_caller d sc a cid) = cid"
  using delegated_without_act_as delegated_bounded grant_accepted
  by (simp add: to_effective_caller_def caller_from_scope_def Let_def)

theorem delegation_never_escalates_witness:
  "rc_permissions (to_effective_caller sample_deps
      \<lparr>rs_space_id = [7], rs_org_id = [3], rs_user_id = [4], rs_namespace = [9], rs_permissions = 0x6F,
       rs_may_act = [], rs_key_hash = [1]\<rparr> \<lparr>aa_namespace = [8], aa_space = [], aa_grant = 0x20\<rparr> [5]) = 0x2F"
proof -
  let ?sc = "\<lparr>rs_space_id = [7], rs_org_id = [3], rs_user_id = [4], rs_namespace = [9], rs_permissions = 0x6F,
       rs_may_act = [], rs_key_hash = [1]\<rparr> :: request_scope"
  have "act_as_grant_violation (rs_permissions ?sc) 0x20 = None" "STANDARD_SPACE OR 0x20 = 0x2F"
    by (simp_all add: act_as_grant_violation_def DELEGABLE_def STANDARD_SPACE_def PERM_ENCODE_def PERM_RECALL_def
      PERM_FORGET_def PERM_LINK_def PERM_SCHEMA_UPLOAD_def PERM_ADMIN_def)
  then show ?thesis
    using delegation_never_escalates [of sample_deps ?sc "\<lparr>aa_namespace = [8], aa_space = [], aa_grant = 0x20\<rparr>" "[5]"]
    by simp
qed

end
