(* ===== verification/Server_Routing.thy ===== *)
theory Server_Routing
  imports Server_Auth
begin

text \<open>
  Shard routing (\<open>brain-server/src/network/routing.rs\<close>): the table of overrides and the hash of a space
  modulo the shard count, with a memory routed by the shard in its id.
  The lemmas show that a table that passes validation never names a shard that does not exist.
\<close>

section \<open>The table\<close>

record routing_table =
  rt_shard_count :: u16
  rt_overrides :: "(space_id \<times> shard_id) list"

datatype routing_error = ZeroShardCount | OverrideOutOfRange space_id shard_id u16

definition routing_new :: "u16 \<Rightarrow> (space_id \<times> shard_id) list \<Rightarrow> routing_error + routing_table" where
  "routing_new shard_count overrides =
     (if shard_count = 0 then Inl ZeroShardCount
      else (case find (\<lambda>(space, shard). shard_count \<le> shard) overrides of
              Some (space, shard) \<Rightarrow> Inl (OverrideOutOfRange space shard shard_count)
            | None \<Rightarrow> Inr \<lparr>rt_shard_count = shard_count, rt_overrides = overrides\<rparr>))"

text \<open>The value of \<open>hash_space_to_shard\<close>, and the function with its assertion (\<open>None\<close> is the panic).\<close>

definition shard_of_hash :: "net_deps \<Rightarrow> space_id \<Rightarrow> u16 \<Rightarrow> shard_id" where
  "shard_of_hash d space shard_count =
     (let prefix = take 8 (dep_blake3 d space); hi = (le_word prefix :: u64)
      in ucast (hi mod ucast shard_count))"

definition hash_space_to_shard :: "net_deps \<Rightarrow> space_id \<Rightarrow> u16 \<Rightarrow> shard_id option" where
  "hash_space_to_shard d space shard_count =
     (if shard_count > 0 then Some (shard_of_hash d space shard_count) else None)"

definition shard_for_space :: "net_deps \<Rightarrow> routing_table \<Rightarrow> space_id \<Rightarrow> shard_id" where
  "shard_for_space d rt space =
     (case map_of (rt_overrides rt) space of
        Some s \<Rightarrow> s
      | None \<Rightarrow> shard_of_hash d space (rt_shard_count rt))"

definition shard_for_memory :: "memory_id \<Rightarrow> shard_id" where
  "shard_for_memory m = memory_id_shard m"

section \<open>Range\<close>

lemma shard_of_hash_range:
  assumes "0 < n"
  shows "shard_of_hash d space n < n"
proof -
  define hi :: u64 where "hi = le_word (take 8 (dep_blake3 d space))"
  have n: "0 < unat n" using assms by (simp add: word_less_nat_alt)
  have "unat (hi mod ucast n :: u64) = unat hi mod unat n"
    by (simp add: unat_mod unsigned_ucast_eq take_bit_nat_eq_self unat_u16_lt [THEN less_trans])
  moreover have "unat hi mod unat n < unat n" using n by simp
  moreover have "unat n < 2 ^ 16" by (rule unat_u16_lt)
  ultimately have "unat (ucast (hi mod ucast n) :: u16) = unat hi mod unat n"
    by (simp add: unsigned_ucast_eq take_bit_nat_eq_self)
  with n show ?thesis by (simp add: shard_of_hash_def Let_def word_less_nat_alt flip: hi_def)
qed

lemma routing_new_Inr:
  assumes "routing_new shard_count overrides = Inr rt"
  shows "rt = \<lparr>rt_shard_count = shard_count, rt_overrides = overrides\<rparr>" and "0 < shard_count"
    and "(space, shard) \<in> set overrides \<Longrightarrow> shard < shard_count"
  using assms
  by (auto simp: routing_new_def find_None_iff word_neq_0_conv not_le split: if_splits option.splits)

section \<open>Properties\<close>

text \<open>A routing table accepted at startup names only existing shards: every space, overridden or
  hashed, is routed to a shard below the shard count, and the hash never runs into its assertion.\<close>

theorem routing_in_range:
  assumes "routing_new shard_count overrides = Inr rt"
  shows "shard_for_space d rt space < shard_count \<and>
    hash_space_to_shard d space (rt_shard_count rt) = Some (shard_of_hash d space shard_count)"
proof (cases "map_of overrides space")
  case None
  with assms show ?thesis
    using routing_new_Inr [OF assms] shard_of_hash_range [of shard_count d space]
    by (simp add: shard_for_space_def hash_space_to_shard_def)
next
  case (Some shard)
  then have "(space, shard) \<in> set overrides" by (rule map_of_SomeD)
  with Some show ?thesis
    using routing_new_Inr [OF assms] by (simp add: shard_for_space_def hash_space_to_shard_def)
qed

theorem routing_in_range_witness:
  "\<exists>rt. routing_new 4 [([1], 3)] = Inr rt \<and> shard_for_space sample_deps rt [1] = 3 \<and>
     shard_for_space sample_deps rt [2] < 4"
proof -
  have ok: "routing_new 4 [([1], 3)] = Inr \<lparr>rt_shard_count = 4, rt_overrides = [([1], 3)]\<rparr>"
    by (simp add: routing_new_def)
  from routing_in_range [OF this, of sample_deps "[2]"] show ?thesis
    using ok by (simp add: shard_for_space_def)
qed

end
