(* ===== verification/Server_Txn_Router.thy ===== *)
theory Server_Txn_Router
  imports Core_Ids "HOL-Library.AList"
begin

text \<open>
  Transaction affinity of a connection: \<open>TxnShardRouter\<close> in \<open>brain-server/src/network/dispatch.rs\<close>,
  which remembers the shard every open transaction was begun on and keeps the recently terminated
  ones in a bounded window. A Rust \<open>HashMap\<close> is an association list with distinct keys (the code never
  iterates over one), a \<open>VecDeque\<close> is a list.
  The lemmas show that both tables stay bounded, that the route of an open transaction is never lost,
  that a terminated one survives the next 255 terminations, and that the begin-order queue is not
  bounded when a client begins the same transaction again and again.
\<close>

section \<open>The router\<close>

definition TERMINATED_TXN_ROUTE_WINDOW :: nat where
  "TERMINATED_TXN_ROUTE_WINDOW = 256"

definition ACTIVE_TXN_ROUTE_CAP :: nat where
  "ACTIVE_TXN_ROUTE_CAP = 1024"

record txn_router =
  tr_active :: "(txn_id \<times> shard_id) list"
  tr_active_order :: "txn_id list"
  tr_terminated :: "(txn_id \<times> shard_id) list"
  tr_terminated_order :: "txn_id list"

definition router_new :: txn_router where
  "router_new = \<lparr>tr_active = [], tr_active_order = [], tr_terminated = [], tr_terminated_order = []\<rparr>"

definition router_begin :: "txn_id \<Rightarrow> shard_id \<Rightarrow> txn_router \<Rightarrow> bool \<times> txn_router" where
  "router_begin txn shard r =
     (let known = (map_of (tr_active r) txn \<noteq> None)
      in if \<not> known \<and> length (tr_active r) \<ge> ACTIVE_TXN_ROUTE_CAP then (False, r)
         else
           let active = AList.update txn shard (tr_active r);
               order = (if known then tr_active_order r else tr_active_order r @ [txn]);
               order' = (if length order > length active * 2 + ACTIVE_TXN_ROUTE_CAP
                         then filter (\<lambda>id. map_of active id \<noteq> None) order else order)
           in (True, r\<lparr>tr_active := active, tr_active_order := order'\<rparr>))"

definition router_route :: "txn_id \<Rightarrow> txn_router \<Rightarrow> shard_id option" where
  "router_route txn r =
     (case map_of (tr_active r) txn of Some s \<Rightarrow> Some s | None \<Rightarrow> map_of (tr_terminated r) txn)"

text \<open>The loop of \<open>push_terminated\<close>: drop the oldest ids until the window is respected.\<close>

fun evict_terminated :: "txn_id list \<Rightarrow> (txn_id \<times> shard_id) list \<Rightarrow> txn_id list \<times> (txn_id \<times> shard_id) list" where
  "evict_terminated [] tm = ([], tm)"
| "evict_terminated (t # ts) tm =
     (if length (t # ts) > TERMINATED_TXN_ROUTE_WINDOW then evict_terminated ts (AList.delete t tm)
      else (t # ts, tm))"

definition push_terminated :: "txn_id \<Rightarrow> shard_id \<Rightarrow> txn_router \<Rightarrow> txn_router" where
  "push_terminated txn shard r =
     (let known = (map_of (tr_terminated r) txn \<noteq> None);
          terminated = AList.update txn shard (tr_terminated r)
      in if known then r\<lparr>tr_terminated := terminated\<rparr>
         else (case evict_terminated (tr_terminated_order r @ [txn]) terminated of
                 (order, tm) \<Rightarrow> r\<lparr>tr_terminated := tm, tr_terminated_order := order\<rparr>))"

definition confirm_terminated :: "txn_id \<Rightarrow> txn_router \<Rightarrow> txn_router" where
  "confirm_terminated txn r =
     (case map_of (tr_active r) txn of
        Some shard \<Rightarrow> push_terminated txn shard (r\<lparr>tr_active := AList.delete txn (tr_active r)\<rparr>)
      | None \<Rightarrow> r)"

definition remove_active :: "txn_id \<Rightarrow> txn_router \<Rightarrow> txn_router" where
  "remove_active txn r = r\<lparr>tr_active := AList.delete txn (tr_active r)\<rparr>"

definition router_len :: "txn_router \<Rightarrow> nat" where
  "router_len r = length (tr_active r) + length (tr_terminated r)"

datatype txn_route_outcome_kind = ConfirmedTerminal | BeginRejected

record txn_route_outcome =
  out_txn_id :: txn_id
  out_kind :: txn_route_outcome_kind

definition apply_outcome :: "txn_route_outcome \<Rightarrow> txn_router \<Rightarrow> txn_router" where
  "apply_outcome out r =
     (case out_kind out of
        ConfirmedTerminal \<Rightarrow> confirm_terminated (out_txn_id out) r
      | BeginRejected \<Rightarrow> remove_active (out_txn_id out) r)"

section \<open>What a connection does to its router\<close>

datatype router_op = Begin txn_id shard_id | Outcome txn_route_outcome

fun router_apply :: "router_op \<Rightarrow> txn_router \<Rightarrow> txn_router" where
  "router_apply (Begin txn shard) r = snd (router_begin txn shard r)"
| "router_apply (Outcome out) r = apply_outcome out r"

definition router_run :: "router_op list \<Rightarrow> txn_router \<Rightarrow> txn_router" where
  "router_run ops r = fold router_apply ops r"

fun concerns :: "txn_id \<Rightarrow> router_op \<Rightarrow> bool" where
  "concerns txn (Begin t shard) = (t = txn)"
| "concerns txn (Outcome out) = (out_txn_id out = txn)"

fun is_confirmation :: "router_op \<Rightarrow> bool" where
  "is_confirmation (Outcome out) = (out_kind out = ConfirmedTerminal)"
| "is_confirmation (Begin t shard) = False"

section \<open>The invariant\<close>

definition router_inv :: "txn_router \<Rightarrow> bool" where
  "router_inv r \<longleftrightarrow>
     distinct (map fst (tr_active r)) \<and> length (tr_active r) \<le> ACTIVE_TXN_ROUTE_CAP \<and>
     fst ` set (tr_active r) \<subseteq> set (tr_active_order r) \<and>
     distinct (map fst (tr_terminated r)) \<and> distinct (tr_terminated_order r) \<and>
     fst ` set (tr_terminated r) = set (tr_terminated_order r) \<and>
     length (tr_terminated_order r) \<le> TERMINATED_TXN_ROUTE_WINDOW"

lemma router_inv_new: "router_inv router_new"
  by (simp add: router_inv_def router_new_def)

lemma length_alist_update:
  "distinct (map fst al) \<Longrightarrow>
   length (AList.update k v al) = (if map_of al k = None then Suc (length al) else length al)"
  by (induction al) auto

lemma map_of_None_key: "map_of al k = None \<longleftrightarrow> k \<notin> fst ` set al"
  by (simp add: map_of_eq_None_iff)

lemma router_begin_inv:
  assumes "router_inv r"
  shows "router_inv (snd (router_begin txn shard r))"
proof -
  define known where "known \<longleftrightarrow> map_of (tr_active r) txn \<noteq> None"
  define active where "active = AList.update txn shard (tr_active r)"
  define order where "order = (if known then tr_active_order r else tr_active_order r @ [txn])"
  define order' where "order' = (if length order > length active * 2 + ACTIVE_TXN_ROUTE_CAP
    then filter (\<lambda>id. map_of active id \<noteq> None) order else order)"
  have "id \<in> set order'" if id: "id \<in> fst ` set active" for id
  proof -
    have "id \<in> set order"
      using that assms by (auto simp: active_def order_def known_def dom_update router_inv_def map_of_None_key)
    moreover have "map_of active id \<noteq> None" using id by (simp add: map_of_None_key)
    ultimately show ?thesis by (simp add: order'_def)
  qed
  then have keys: "fst ` set active \<subseteq> set order'" by blast
  have dist: "distinct (map fst active)"
    using assms by (simp add: active_def router_inv_def distinct_update)
  show ?thesis
  proof (cases "\<not> known \<and> length (tr_active r) \<ge> ACTIVE_TXN_ROUTE_CAP")
    case True
    with assms show ?thesis by (simp add: router_begin_def known_def)
  next
    case False
    then have len: "length active \<le> ACTIVE_TXN_ROUTE_CAP"
      using assms by (auto simp: active_def known_def length_alist_update router_inv_def)
    have "router_begin txn shard r = (True, r\<lparr>tr_active := active, tr_active_order := order'\<rparr>)"
      using False unfolding router_begin_def Let_def order'_def order_def active_def known_def by simp
    with keys dist len assms show ?thesis by (simp add: router_inv_def)
  qed
qed

lemma evict_terminated_one:
  assumes "length ts = Suc TERMINATED_TXN_ROUTE_WINDOW"
  shows "evict_terminated ts tm = (tl ts, AList.delete (hd ts) tm)"
proof -
  obtain t ts' where ts: "ts = t # ts'" "length ts' = TERMINATED_TXN_ROUTE_WINDOW"
    using assms by (cases ts) auto
  then show ?thesis by (cases ts') simp_all
qed

lemma evict_terminated_none:
  "length ts \<le> TERMINATED_TXN_ROUTE_WINDOW \<Longrightarrow> evict_terminated ts tm = (ts, tm)"
  by (cases ts) simp_all

lemma push_terminated_new:
  assumes "router_inv r" and "map_of (tr_terminated r) txn = None"
  shows "push_terminated txn shard r =
    (if length (tr_terminated_order r) < TERMINATED_TXN_ROUTE_WINDOW
     then r\<lparr>tr_terminated := AList.update txn shard (tr_terminated r),
            tr_terminated_order := tr_terminated_order r @ [txn]\<rparr>
     else r\<lparr>tr_terminated := AList.delete (hd (tr_terminated_order r)) (AList.update txn shard (tr_terminated r)),
            tr_terminated_order := tl (tr_terminated_order r) @ [txn]\<rparr>)"
proof -
  have len: "length (tr_terminated_order r) \<le> TERMINATED_TXN_ROUTE_WINDOW"
    using assms(1) by (simp add: router_inv_def)
  have "tr_terminated_order r \<noteq> []" if "\<not> length (tr_terminated_order r) < TERMINATED_TXN_ROUTE_WINDOW"
    using that by (auto simp: TERMINATED_TXN_ROUTE_WINDOW_def)
  with len assms(2) show ?thesis
    by (auto simp: push_terminated_def evict_terminated_none evict_terminated_one)
qed

lemma push_terminated_inv:
  assumes inv: "router_inv r"
  shows "router_inv (push_terminated txn shard r)"
proof (cases "map_of (tr_terminated r) txn = None")
  case True
  let ?o = "tr_terminated_order r" and ?tm = "AList.update txn shard (tr_terminated r)"
  have fresh: "txn \<notin> set ?o" and dom: "fst ` set ?tm = insert txn (set ?o)" and dist: "distinct (map fst ?tm)"
    using inv True by (auto simp: router_inv_def map_of_None_key dom_update distinct_update)
  show ?thesis
  proof (cases "length ?o < TERMINATED_TXN_ROUTE_WINDOW")
    case True
    with inv fresh dom dist \<open>map_of (tr_terminated r) txn = None\<close> show ?thesis
      by (simp add: push_terminated_new router_inv_def)
  next
    case False
    then obtain t ts where o: "?o = t # ts" by (cases ?o) (auto simp: TERMINATED_TXN_ROUTE_WINDOW_def)
    have "fst ` set (AList.delete t ?tm) = insert txn (set ts)"
    proof -
      have "set (map fst (AList.delete t ?tm)) = insert txn (set ?o) - {t}"
        by (simp only: delete_keys set_removeAll) (simp add: dom)
      also have "\<dots> = insert txn (set ts)"
        using inv fresh by (auto simp: o router_inv_def)
      finally show ?thesis by simp
    qed
    with inv False fresh dist \<open>map_of (tr_terminated r) txn = None\<close> show ?thesis
      by (simp add: push_terminated_new o router_inv_def distinct_delete)
  qed
next
  case False
  with inv show ?thesis
    by (auto simp: push_terminated_def router_inv_def distinct_update dom_update insert_absorb map_of_None_key)
qed

lemma remove_active_inv: "router_inv r \<Longrightarrow> router_inv (remove_active txn r)"
  using dom_delete_subset [of txn "tr_active r"] length_delete_le [of txn "tr_active r"]
  by (auto simp: remove_active_def router_inv_def distinct_delete)

lemma confirm_terminated_inv:
  assumes "router_inv r"
  shows "router_inv (confirm_terminated txn r)"
  using push_terminated_inv [OF remove_active_inv [OF assms, of txn], of txn] assms
  by (simp add: confirm_terminated_def remove_active_def split: option.splits)

lemma router_apply_inv: "router_inv r \<Longrightarrow> router_inv (router_apply op r)"
  by (cases op)
    (simp_all add: router_begin_inv apply_outcome_def confirm_terminated_inv remove_active_inv
      split: txn_route_outcome_kind.splits)

interpretation routes_kept: stepwise router_apply "\<lambda>op. True" router_inv
  by unfold_locales (rule router_apply_inv)

lemma router_run_inv: "router_inv r \<Longrightarrow> router_inv (router_run ops r)"
  by (simp add: router_run_def routes_kept.keep_run)

section \<open>Routes of open and of terminated transactions\<close>

lemma push_terminated_active [simp]: "tr_active (push_terminated txn shard r) = tr_active r"
  by (simp add: push_terminated_def Let_def split: prod.splits)

lemma router_apply_active:
  assumes "\<not> concerns txn op"
  shows "map_of (tr_active (router_apply op r)) txn = map_of (tr_active r) txn"
proof (cases op)
  case (Begin t shard)
  with assms show ?thesis by (simp add: router_begin_def Let_def update_conv')
next
  case (Outcome out)
  with assms show ?thesis
    by (simp add: apply_outcome_def confirm_terminated_def remove_active_def
      split: txn_route_outcome_kind.splits option.splits)
qed

interpretation open_route: stepwise router_apply "\<lambda>op. \<not> concerns txn op" "\<lambda>r. map_of (tr_active r) txn = shard" for txn shard
  by unfold_locales (simp add: router_apply_active)

lemma router_run_active:
  "\<forall>op \<in> set ops. \<not> concerns txn op \<Longrightarrow>
   map_of (tr_active (router_run ops r)) txn = map_of (tr_active r) txn"
  using open_route.keep_run [where shard = "map_of (tr_active r) txn" and s = r and fs = ops] by (simp add: router_run_def)

lemma router_begin_active:
  "router_begin txn shard r = (True, r') \<Longrightarrow> map_of (tr_active r') txn = Some shard"
  by (auto simp: router_begin_def Let_def update_conv' split: if_splits)


text \<open>A terminated transaction with at most \<open>n\<close> younger ones behind it in the window.\<close>

definition parked :: "txn_id \<Rightarrow> shard_id \<Rightarrow> nat \<Rightarrow> txn_router \<Rightarrow> bool" where
  "parked txn shard n r \<longleftrightarrow>
     router_inv r \<and> map_of (tr_active r) txn = None \<and> map_of (tr_terminated r) txn = Some shard \<and>
     (\<exists>xs ys. tr_terminated_order r = xs @ txn # ys \<and> length ys \<le> n)"

lemma parkedI:
  "router_inv r \<Longrightarrow> map_of (tr_active r) txn = None \<Longrightarrow> map_of (tr_terminated r) txn = Some shard \<Longrightarrow>
   tr_terminated_order r = xs @ txn # ys \<Longrightarrow> length ys \<le> n \<Longrightarrow> parked txn shard n r"
  by (auto simp: parked_def)

lemma parked_push:
  assumes p: "parked txn shard n r" and t: "t \<noteq> txn" and n: "Suc n < TERMINATED_TXN_ROUTE_WINDOW"
  shows "parked txn shard (Suc n) (push_terminated t s r)"
proof -
  obtain xs ys where o: "tr_terminated_order r = xs @ txn # ys" "length ys \<le> n"
    and inv: "router_inv r" and tm: "map_of (tr_terminated r) txn = Some shard"
    and act: "map_of (tr_active r) txn = None"
    using p by (auto simp: parked_def)
  note inv' = push_terminated_inv [OF inv, of t s]
  show ?thesis
  proof (cases "map_of (tr_terminated r) t = None")
    case False
    then have "push_terminated t s r = r\<lparr>tr_terminated := AList.update t s (tr_terminated r)\<rparr>"
      by (simp add: push_terminated_def)
    with inv' act tm t o show ?thesis
      by (intro parkedI [where xs = xs and ys = ys]) (auto simp: update_conv')
  next
    case True
    show ?thesis
    proof (cases "length (tr_terminated_order r) < TERMINATED_TXN_ROUTE_WINDOW")
      case short: True
      with True inv inv' act tm t o show ?thesis
        by (intro parkedI [where xs = xs and ys = "ys @ [t]"]) (auto simp: push_terminated_new update_conv')
    next
      case False
      with o n obtain x xs' where xs: "xs = x # xs'" by (cases xs) auto
      have "x \<noteq> txn" using inv o by (auto simp: router_inv_def xs)
      with True False inv inv' act tm t o show ?thesis
        by (intro parkedI [where xs = xs' and ys = "ys @ [t]"]) (auto simp: push_terminated_new update_conv' xs)
    qed
  qed
qed

lemma parked_mono: "parked txn shard n r \<Longrightarrow> n \<le> m \<Longrightarrow> parked txn shard m r"
  unfolding parked_def by (meson order_trans)

lemma parked_remove:
  assumes "parked txn shard n r"
  shows "parked txn shard n (remove_active t r)"
proof -
  have "router_inv (remove_active t r)" using assms by (simp add: parked_def remove_active_inv)
  then show ?thesis
    using assms by (auto simp: parked_def remove_active_def delete_conv')
qed

lemma parked_apply:
  assumes p: "parked txn shard n r" and begin_other: "\<forall>s. op \<noteq> Begin txn s"
    and n: "(if is_confirmation op then Suc n else n) < TERMINATED_TXN_ROUTE_WINDOW"
  shows "parked txn shard (if is_confirmation op then Suc n else n) (router_apply op r)"
proof (cases op)
  case (Begin t s)
  have "router_inv (router_apply op r)" using p by (simp add: parked_def router_apply_inv)
  moreover have "map_of (tr_active (router_apply op r)) txn = None"
    using router_apply_active [of txn op r] p begin_other Begin by (simp add: parked_def)
  moreover have "tr_terminated (router_apply op r) = tr_terminated r"
    "tr_terminated_order (router_apply op r) = tr_terminated_order r"
    by (simp_all add: Begin router_begin_def Let_def)
  ultimately show ?thesis using p Begin by (simp add: parked_def)
next
  case (Outcome out)
  show ?thesis
  proof (cases "out_kind out")
    case BeginRejected
    with p Outcome show ?thesis by (simp add: apply_outcome_def parked_remove)
  next
    case ConfirmedTerminal
    let ?t = "out_txn_id out"
    show ?thesis
    proof (cases "map_of (tr_active r) ?t")
      case None
      with p Outcome ConfirmedTerminal show ?thesis
        by (simp add: apply_outcome_def confirm_terminated_def parked_mono)
    next
      case (Some s)
      then have "?t \<noteq> txn" using p by (auto simp: parked_def)
      with parked_push [OF parked_remove [OF p, of ?t], of ?t s] n Some Outcome ConfirmedTerminal show ?thesis
        by (simp add: apply_outcome_def confirm_terminated_def remove_active_def)
    qed
  qed
qed

lemma parked_run:
  assumes "parked txn shard n r" and "\<forall>op \<in> set ops. \<forall>s. op \<noteq> Begin txn s"
    and "n + length (filter is_confirmation ops) < TERMINATED_TXN_ROUTE_WINDOW"
  shows "parked txn shard (n + length (filter is_confirmation ops)) (router_run ops r)"
  using assms
proof (induction ops arbitrary: n r)
  case Nil
  then show ?case by (simp add: router_run_def)
next
  case (Cons op ops)
  from Cons.prems have "parked txn shard (if is_confirmation op then Suc n else n) (router_apply op r)"
    by (intro parked_apply) auto
  from Cons.IH [OF this] Cons.prems show ?case by (auto simp: router_run_def split: if_splits)
qed

lemma parked_confirm:
  assumes "router_inv r" and "map_of (tr_active r) txn = Some shard" and "map_of (tr_terminated r) txn = None"
  shows "parked txn shard 0 (confirm_terminated txn r)"
proof -
  let ?r = "remove_active txn r"
  have r: "router_inv ?r" "map_of (tr_active ?r) txn = None" "map_of (tr_terminated ?r) txn = None"
    using assms by (simp_all add: remove_active_inv) (simp_all add: remove_active_def delete_conv')
  have "confirm_terminated txn r = push_terminated txn shard ?r"
    using assms(2) by (simp add: confirm_terminated_def remove_active_def)
  moreover have "parked txn shard 0 (push_terminated txn shard ?r)"
  proof (cases "length (tr_terminated_order ?r) < TERMINATED_TXN_ROUTE_WINDOW")
    case True
    with r push_terminated_inv [OF r(1), of txn shard] show ?thesis
      by (auto simp: parked_def push_terminated_new update_conv')
  next
    case False
    then obtain t ts where o: "tr_terminated_order ?r = t # ts"
      by (cases "tr_terminated_order ?r") (auto simp: TERMINATED_TXN_ROUTE_WINDOW_def)
    have "t \<in> fst ` set (tr_terminated ?r)" using r(1) o by (auto simp: router_inv_def)
    then have "t \<noteq> txn" using r(3) by (auto simp: map_of_None_key)
    with r False o push_terminated_inv [OF r(1), of txn shard] show ?thesis
      by (auto simp: parked_def push_terminated_new update_conv')
  qed
  ultimately show ?thesis by simp
qed

section \<open>Properties\<close>

text \<open>Whatever a connection does, its router holds at most 1024 open and 256 terminated routes, each
  transaction at most once in each table.\<close>

theorem router_bounded:
  "length (tr_active (router_run ops router_new)) \<le> 1024 \<and>
   length (tr_terminated (router_run ops router_new)) \<le> 256 \<and>
   distinct (map fst (tr_active (router_run ops router_new))) \<and>
   distinct (map fst (tr_terminated (router_run ops router_new)))"
proof -
  let ?r = "router_run ops router_new"
  have inv: "router_inv ?r" by (rule router_run_inv [OF router_inv_new])
  then have "length (tr_terminated ?r) = card (set (tr_terminated_order ?r))"
    by (metis distinct_card length_map router_inv_def set_map)
  also have "\<dots> \<le> length (tr_terminated_order ?r)" by (rule card_length)
  finally show ?thesis
    using inv by (simp add: router_inv_def ACTIVE_TXN_ROUTE_CAP_def TERMINATED_TXN_ROUTE_WINDOW_def)
qed

text \<open>The route of an open transaction is never lost: once its begin is accepted, every commit or
  abort of it resolves to the shard it was begun on, however many other transactions are begun,
  committed, aborted or rejected on the connection in between.\<close>

theorem open_route_kept:
  assumes "router_begin txn shard r = (True, r')" and "\<forall>op \<in> set ops. \<not> concerns txn op"
  shows "router_route txn (router_run ops r') = Some shard"
  using router_begin_active [OF assms(1)] router_run_active [OF assms(2), of r']
  by (simp add: router_route_def)

theorem open_route_kept_witness:
  "router_route [1] (router_run [Begin [2] 5, Outcome \<lparr>out_txn_id = [2], out_kind = ConfirmedTerminal\<rparr>]
     (snd (router_begin [1] 4 router_new))) = Some 4"
  by (rule open_route_kept [where r = router_new])
    (auto simp: router_begin_def router_new_def ACTIVE_TXN_ROUTE_CAP_def)

text \<open>A commit can be retried: after a terminal outcome is confirmed, the transaction still resolves
  to its shard until 256 further terminal outcomes have been confirmed on the connection.\<close>

theorem terminated_route_window:
  assumes "map_of (tr_active (router_run before router_new)) txn = Some shard"
    and "map_of (tr_terminated (router_run before router_new)) txn = None"
    and "\<forall>op \<in> set ops. \<forall>s. op \<noteq> Begin txn s"
    and "length (filter is_confirmation ops) < 256"
  shows "router_route txn
    (router_run ops (apply_outcome \<lparr>out_txn_id = txn, out_kind = ConfirmedTerminal\<rparr> (router_run before router_new)))
    = Some shard"
proof -
  have "parked txn shard 0 (confirm_terminated txn (router_run before router_new))"
    by (rule parked_confirm [OF router_run_inv [OF router_inv_new] assms(1,2)])
  from parked_run [OF this assms(3)] assms(4) show ?thesis
    by (simp add: apply_outcome_def router_route_def parked_def TERMINATED_TXN_ROUTE_WINDOW_def)
qed

theorem terminated_route_window_witness:
  "router_route [1] (router_run [Begin [2] 5, Outcome \<lparr>out_txn_id = [2], out_kind = ConfirmedTerminal\<rparr>]
     (apply_outcome \<lparr>out_txn_id = [1], out_kind = ConfirmedTerminal\<rparr> (router_run [Begin [1] 4] router_new)))
   = Some 4"
  by (rule terminated_route_window)
    (auto simp: router_run_def router_begin_def router_new_def ACTIVE_TXN_ROUTE_CAP_def)

text \<open>The begin-order queue of the router is not bounded: a client that begins one and the same
  transaction \<open>n\<close> times, each begin being rejected by the shard, leaves \<open>n\<close> copies of its id in the
  queue although no transaction is open. The compaction keeps every copy, because it runs while the id
  is active again.\<close>

theorem active_order_unbounded:
  "let r = router_run (concat (replicate n
       [Begin txn shard, Outcome \<lparr>out_txn_id = txn, out_kind = BeginRejected\<rparr>])) router_new
   in tr_active r = [] \<and> length (tr_active_order r) = n"
proof -
  let ?round = "[Begin txn shard, Outcome \<lparr>out_txn_id = txn, out_kind = BeginRejected\<rparr>]"
  have round: "router_run ?round r = r\<lparr>tr_active_order := tr_active_order r @ [txn]\<rparr>"
    if "tr_active r = []" "set (tr_active_order r) \<subseteq> {txn}" for r
  proof -
    have "filter (\<lambda>id. id = txn) (tr_active_order r) = tr_active_order r"
      using that(2) by (auto simp: filter_id_conv)
    with that(1) show ?thesis
      by (cases r) (simp add: router_run_def router_begin_def apply_outcome_def remove_active_def Let_def
        ACTIVE_TXN_ROUTE_CAP_def)
  qed
  have "router_run (concat (replicate n ?round)) r = r\<lparr>tr_active_order := tr_active_order r @ replicate n txn\<rparr>"
    if "tr_active r = []" "set (tr_active_order r) \<subseteq> {txn}" for r
    using that
  proof (induction n arbitrary: r)
    case (Suc n)
    then show ?case
      using round [OF Suc.prems] Suc.IH [of "r\<lparr>tr_active_order := tr_active_order r @ [txn]\<rparr>"]
      by (simp add: router_run_def)
  qed (simp add: router_run_def)
  from this [of router_new] show ?thesis by (simp add: router_new_def)
qed

end
