(* ===== verification/Server_Dispatch.thy ===== *)
theory Server_Dispatch
  imports Server_Routing Server_Txn_Router
begin

text \<open>
  The per-connection state machine and frame dispatcher (\<open>brain-server/src/network/dispatch.rs\<close>). A
  decision is an action; the frames it carries are kept as the arguments of \<open>build_response_frame\<close>,
  which is modelled beside it. What the dispatcher reads of its surroundings at one frame (the clocks,
  a fresh UUID, the key store, the published routing table) is an environment record.
  What the decisions mean over the life of a connection is the subject of \<open>Server_Session\<close>.
\<close>

section \<open>Connection state\<close>

datatype conn_phase =
    AwaitingHello
  | AwaitingAuth
  | Established space_id shard_id space_permissions request_scope

record conn_state =
  cn_phase :: conn_phase
  cn_connection_id :: bytes
  cn_negotiated_version :: u8
  cn_last_revocation_check :: nat
  cn_opened_txn :: bool
  cn_txn_shards :: txn_router

definition conn_new :: "nat \<Rightarrow> conn_state" where
  "conn_new now =
     \<lparr>cn_phase = AwaitingHello, cn_connection_id = replicate 16 0, cn_negotiated_version = 0,
      cn_last_revocation_check = now, cn_opened_txn = False, cn_txn_shards = router_new\<rparr>"

record net_env =
  ne_instant :: nat
  ne_unix_nanos :: u64
  ne_uuid :: bytes
  ne_store_ok :: bool
  ne_db :: api_key_db
  ne_routing :: routing_table

text \<open>\<open>tp_show_error\<close> and \<open>tp_show_auth_error\<close> are the \<open>Display\<close> texts that \<open>thiserror\<close> generates.\<close>

record topology =
  tp_deps :: net_deps
  tp_readers :: cbor_readers
  tp_show_error :: "protocol_error \<Rightarrow> string"
  tp_show_auth_error :: "auth_error \<Rightarrow> string"
  tp_caps :: server_capabilities

section \<open>Responses and actions\<close>

datatype response_body =
    Rsp_Error error_code string
  | Rsp_Welcome welcome_payload
  | Rsp_AuthOk auth_ok_payload
  | Rsp_Pong u64 u64
  | Rsp_ServerPing u64

fun response_opcode :: "response_body \<Rightarrow> opcode" where
  "response_opcode (Rsp_Error code msg) = O_Error"
| "response_opcode (Rsp_Welcome w) = Op_Connection O_Welcome"
| "response_opcode (Rsp_AuthOk a) = Op_Connection O_AuthOk"
| "response_opcode (Rsp_Pong c s) = Op_Connection O_Pong"
| "response_opcode (Rsp_ServerPing t) = Op_Connection O_ServerPing"

definition FLAG_EOS :: u8 where
  "FLAG_EOS = push_bit 7 1"

datatype out_frame = Response u32 bool response_body | ByeEcho bytes

text \<open>The encoder of response bodies (CBOR) is a parameter; \<open>None\<close> is the panic of \<open>Frame::new\<close>.\<close>

fun build_frame :: "crc_fn \<Rightarrow> (response_body \<Rightarrow> bytes) \<Rightarrow> out_frame \<Rightarrow> frame option" where
  "build_frame crc enc (Response stream_id eos body) =
     frame_new crc (opcode_as_u16 (response_opcode body)) (if eos then FLAG_EOS else 0) stream_id (enc body)"
| "build_frame crc enc (ByeEcho payload) =
     frame_new crc (opcode_as_u16 (Op_Connection O_Bye)) FLAG_EOS 0 payload"

definition error_frame :: "u32 \<Rightarrow> error_code \<Rightarrow> string \<Rightarrow> out_frame" where
  "error_frame stream_id code message = Response stream_id True (Rsp_Error code message)"

record op_dispatch =
  od_stream_id :: u32
  od_req :: request_body
  od_target_shard :: shard_id
  od_scope :: request_scope
  od_connection_id :: bytes
  od_act_as :: "act_as option"

record subscribe_start =
  ss_stream_id :: u32
  ss_req :: subscribe_request
  ss_target_shard :: shard_id
  ss_space :: space_id

datatype cancel_subscribe = CancelUnsubscribe u32 u32 | CancelStream u32 cancel_stream_request

datatype action =
    Act_Inline out_frame
  | Act_OpDispatch op_dispatch
  | Act_Subscribe subscribe_start
  | Act_CancelSubscribe cancel_subscribe
  | Act_CloseWith out_frame
  | Act_Close
  | Act_Nothing
  | Act_Panic

section \<open>Authorization and routing helpers\<close>

definition WILDCARD :: text_bytes where
  "WILDCARD = [0x2A]"

definition check_act_as :: "request_scope \<Rightarrow> act_as \<Rightarrow> (error_code \<times> string) + unit" where
  "check_act_as scope a =
     (if rs_permissions scope AND PERM_ACT_AS = 0
        then Inl (Ec_Authorization E_ActAsDenied, ''act_as: connection principal lacks the ACT_AS grant'')
      else if \<not> list_ex (\<lambda>ns. ns = WILDCARD \<or> ns = aa_namespace a) (rs_may_act scope)
        then Inl (Ec_Authorization E_ActAsDenied, ''act_as: target namespace is not in the principal's may_act allowlist'')
      else (case act_as_grant_violation (rs_permissions scope) (aa_grant a) of
              Some message \<Rightarrow> Inl (Ec_Authorization E_ActAsDenied, message)
            | None \<Rightarrow> Inr ()))"

text \<open>Five seconds, in nanoseconds.\<close>

definition REVOCATION_RECHECK_WINDOW :: nat where
  "REVOCATION_RECHECK_WINDOW = 5 * 10 ^ 9"

definition enforce_live_revocation ::
  "net_env \<Rightarrow> request_scope \<Rightarrow> u32 \<Rightarrow> conn_state \<Rightarrow> action option \<times> conn_state" where
  "enforce_live_revocation env scope stream_id st =
     (let now = ne_instant env
      in if now - cn_last_revocation_check st < REVOCATION_RECHECK_WINDOW then (None, st)
         else
           let st' = st\<lparr>cn_last_revocation_check := now\<rparr>
           in (case is_key_active (ne_store_ok env) (rs_key_hash scope) (ne_db env) of
                 Inr True \<Rightarrow> (None, st')
               | Inr False \<Rightarrow>
                   (Some (Act_CloseWith (error_frame stream_id (Ec_Handshake E_Unauthenticated) ''API key has been revoked'')), st')
               | Inl e \<Rightarrow>
                   (Some (Act_CloseWith (error_frame stream_id (Ec_Internal E_Internal) ''api-key store unavailable; closing connection'')), st')))"

definition pick_target_shard ::
  "net_deps \<Rightarrow> request_body \<Rightarrow> shard_id \<Rightarrow> routing_table \<Rightarrow> act_as option \<Rightarrow> shard_id" where
  "pick_target_shard d req bound_shard routing sel =
     (let by_request =
        (case req of
           Rq_Forget r \<Rightarrow> shard_for_memory (fq_memory_id r)
         | Rq_Link r \<Rightarrow> shard_for_memory (lq_source r)
         | Rq_Unlink r \<Rightarrow> shard_for_memory (uq_source r)
         | _ \<Rightarrow> bound_shard)
      in (case sel of
            Some a \<Rightarrow>
              if aa_space a \<noteq> [] then shard_for_space d routing (derive_from_string d (aa_namespace a) (aa_space a))
              else by_request
          | None \<Rightarrow> by_request))"

definition subscribe_spaces_allowed :: "space_id \<Rightarrow> space_id list option \<Rightarrow> bool" where
  "subscribe_spaces_allowed own spaces \<longleftrightarrow>
     (case spaces of Some a \<Rightarrow> a \<noteq> [] \<and> list_all (\<lambda>b. b = own) a | None \<Rightarrow> False)"

section \<open>Handshake handlers\<close>

definition decimal_u8 :: "u8 \<Rightarrow> string" where
  "decimal_u8 v =
     (let n = unat v; digit = (\<lambda>k. char_of (48 + k mod 10 :: nat))
      in (if n \<ge> 100 then [digit (n div 100)] else []) @ (if n \<ge> 10 then [digit (n div 10)] else []) @ [digit n])"

definition no_mutual_version :: "hello_payload \<Rightarrow> server_capabilities \<Rightarrow> string" where
  "no_mutual_version hello caps =
     ''no mutual version (client max='' @ decimal_u8 (max_or_zero (hp_supported_versions hello)) @
     '', server max='' @ decimal_u8 (max_or_zero (sc_supported_versions caps)) @ '')''"

definition on_hello :: "topology \<Rightarrow> net_env \<Rightarrow> bytes \<Rightarrow> conn_state \<Rightarrow> action \<times> conn_state" where
  "on_hello tp env payload st =
     (if cn_phase st \<noteq> AwaitingHello
        then (Act_CloseWith (error_frame 0 (Ec_Protocol E_BadFrame) ''HELLO out of order''), st)
      else (case from_cbor_bytes (rd_hello (tp_readers tp)) payload of
              Inl e \<Rightarrow> (Act_CloseWith (error_frame 0 (protocol_error_code e) (tp_show_error tp e)), st)
            | Inr hello \<Rightarrow>
                (case negotiate hello (tp_caps tp) of
                   Inl e \<Rightarrow> (Act_CloseWith (error_frame 0 (Ec_Handshake E_VersionNotSupported) (no_mutual_version hello (tp_caps tp))), st)
                 | Inr negotiated \<Rightarrow>
                     (Act_Inline (Response 0 True (Rsp_Welcome
                        \<lparr>wp_server_id = sc_server_id (tp_caps tp),
                         wp_chosen_version = ns_chosen_version negotiated,
                         wp_connection_id = ne_uuid env,
                         wp_capabilities = ns_capabilities negotiated,
                         wp_server_features = sc_server_features (tp_caps tp)\<rparr>)),
                      st\<lparr>cn_connection_id := ne_uuid env,
                         cn_negotiated_version := ns_chosen_version negotiated,
                         cn_phase := AwaitingAuth\<rparr>))))"

fun auth_error_code :: "auth_error \<Rightarrow> error_code" where
  "auth_error_code AuthMissing = Ec_Handshake E_Unauthenticated"
| "auth_error_code AuthUnknown = Ec_Handshake E_Unauthenticated"
| "auth_error_code AuthRevoked = Ec_Handshake E_Unauthenticated"
| "auth_error_code AuthUnsupportedMethod = Ec_Handshake E_NoSuchAuthMethod"
| "auth_error_code (AuthStorage e) = Ec_Internal E_Internal"

definition on_auth :: "topology \<Rightarrow> net_env \<Rightarrow> bytes \<Rightarrow> conn_state \<Rightarrow> action \<times> conn_state" where
  "on_auth tp env payload st =
     (if cn_phase st \<noteq> AwaitingAuth
        then (Act_CloseWith (error_frame 0 (Ec_Protocol E_BadFrame) ''AUTH out of order''), st)
      else (case from_cbor_bytes (rd_auth (tp_readers tp)) payload of
              Inl e \<Rightarrow> (Act_CloseWith (error_frame 0 (protocol_error_code e) (tp_show_error tp e)), st)
            | Inr auth \<Rightarrow>
                if \<not> list_ex (\<lambda>m. m = ap_method auth) (sf_auth_methods (sc_server_features (tp_caps tp)))
                  then (Act_CloseWith (error_frame 0 (Ec_Handshake E_NoSuchAuthMethod) ''auth method not in server policy''), st)
                else (case derive_scope_from_handshake (tp_deps tp) (ne_store_ok env) auth (ne_db env) of
                        Inl e \<Rightarrow> (Act_CloseWith (error_frame 0 (auth_error_code e) (tp_show_auth_error tp e)), st)
                      | Inr scope \<Rightarrow>
                          let space = rs_space_id scope;
                              bound_shard = shard_for_space (tp_deps tp) (ne_routing env) space;
                              permissions = to_space_permissions scope
                          in (Act_Inline (Response 0 True (Rsp_AuthOk
                                \<lparr>ao_space_id = space, ao_bound_shard_id = bound_shard, ao_permissions = permissions,
                                 ao_namespace = rs_namespace scope, ao_server_time_unix_nanos = ne_unix_nanos env\<rparr>)),
                              st\<lparr>cn_phase := Established space bound_shard permissions scope,
                                 cn_last_revocation_check := ne_instant env\<rparr>))))"

definition on_ping :: "topology \<Rightarrow> net_env \<Rightarrow> u32 \<Rightarrow> bytes \<Rightarrow> action" where
  "on_ping tp env stream_id payload =
     (case request_decode (tp_readers tp) (Op_Connection O_Ping) payload of
        Inr (Rq_Ping t) \<Rightarrow> Act_Inline (Response stream_id True (Rsp_Pong t (ne_unix_nanos env)))
      | Inr _ \<Rightarrow> Act_Panic
      | Inl e \<Rightarrow> Act_Inline (error_frame stream_id (protocol_error_code e) (tp_show_error tp e)))"

definition on_bye :: "bytes \<Rightarrow> action" where
  "on_bye payload = Act_CloseWith (ByeEcho payload)"

section \<open>Requests on an established connection\<close>

definition effective_space :: "net_deps \<Rightarrow> request_scope \<Rightarrow> act_as \<Rightarrow> space_id" where
  "effective_space d scope a =
     (if aa_space a = [] then rs_space_id scope else derive_from_string d (aa_namespace a) (aa_space a))"

definition dispatch_subscribe ::
  "topology \<Rightarrow> net_env \<Rightarrow> request_scope \<Rightarrow> shard_id \<Rightarrow> u32 \<Rightarrow> subscribe_request \<Rightarrow> action" where
  "dispatch_subscribe tp env scope bound_shard stream_id sub_req =
     (let start = (\<lambda>(eff, target).
        if \<not> subscribe_spaces_allowed eff (flt_spaces (sub_filter sub_req))
          then Act_Inline (error_frame stream_id (Ec_Authorization E_PermissionDenied)
                 ''subscribe: filter.spaces must name only the effective space'')
        else Act_Subscribe \<lparr>ss_stream_id = stream_id, ss_req = sub_req, ss_target_shard = target, ss_space = eff\<rparr>)
      in (case sub_act_as sub_req of
            Some a \<Rightarrow>
              (case check_act_as scope a of
                 Inl (code, message) \<Rightarrow> Act_Inline (error_frame stream_id code message)
               | Inr _ \<Rightarrow>
                   let eff = effective_space (tp_deps tp) scope a
                   in start (eff, shard_for_space (tp_deps tp) (ne_routing env) eff))
          | None \<Rightarrow> start (rs_space_id scope, bound_shard)))"

definition dispatch_op ::
  "topology \<Rightarrow> net_env \<Rightarrow> request_scope \<Rightarrow> shard_id \<Rightarrow> u32 \<Rightarrow> request_body \<Rightarrow> conn_state \<Rightarrow> action \<times> conn_state" where
  "dispatch_op tp env scope bound_shard stream_id req st =
     (let sel = act_as_of req;
          target = pick_target_shard (tp_deps tp) req bound_shard (ne_routing env) sel;
          send = (\<lambda>shard. Act_OpDispatch
            \<lparr>od_stream_id = stream_id, od_req = req, od_target_shard = shard, od_scope = scope,
             od_connection_id = cn_connection_id st, od_act_as = sel\<rparr>);
          pinned = (\<lambda>txn. case router_route txn (cn_txn_shards st) of Some shard \<Rightarrow> shard | None \<Rightarrow> target)
      in (case (case sel of Some a \<Rightarrow> check_act_as scope a | None \<Rightarrow> Inr ()) of
            Inl (code, message) \<Rightarrow> (Act_Inline (error_frame stream_id code message), st)
          | Inr _ \<Rightarrow>
              (case req of
                 Rq_TxnBegin r \<Rightarrow>
                   (case router_begin (tb_txn_id r) target (cn_txn_shards st) of
                      (True, router) \<Rightarrow> (send target, st\<lparr>cn_txn_shards := router\<rparr>)
                    | (False, router) \<Rightarrow>
                        (Act_Inline (error_frame stream_id (Ec_Exhausted E_TransactionLimitExceeded)
                           ''too many concurrent open transactions on this connection''),
                         st\<lparr>cn_txn_shards := router\<rparr>))
               | Rq_TxnCommit txn \<Rightarrow> (send (pinned txn), st)
               | Rq_TxnAbort txn \<Rightarrow> (send (pinned txn), st)
               | _ \<Rightarrow> (send target, st))))"

definition dispatch_request ::
  "topology \<Rightarrow> net_env \<Rightarrow> request_scope \<Rightarrow> shard_id \<Rightarrow> u32 \<Rightarrow> request_body \<Rightarrow> conn_state \<Rightarrow> action \<times> conn_state" where
  "dispatch_request tp env scope bound_shard stream_id req st =
     (case req of
        Rq_Subscribe r \<Rightarrow> (dispatch_subscribe tp env scope bound_shard stream_id r, st)
      | Rq_Unsubscribe target \<Rightarrow> (Act_CancelSubscribe (CancelUnsubscribe stream_id target), st)
      | Rq_CancelStream r \<Rightarrow> (Act_CancelSubscribe (CancelStream stream_id r), st)
      | _ \<Rightarrow> dispatch_op tp env scope bound_shard stream_id req st)"

definition dispatch_established ::
  "topology \<Rightarrow> net_env \<Rightarrow> opcode \<Rightarrow> u32 \<Rightarrow> bytes \<Rightarrow> conn_state \<Rightarrow> action \<times> conn_state" where
  "dispatch_established tp env op stream_id payload st =
     (case cn_phase st of
        Established space bound_shard permissions scope \<Rightarrow>
          (case enforce_live_revocation env scope stream_id st of
             (Some act, st') \<Rightarrow> (act, st')
           | (None, st') \<Rightarrow>
               if \<not> is_request op
                 then (Act_Inline (error_frame stream_id (Ec_Protocol E_BadOpcode) ''client sent a response-opcode frame''), st')
               else (case request_decode (tp_readers tp) op payload of
                       Inl e \<Rightarrow> (Act_Inline (error_frame stream_id (protocol_error_code e) (tp_show_error tp e)), st')
                     | Inr req \<Rightarrow> dispatch_request tp env scope bound_shard stream_id req st'))
      | _ \<Rightarrow> (Act_Inline (error_frame stream_id (Ec_Handshake E_NotAuthenticated)
                 ''operation requires established (post-AUTH_OK) connection''), st))"

definition dispatch_frame :: "topology \<Rightarrow> net_env \<Rightarrow> frame \<Rightarrow> conn_state \<Rightarrow> action \<times> conn_state" where
  "dispatch_frame tp env f st =
     (let stream_id = stream_id_u32 (fr_header f); payload = fr_payload f
      in (case opcode_from_u16 (opcode_u16 (fr_header f)) of
            Inl e \<Rightarrow> (Act_Inline (error_frame stream_id (Ec_Protocol E_BadOpcode) ''unknown opcode''), st)
          | Inr op \<Rightarrow>
              if op \<noteq> O_Error \<and> is_connection_level op \<and> stream_id \<noteq> 0
                then (Act_Inline (error_frame stream_id (Ec_Protocol E_BadFrame) ''connection-level opcode requires stream_id = 0''), st)
              else if op \<noteq> O_Error \<and> \<not> is_connection_level op \<and> (stream_id = 0 \<or> even (unat stream_id))
                then (Act_Inline (error_frame stream_id (Ec_Protocol E_BadFrame) ''op streams must be non-zero and odd (client-initiated)''), st)
              else if op = Op_Connection O_Hello then on_hello tp env payload st
              else if op = Op_Connection O_Auth then on_auth tp env payload st
              else if op = Op_Connection O_Ping then (on_ping tp env stream_id payload, st)
              else if op = Op_Connection O_Bye then (on_bye payload, st)
              else if op = Op_Connection O_ClientPong then (Act_Nothing, st)
              else dispatch_established tp env op stream_id payload st))"

end
