(* ===== verification/Server_Session.thy ===== *)
theory Server_Session
  imports Server_Dispatch
begin

text \<open>
  Connections over time: the events a connection handles (a frame, a confirmed transaction outcome)
  as a step relation over the dispatcher, and what holds of every sequence of them.
  The lemmas show that nothing is served before a key has been resolved, that a served request carries
  the scope of that key and that the key was seen active less than five seconds before, that delegated
  requests were authorized, that a transaction stays on the shard it was begun on, and that a proper
  handshake establishes the connection.
\<close>

section \<open>Steps of a connection\<close>

datatype conn_event = FrameIn net_env frame | OutcomeIn txn_route_outcome

text \<open>The receiver loop latches that the connection dispatched a begin.\<close>

definition latch_opened_txn :: "action \<Rightarrow> conn_state \<Rightarrow> conn_state" where
  "latch_opened_txn act st =
     (case act of
        Act_OpDispatch od \<Rightarrow>
          (case od_req od of Rq_TxnBegin r \<Rightarrow> st\<lparr>cn_opened_txn := True\<rparr> | _ \<Rightarrow> st)
      | _ \<Rightarrow> st)"

inductive conn_step :: "topology \<Rightarrow> conn_state \<Rightarrow> conn_event \<Rightarrow> action option \<Rightarrow> conn_state \<Rightarrow> bool" for tp where
  frame_in: "dispatch_frame tp env f st = (act, st') \<Longrightarrow>
    conn_step tp st (FrameIn env f) (Some act) (latch_opened_txn act st')"
| outcome_in: "conn_step tp st (OutcomeIn out) None
    (st\<lparr>cn_txn_shards := apply_outcome out (cn_txn_shards st)\<rparr>)"

text \<open>The receiver loop leaves on a close (a panic ends the task), so nothing follows one.\<close>

fun ends :: "action option \<Rightarrow> bool" where
  "ends (Some (Act_CloseWith o1)) = True"
| "ends (Some Act_Close) = True"
| "ends (Some Act_Panic) = True"
| "ends _ = False"

definition closed :: "(conn_event \<times> action option) list \<Rightarrow> bool" where
  "closed tr \<longleftrightarrow> list_ex (\<lambda>(ev, act). ends act) tr"

lemma closed_simps [simp]: "\<not> closed []" "closed (tr @ [(ev, act)]) \<longleftrightarrow> closed tr \<or> ends act"
  by (simp_all add: closed_def)

inductive conn_steps :: "topology \<Rightarrow> conn_state \<Rightarrow> (conn_event \<times> action option) list \<Rightarrow> conn_state \<Rightarrow> bool" for tp where
  no_steps: "conn_steps tp st [] st"
| more_steps: "conn_steps tp st tr st' \<Longrightarrow> \<not> closed tr \<Longrightarrow> conn_step tp st' ev act st'' \<Longrightarrow>
    conn_steps tp st (tr @ [(ev, act)]) st''"

inductive_cases frame_stepE: "conn_step tp st (FrameIn env f) act st'"
inductive_cases outcome_stepE: "conn_step tp st (OutcomeIn out) act st'"

section \<open>What one frame does\<close>

definition serves :: "action \<Rightarrow> bool" where
  "serves act \<longleftrightarrow>
     (case act of
        Act_OpDispatch od \<Rightarrow> True | Act_Subscribe ss \<Rightarrow> True | Act_CancelSubscribe c \<Rightarrow> True | _ \<Rightarrow> False)"

text \<open>What a served request carries of the scope it is served under.\<close>

definition carries :: "net_deps \<Rightarrow> request_scope \<Rightarrow> action \<Rightarrow> bool" where
  "carries d scope act \<longleftrightarrow>
     (case act of
        Act_OpDispatch od \<Rightarrow>
          od_scope od = scope \<and> od_act_as od = act_as_of (od_req od) \<and>
          (\<forall>a. od_act_as od = Some a \<longrightarrow> check_act_as scope a = Inr ())
      | Act_Subscribe ss \<Rightarrow>
          (case sub_act_as (ss_req ss) of
             None \<Rightarrow> ss_space ss = rs_space_id scope
           | Some a \<Rightarrow> check_act_as scope a = Inr () \<and> ss_space ss = effective_space d scope a) \<and>
          (\<exists>spaces. flt_spaces (sub_filter (ss_req ss)) = Some spaces \<and> set spaces = {ss_space ss})
      | Act_Panic \<Rightarrow> False
      | _ \<Rightarrow> True)"

lemma carries_inline [simp]: "carries d scope (Act_Inline o1)"
  by (simp add: carries_def)

lemma subscribe_spaces_allowed_iff:
  "subscribe_spaces_allowed own spaces \<longleftrightarrow> (\<exists>a. spaces = Some a \<and> set a = {own})"
proof (cases spaces)
  case (Some a)
  have "a \<noteq> [] \<and> (\<forall>b \<in> set a. b = own) \<longleftrightarrow> set a = {own}"
  proof (cases a)
    case (Cons b bs)
    show ?thesis unfolding Cons by (simp only: list.set list.distinct simp_thms) (safe; blast)
  qed simp
  with Some show ?thesis by (simp add: subscribe_spaces_allowed_def list_all_iff)
qed (simp add: subscribe_spaces_allowed_def)

lemma dispatch_subscribe_carries:
  "carries (tp_deps tp) scope (dispatch_subscribe tp env scope bound sid r)"
  by (auto simp: dispatch_subscribe_def carries_def subscribe_spaces_allowed_iff Let_def
    split: option.splits sum.splits prod.splits)

definition op_allowed :: "request_scope \<Rightarrow> request_body \<Rightarrow> bool" where
  "op_allowed scope req \<longleftrightarrow> (\<forall>a. act_as_of req = Some a \<longrightarrow> check_act_as scope a = Inr ())"

definition op_action :: "request_scope \<Rightarrow> u32 \<Rightarrow> request_body \<Rightarrow> conn_state \<Rightarrow> shard_id \<Rightarrow> action" where
  "op_action scope sid req st shard =
     Act_OpDispatch
       \<lparr>od_stream_id = sid, od_req = req, od_target_shard = shard, od_scope = scope,
        od_connection_id = cn_connection_id st, od_act_as = act_as_of req\<rparr>"

definition op_target :: "topology \<Rightarrow> net_env \<Rightarrow> shard_id \<Rightarrow> request_body \<Rightarrow> shard_id" where
  "op_target tp env bound req = pick_target_shard (tp_deps tp) req bound (ne_routing env) (act_as_of req)"

text \<open>What an action says of the transaction routes before and after it.\<close>

fun begins :: "txn_id \<Rightarrow> action \<Rightarrow> bool" where
  "begins txn (Act_OpDispatch od) = (case od_req od of Rq_TxnBegin r \<Rightarrow> tb_txn_id r = txn | _ \<Rightarrow> False)"
| "begins txn act = False"

definition routes :: "txn_router \<Rightarrow> action \<Rightarrow> txn_router \<Rightarrow> bool" where
  "routes r act r' \<longleftrightarrow>
     (\<forall>txn. \<not> begins txn act \<longrightarrow> map_of (tr_active r') txn = map_of (tr_active r) txn) \<and>
     (case act of
        Act_OpDispatch od \<Rightarrow>
          (case od_req od of
             Rq_TxnBegin q \<Rightarrow> map_of (tr_active r') (tb_txn_id q) = Some (od_target_shard od)
           | Rq_TxnCommit t \<Rightarrow> (\<forall>s. router_route t r = Some s \<longrightarrow> od_target_shard od = s)
           | Rq_TxnAbort t \<Rightarrow> (\<forall>s. router_route t r = Some s \<longrightarrow> od_target_shard od = s)
           | _ \<Rightarrow> True)
      | _ \<Rightarrow> True)"

lemma routes_idle: "(case act of Act_OpDispatch od \<Rightarrow> False | _ \<Rightarrow> True) \<Longrightarrow> routes r act r"
  by (simp add: routes_def split: action.splits)

lemma routes_refused:
  "router_begin txn shard r = (False, r') \<Longrightarrow> routes r (Act_Inline o1) r'"
  by (auto simp: router_begin_def Let_def routes_def split: if_splits)

lemma routes_begun:
  assumes "router_begin (tb_txn_id q) shard r = (True, r')"
  shows "routes r (op_action scope sid (Rq_TxnBegin q) st shard) r'"
  using assms router_begin_active [OF assms] router_apply_active [of _ "Begin (tb_txn_id q) shard" r]
  by (auto simp: routes_def op_action_def)

lemma routes_ended:
  assumes "req = Rq_TxnCommit txn \<or> req = Rq_TxnAbort txn"
  shows "routes r (op_action scope sid req st
    (case router_route txn r of Some shard \<Rightarrow> shard | None \<Rightarrow> target)) r"
  using assms by (auto simp: routes_def op_action_def)

lemma routes_other:
  assumes "\<forall>r. req \<noteq> Rq_TxnBegin r" and "\<forall>t. req \<noteq> Rq_TxnCommit t \<and> req \<noteq> Rq_TxnAbort t"
  shows "routes r (op_action scope sid req st shard) r"
  using assms by (cases req) (auto simp: routes_def op_action_def)

lemma dispatch_op_denied:
  assumes "\<not> op_allowed scope req"
  shows "\<exists>o1. dispatch_op tp env scope bound sid req st = (Act_Inline o1, st)"
proof -
  obtain a where a: "act_as_of req = Some a" "check_act_as scope a \<noteq> Inr ()"
    using assms by (auto simp: op_allowed_def)
  then obtain code message where "check_act_as scope a = Inl (code, message)"
    by (cases "check_act_as scope a") auto
  with a(1) show ?thesis by (simp add: dispatch_op_def)
qed

lemma op_allowed_Inr:
  "op_allowed scope req \<Longrightarrow>
   (case act_as_of req of Some a \<Rightarrow> check_act_as scope a | None \<Rightarrow> Inr ()) = Inr ()"
  by (simp add: op_allowed_def split: option.split)

lemma dispatch_op_begin:
  "op_allowed scope (Rq_TxnBegin r) \<Longrightarrow>
   dispatch_op tp env scope bound sid (Rq_TxnBegin r) st =
     (case router_begin (tb_txn_id r) (op_target tp env bound (Rq_TxnBegin r)) (cn_txn_shards st) of
        (ok, router) \<Rightarrow>
          (if ok then op_action scope sid (Rq_TxnBegin r) st (op_target tp env bound (Rq_TxnBegin r))
           else Act_Inline (error_frame sid (Ec_Exhausted E_TransactionLimitExceeded)
                  ''too many concurrent open transactions on this connection''),
           st\<lparr>cn_txn_shards := router\<rparr>))"
  by (auto simp only: dispatch_op_def Let_def op_allowed_Inr op_target_def op_action_def
    request_body.case sum.case split: prod.splits bool.splits if_splits)

lemma dispatch_op_end:
  assumes "op_allowed scope req" and "req = Rq_TxnCommit txn \<or> req = Rq_TxnAbort txn"
  shows "dispatch_op tp env scope bound sid req st =
    (op_action scope sid req st
       (case router_route txn (cn_txn_shards st) of Some shard \<Rightarrow> shard | None \<Rightarrow> op_target tp env bound req), st)"
  using assms(2)
proof
  assume "req = Rq_TxnCommit txn"
  then show ?thesis
    using op_allowed_Inr [OF assms(1)]
    by (simp only: dispatch_op_def Let_def op_target_def op_action_def request_body.case sum.case)
next
  assume "req = Rq_TxnAbort txn"
  then show ?thesis
    using op_allowed_Inr [OF assms(1)]
    by (simp only: dispatch_op_def Let_def op_target_def op_action_def request_body.case sum.case)
qed

lemma dispatch_op_other:
  assumes "op_allowed scope req" and "\<forall>r. req \<noteq> Rq_TxnBegin r" and "\<forall>t. req \<noteq> Rq_TxnCommit t \<and> req \<noteq> Rq_TxnAbort t"
  shows "dispatch_op tp env scope bound sid req st = (op_action scope sid req st (op_target tp env bound req), st)"
  using assms(2,3) unfolding dispatch_op_def Let_def op_target_def op_action_def op_allowed_Inr [OF assms(1)] sum.case
  by (cases req) (simp_all only: request_body.case simp_thms request_body.inject not_True_eq_False, blast+)

lemma carries_op_action: "op_allowed scope req \<Longrightarrow> carries d scope (op_action scope sid req st shard)"
  by (simp add: carries_def op_action_def op_allowed_def)

lemma unrouted:
  "carries d scope act \<Longrightarrow> routes (cn_txn_shards st) act (cn_txn_shards st) \<Longrightarrow>
   carries d scope act \<and> (\<exists>router. st = st\<lparr>cn_txn_shards := router\<rparr> \<and> routes (cn_txn_shards st) act router)"
  by (intro conjI exI [of _ "cn_txn_shards st"]) simp_all

lemma dispatch_op_cases:
  assumes "dispatch_op tp env scope bound sid req st = (act, st')"
  shows "carries (tp_deps tp) scope act \<and>
    (\<exists>router. st' = st\<lparr>cn_txn_shards := router\<rparr> \<and> routes (cn_txn_shards st) act router)"
proof -
  consider "\<not> op_allowed scope req"
    | r where "op_allowed scope req" "req = Rq_TxnBegin r"
    | t where "op_allowed scope req" "req = Rq_TxnCommit t \<or> req = Rq_TxnAbort t"
    | "op_allowed scope req" "\<forall>r. req \<noteq> Rq_TxnBegin r" "\<forall>t. req \<noteq> Rq_TxnCommit t \<and> req \<noteq> Rq_TxnAbort t"
    by blast
  then show ?thesis
  proof cases
    case 1
    from dispatch_op_denied [OF 1, of tp env bound sid st] assms obtain o1
      where "act = Act_Inline o1" "st' = st" by auto
    then show ?thesis using unrouted [of _ _ act st] by (simp add: routes_idle)
  next
    case 2
    with assms dispatch_op_begin [of scope r tp env bound sid st] show ?thesis
      by (auto simp: carries_op_action routes_begun routes_refused split: prod.splits)
  next
    case 3
    have e: "act = op_action scope sid req st
        (case router_route t (cn_txn_shards st) of Some shard \<Rightarrow> shard | None \<Rightarrow> op_target tp env bound req)" "st' = st"
      using dispatch_op_end [OF 3, of tp env bound sid st] assms by simp_all
    show ?thesis unfolding e by (intro unrouted carries_op_action routes_ended 3)
  next
    case 4
    have e: "act = op_action scope sid req st (op_target tp env bound req)" "st' = st"
      using dispatch_op_other [OF 4, of tp env bound sid st] assms by simp_all
    show ?thesis unfolding e by (intro unrouted carries_op_action routes_other 4)
  qed
qed

lemma dispatch_request_cases:
  assumes "dispatch_request tp env scope bound sid req st = (act, st')"
  shows "carries (tp_deps tp) scope act \<and>
    (\<exists>router. st' = st\<lparr>cn_txn_shards := router\<rparr> \<and> routes (cn_txn_shards st) act router)"
proof -
  consider r where "req = Rq_Subscribe r" | t where "req = Rq_Unsubscribe t" | c where "req = Rq_CancelStream c"
    | "dispatch_request tp env scope bound sid req st = dispatch_op tp env scope bound sid req st"
    by (cases req) (auto simp: dispatch_request_def)
  then show ?thesis
  proof cases
    case 1
    then have "act = dispatch_subscribe tp env scope bound sid r" "st' = st"
      using assms by (simp_all add: dispatch_request_def)
    moreover have "routes (cn_txn_shards st) (dispatch_subscribe tp env scope bound sid r) (cn_txn_shards st)"
      by (rule routes_idle) (simp add: dispatch_subscribe_def Let_def split: option.split sum.split prod.split)
    ultimately show ?thesis using unrouted dispatch_subscribe_carries by blast
  next
    case 2
    with assms have "act = Act_CancelSubscribe (CancelUnsubscribe sid t)" "st' = st"
      by (simp_all add: dispatch_request_def)
    then show ?thesis using unrouted [of "tp_deps tp" scope act st] by (simp add: routes_idle carries_def)
  next
    case 3
    with assms have "act = Act_CancelSubscribe (CancelStream sid c)" "st' = st"
      by (simp_all add: dispatch_request_def)
    then show ?thesis using unrouted [of "tp_deps tp" scope act st] by (simp add: routes_idle carries_def)
  next
    case 4
    with assms dispatch_op_cases [of tp env scope bound sid req st act st'] show ?thesis by simp
  qed
qed

definition authenticates :: "topology \<Rightarrow> net_env \<Rightarrow> frame \<Rightarrow> request_scope \<Rightarrow> bool" where
  "authenticates tp env f scope \<longleftrightarrow>
     opcode_from_u16 (opcode_u16 (fr_header f)) = Inr (Op_Connection O_Auth) \<and>
     (case from_cbor_bytes (rd_auth (tp_readers tp)) (fr_payload f) of
        Inl e \<Rightarrow> False
      | Inr auth \<Rightarrow> derive_scope_from_handshake (tp_deps tp) (ne_store_ok env) auth (ne_db env) = Inr scope)"

definition key_seen_active :: "net_env \<Rightarrow> request_scope \<Rightarrow> bool" where
  "key_seen_active env scope \<longleftrightarrow> is_key_active (ne_store_ok env) (rs_key_hash scope) (ne_db env) = Inr True"

text \<open>The five ways a frame can move a connection.\<close>

inductive moves :: "topology \<Rightarrow> net_env \<Rightarrow> frame \<Rightarrow> conn_state \<Rightarrow> action \<Rightarrow> conn_state \<Rightarrow> bool" for tp env f where
  stays: "\<not> serves act \<Longrightarrow> act \<noteq> Act_Panic \<Longrightarrow> moves tp env f st act st"
| greets: "cn_phase st = AwaitingHello \<Longrightarrow>
    moves tp env f st (Act_Inline o1)
      (st\<lparr>cn_connection_id := ne_uuid env, cn_negotiated_version := v, cn_phase := AwaitingAuth\<rparr>)"
| logs_in: "cn_phase st = AwaitingAuth \<Longrightarrow> authenticates tp env f scope \<Longrightarrow>
    moves tp env f st (Act_Inline o1)
      (st\<lparr>cn_phase := Established (rs_space_id scope)
            (shard_for_space (tp_deps tp) (ne_routing env) (rs_space_id scope)) (to_space_permissions scope) scope,
          cn_last_revocation_check := ne_instant env\<rparr>)"
| expires: "cn_phase st = Established space bound perms scope \<Longrightarrow>
    moves tp env f st (Act_CloseWith o1) (st\<lparr>cn_last_revocation_check := ne_instant env\<rparr>)"
| works: "cn_phase st = Established space bound perms scope \<Longrightarrow> carries (tp_deps tp) scope act \<Longrightarrow>
    (checked = cn_last_revocation_check st \<and> ne_instant env - checked < REVOCATION_RECHECK_WINDOW) \<or>
      (checked = ne_instant env \<and> key_seen_active env scope) \<Longrightarrow>
    routes (cn_txn_shards st) act router \<Longrightarrow>
    moves tp env f st act (st\<lparr>cn_last_revocation_check := checked, cn_txn_shards := router\<rparr>)"

lemma stays_inline: "moves tp env f st (Act_Inline o1) st"
  by (rule stays) (simp_all add: serves_def)

lemma stays_close: "moves tp env f st (Act_CloseWith o1) st"
  by (rule stays) (simp_all add: serves_def)

lemma on_hello_moves:
  assumes "on_hello tp env pl st = (act, st')"
  shows "moves tp env f st act st'"
  using assms
  by (auto simp: on_hello_def intro: stays_close greets split: if_splits sum.splits)

lemma on_auth_moves:
  assumes "on_auth tp env (fr_payload f) st = (act, st')"
    and "opcode_from_u16 (opcode_u16 (fr_header f)) = Inr (Op_Connection O_Auth)"
  shows "moves tp env f st act st'"
proof (cases "\<exists>auth scope. cn_phase st = AwaitingAuth \<and>
    from_cbor_bytes (rd_auth (tp_readers tp)) (fr_payload f) = Inr auth \<and>
    list_ex (\<lambda>m. m = ap_method auth) (sf_auth_methods (sc_server_features (tp_caps tp))) \<and>
    derive_scope_from_handshake (tp_deps tp) (ne_store_ok env) auth (ne_db env) = Inr scope")
  case True
  then obtain auth scope where a: "cn_phase st = AwaitingAuth"
    "from_cbor_bytes (rd_auth (tp_readers tp)) (fr_payload f) = Inr auth"
    "list_ex (\<lambda>m. m = ap_method auth) (sf_auth_methods (sc_server_features (tp_caps tp)))"
    "derive_scope_from_handshake (tp_deps tp) (ne_store_ok env) auth (ne_db env) = Inr scope" by blast
  then have "authenticates tp env f scope" by (simp add: authenticates_def assms(2))
  with a assms(1) show ?thesis by (auto simp: on_auth_def Let_def intro: logs_in)
next
  case False
  with assms(1) show ?thesis
    by (auto simp: on_auth_def Let_def intro: stays_close split: if_splits sum.splits)
qed

lemma on_ping_moves: "moves tp env f st (on_ping tp env sid pl) st"
proof (cases "request_decode (tp_readers tp) (Op_Connection O_Ping) pl")
  case (Inl e)
  then show ?thesis by (simp add: on_ping_def stays_inline)
next
  case (Inr req)
  then obtain t where "req = Rq_Ping t"
    by (auto simp: request_decode_def map_sum_Inr)
  with Inr show ?thesis by (simp add: on_ping_def stays_inline)
qed

lemma dispatch_established_moves:
  assumes "dispatch_established tp env op sid pl st = (act, st')"
  shows "moves tp env f st act st'"
proof (cases "cn_phase st")
  case (Established space bound perms scope)
  define stop st1 where "stop = fst (enforce_live_revocation env scope sid st)"
    and "st1 = snd (enforce_live_revocation env scope sid st)"
  show ?thesis
  proof (cases stop)
    case (Some a)
    then have "act = a" "st' = st1"
      using assms Established by (simp_all add: dispatch_established_def stop_def st1_def split: prod.splits)
    moreover have "\<exists>o1. a = Act_CloseWith o1 \<and> st1 = st\<lparr>cn_last_revocation_check := ne_instant env\<rparr>"
      using Some by (auto simp: stop_def st1_def enforce_live_revocation_def Let_def
        split: if_splits sum.splits bool.splits)
    ultimately show ?thesis using expires [OF Established] by blast
  next
    case None
    obtain checked where st1: "st1 = st\<lparr>cn_last_revocation_check := checked\<rparr>"
      and fresh: "(checked = cn_last_revocation_check st \<and> ne_instant env - checked < REVOCATION_RECHECK_WINDOW) \<or>
        (checked = ne_instant env \<and> key_seen_active env scope)"
    proof (cases "ne_instant env - cn_last_revocation_check st < REVOCATION_RECHECK_WINDOW")
      case True
      then have "st1 = st\<lparr>cn_last_revocation_check := cn_last_revocation_check st\<rparr>"
        by (simp add: st1_def enforce_live_revocation_def)
      with True that show ?thesis by blast
    next
      case False
      with None have "st1 = st\<lparr>cn_last_revocation_check := ne_instant env\<rparr>" "key_seen_active env scope"
        by (auto simp: stop_def st1_def enforce_live_revocation_def key_seen_active_def Let_def
          split: sum.splits bool.splits)
      with that show ?thesis by blast
    qed
    have disp: "(act, st') = (if \<not> is_request op
        then (Act_Inline (error_frame sid (Ec_Protocol E_BadOpcode) ''client sent a response-opcode frame''), st1)
        else (case request_decode (tp_readers tp) op pl of
           Inl e \<Rightarrow> (Act_Inline (error_frame sid (protocol_error_code e) (tp_show_error tp e)), st1)
         | Inr req \<Rightarrow> dispatch_request tp env scope bound sid req st1))"
    proof -
      have e: "enforce_live_revocation env scope sid st = (None, st1)"
        using None by (simp add: stop_def st1_def prod_eq_iff)
      show ?thesis
        using assms unfolding dispatch_established_def Established conn_phase.case e prod.case option.case
        by (rule sym)
    qed
    have "carries (tp_deps tp) scope act \<and>
      (\<exists>router. st' = st1\<lparr>cn_txn_shards := router\<rparr> \<and> routes (cn_txn_shards st1) act router)"
    proof (cases "\<exists>req. is_request op \<and> request_decode (tp_readers tp) op pl = Inr req")
      case True
      with disp dispatch_request_cases [of tp env scope bound sid _ st1 act st'] show ?thesis by auto
    next
      case False
      with disp have "\<exists>o1. act = Act_Inline o1" "st' = st1" by (auto split: if_splits sum.splits)
      then show ?thesis using unrouted [of "tp_deps tp" scope act st1] by (auto simp: routes_idle)
    qed
    then show ?thesis using works [OF Established _ fresh] by (auto simp: st1)
  qed
qed (use assms in \<open>auto simp: dispatch_established_def intro: stays_inline\<close>)

lemma moves_if:
  "(c \<Longrightarrow> moves tp env f st (fst r) (snd r)) \<Longrightarrow> (\<not> c \<Longrightarrow> moves tp env f st (fst r') (snd r')) \<Longrightarrow>
   moves tp env f st (fst (if c then r else r')) (snd (if c then r else r'))"
  by simp

lemma dispatch_frame_moves:
  assumes "dispatch_frame tp env f st = (act, st')"
  shows "moves tp env f st act st'"
proof (cases "opcode_from_u16 (opcode_u16 (fr_header f))")
  case (Inl e)
  with assms show ?thesis by (auto simp: dispatch_frame_def Let_def intro: stays_inline)
next
  case (Inr op)
  have quiet: "moves tp env f st Act_Nothing st" by (rule stays) (simp_all add: serves_def)
  have "moves tp env f st (fst (dispatch_frame tp env f st)) (snd (dispatch_frame tp env f st))"
    unfolding dispatch_frame_def Let_def Inr sum.case on_bye_def
    by (intro moves_if)
      (simp_all add: Inr stays_inline stays_close quiet on_ping_moves on_hello_moves [OF prod.collapse [symmetric]]
        on_auth_moves [OF prod.collapse [symmetric]] dispatch_established_moves [OF prod.collapse [symmetric]])
  with assms show ?thesis by simp
qed

inductive_cases movesE: "moves tp env f st act st'"

section \<open>Invariants of a connection\<close>

fun frames_in :: "(conn_event \<times> action option) list \<Rightarrow> (net_env \<times> frame) list" where
  "frames_in [] = []"
| "frames_in ((FrameIn env f, act) # tr) = (env, f) # frames_in tr"
| "frames_in ((OutcomeIn out, act) # tr) = frames_in tr"

lemma frames_in_append [simp]: "frames_in (tr @ tr') = frames_in tr @ frames_in tr'"
  by (induction tr rule: frames_in.induct) simp_all

lemma latch_simps [simp]:
  "cn_phase (latch_opened_txn act st) = cn_phase st"
  "cn_last_revocation_check (latch_opened_txn act st) = cn_last_revocation_check st"
  "cn_txn_shards (latch_opened_txn act st) = cn_txn_shards st"
  by (simp_all add: latch_opened_txn_def split: action.split request_body.split)

text \<open>An established connection was authenticated by one of its frames, and while it is open the time of
  its last check is that of a frame at which the key was resolved or seen active.\<close>

definition authorized_by :: "topology \<Rightarrow> (net_env \<times> frame) list \<Rightarrow> request_scope \<Rightarrow> bool" where
  "authorized_by tp fs scope \<longleftrightarrow> list_ex (\<lambda>(env, f). authenticates tp env f scope) fs"

definition checked_by :: "topology \<Rightarrow> (net_env \<times> frame) list \<Rightarrow> request_scope \<Rightarrow> nat \<Rightarrow> bool" where
  "checked_by tp fs scope t \<longleftrightarrow>
     list_ex (\<lambda>(env, f). ne_instant env = t \<and> (authenticates tp env f scope \<or> key_seen_active env scope)) fs"

lemma checked_by_append: "checked_by tp fs scope t \<Longrightarrow> checked_by tp (fs @ gs) scope t"
  by (simp add: checked_by_def)

definition session_inv :: "topology \<Rightarrow> (net_env \<times> frame) list \<Rightarrow> bool \<Rightarrow> conn_state \<Rightarrow> bool" where
  "session_inv tp fs live st \<longleftrightarrow>
     (case cn_phase st of
        Established space bound perms scope \<Rightarrow>
          authorized_by tp fs scope \<and> (live \<longrightarrow> checked_by tp fs scope (cn_last_revocation_check st))
      | _ \<Rightarrow> True)"

lemma session_inv_unaffected:
  "session_inv tp fs live (latch_opened_txn act st) = session_inv tp fs live st"
  "session_inv tp fs live (st\<lparr>cn_txn_shards := router\<rparr>) = session_inv tp fs live st"
  by (simp_all add: session_inv_def split: conn_phase.split)

lemma moves_session_inv:
  assumes "moves tp env f st act st'" and "session_inv tp fs True st"
  shows "session_inv tp (fs @ [(env, f)]) (\<not> ends (Some act)) st'"
  using assms(1)
proof cases
  case stays
  with assms(2) show ?thesis
    by (auto simp: session_inv_def authorized_by_def checked_by_append split: conn_phase.splits)
next
  case (greets o1 v)
  then show ?thesis by (simp add: session_inv_def)
next
  case (logs_in scope o1)
  then show ?thesis by (simp add: session_inv_def authorized_by_def checked_by_def)
next
  case (expires space bound perms scope o1)
  with assms(2) show ?thesis by (simp add: session_inv_def authorized_by_def)
next
  case (works space bound perms scope checked router)
  then have "authorized_by tp fs scope" "checked_by tp fs scope (cn_last_revocation_check st)"
    using assms(2) by (simp_all add: session_inv_def)
  with works show ?thesis by (auto simp: session_inv_def authorized_by_def checked_by_def)
qed

lemma conn_steps_inv:
  assumes "conn_steps tp st0 tr st" and "st0 = conn_new t0"
  shows "session_inv tp (frames_in tr) (\<not> closed tr) st"
  using assms
proof (induction rule: conn_steps.induct)
  case (no_steps st)
  then show ?case by (simp add: session_inv_def conn_new_def)
next
  case (more_steps st tr st' ev act st'')
  from more_steps have inv: "session_inv tp (frames_in tr) True st'" by simp
  from more_steps(3) show ?case
  proof cases
    case (frame_in env f act' st1)
    from moves_session_inv [OF dispatch_frame_moves [OF frame_in(4)] inv] frame_in more_steps.hyps(2)
    show ?thesis by (simp add: session_inv_unaffected)
  next
    case (outcome_in out)
    with inv more_steps.hyps(2) show ?thesis by (simp add: session_inv_unaffected)
  qed
qed

text \<open>Transaction affinity: the route of an open transaction survives every step that neither begins it
  again nor reports its outcome.\<close>

fun touches :: "txn_id \<Rightarrow> conn_event \<times> action option \<Rightarrow> bool" where
  "touches txn (OutcomeIn out, act) = (out_txn_id out = txn)"
| "touches txn (FrameIn env f, Some act) = begins txn act"
| "touches txn (FrameIn env f, None) = False"

lemma moves_routes:
  assumes "moves tp env f st act st'"
  shows "routes (cn_txn_shards st) act (cn_txn_shards st')"
  using assms
  by cases (auto intro!: routes_idle simp: serves_def split: action.splits)

lemma conn_steps_route:
  assumes "conn_steps tp st tr st'" and "\<not> list_ex (touches txn) tr"
  shows "map_of (tr_active (cn_txn_shards st')) txn = map_of (tr_active (cn_txn_shards st)) txn"
  using assms
proof (induction rule: conn_steps.induct)
  case (more_steps st tr st' ev act st'')
  from more_steps(3) have "map_of (tr_active (cn_txn_shards st'')) txn = map_of (tr_active (cn_txn_shards st')) txn"
  proof cases
    case (frame_in env f act' st1)
    from moves_routes [OF dispatch_frame_moves [OF frame_in(4)]] frame_in more_steps.prems
    show ?thesis by (simp add: routes_def)
  next
    case (outcome_in out)
    with more_steps.prems router_apply_active [of txn "Outcome out" "cn_txn_shards st'"] show ?thesis by simp
  qed
  with more_steps show ?case by simp
qed simp

section \<open>The key store over time\<close>

text \<open>The store at a time is what the logged operations up to then have made of an empty one.\<close>

definition store_at :: "net_deps \<Rightarrow> (nat \<times> key_op) list \<Rightarrow> nat \<Rightarrow> api_key_db" where
  "store_at d log t = key_run d (map snd (filter (\<lambda>e. fst e \<le> t) log)) empty_key_db"

definition reads_store :: "net_deps \<Rightarrow> (nat \<times> key_op) list \<Rightarrow> net_env \<Rightarrow> bool" where
  "reads_store d log env \<longleftrightarrow> ne_db env = store_at d log (ne_instant env)"

lemma key_run_append: "key_run d (ops @ ops') db = key_run d ops' (key_run d ops db)"
  by (simp add: key_run_def)

lemma store_at_later:
  assumes "sorted (map fst log)" and "t \<le> t'"
  shows "\<exists>ops. store_at d log t' = key_run d ops (store_at d log t)"
proof -
  have "\<exists>es. filter (\<lambda>e. fst e \<le> t') log = filter (\<lambda>e. fst e \<le> t) log @ es"
    using assms(1)
  proof (induction log)
    case (Cons e log)
    show ?case
    proof (cases "fst e \<le> t")
      case True
      with Cons assms(2) show ?thesis by auto
    next
      case False
      with Cons.prems have "filter (\<lambda>e. fst e \<le> t) (e # log) = []" by (fastforce simp: filter_empty_conv)
      then show ?thesis by (metis append_Nil)
    qed
  qed simp
  then show ?thesis by (metis key_run_append map_append store_at_def)
qed

lemma key_apply_hashed:
  assumes "\<forall>kh row. db_keys db kh = Some row \<longrightarrow> ak_key_hash row = kh"
  shows "\<forall>kh row. db_keys (key_apply d op db) kh = Some row \<longrightarrow> ak_key_hash row = kh"
  using assms
  by (cases op) (auto simp: key_ops_def api_key_row_new_def split: option.splits)

lemma store_at_hashed:
  assumes "db_keys (store_at d log t) kh = Some row"
  shows "ak_key_hash row = kh"
proof -
  have "\<forall>kh row. db_keys db kh = Some row \<longrightarrow> ak_key_hash row = kh \<Longrightarrow>
      \<forall>kh row. db_keys (key_run d ops db) kh = Some row \<longrightarrow> ak_key_hash row = kh" for ops db
  proof (induction ops arbitrary: db)
    case (Cons op ops)
    from Cons.IH [OF key_apply_hashed [OF Cons.prems]] show ?case by (simp add: key_run_def)
  qed (simp add: key_run_def)
  from this [of empty_key_db] assms show ?thesis by (simp add: store_at_def empty_key_db_def)
qed

lemma authenticates_seen_active:
  assumes "authenticates tp env f scope" and "reads_store d log env"
  shows "key_seen_active env scope"
proof -
  obtain auth where "derive_scope_from_handshake (tp_deps tp) (ne_store_ok env) auth (ne_db env) = Inr scope"
    using assms(1) by (auto simp: authenticates_def split: sum.splits)
  then obtain kh row where "ne_store_ok env" "db_keys (ne_db env) kh = Some row" "\<not> ak_revoked row"
    "scope = scope_of_row row"
    by (rule derive_scope_Inr)
  moreover from this have "ak_key_hash row = kh"
    using assms(2) store_at_hashed by (simp add: reads_store_def)
  ultimately show ?thesis
    by (simp add: key_seen_active_def is_key_active_def api_key_lookup_by_hash_def scope_of_row_def)
qed

lemma revoked_not_seen_active:
  assumes "sorted (map fst log)" and "reads_store d log env"
    and "db_keys (store_at d log t) (rs_key_hash scope) = Some row" and "ak_revoked row"
    and "t \<le> ne_instant env"
  shows "\<not> key_seen_active env scope"
proof -
  obtain ops where "store_at d log (ne_instant env) = key_run d ops (store_at d log t)"
    using store_at_later [OF assms(1,5)] by blast
  with key_run_row [OF assms(3), of d ops] assms(2,4) show ?thesis
    by (auto simp: key_seen_active_def is_key_active_def api_key_lookup_by_hash_def reads_store_def split: if_splits)
qed

section \<open>Handshake and sample connections\<close>

definition announces :: "frame \<Rightarrow> opcode \<Rightarrow> u32 \<Rightarrow> bool" where
  "announces f op sid \<longleftrightarrow>
     opcode_from_u16 (opcode_u16 (fr_header f)) = Inr op \<and> stream_id_u32 (fr_header f) = sid"

lemma hello_accepted:
  assumes "announces f (Op_Connection O_Hello) 0" and "cn_phase st = AwaitingHello"
    and "from_cbor_bytes (rd_hello (tp_readers tp)) (fr_payload f) = Inr hello"
    and "negotiate hello (tp_caps tp) = Inr s"
  shows "dispatch_frame tp env f st =
    (Act_Inline (Response 0 True (Rsp_Welcome
       \<lparr>wp_server_id = sc_server_id (tp_caps tp), wp_chosen_version = ns_chosen_version s,
        wp_connection_id = ne_uuid env, wp_capabilities = ns_capabilities s,
        wp_server_features = sc_server_features (tp_caps tp)\<rparr>)),
     st\<lparr>cn_connection_id := ne_uuid env, cn_negotiated_version := ns_chosen_version s, cn_phase := AwaitingAuth\<rparr>)"
  using assms by (simp add: dispatch_frame_def announces_def on_hello_def is_connection_level_def)

lemma auth_accepted:
  assumes "announces f (Op_Connection O_Auth) 0" and "cn_phase st = AwaitingAuth"
    and "from_cbor_bytes (rd_auth (tp_readers tp)) (fr_payload f) = Inr auth"
    and "ap_method auth \<in> set (sf_auth_methods (sc_server_features (tp_caps tp)))"
    and "derive_scope_from_handshake (tp_deps tp) (ne_store_ok env) auth (ne_db env) = Inr scope"
  shows "dispatch_frame tp env f st =
    (Act_Inline (Response 0 True (Rsp_AuthOk
       \<lparr>ao_space_id = rs_space_id scope,
        ao_bound_shard_id = shard_for_space (tp_deps tp) (ne_routing env) (rs_space_id scope),
        ao_permissions = to_space_permissions scope, ao_namespace = rs_namespace scope,
        ao_server_time_unix_nanos = ne_unix_nanos env\<rparr>)),
     st\<lparr>cn_phase := Established (rs_space_id scope)
           (shard_for_space (tp_deps tp) (ne_routing env) (rs_space_id scope)) (to_space_permissions scope) scope,
         cn_last_revocation_check := ne_instant env\<rparr>)"
  using assms
  by (simp add: dispatch_frame_def announces_def on_auth_def is_connection_level_def list_ex_iff Let_def)

definition sample_frame :: "opcode \<Rightarrow> u32 \<Rightarrow> bytes \<Rightarrow> frame" where
  "sample_frame op sid payload =
     \<lparr>fr_header = \<lparr>fh_magic = FRAME_MAGIC, fh_version = WIRE_VERSION, fh_opcode = be_bytes 2 (opcode_as_u16 op),
        fh_flags = 0, fh_header_crc32c = [0, 0, 0, 0], fh_stream_id = be_bytes 4 sid, fh_payload_len = [0, 0, 0],
        fh_reserved_a = 0, fh_payload_crc32c = [0, 0, 0, 0], fh_reserved_b = replicate 8 0\<rparr>,
      fr_payload = payload\<rparr>"

definition sample_topology :: topology where
  "sample_topology =
     \<lparr>tp_deps = sample_deps, tp_readers = accepting_readers, tp_show_error = (\<lambda>e. []),
      tp_show_auth_error = (\<lambda>e. []), tp_caps = v1_default [] [AuthToken]\<rparr>"

definition sample_log :: "(nat \<times> key_op) list" where
  "sample_log = [(1, KMint True [1, 2] [3] [4] [9] [7] 15 [] 0), (10, KRevoke True [1, 2])]"

definition sample_env :: "nat \<Rightarrow> net_env" where
  "sample_env t =
     \<lparr>ne_instant = t, ne_unix_nanos = of_nat t, ne_uuid = [5], ne_store_ok = True,
      ne_db = store_at sample_deps sample_log t,
      ne_routing = \<lparr>rt_shard_count = 4, rt_overrides = [([7], 3)]\<rparr>\<rparr>"

definition sample_scope :: request_scope where
  "sample_scope =
     \<lparr>rs_space_id = [7], rs_org_id = [3], rs_user_id = [4], rs_namespace = [9], rs_permissions = 15,
      rs_may_act = [], rs_key_hash = [1, 2]\<rparr>"

lemma sample_frame_simps [simp]:
  "announces (sample_frame op sid payload) op sid" "fr_payload (sample_frame op sid payload) = payload"
  by (simp_all add: announces_def sample_frame_def opcode_u16_def stream_id_u32_def opcode_from_u16_iff)

lemma sample_row:
  "2 \<le> t \<Longrightarrow> \<exists>row. db_keys (store_at sample_deps sample_log t) [1, 2] = Some row \<and>
     ak_revoked row = (10 \<le> t) \<and> scope_of_row row = sample_scope"
  by (simp add: store_at_def sample_log_def key_run_def key_ops_def empty_key_db_def sample_deps_def hash_secret_def
    api_key_row_new_def scope_of_row_def sample_scope_def)

lemma sample_auth:
  assumes "2 \<le> t" and "t < 10"
  shows "derive_scope_from_handshake sample_deps True \<lparr>ap_method = AuthToken, ap_credentials = TokenCredential [1, 2]\<rparr>
    (store_at sample_deps sample_log t) = Inr sample_scope"
proof -
  have "hash_secret sample_deps (presented_secret sample_deps [1, 2]) = [1, 2]"
    by (simp add: hash_secret_def presented_secret_def parse_formatted_key_def KEY_PREFIX_def sample_deps_def)
  moreover obtain row where "db_keys (store_at sample_deps sample_log t) [1, 2] = Some row"
    "\<not> ak_revoked row" "scope_of_row row = sample_scope"
    using sample_row [of t] assms by auto
  ultimately show ?thesis by (simp add: derive_scope_lookup)
qed

text \<open>A connection that greets at time 2 and logs in at time 3.\<close>

definition sample_state :: conn_state where
  "sample_state =
     \<lparr>cn_phase = Established [7] 3 (to_space_permissions sample_scope) sample_scope, cn_connection_id = [5],
      cn_negotiated_version = 1, cn_last_revocation_check = 3, cn_opened_txn = False, cn_txn_shards = router_new\<rparr>"

definition sample_hello :: frame where
  "sample_hello = sample_frame (Op_Connection O_Hello) 0 [1]"

definition sample_login :: frame where
  "sample_login = sample_frame (Op_Connection O_Auth) 0 [1, 2]"

lemma sample_greets:
  "\<exists>o1. dispatch_frame sample_topology (sample_env 2) sample_hello (conn_new 0) =
    (Act_Inline o1, (conn_new 0)\<lparr>cn_connection_id := [5], cn_negotiated_version := 1, cn_phase := AwaitingAuth\<rparr>)"
proof -
  obtain hello where h: "from_cbor_bytes (rd_hello (tp_readers sample_topology)) (fr_payload sample_hello) = Inr hello"
    "hp_supported_versions hello = [1]"
    by (simp add: from_cbor_bytes_def sample_topology_def accepting_readers_def)
  moreover obtain s where "negotiate hello (tp_caps sample_topology) = Inr s" "ns_chosen_version s = 1"
    using h(2) by (simp add: negotiate_def sample_topology_def v1_default_def WIRE_VERSION_def)
  moreover have "announces sample_hello (Op_Connection O_Hello) 0" by (simp add: sample_hello_def)
  ultimately show ?thesis
    using hello_accepted [of sample_hello "conn_new 0" sample_topology hello s "sample_env 2"]
    by (simp add: conn_new_def sample_env_def)
qed

lemma sample_logs_in:
  "\<exists>o1. dispatch_frame sample_topology (sample_env 3) sample_login
      ((conn_new 0)\<lparr>cn_connection_id := [5], cn_negotiated_version := 1, cn_phase := AwaitingAuth\<rparr>) =
    (Act_Inline o1, sample_state)"
proof -
  let ?st = "(conn_new 0)\<lparr>cn_connection_id := [5], cn_negotiated_version := 1, cn_phase := AwaitingAuth\<rparr>"
  let ?auth = "\<lparr>ap_method = AuthToken, ap_credentials = TokenCredential [1, 2]\<rparr>"
  have "from_cbor_bytes (rd_auth (tp_readers sample_topology)) (fr_payload sample_login) = Inr ?auth"
    by (simp add: from_cbor_bytes_def sample_topology_def accepting_readers_def sample_login_def)
  moreover have "derive_scope_from_handshake (tp_deps sample_topology) (ne_store_ok (sample_env 3)) ?auth
      (ne_db (sample_env 3)) = Inr sample_scope"
    using sample_auth [of 3] by (simp add: sample_topology_def sample_env_def)
  moreover have "ap_method ?auth \<in> set (sf_auth_methods (sc_server_features (tp_caps sample_topology)))"
    by (simp add: sample_topology_def v1_default_def)
  moreover have "announces sample_login (Op_Connection O_Auth) 0" by (simp add: sample_login_def)
  moreover have "shard_for_space (tp_deps sample_topology) (ne_routing (sample_env 3)) (rs_space_id sample_scope) = 3"
    "rs_space_id sample_scope = [7]" "ne_instant (sample_env 3) = 3"
    by (simp_all add: shard_for_space_def sample_env_def sample_scope_def)
  ultimately show ?thesis
    using auth_accepted [of sample_login ?st sample_topology ?auth "sample_env 3" sample_scope]
    by (simp add: conn_new_def sample_state_def)
qed

lemma sample_session:
  "\<exists>tr. conn_steps sample_topology (conn_new 0) tr sample_state \<and> \<not> closed tr \<and>
     frames_in tr = [(sample_env 2, sample_hello), (sample_env 3, sample_login)]"
proof -
  obtain o1 o2 where d: "dispatch_frame sample_topology (sample_env 2) sample_hello (conn_new 0) =
      (Act_Inline o1, (conn_new 0)\<lparr>cn_connection_id := [5], cn_negotiated_version := 1, cn_phase := AwaitingAuth\<rparr>)"
    "dispatch_frame sample_topology (sample_env 3) sample_login
      ((conn_new 0)\<lparr>cn_connection_id := [5], cn_negotiated_version := 1, cn_phase := AwaitingAuth\<rparr>) =
    (Act_Inline o2, sample_state)"
    using sample_greets sample_logs_in by blast
  let ?tr = "[(FrameIn (sample_env 2) sample_hello, Some (Act_Inline o1))]"
  have inline: "latch_opened_txn (Act_Inline o3) st = st" for o3 st by (simp add: latch_opened_txn_def)
  from more_steps [OF no_steps _ frame_in [OF d(1)]]
  have "conn_steps sample_topology (conn_new 0) ?tr
      ((conn_new 0)\<lparr>cn_connection_id := [5], cn_negotiated_version := 1, cn_phase := AwaitingAuth\<rparr>)"
    by (simp add: inline)
  from more_steps [OF this _ frame_in [OF d(2)]] closed_simps(2) [of "[]" "FrameIn (sample_env 2) sample_hello" "Some (Act_Inline o1)"]
  have "conn_steps sample_topology (conn_new 0)
      (?tr @ [(FrameIn (sample_env 3) sample_login, Some (Act_Inline o2))]) sample_state"
    by (simp add: inline)
  then show ?thesis
    by (intro exI conjI) (assumption, simp_all add: closed_def)
qed

text \<open>Frames of transactions on the established sample connection.\<close>

lemma sample_working:
  assumes "cn_phase st = cn_phase sample_state" and "cn_last_revocation_check st = 3" and "t \<le> 9"
    and "op = Op_Transaction O_TxnBegin \<or> op = Op_Transaction O_TxnCommit"
  shows "dispatch_frame sample_topology (sample_env t) (sample_frame op 1 payload) st =
    (case request_decode (tp_readers sample_topology) op payload of
       Inl e \<Rightarrow> (Act_Inline (error_frame 1 (protocol_error_code e) (tp_show_error sample_topology e)), st)
     | Inr req \<Rightarrow> dispatch_request sample_topology (sample_env t) sample_scope 3 1 req st)"
proof -
  have an: "opcode_from_u16 (opcode_u16 (fr_header (sample_frame op 1 payload))) = Inr op"
    "stream_id_u32 (fr_header (sample_frame op 1 payload)) = 1"
    using sample_frame_simps(1) [of op 1 payload] by (simp_all add: announces_def)
  have "t - 3 < REVOCATION_RECHECK_WINDOW" using assms(3) by (simp add: REVOCATION_RECHECK_WINDOW_def)
  then have "enforce_live_revocation (sample_env t) sample_scope 1 st = (None, st)"
    using assms(2) by (simp add: enforce_live_revocation_def sample_env_def)
  moreover have "is_request op"
    using assms(4) by (auto simp: is_request_def opcode_low_byte_def)
  ultimately have "dispatch_established sample_topology (sample_env t) op 1 payload st =
    (case request_decode (tp_readers sample_topology) op payload of
       Inl e \<Rightarrow> (Act_Inline (error_frame 1 (protocol_error_code e) (tp_show_error sample_topology e)), st)
     | Inr req \<Rightarrow> dispatch_request sample_topology (sample_env t) sample_scope 3 1 req st)"
    using assms(1) by (simp add: dispatch_established_def sample_state_def)
  then show ?thesis
    using assms(4) by (auto simp: dispatch_frame_def an is_connection_level_def)
qed

definition sample_begin :: frame where
  "sample_begin = sample_frame (Op_Transaction O_TxnBegin) 1 [8]"

definition sample_commit :: frame where
  "sample_commit = sample_frame (Op_Transaction O_TxnCommit) 1 [8]"

definition sample_dispatch :: "request_body \<Rightarrow> op_dispatch" where
  "sample_dispatch req =
     \<lparr>od_stream_id = 1, od_req = req, od_target_shard = 3, od_scope = sample_scope, od_connection_id = [5],
      od_act_as = None\<rparr>"

definition sample_txn :: txn_begin_request where
  "sample_txn = \<lparr>tb_txn_id = [8], tb_timeout_seconds = 5, tb_act_as = None\<rparr>"

definition sample_router :: txn_router where
  "sample_router = \<lparr>tr_active = [([8], 3)], tr_active_order = [[8]], tr_terminated = [], tr_terminated_order = []\<rparr>"

lemma sample_begins:
  "dispatch_frame sample_topology (sample_env 4) sample_begin sample_state =
    (Act_OpDispatch (sample_dispatch (Rq_TxnBegin sample_txn)), sample_state\<lparr>cn_txn_shards := sample_router\<rparr>)"
proof -
  have "request_decode (tp_readers sample_topology) (Op_Transaction O_TxnBegin) [8] = Inr (Rq_TxnBegin sample_txn)"
    by (simp add: request_decode_def from_cbor_bytes_def sample_topology_def accepting_readers_def sample_txn_def)
  moreover have "op_allowed sample_scope (Rq_TxnBegin sample_txn)" by (simp add: op_allowed_def sample_txn_def)
  moreover have "op_target sample_topology (sample_env 4) 3 (Rq_TxnBegin sample_txn) = 3"
    by (simp add: op_target_def pick_target_shard_def sample_txn_def)
  moreover have "router_begin [8] 3 router_new = (True, sample_router)"
    by (simp add: router_begin_def router_new_def sample_router_def ACTIVE_TXN_ROUTE_CAP_def)
  ultimately show ?thesis
    using sample_working [of sample_state 4 "Op_Transaction O_TxnBegin" "[8]"]
      dispatch_op_begin [of sample_scope sample_txn sample_topology "sample_env 4" 3 1 sample_state]
    by (simp add: sample_begin_def dispatch_request_def sample_state_def sample_txn_def op_action_def sample_dispatch_def)
qed

lemma sample_commits:
  assumes "cn_phase st = cn_phase sample_state" and "cn_last_revocation_check st = 3"
    and "cn_connection_id st = [5]" and "cn_txn_shards st = sample_router"
  shows "dispatch_frame sample_topology (sample_env 6) sample_commit st =
    (Act_OpDispatch (sample_dispatch (Rq_TxnCommit [8])), st)"
proof -
  have "request_decode (tp_readers sample_topology) (Op_Transaction O_TxnCommit) [8] = Inr (Rq_TxnCommit [8])"
    by (simp add: request_decode_def from_cbor_bytes_def sample_topology_def accepting_readers_def)
  moreover have "op_allowed sample_scope (Rq_TxnCommit [8])" by (simp add: op_allowed_def)
  moreover have "router_route [8] (cn_txn_shards st) = Some 3"
    using assms(4) by (simp add: router_route_def sample_router_def)
  ultimately show ?thesis
    using sample_working [OF assms(1,2), of 6 "Op_Transaction O_TxnCommit" "[8]"]
      dispatch_op_end [of sample_scope "Rq_TxnCommit [8]" "[8]" sample_topology "sample_env 6" 3 1 st]
    by (simp add: sample_commit_def dispatch_request_def assms(3) op_action_def sample_dispatch_def)
qed

section \<open>Properties\<close>



text \<open>C7. A revocation takes effect on open connections within five seconds: when the key of an
  established connection was revoked in the store at least the re-check window before a frame arrives,
  that frame is not served, whatever else happened to the store and on the connection.\<close>

theorem revocation_takes_effect:
  assumes "conn_steps tp (conn_new t0) tr st" and "\<not> closed tr"
    and "cn_phase st = Established space bound perms scope"
    and "sorted (map fst log)" and "list_all (reads_store (tp_deps tp) log \<circ> fst) (frames_in tr @ [(env, f)])"
    and "db_keys (store_at (tp_deps tp) log t) (rs_key_hash scope) = Some row" and "ak_revoked row"
    and "t + REVOCATION_RECHECK_WINDOW \<le> ne_instant env"
  shows "\<not> serves (fst (dispatch_frame tp env f st))"
proof
  assume srv: "serves (fst (dispatch_frame tp env f st))"
  obtain env' f' where chk: "(env', f') \<in> set (frames_in tr)" "ne_instant env' = cn_last_revocation_check st"
    "authenticates tp env' f' scope \<or> key_seen_active env' scope"
    using conn_steps_inv [OF assms(1) refl] assms(2,3) by (auto simp: session_inv_def checked_by_def list_ex_iff)
  have reads: "reads_store (tp_deps tp) log env'" "reads_store (tp_deps tp) log env"
    using assms(5) chk(1) by (auto simp: list_all_iff)
  have "key_seen_active env' scope" using chk(3) authenticates_seen_active [OF _ reads(1)] by blast
  then have "cn_last_revocation_check st < t"
    using revoked_not_seen_active [OF assms(4) reads(1) assms(6,7)] chk(2) by (metis not_le)
  moreover have "\<not> key_seen_active env scope"
    by (rule revoked_not_seen_active [OF assms(4) reads(2) assms(6,7)]) (use assms(8) in linarith)
  moreover obtain act st' where "dispatch_frame tp env f st = (act, st')" and "serves act"
    using srv by (cases "dispatch_frame tp env f st") simp
  ultimately show False
    using assms(3,8) by (auto dest!: dispatch_frame_moves elim!: movesE simp: serves_def)
qed

theorem revocation_takes_effect_witness:
  "\<not> serves (fst (dispatch_frame sample_topology (sample_env (10 + REVOCATION_RECHECK_WINDOW)) sample_begin sample_state))"
proof -
  obtain tr where tr: "conn_steps sample_topology (conn_new 0) tr sample_state" "\<not> closed tr"
    "frames_in tr = [(sample_env 2, sample_hello), (sample_env 3, sample_login)]"
    using sample_session by blast
  let ?env = "sample_env (10 + REVOCATION_RECHECK_WINDOW)"
  have reads: "reads_store (tp_deps sample_topology) sample_log (sample_env t)" for t
    by (simp add: reads_store_def sample_env_def sample_topology_def)
  obtain row where row: "db_keys (store_at sample_deps sample_log 10) [1, 2] = Some row" "ak_revoked row"
    using sample_row [of 10] by auto
  show ?thesis
  proof (rule revocation_takes_effect [OF tr(1,2), of _ _ _ _ sample_log _ _ 10 row])
    show "cn_phase sample_state = Established [7] 3 (to_space_permissions sample_scope) sample_scope"
      by (simp add: sample_state_def)
    show "sorted (map fst sample_log)" by (simp add: sample_log_def)
    show "list_all (reads_store (tp_deps sample_topology) sample_log \<circ> fst) (frames_in tr @ [(?env, sample_begin)])"
      by (simp add: tr(3) reads)
    show "db_keys (store_at (tp_deps sample_topology) sample_log 10) (rs_key_hash sample_scope) = Some row"
      using row(1) by (simp add: sample_topology_def sample_scope_def)
    show "10 + REVOCATION_RECHECK_WINDOW \<le> ne_instant ?env" by (simp add: sample_env_def)
  qed (rule row(2))
qed

text \<open>C27. A transaction ends on the shard it was begun on: after a dispatched TXN_BEGIN, a COMMIT or
  ABORT of that transaction goes to the same shard, whatever frames and outcomes of other transactions
  the connection handled in between and however the routing table changed.\<close>

theorem txn_ends_where_begun:
  assumes "dispatch_frame tp env f st = (Act_OpDispatch od, st1)" and "od_req od = Rq_TxnBegin r"
    and "conn_steps tp (latch_opened_txn (Act_OpDispatch od) st1) tr st2" and "\<not> list_ex (touches (tb_txn_id r)) tr"
    and "dispatch_frame tp env' f' st2 = (Act_OpDispatch od', st3)"
    and "od_req od' = Rq_TxnCommit (tb_txn_id r) \<or> od_req od' = Rq_TxnAbort (tb_txn_id r)"
  shows "od_target_shard od' = od_target_shard od"
proof -
  have "map_of (tr_active (cn_txn_shards st1)) (tb_txn_id r) = Some (od_target_shard od)"
    using moves_routes [OF dispatch_frame_moves [OF assms(1)]] assms(2) by (simp add: routes_def)
  then have "router_route (tb_txn_id r) (cn_txn_shards st2) = Some (od_target_shard od)"
    using conn_steps_route [OF assms(3,4)] by (simp add: router_route_def)
  with moves_routes [OF dispatch_frame_moves [OF assms(5)]] assms(6) show ?thesis
    by (auto simp: routes_def)
qed

theorem txn_ends_where_begun_witness:
  "od_target_shard (sample_dispatch (Rq_TxnCommit [8])) = od_target_shard (sample_dispatch (Rq_TxnBegin sample_txn))"
proof -
  let ?st = "latch_opened_txn (Act_OpDispatch (sample_dispatch (Rq_TxnBegin sample_txn)))
      (sample_state\<lparr>cn_txn_shards := sample_router\<rparr>)"
  let ?out = "\<lparr>out_txn_id = [9], out_kind = BeginRejected\<rparr>"
  have "?st\<lparr>cn_txn_shards := apply_outcome ?out (cn_txn_shards ?st)\<rparr> = ?st"
    by (simp add: apply_outcome_def remove_active_def latch_opened_txn_def sample_dispatch_def sample_router_def)
  then have steps: "conn_steps sample_topology ?st ([] @ [(OutcomeIn ?out, None)]) ?st"
    using more_steps [OF no_steps _ outcome_in, of sample_topology ?st ?out] by simp
  have commit: "dispatch_frame sample_topology (sample_env 6) sample_commit ?st =
      (Act_OpDispatch (sample_dispatch (Rq_TxnCommit [8])), ?st)"
    by (rule sample_commits) (simp_all add: latch_opened_txn_def sample_dispatch_def sample_state_def)
  show ?thesis
    by (rule txn_ends_where_begun [OF sample_begins _ steps _ commit, of sample_txn])
      (simp_all add: sample_dispatch_def sample_txn_def)
qed

text \<open>C28. A proper handshake always completes: a HELLO that offers a common version is answered with
  WELCOME and the highest such version, and an AUTH with a valid key that follows is answered with
  AUTH_OK and establishes the connection for the key's space, on its shard and with its rights.\<close>

theorem handshake_completes:
  assumes "announces fh (Op_Connection O_Hello) 0" and "announces fa (Op_Connection O_Auth) 0"
    and "from_cbor_bytes (rd_hello (tp_readers tp)) (fr_payload fh) = Inr hello"
    and "set (hp_supported_versions hello) \<inter> set (sc_supported_versions (tp_caps tp)) \<noteq> {}"
    and "from_cbor_bytes (rd_auth (tp_readers tp)) (fr_payload fa) = Inr auth"
    and "ap_method auth \<in> set (sf_auth_methods (sc_server_features (tp_caps tp)))"
    and "derive_scope_from_handshake (tp_deps tp) (ne_store_ok env') auth (ne_db env') = Inr scope"
  shows "\<exists>w st1 ok st2.
    dispatch_frame tp env fh (conn_new t0) = (Act_Inline (Response 0 True (Rsp_Welcome w)), st1) \<and>
    dispatch_frame tp env' fa st1 = (Act_Inline (Response 0 True (Rsp_AuthOk ok)), st2) \<and>
    wp_chosen_version w = Max (set (hp_supported_versions hello) \<inter> set (sc_supported_versions (tp_caps tp))) \<and>
    cn_negotiated_version st2 = wp_chosen_version w \<and> ao_space_id ok = rs_space_id scope \<and>
    cn_phase st2 = Established (rs_space_id scope)
      (shard_for_space (tp_deps tp) (ne_routing env') (rs_space_id scope)) (to_space_permissions scope) scope"
proof -
  obtain s where s: "negotiate hello (tp_caps tp) = Inr s" using negotiate_common assms(4) by blast
  have "ns_chosen_version s = Max (set (hp_supported_versions hello) \<inter> set (sc_supported_versions (tp_caps tp)))"
    using negotiate_highest [OF s] by (intro Max_eqI [symmetric]) auto
  moreover have "cn_phase (conn_new t0) = AwaitingHello" by (simp add: conn_new_def)
  note hello_accepted [OF assms(1) this assms(3) s, of env]
  moreover note auth_accepted [OF assms(2) _ assms(5-7),
      of "(conn_new t0)\<lparr>cn_connection_id := ne_uuid env, cn_negotiated_version := ns_chosen_version s, cn_phase := AwaitingAuth\<rparr>"]
  ultimately show ?thesis by simp
qed

theorem handshake_completes_witness:
  "\<exists>w st1 ok st2.
    dispatch_frame sample_topology (sample_env 2) sample_hello (conn_new 0) =
      (Act_Inline (Response 0 True (Rsp_Welcome w)), st1) \<and>
    dispatch_frame sample_topology (sample_env 3) sample_login st1 =
      (Act_Inline (Response 0 True (Rsp_AuthOk ok)), st2) \<and> wp_chosen_version w = 1 \<and> ao_space_id ok = [7]"
proof -
  let ?auth = "\<lparr>ap_method = AuthToken, ap_credentials = TokenCredential [1, 2]\<rparr>"
  obtain hello where h: "from_cbor_bytes (rd_hello (tp_readers sample_topology)) (fr_payload sample_hello) = Inr hello"
    "hp_supported_versions hello = [1]"
    by (simp add: from_cbor_bytes_def sample_topology_def accepting_readers_def)
  have caps: "sc_supported_versions (tp_caps sample_topology) = [1]"
    "AuthToken \<in> set (sf_auth_methods (sc_server_features (tp_caps sample_topology)))"
    by (simp_all add: sample_topology_def v1_default_def WIRE_VERSION_def)
  have auth: "from_cbor_bytes (rd_auth (tp_readers sample_topology)) (fr_payload sample_login) = Inr ?auth"
    by (simp add: from_cbor_bytes_def sample_topology_def accepting_readers_def sample_login_def)
  have scope: "derive_scope_from_handshake (tp_deps sample_topology) (ne_store_ok (sample_env 3)) ?auth
      (ne_db (sample_env 3)) = Inr sample_scope"
    using sample_auth [of 3] by (simp add: sample_topology_def sample_env_def)
  have "announces sample_hello (Op_Connection O_Hello) 0" "announces sample_login (Op_Connection O_Auth) 0"
    by (simp_all add: sample_hello_def sample_login_def)
  from handshake_completes [OF this h(1) _ auth _ scope, of "sample_env 2" 0] show ?thesis
    by (auto simp: h(2) caps sample_scope_def)
qed

end
