(* ===== verification/Server_Connection.thy ===== *)
theory Server_Connection
  imports Server_Session "HOL-Library.Sublist"
begin

text \<open>
  One connection on the byte level (\<open>brain-server/src/network/connection.rs\<close>, and the idle timer of
  \<open>dispatch.rs\<close>): assembling frames from the bytes that arrive, the receiver loop around the dispatcher
  with its timers, the cap on operations in flight, and the writer that stops at a closing frame.
  The receiver loop is a \<open>select!\<close> over futures that are created anew in every round, so the bytes that a
  not yet complete \<open>read_one_frame\<close> has taken from the socket are dropped with it when another branch
  wins; the model keeps these bytes apart from those still in the socket. Each branch that can win is an
  event; time is in nanoseconds. The biased order of the branches is not used: all orders are allowed.
  The lemmas show that frames are reassembled however the bytes are cut, that the loop refines the
  connection of \<open>Server_Session\<close>, that operations in flight are bounded, when the timers close a
  connection, and that a frame in transit is lost when another branch wins.
\<close>

section \<open>Reading frames\<close>

datatype frame_read_error = FrEof | FrIo | FrTimeout | FrProtocol error_code error_category string

datatype frame_read = ReadPending | ReadFailed frame_read_error | ReadFrame frame bytes

fun decimal :: "nat \<Rightarrow> string" where
  "decimal n = (if n < 10 then [char_of (48 + n)] else decimal (n div 10) @ [char_of (48 + n mod 10)])"

declare decimal.simps [simp del]

text \<open>What the reader makes of the bytes it has been given so far; \<open>eof\<close> says that no more will come.\<close>

definition read_rest_of_frame ::
  "crc_fn \<Rightarrow> (protocol_error \<Rightarrow> string) \<Rightarrow> u32 \<Rightarrow> bool \<Rightarrow> bytes \<Rightarrow> frame_read" where
  "read_rest_of_frame crc show_error max_payload_bytes eof bs =
     (let short = (if eof then ReadFailed FrEof else ReadPending)
      in if length bs < FRAME_HEADER_SIZE then short
         else
           let payload_len = be_word (0 # subslice bs 16 19) :: u32; need = FRAME_HEADER_SIZE + unat payload_len
           in if payload_len > max_payload_bytes
              then ReadFailed (FrProtocol (Ec_Protocol E_BadFrame) Cat_Protocol
                (''payload_len '' @ decimal (unat payload_len) @ '' exceeds server max '' @ decimal (unat max_payload_bytes)))
              else if length bs < need then short
              else (case decode_with_max crc (take need bs) max_payload_bytes of
                      Inl e \<Rightarrow> ReadFailed (FrProtocol (Ec_Protocol E_BadFrame) Cat_Protocol (''frame decode: '' @ show_error e))
                    | Inr (f, rest) \<Rightarrow> ReadFrame f (drop need bs)))"

definition read_one_frame ::
  "crc_fn \<Rightarrow> (protocol_error \<Rightarrow> string) \<Rightarrow> u32 \<Rightarrow> bool \<Rightarrow> bytes \<Rightarrow> frame_read" where
  "read_one_frame crc show_error max_payload_bytes eof bs =
     (if bs = [] then (if eof then ReadFailed FrEof else ReadPending)
      else read_rest_of_frame crc show_error max_payload_bytes eof bs)"

section \<open>Timers\<close>

record connection_limits =
  li_max_payload_bytes :: u32
  li_read_timeout :: nat
  li_auth_timeout :: nat
  li_idle_timeout :: nat
  li_ping_timeout :: nat
  li_outgoing_capacity :: nat
  li_max_connections :: nat
  li_max_connections_per_ip :: nat
  li_max_concurrent_streams :: u32

record idle_timer =
  it_idle_timeout :: nat
  it_ping_timeout :: nat
  it_last_activity :: nat
  it_ping_sent_at :: "nat option"

datatype tick = SendPing | TickClose

definition idle_timer_new :: "nat \<Rightarrow> nat \<Rightarrow> nat \<Rightarrow> idle_timer" where
  "idle_timer_new now idle ping =
     \<lparr>it_idle_timeout = idle, it_ping_timeout = ping, it_last_activity = now, it_ping_sent_at = None\<rparr>"

definition on_frame_received :: "nat \<Rightarrow> idle_timer \<Rightarrow> idle_timer" where
  "on_frame_received now t = t\<lparr>it_last_activity := now, it_ping_sent_at := None\<rparr>"

definition next_deadline :: "idle_timer \<Rightarrow> nat" where
  "next_deadline t =
     (case it_ping_sent_at t of Some s \<Rightarrow> s + it_ping_timeout t | None \<Rightarrow> it_last_activity t + it_idle_timeout t)"

definition fire :: "nat \<Rightarrow> idle_timer \<Rightarrow> tick \<times> idle_timer" where
  "fire now t =
     (case it_ping_sent_at t of Some s \<Rightarrow> (TickClose, t) | None \<Rightarrow> (SendPing, t\<lparr>it_ping_sent_at := Some now\<rparr>))"

section \<open>The receiver loop\<close>

datatype close_reason = CloseBye | CloseProtocolError | CloseTimeout | CloseEof | CloseFatal

record conn_loop =
  lo_state :: conn_state
  lo_idle :: idle_timer
  lo_handshake_deadline :: "nat option"
  lo_in_flight :: nat
  lo_socket :: bytes
  lo_eof :: bool
  lo_taken :: bytes
  lo_taken_since :: nat
  lo_writer_gone :: bool
  lo_left :: bool

datatype loop_out =
    Sent out_frame bool
  | Spawned op_dispatch
  | Subscribing subscribe_start
  | Cancelling cancel_subscribe
  | Left "close_reason option"

definition loop_new :: "connection_limits \<Rightarrow> nat \<Rightarrow> conn_loop" where
  "loop_new limits now =
     \<lparr>lo_state = conn_new now, lo_idle = idle_timer_new now (li_idle_timeout limits) (li_ping_timeout limits),
      lo_handshake_deadline = Some (now + li_auth_timeout limits), lo_in_flight = 0, lo_socket = [], lo_eof = False,
      lo_taken = [], lo_taken_since = 0, lo_writer_gone = False, lo_left = False\<rparr>"

definition loop_exit :: "close_reason option \<Rightarrow> conn_loop \<Rightarrow> conn_loop \<times> loop_out list" where
  "loop_exit reason L = (L\<lparr>lo_left := True\<rparr>, [Left reason])"

text \<open>Sending without closing leaves the loop when the writer is gone; a closing frame is sent blindly.\<close>

definition loop_send :: "out_frame \<Rightarrow> conn_loop \<Rightarrow> conn_loop \<times> loop_out list" where
  "loop_send f L = (if lo_writer_gone L then loop_exit None L else (L, [Sent f False]))"

definition send_and_exit :: "out_frame \<Rightarrow> close_reason option \<Rightarrow> conn_loop \<Rightarrow> conn_loop \<times> loop_out list" where
  "send_and_exit f reason L = (L\<lparr>lo_left := True\<rparr>, [Sent f True, Left reason])"

definition build_close_error_frame :: "error_code \<Rightarrow> string \<Rightarrow> out_frame" where
  "build_close_error_frame code message = Response 0 False (Rsp_Error code message)"

fun out_opcode :: "out_frame \<Rightarrow> opcode" where
  "out_opcode (Response stream_id eos body) = response_opcode body"
| "out_opcode (ByeEcho payload) = Op_Connection O_Bye"

definition stream_cap :: "connection_limits \<Rightarrow> nat" where
  "stream_cap limits = max (unat (li_max_concurrent_streams limits)) 1"

definition loop_action :: "connection_limits \<Rightarrow> action \<Rightarrow> conn_loop \<Rightarrow> conn_loop \<times> loop_out list" where
  "loop_action limits act L =
     (case act of
        Act_Inline f \<Rightarrow> loop_send f L
      | Act_OpDispatch od \<Rightarrow>
          if lo_in_flight L < stream_cap limits then (L\<lparr>lo_in_flight := lo_in_flight L + 1\<rparr>, [Spawned od])
          else loop_send (error_frame (od_stream_id od) (Ec_Exhausted E_StreamLimitExceeded)
                 ''per-connection concurrent stream limit reached'') L
      | Act_Subscribe s \<Rightarrow> (L, [Subscribing s])
      | Act_CancelSubscribe c \<Rightarrow> (L, [Cancelling c])
      | Act_CloseWith f \<Rightarrow>
          send_and_exit f (Some (if opcode_as_u16 (out_opcode f) = opcode_as_u16 (Op_Connection O_Bye)
            then CloseBye else CloseProtocolError)) L
      | Act_Close \<Rightarrow> loop_exit (Some CloseBye) L
      | Act_Nothing \<Rightarrow> (L, [])
      | Act_Panic \<Rightarrow> loop_exit None L)"

definition loop_frame ::
  "topology \<Rightarrow> connection_limits \<Rightarrow> net_env \<Rightarrow> frame \<Rightarrow> conn_loop \<Rightarrow> conn_loop \<times> loop_out list" where
  "loop_frame tp limits env f L =
     (case dispatch_frame tp env f (lo_state L) of
        (act, st) \<Rightarrow>
          let L' = L\<lparr>lo_state := latch_opened_txn act st,
                     lo_handshake_deadline := (case cn_phase st of Established a b c d \<Rightarrow> None | _ \<Rightarrow> lo_handshake_deadline L)\<rparr>
          in loop_action limits act L')"

fun loop_read_error :: "frame_read_error \<Rightarrow> conn_loop \<Rightarrow> conn_loop \<times> loop_out list" where
  "loop_read_error FrEof L = loop_exit (Some CloseEof) L"
| "loop_read_error FrIo L = loop_exit (Some CloseFatal) L"
| "loop_read_error FrTimeout L = loop_exit (Some CloseTimeout) L"
| "loop_read_error (FrProtocol code category detail) L =
     send_and_exit (build_close_error_frame code detail) (Some CloseProtocolError) L"

datatype loop_event =
    LArrive bytes
  | LPeerClosed
  | LPoll net_env
  | LReadTimeout nat
  | LIoError nat
  | LTimer nat u64
  | LOutcome txn_route_outcome
  | LOpDone
  | LWriterGone
  | LShutdown

text \<open>The read branch is polled: the future takes what the socket has.\<close>

definition loop_poll :: "crc_fn \<Rightarrow> topology \<Rightarrow> connection_limits \<Rightarrow> net_env \<Rightarrow> conn_loop \<Rightarrow> conn_loop \<times> loop_out list" where
  "loop_poll crc tp limits env L =
     (let now = ne_instant env
      in case read_one_frame crc (tp_show_error tp) (li_max_payload_bytes limits) (lo_eof L) (lo_taken L @ lo_socket L) of
           ReadPending \<Rightarrow>
             (L\<lparr>lo_taken := lo_taken L @ lo_socket L, lo_socket := [],
                lo_taken_since := (if lo_taken L = [] then now else lo_taken_since L)\<rparr>, [])
         | ReadFailed e \<Rightarrow> loop_read_error e (L\<lparr>lo_idle := on_frame_received now (lo_idle L)\<rparr>)
         | ReadFrame f rest \<Rightarrow>
             loop_frame tp limits env f
               (L\<lparr>lo_taken := [], lo_socket := rest, lo_idle := on_frame_received now (lo_idle L)\<rparr>))"

definition loop_timer :: "nat \<Rightarrow> u64 \<Rightarrow> conn_loop \<Rightarrow> conn_loop \<times> loop_out list" where
  "loop_timer now unix_nanos L =
     (let dropped = L\<lparr>lo_taken := []\<rparr>
      in case lo_handshake_deadline L of
           Some d \<Rightarrow>
             if now < d then (L, [])
             else send_and_exit (build_close_error_frame (Ec_Handshake E_Unauthenticated)
                    ''handshake timeout (no AUTH within auth_timeout)'') None dropped
         | None \<Rightarrow>
             if now < next_deadline (lo_idle L) then (L, [])
             else (case fire now (lo_idle L) of
                     (SendPing, idle) \<Rightarrow> loop_send (Response 0 True (Rsp_ServerPing unix_nanos)) (dropped\<lparr>lo_idle := idle\<rparr>)
                   | (TickClose, idle) \<Rightarrow> loop_exit (Some CloseTimeout) dropped))"

fun loop_step ::
  "crc_fn \<Rightarrow> topology \<Rightarrow> connection_limits \<Rightarrow> loop_event \<Rightarrow> conn_loop \<Rightarrow> conn_loop \<times> loop_out list" where
  "loop_step crc tp limits ev L =
     (if lo_left L then (L, [])
      else (case ev of
          LArrive bs \<Rightarrow> (L\<lparr>lo_socket := lo_socket L @ bs\<rparr>, [])
        | LPeerClosed \<Rightarrow> (L\<lparr>lo_eof := True\<rparr>, [])
        | LPoll env \<Rightarrow> loop_poll crc tp limits env L
        | LReadTimeout now \<Rightarrow>
            if lo_taken L \<noteq> [] \<and> lo_taken_since L + li_read_timeout limits \<le> now
            then loop_read_error FrTimeout (L\<lparr>lo_idle := on_frame_received now (lo_idle L)\<rparr>) else (L, [])
        | LIoError now \<Rightarrow> loop_read_error FrIo (L\<lparr>lo_idle := on_frame_received now (lo_idle L)\<rparr>)
        | LTimer now unix_nanos \<Rightarrow> loop_timer now unix_nanos L
        | LOutcome out \<Rightarrow>
            (L\<lparr>lo_taken := [], lo_state := (lo_state L)\<lparr>cn_txn_shards := apply_outcome out (cn_txn_shards (lo_state L))\<rparr>\<rparr>, [])
        | LOpDone \<Rightarrow> (L\<lparr>lo_in_flight := lo_in_flight L - 1\<rparr>, [])
        | LWriterGone \<Rightarrow> (L\<lparr>lo_writer_gone := True\<rparr>, [])
        | LShutdown \<Rightarrow> loop_exit None L))"

fun loop_run ::
  "crc_fn \<Rightarrow> topology \<Rightarrow> connection_limits \<Rightarrow> loop_event list \<Rightarrow> conn_loop \<Rightarrow> conn_loop \<times> loop_out list" where
  "loop_run crc tp limits [] L = (L, [])"
| "loop_run crc tp limits (ev # evs) L =
     (case loop_step crc tp limits ev L of
        (L1, outs) \<Rightarrow> (case loop_run crc tp limits evs L1 of (L2, outs') \<Rightarrow> (L2, outs @ outs')))"

text \<open>The writer, given the queued frames in order; whether the disconnect sweep runs.\<close>

fun writer_loop :: "('a \<times> bool) list \<Rightarrow> 'a list" where
  "writer_loop [] = []"
| "writer_loop ((bytes, close_after) # rest) = bytes # (if close_after then [] else writer_loop rest)"

definition needs_orphan_sweep :: "bool \<Rightarrow> bytes \<Rightarrow> bool" where
  "needs_orphan_sweep opened_txn connection_id \<longleftrightarrow> opened_txn \<and> connection_id \<noteq> replicate 16 0"

declare loop_step.simps [simp del]

section \<open>Reassembly\<close>

definition sealed :: "crc_fn \<Rightarrow> frame \<Rightarrow> frame" where
  "sealed crc f = f\<lparr>fr_header := frame_seal crc f\<rparr>"

definition fits :: "u32 \<Rightarrow> frame \<Rightarrow> bool" where
  "fits m f \<longleftrightarrow> sendable f \<and> of_nat (length (fr_payload f)) \<le> m"

lemma encoded_frame:
  assumes "sendable f"
  shows "length (frame_encode crc f) = 32 + length (fr_payload f)"
    and "be_word (0 # subslice (frame_encode crc f) 16 19) = (of_nat (length (fr_payload f)) :: u32)"
    and "unat (of_nat (length (fr_payload f)) :: u32) = length (fr_payload f)"
proof -
  let ?h = "frame_seal crc f"
  have wf: "wf_frame_header ?h" using frame_seal_valid [OF assms, of crc] by (simp add: valid_header_def)
  have len: "payload_len_u32 ?h = of_nat (length (fr_payload f))" "unat (payload_len_u32 ?h) = length (fr_payload f)"
    using assms payload_len_of_nat [OF _ frame_seal_fields(1), of f crc] by (simp_all add: sendable_def)
  show "length (frame_encode crc f) = 32 + length (fr_payload f)"
    using length_frame_header_bytes [OF wf] by (simp add: frame_encode_def)
  have "fh_payload_len ?h = subslice (frame_header_bytes ?h) 16 19"
    using arg_cong [OF frame_header_cast_bytes [OF wf], of fh_payload_len] by (simp add: frame_header_cast_def)
  then show "be_word (0 # subslice (frame_encode crc f) 16 19) = (of_nat (length (fr_payload f)) :: u32)"
    using len(1) length_frame_header_bytes [OF wf]
    by (simp add: frame_encode_def subslice_append_left payload_len_u32_def)
  show "unat (of_nat (length (fr_payload f)) :: u32) = length (fr_payload f)" using len by simp
qed

lemma read_encoded:
  assumes "fits m f"
  shows "read_one_frame crc sh m eof (frame_encode crc f @ rest) = ReadFrame (sealed crc f) rest"
proof -
  have f: "sendable f" "of_nat (length (fr_payload f)) \<le> m" using assms by (simp_all add: fits_def)
  note enc = encoded_frame(1,2) [OF f(1), of crc] encoded_frame(3) [OF f(1)]
  have "decode_with_max crc (frame_encode crc f) m = Inr (sealed crc f, [])"
    using decode_encode_frame [OF f, of crc "[]"] by (simp add: sealed_def)
  moreover have "subslice (frame_encode crc f @ rest) 16 19 = subslice (frame_encode crc f) 16 19"
    using enc(1) by (intro subslice_append_left) simp
  moreover have "frame_encode crc f \<noteq> []" using enc(1) by force
  ultimately show ?thesis
    using enc f(2) by (simp add: read_one_frame_def read_rest_of_frame_def FRAME_HEADER_SIZE_def Let_def not_less)
qed

lemma read_partial:
  assumes "fits m f" and "frame_encode crc f = bs @ tail" and "tail \<noteq> []"
  shows "read_one_frame crc sh m False bs = ReadPending"
proof (cases "length bs < 32")
  case True
  then show ?thesis by (simp add: read_one_frame_def read_rest_of_frame_def FRAME_HEADER_SIZE_def)
next
  case False
  have f: "sendable f" "of_nat (length (fr_payload f)) \<le> m" using assms by (simp_all add: fits_def)
  note enc = encoded_frame(1,2) [OF f(1), of crc] encoded_frame(3) [OF f(1)]
  have "subslice bs 16 19 = subslice (frame_encode crc f) 16 19"
    using False subslice_append_left [of 19 bs tail 16] assms(2) by simp
  moreover have "length bs < 32 + length (fr_payload f)"
    using assms(2,3) enc(1) by (metis add_diff_cancel_left' length_append length_greater_0_conv less_add_same_cancel1)
  ultimately show ?thesis
    using enc f(2) [folded not_less] False
    by (simp add: read_one_frame_def read_rest_of_frame_def FRAME_HEADER_SIZE_def Let_def)
qed

text \<open>What the loop relies on of the reader: a whole frame is read off the front of the stream, and a part of
  one is waited for. A stream of frames then yields its first frame or keeps the reader waiting.\<close>

locale framing =
  fixes rd :: "bytes \<Rightarrow> frame_read" and enc :: "frame \<Rightarrow> bytes" and seal :: "frame \<Rightarrow> frame" and fit :: "frame \<Rightarrow> bool"
  assumes whole: "fit f \<Longrightarrow> rd (enc f @ rest) = ReadFrame (seal f) rest"
    and part: "fit f \<Longrightarrow> enc f = bs @ tail \<Longrightarrow> tail \<noteq> [] \<Longrightarrow> rd bs = ReadPending"
    and idle: "rd [] = ReadPending"
begin

lemma next_frame:
  assumes "list_all fit fs" and "bs @ later = concat (map enc fs)"
  obtains (pending) "rd bs = ReadPending"
  | (frame) f fs' r where "fs = f # fs'" "rd bs = ReadFrame (seal f) r" "r @ later = concat (map enc fs')"
proof (cases fs)
  case Nil
  with assms(2) pending idle show thesis by simp
next
  case (Cons f fs')
  with assms(2) obtain us where "bs = enc f @ us \<and> us @ later = concat (map enc fs') \<or> bs @ us = enc f \<and> later = us @ concat (map enc fs')"
    by (auto simp: append_eq_append_conv2)
  with Cons assms(1) whole [of f us] whole [of f "[]"] part [of f bs us] frame pending show thesis by (cases "us = []") auto
qed

end

interpretation wire: framing "read_one_frame crc sh m False" "frame_encode crc" "sealed crc" "fits m" for crc sh m
  by unfold_locales (rule read_encoded, assumption, rule read_partial, assumption+, simp add: read_one_frame_def)

definition stream :: "conn_loop \<Rightarrow> bytes" where
  "stream L = lo_taken L @ lo_socket L"

fun arrivals :: "loop_event list \<Rightarrow> bytes" where
  "arrivals [] = []"
| "arrivals (LArrive bs # evs) = bs @ arrivals evs"
| "arrivals (ev # evs) = arrivals evs"

fun reads_only :: "loop_event \<Rightarrow> bool" where
  "reads_only (LArrive bs) = True"
| "reads_only (LPoll env) = True"
| "reads_only ev = False"

text \<open>The frames a run hands to the dispatcher.\<close>

fun frames_of_step :: "crc_fn \<Rightarrow> topology \<Rightarrow> connection_limits \<Rightarrow> loop_event \<Rightarrow> conn_loop \<Rightarrow> frame list" where
  "frames_of_step crc tp limits (LPoll env) L =
     (if lo_left L then []
      else (case read_one_frame crc (tp_show_error tp) (li_max_payload_bytes limits) (lo_eof L) (stream L) of
              ReadFrame f rest \<Rightarrow> [f] | _ \<Rightarrow> []))"
| "frames_of_step crc tp limits ev L = []"

fun dispatched :: "crc_fn \<Rightarrow> topology \<Rightarrow> connection_limits \<Rightarrow> loop_event list \<Rightarrow> conn_loop \<Rightarrow> frame list" where
  "dispatched crc tp limits [] L = []"
| "dispatched crc tp limits (ev # evs) L =
     frames_of_step crc tp limits ev L @ dispatched crc tp limits evs (fst (loop_step crc tp limits ev L))"

lemma loop_outcomes_keep:
  "stream (fst (loop_exit r L)) = stream L" "stream (fst (loop_send f L)) = stream L"
  "stream (fst (send_and_exit f r L)) = stream L" "stream (fst (loop_action limits act L)) = stream L"
  "lo_eof (fst (loop_exit r L)) = lo_eof L" "lo_eof (fst (loop_send f L)) = lo_eof L"
  "lo_eof (fst (send_and_exit f r L)) = lo_eof L" "lo_eof (fst (loop_action limits act L)) = lo_eof L"
  by (simp_all add: loop_exit_def loop_send_def send_and_exit_def loop_action_def stream_def split: action.split)

lemma loop_frame_keep: "stream (fst (loop_frame tp limits env f L)) = stream L" "lo_eof (fst (loop_frame tp limits env f L)) = lo_eof L"
  by (simp_all add: loop_frame_def Let_def loop_outcomes_keep split: prod.split) (simp_all add: stream_def)

lemma poll_frame:
  assumes "\<not> lo_left L"
    and "read_one_frame crc (tp_show_error tp) (li_max_payload_bytes limits) (lo_eof L) (stream L) = ReadFrame f rest"
  shows "frames_of_step crc tp limits (LPoll env) L = [f]"
    and "stream (fst (loop_step crc tp limits (LPoll env) L)) = rest"
    and "lo_eof (fst (loop_step crc tp limits (LPoll env) L)) = lo_eof L"
proof -
  have read: "read_one_frame crc (tp_show_error tp) (li_max_payload_bytes limits) (lo_eof L) (lo_taken L @ lo_socket L) =
      ReadFrame f rest"
    using assms(2) by (simp add: stream_def)
  show "frames_of_step crc tp limits (LPoll env) L = [f]" using assms by simp
  show "stream (fst (loop_step crc tp limits (LPoll env) L)) = rest"
    "lo_eof (fst (loop_step crc tp limits (LPoll env) L)) = lo_eof L"
    using assms(1) by (simp_all add: loop_step.simps loop_poll_def read Let_def loop_frame_keep) (simp add: stream_def)
qed

lemma poll_pending:
  assumes "\<not> lo_left L" and "read_one_frame crc (tp_show_error tp) (li_max_payload_bytes limits) (lo_eof L) (stream L) = ReadPending"
  shows "frames_of_step crc tp limits (LPoll env) L = []"
    and "stream (fst (loop_step crc tp limits (LPoll env) L)) = stream L"
    and "lo_eof (fst (loop_step crc tp limits (LPoll env) L)) = lo_eof L"
    and "\<not> lo_left (fst (loop_step crc tp limits (LPoll env) L))"
  using assms by (simp_all add: loop_step.simps loop_poll_def stream_def Let_def)

lemma left_stays:
  assumes "lo_left L"
  shows "dispatched crc tp limits evs L = []" and "loop_run crc tp limits evs L = (L, [])"
proof -
  have step: "loop_step crc tp limits ev L = (L, [])" for ev using assms by (simp add: loop_step.simps)
  have "frames_of_step crc tp limits ev L = []" for ev using assms by (cases ev) simp_all
  then show "dispatched crc tp limits evs L = []" "loop_run crc tp limits evs L = (L, [])"
    by (induction evs) (simp_all add: step)
qed

lemma fst_loop_run_Cons [simp]:
  "fst (loop_run crc tp limits (ev # evs) L) = fst (loop_run crc tp limits evs (fst (loop_step crc tp limits ev L)))"
  by (simp split: prod.split)

declare loop_run.simps(2) [simp del] frames_of_step.simps(1) [simp del]

lemma arrive_step:
  assumes "\<not> lo_left L"
  shows "stream (fst (loop_step crc tp limits (LArrive bs) L)) = stream L @ bs"
    and "lo_eof (fst (loop_step crc tp limits (LArrive bs) L)) = lo_eof L" and "\<not> lo_left (fst (loop_step crc tp limits (LArrive bs) L))"
  using assms by (simp_all add: loop_step.simps stream_def)

lemma reassembled:
  assumes "\<not> lo_left L" and "\<not> lo_eof L" and "list_all reads_only evs" and "list_all (fits (li_max_payload_bytes limits)) fs"
    and "stream L @ arrivals evs = concat (map (frame_encode crc) fs)"
  shows "\<exists>k \<le> length fs. dispatched crc tp limits evs L = map (sealed crc) (take k fs) \<and>
    (lo_left (fst (loop_run crc tp limits evs L)) \<or>
     stream (fst (loop_run crc tp limits evs L)) = concat (map (frame_encode crc) (drop k fs)) \<and>
     \<not> lo_eof (fst (loop_run crc tp limits evs L)))"
  using assms
proof (induction evs arbitrary: L fs)
  case Nil
  then show ?case by (auto intro: exI [of _ 0])
next
  case (Cons ev evs)
  let ?L = "fst (loop_step crc tp limits ev L)"
  consider bs where "ev = LArrive bs" | env where "ev = LPoll env" using Cons.prems(3) by (cases ev) auto
  then show ?case
  proof cases
    case 1
    with Cons.IH [of ?L fs] Cons.prems arrive_step [OF Cons.prems(1), of crc tp limits bs] show ?thesis by simp
  next
    case (2 env)
    from Cons.prems(4,5) show ?thesis
    proof (cases rule: wire.next_frame [where sh = "tp_show_error tp"])
      case pending
      then show ?thesis
        using Cons.IH [of ?L fs] Cons.prems poll_pending [of L crc tp limits env] 2 by simp
    next
      case (frame f fs' r)
      with Cons.prems(2) have "read_one_frame crc (tp_show_error tp) (li_max_payload_bytes limits) (lo_eof L) (stream L) =
        ReadFrame (sealed crc f) r" by simp
      note poll = poll_frame [OF Cons.prems(1) this, of env]
      show ?thesis
      proof (cases "lo_left ?L")
        case True
        then show ?thesis
          using left_stays [OF True, of crc tp limits evs] poll(1) 2 frame(1) by (intro exI [of _ 1]) simp
      next
        case False
        from Cons.IH [OF this, of fs'] obtain k where "k \<le> length fs'"
          "dispatched crc tp limits evs ?L = map (sealed crc) (take k fs')"
          "lo_left (fst (loop_run crc tp limits evs ?L)) \<or>
           stream (fst (loop_run crc tp limits evs ?L)) = concat (map (frame_encode crc) (drop k fs')) \<and>
           \<not> lo_eof (fst (loop_run crc tp limits evs ?L))"
          using poll Cons.prems frame(1,3) 2 by auto
        then show ?thesis using poll(1) 2 frame(1) by (intro exI [of _ "Suc k"]) simp
      qed
    qed
  qed
qed

lemma dispatched_append:
  "dispatched crc tp limits (evs @ evs') L =
     dispatched crc tp limits evs L @ dispatched crc tp limits evs' (fst (loop_run crc tp limits evs L))"
  by (induction evs arbitrary: L) simp_all

lemma loop_run_append:
  "loop_run crc tp limits (evs @ evs') L =
     (fst (loop_run crc tp limits evs' (fst (loop_run crc tp limits evs L))),
      snd (loop_run crc tp limits evs L) @ snd (loop_run crc tp limits evs' (fst (loop_run crc tp limits evs L))))"
  by (induction evs arbitrary: L) (simp_all add: loop_run.simps(2) split: prod.split)

text \<open>Polling drains what has arrived.\<close>

lemma polls_drain:
  assumes "\<not> lo_left L" and "\<not> lo_eof L" and "list_all (fits (li_max_payload_bytes limits)) fs"
    and "stream L = concat (map (frame_encode crc) fs)" and "length fs \<le> n"
  shows "\<exists>k \<le> length fs. dispatched crc tp limits (replicate n (LPoll env)) L = map (sealed crc) (take k fs) \<and>
    (k = length fs \<or> lo_left (fst (loop_run crc tp limits (replicate n (LPoll env)) L)))"
  using assms
proof (induction n arbitrary: L fs)
  case 0
  then show ?case by simp
next
  case (Suc n)
  let ?L = "fst (loop_step crc tp limits (LPoll env) L)"
  have "stream L @ [] = concat (map (frame_encode crc) fs)" using Suc.prems(4) by simp
  with Suc.prems(3) show ?case
  proof (cases rule: wire.next_frame [where sh = "tp_show_error tp"])
    case pending
    with Suc.prems have "fs = []" by (cases fs) (auto simp: read_encoded)
    with Suc.IH [of ?L "[]"] Suc.prems poll_pending [of L crc tp limits env] pending show ?thesis by simp
  next
    case (frame f fs' r)
    with Suc.prems(2) have "read_one_frame crc (tp_show_error tp) (li_max_payload_bytes limits) (lo_eof L) (stream L) =
      ReadFrame (sealed crc f) r" by simp
    note poll = poll_frame [OF Suc.prems(1) this, of env]
    show ?thesis
    proof (cases "lo_left ?L")
      case True
      then show ?thesis
        using left_stays [OF True, of crc tp limits "replicate n (LPoll env)"] poll(1) frame(1)
        by (intro exI [of _ 1]) simp
    next
      case False
      with Suc.IH [OF this, of fs'] Suc.prems poll frame obtain k where "k \<le> length fs'"
        "dispatched crc tp limits (replicate n (LPoll env)) ?L = map (sealed crc) (take k fs')"
        "k = length fs' \<or> lo_left (fst (loop_run crc tp limits (replicate n (LPoll env)) ?L))" by auto
      then show ?thesis using poll(1) frame(1) by (intro exI [of _ "Suc k"]) simp
    qed
  qed
qed

section \<open>The session behind the loop\<close>

fun served :: "loop_out list \<Rightarrow> action list" where
  "served [] = []"
| "served (Spawned od # outs) = Act_OpDispatch od # served outs"
| "served (Subscribing s # outs) = Act_Subscribe s # served outs"
| "served (Cancelling c # outs) = Act_CancelSubscribe c # served outs"
| "served (out # outs) = served outs"

fun actions :: "(conn_event \<times> action option) list \<Rightarrow> action list" where
  "actions [] = []"
| "actions ((ev, Some act) # tr) = act # actions tr"
| "actions ((ev, None) # tr) = actions tr"

lemma served_append [simp]: "served (outs @ outs') = served outs @ served outs'"
  by (induction outs rule: served.induct) simp_all

lemma actions_append [simp]: "actions (tr @ tr') = actions tr @ actions tr'"
  by (induction tr rule: actions.induct) simp_all

lemma loop_exits:
  "lo_state (fst (loop_exit r L)) = lo_state L" "served (snd (loop_exit r L)) = []"
  "lo_state (fst (loop_send o1 L)) = lo_state L" "served (snd (loop_send o1 L)) = []"
  "lo_state (fst (send_and_exit o1 r L)) = lo_state L" "served (snd (send_and_exit o1 r L)) = []"
  by (simp_all add: loop_exit_def loop_send_def send_and_exit_def)

lemma loop_action_session:
  "lo_state (fst (loop_action limits act L)) = lo_state L"
  "subseq (served (snd (loop_action limits act L))) [act]"
  "ends (Some act) \<Longrightarrow> lo_left (fst (loop_action limits act L))"
  by (cases act; simp add: loop_action_def loop_exits; simp add: loop_exit_def send_and_exit_def)+

lemma loop_frame_session:
  assumes "dispatch_frame tp env f (lo_state L) = (act, st)"
  shows "lo_state (fst (loop_frame tp limits env f L)) = latch_opened_txn act st"
    and "subseq (served (snd (loop_frame tp limits env f L))) [act]"
    and "ends (Some act) \<Longrightarrow> lo_left (fst (loop_frame tp limits env f L))"
  using assms by (simp_all add: loop_frame_def Let_def loop_action_session)

lemma quiet_step:
  assumes "frames_of_step crc tp limits ev L = []" and "\<And>out. ev \<noteq> LOutcome out"
  shows "lo_state (fst (loop_step crc tp limits ev L)) = lo_state L" and "served (snd (loop_step crc tp limits ev L)) = []"
proof -
  have err: "lo_state (fst (loop_read_error e L')) = lo_state L'" "served (snd (loop_read_error e L')) = []" for e L'
    by (cases e; simp add: loop_exits)+
  have timer: "lo_state (fst (loop_timer now u L)) = lo_state L" "served (snd (loop_timer now u L)) = []" for now u
    by (simp_all add: loop_timer_def Let_def fire_def loop_exits split: option.split)
  have poll: "lo_state (fst (loop_step crc tp limits (LPoll env) L)) = lo_state L \<and> served (snd (loop_step crc tp limits (LPoll env) L)) = []"
    if "frames_of_step crc tp limits (LPoll env) L = []" for env
  proof (cases "read_one_frame crc (tp_show_error tp) (li_max_payload_bytes limits) (lo_eof L) (lo_taken L @ lo_socket L)")
    case (ReadFrame f rest)
    with that have "lo_left L" by (simp add: frames_of_step.simps(1) stream_def split: if_splits)
    then show ?thesis by (simp add: loop_step.simps)
  qed (simp_all add: loop_step.simps loop_poll_def Let_def err)
  have "lo_state (fst (loop_step crc tp limits ev L)) = lo_state L \<and> served (snd (loop_step crc tp limits ev L)) = []"
  proof (cases ev)
    case (LPoll env)
    with poll assms(1) show ?thesis by simp
  qed (use assms(2) in \<open>simp_all add: loop_step.simps loop_exits err timer\<close>)
  then show "lo_state (fst (loop_step crc tp limits ev L)) = lo_state L" "served (snd (loop_step crc tp limits ev L)) = []"
    by simp_all
qed

definition follows :: "topology \<Rightarrow> conn_state \<Rightarrow> (conn_event \<times> action option) list \<Rightarrow> conn_loop \<Rightarrow> bool" where
  "follows tp st0 tr L \<longleftrightarrow> conn_steps tp st0 tr (lo_state L) \<and> (closed tr \<longrightarrow> lo_left L)"

lemma step_follows:
  assumes "follows tp st0 tr L"
  shows "\<exists>tr'. follows tp st0 (tr @ tr') (fst (loop_step crc tp limits ev L)) \<and>
    subseq (served (snd (loop_step crc tp limits ev L))) (actions tr') \<and>
    map snd (frames_in tr') = frames_of_step crc tp limits ev L"
proof -
  let ?P = "\<lambda>tr'. follows tp st0 (tr @ tr') (fst (loop_step crc tp limits ev L)) \<and>
    subseq (served (snd (loop_step crc tp limits ev L))) (actions tr') \<and>
    map snd (frames_in tr') = frames_of_step crc tp limits ev L"
  have st: "conn_steps tp st0 tr (lo_state L)" using assms by (simp add: follows_def)
  consider (left) "lo_left L" | (frame) env f fs where "\<not> lo_left L" "ev = LPoll env" "frames_of_step crc tp limits ev L = f # fs"
    | (outcome) out where "\<not> lo_left L" "ev = LOutcome out"
    | (quiet) "\<not> lo_left L" "frames_of_step crc tp limits ev L = []" "\<And>out. ev \<noteq> LOutcome out"
    by (cases "lo_left L"; cases ev; cases "frames_of_step crc tp limits ev L") auto
  then have "\<exists>tr'. ?P tr'"
  proof cases
    case left
    then have "frames_of_step crc tp limits ev L = []" by (cases ev) (simp_all add: frames_of_step.simps(1))
    with left assms have "?P []" by (simp add: loop_step.simps)
    then show ?thesis ..
  next
    case (frame env f fs)
    then obtain rest where fs: "fs = []" and read: "read_one_frame crc (tp_show_error tp) (li_max_payload_bytes limits) (lo_eof L)
        (lo_taken L @ lo_socket L) = ReadFrame f rest"
      by (auto simp: frames_of_step.simps(1) stream_def split: frame_read.splits)
    define L1 where "L1 = L\<lparr>lo_taken := [], lo_socket := rest, lo_idle := on_frame_received (ne_instant env) (lo_idle L)\<rparr>"
    have step: "loop_step crc tp limits ev L = loop_frame tp limits env f L1"
      using frame read by (simp add: loop_step.simps loop_poll_def L1_def)
    obtain act st where d: "dispatch_frame tp env f (lo_state L1) = (act, st)" by force
    have open_tr: "\<not> closed tr" using assms frame(1) by (auto simp: follows_def)
    have "conn_step tp (lo_state L) (FrameIn env f) (Some act) (latch_opened_txn act st)"
      using frame_in [OF d] by (simp add: L1_def)
    from more_steps [OF st open_tr this] loop_frame_session [OF d, of limits] open_tr
    have "?P [(FrameIn env f, Some act)]" by (auto simp: step follows_def frame(3) fs)
    then show ?thesis ..
  next
    case (outcome out)
    have "\<not> closed tr" using assms outcome(1) by (auto simp: follows_def)
    with more_steps [OF st this outcome_in, of out] outcome
    have "?P [(OutcomeIn out, None)]" by (simp add: loop_step.simps follows_def)
    then show ?thesis ..
  next
    case quiet
    have "lo_left (fst (loop_step crc tp limits ev L)) \<or> \<not> closed tr" using assms quiet(1) by (auto simp: follows_def)
    with quiet_step [OF quiet(2,3)] st quiet(2) have "?P []" by (auto simp: follows_def)
    then show ?thesis ..
  qed
  then show ?thesis .
qed

lemma run_follows:
  assumes "follows tp st0 tr L"
  shows "\<exists>tr'. follows tp st0 (tr @ tr') (fst (loop_run crc tp limits evs L)) \<and>
    subseq (served (snd (loop_run crc tp limits evs L))) (actions tr') \<and>
    map snd (frames_in tr') = dispatched crc tp limits evs L"
  using assms
proof (induction evs arbitrary: tr L)
  case Nil
  then show ?case by (intro exI [of _ "[]"]) simp
next
  case (Cons ev evs)
  let ?L = "fst (loop_step crc tp limits ev L)"
  from step_follows [OF Cons.prems, of crc limits ev] obtain tr1 where tr1: "follows tp st0 (tr @ tr1) ?L"
    "subseq (served (snd (loop_step crc tp limits ev L))) (actions tr1)" "map snd (frames_in tr1) = frames_of_step crc tp limits ev L"
    by blast
  from Cons.IH [OF tr1(1)] obtain tr2 where tr2: "follows tp st0 ((tr @ tr1) @ tr2) (fst (loop_run crc tp limits evs ?L))"
    "subseq (served (snd (loop_run crc tp limits evs ?L))) (actions tr2)" "map snd (frames_in tr2) = dispatched crc tp limits evs ?L"
    by blast
  have "snd (loop_run crc tp limits (ev # evs) L) = snd (loop_step crc tp limits ev L) @ snd (loop_run crc tp limits evs ?L)"
    by (simp add: loop_run.simps(2) split: prod.split)
  then show ?case
    using tr1 tr2 list_emb_append_mono [OF tr1(2) tr2(2)] by (intro exI [of _ "tr1 @ tr2"]) simp
qed

section \<open>Operations in flight\<close>

fun is_spawned :: "loop_out \<Rightarrow> bool" where
  "is_spawned (Spawned od) = True"
| "is_spawned out = False"

definition spawned :: "loop_out list \<Rightarrow> nat" where
  "spawned outs = length (filter is_spawned outs)"

lemma spawned_simps [simp]:
  "spawned [] = 0" "spawned (out # outs) = (if is_spawned out then Suc (spawned outs) else spawned outs)"
  "spawned (outs @ outs') = spawned outs + spawned outs'"
  by (simp_all add: spawned_def)

text \<open>What leaving and sending do not touch.\<close>

lemma loop_exits_keep:
  "lo_in_flight (fst (loop_exit r L)) = lo_in_flight L" "spawned (snd (loop_exit r L)) = 0"
  "lo_in_flight (fst (loop_send o1 L)) = lo_in_flight L" "spawned (snd (loop_send o1 L)) = 0"
  "lo_in_flight (fst (send_and_exit o1 r L)) = lo_in_flight L" "spawned (snd (send_and_exit o1 r L)) = 0"
  "lo_idle (fst (loop_send o1 L)) = lo_idle L" "lo_handshake_deadline (fst (loop_send o1 L)) = lo_handshake_deadline L"
  "lo_left (fst (loop_exit r L))" "lo_left (fst (send_and_exit o1 r L))" "lo_left (fst (loop_read_error e L))"
  by (simp_all add: loop_exit_def loop_send_def send_and_exit_def) (cases e; simp add: loop_exit_def send_and_exit_def)

definition budgeted :: "connection_limits \<Rightarrow> nat \<Rightarrow> nat \<Rightarrow> conn_loop \<times> loop_out list \<Rightarrow> bool" where
  "budgeted limits n finished r \<longleftrightarrow>
     lo_in_flight (fst r) \<le> stream_cap limits \<and> spawned (snd r) + n \<le> lo_in_flight (fst r) + finished"

lemma budgeted_action:
  assumes "lo_in_flight L = n" and "n \<le> stream_cap limits"
  shows "budgeted limits n 0 (loop_action limits act L)"
  using assms by (cases act) (simp_all add: budgeted_def loop_action_def loop_exits_keep)

lemma budgeted_step:
  assumes "lo_in_flight L \<le> stream_cap limits"
  shows "budgeted limits (lo_in_flight L) (if ev = LOpDone then 1 else 0) (loop_step crc tp limits ev L)"
proof -
  have err: "budgeted limits (lo_in_flight L) 0 (loop_read_error e L')" if "lo_in_flight L' = lo_in_flight L" for e L'
    using that assms by (cases e) (simp_all add: budgeted_def loop_exits_keep)
  have timer: "budgeted limits (lo_in_flight L) 0 (loop_timer now u L)" for now u
    using assms by (simp add: budgeted_def loop_timer_def Let_def fire_def loop_exits_keep split: option.split)
  have frame: "budgeted limits (lo_in_flight L) 0 (loop_frame tp limits env f L')" if "lo_in_flight L' = lo_in_flight L" for env f L'
    using that assms by (simp add: loop_frame_def Let_def budgeted_action split: prod.split)
  have poll: "budgeted limits (lo_in_flight L) 0 (loop_poll crc tp limits env L)" for env
    using assms by (simp add: loop_poll_def Let_def err frame split: frame_read.split) (simp add: budgeted_def)
  show ?thesis
  proof (cases "lo_left L")
    case True
    then show ?thesis using assms by (simp add: loop_step.simps budgeted_def)
  next
    case False
    with assms show ?thesis
      by (cases ev) (simp_all add: loop_step.simps err timer poll, auto simp: budgeted_def loop_exits_keep)
  qed
qed

lemma budgeted_run:
  assumes "lo_in_flight L \<le> stream_cap limits"
  shows "budgeted limits (lo_in_flight L) (count_list evs LOpDone) (loop_run crc tp limits evs L)"
  using assms
proof (induction evs arbitrary: L)
  case Nil
  then show ?case by (simp add: budgeted_def)
next
  case (Cons ev evs)
  from budgeted_step [OF Cons.prems, of ev crc tp]
    Cons.IH [of "fst (loop_step crc tp limits ev L)"]
  show ?case by (auto simp: budgeted_def loop_run.simps(2) split: prod.split if_splits)
qed

section \<open>The idle timer\<close>

text \<open>When frames were heard.\<close>

fun heard_at :: "crc_fn \<Rightarrow> topology \<Rightarrow> connection_limits \<Rightarrow> loop_event \<Rightarrow> conn_loop \<Rightarrow> nat list" where
  "heard_at crc tp limits (LPoll env) L = map (\<lambda>f. ne_instant env) (frames_of_step crc tp limits (LPoll env) L)"
| "heard_at crc tp limits ev L = []"

fun heard :: "crc_fn \<Rightarrow> topology \<Rightarrow> connection_limits \<Rightarrow> loop_event list \<Rightarrow> conn_loop \<Rightarrow> nat list" where
  "heard crc tp limits [] L = []"
| "heard crc tp limits (ev # evs) L =
     heard_at crc tp limits ev L @ heard crc tp limits evs (fst (loop_step crc tp limits ev L))"

definition timer_inv :: "connection_limits \<Rightarrow> nat \<Rightarrow> nat \<Rightarrow> conn_loop \<Rightarrow> bool" where
  "timer_inv limits t0 a L \<longleftrightarrow>
     it_idle_timeout (lo_idle L) = li_idle_timeout limits \<and> it_ping_timeout (lo_idle L) = li_ping_timeout limits \<and>
     it_last_activity (lo_idle L) = a \<and>
     (\<forall>s. it_ping_sent_at (lo_idle L) = Some s \<longrightarrow> a + li_idle_timeout limits \<le> s) \<and>
     (\<forall>d. lo_handshake_deadline L = Some d \<longrightarrow> d = t0 + li_auth_timeout limits)"

lemma action_keeps_timers:
  "lo_idle (fst (loop_action limits act L)) = lo_idle L"
  "lo_handshake_deadline (fst (loop_action limits act L)) = lo_handshake_deadline L"
  by (cases act; simp add: loop_action_def loop_exit_def loop_send_def send_and_exit_def)+

text \<open>A step that stays in the loop hears a frame, sends a ping, or leaves the timers alone.\<close>

lemma timers_step:
  assumes "\<not> lo_left (fst (loop_step crc tp limits ev L))"
  obtains
    (frame) t where "heard_at crc tp limits ev L = [t]" "lo_idle (fst (loop_step crc tp limits ev L)) = on_frame_received t (lo_idle L)"
      "lo_handshake_deadline (fst (loop_step crc tp limits ev L)) \<in> {None, lo_handshake_deadline L}"
  | (ping) now u where "ev = LTimer now u" "heard_at crc tp limits ev L = []" "it_ping_sent_at (lo_idle L) = None"
      "next_deadline (lo_idle L) \<le> now" "lo_idle (fst (loop_step crc tp limits ev L)) = (lo_idle L)\<lparr>it_ping_sent_at := Some now\<rparr>"
      "lo_handshake_deadline (fst (loop_step crc tp limits ev L)) = lo_handshake_deadline L"
  | (quiet) "heard_at crc tp limits ev L = []" "lo_idle (fst (loop_step crc tp limits ev L)) = lo_idle L" "lo_handshake_deadline (fst (loop_step crc tp limits ev L)) = lo_handshake_deadline L"
proof -
  have open_loop: "\<not> lo_left L" using assms by (auto simp: loop_step.simps)
  show thesis
  proof (cases ev)
    case (LPoll env)
    show thesis
    proof (cases "read_one_frame crc (tp_show_error tp) (li_max_payload_bytes limits) (lo_eof L) (lo_taken L @ lo_socket L)")
      case (ReadFrame f rest)
      with LPoll open_loop show thesis
        by (intro frame [of "ne_instant env"])
           (auto simp: frames_of_step.simps(1) loop_step.simps loop_poll_def Let_def stream_def loop_frame_def
              action_keeps_timers split: prod.splits conn_phase.splits)
    qed (use LPoll open_loop assms in \<open>simp_all add: quiet frames_of_step.simps(1) loop_step.simps loop_poll_def Let_def stream_def
        loop_exits_keep\<close>)
  next
    case (LTimer now u)
    show thesis
    proof (cases "it_ping_sent_at (lo_idle L) = None \<and> next_deadline (lo_idle L) \<le> now \<and> lo_handshake_deadline L = None")
      case True
      with LTimer open_loop show thesis
        by (intro ping [of now u]) (simp_all add: loop_step.simps loop_timer_def Let_def fire_def loop_exits_keep)
    next
      case False
      with LTimer open_loop assms have "loop_step crc tp limits ev L = (L, [])"
        by (auto simp: loop_step.simps loop_timer_def Let_def loop_exits_keep fire_def split: option.splits if_splits)
      with LTimer show thesis by (intro quiet) simp_all
    qed
  next
    case (LReadTimeout now)
    then have "loop_step crc tp limits ev L = (L, [])"
      using assms open_loop by (auto simp: loop_step.simps loop_exits_keep split: if_splits)
    with LReadTimeout show thesis by (intro quiet) simp_all
  qed (use open_loop assms in \<open>simp_all add: quiet loop_step.simps loop_exits_keep\<close>)
qed

lemma timer_inv_step:
  assumes "timer_inv limits t0 a L" and "\<not> lo_left (fst (loop_step crc tp limits ev L))"
  shows "timer_inv limits t0 (last (a # heard_at crc tp limits ev L)) (fst (loop_step crc tp limits ev L))"
  using assms(2)
proof (cases rule: timers_step)
  case (frame t)
  then show ?thesis using assms(1) by (auto simp: timer_inv_def on_frame_received_def)
qed (use assms(1) in \<open>simp_all add: timer_inv_def next_deadline_def\<close>)

lemma run_left: "\<not> lo_left (fst (loop_run crc tp limits evs L)) \<Longrightarrow> \<not> lo_left L"
  using left_stays(2) [of L crc tp limits evs] by auto

lemma timer_inv_run:
  assumes "timer_inv limits t0 a L" and "\<not> lo_left (fst (loop_run crc tp limits evs L))"
  shows "timer_inv limits t0 (last (a # heard crc tp limits evs L)) (fst (loop_run crc tp limits evs L))"
  using assms
proof (induction evs arbitrary: a L)
  case (Cons ev evs)
  let ?L = "fst (loop_step crc tp limits ev L)"
  have "\<not> lo_left ?L" using Cons.prems(2) run_left by fastforce
  from Cons.IH [OF timer_inv_step [OF Cons.prems(1) this]] Cons.prems(2)
  have "timer_inv limits t0 (last (last (a # heard_at crc tp limits ev L) # heard crc tp limits evs ?L))
    (fst (loop_run crc tp limits evs ?L))" by simp
  then show ?case by (cases "heard crc tp limits evs ?L") simp_all
qed simp

lemma ping_origin:
  assumes "it_ping_sent_at (lo_idle (fst (loop_run crc tp limits evs L))) = Some s"
    and "\<not> lo_left (fst (loop_run crc tp limits evs L))" and "it_ping_sent_at (lo_idle L) = None"
  shows "\<exists>u. LTimer s u \<in> set evs"
proof -
  have "it_ping_sent_at (lo_idle L) = Some s \<or> (\<exists>u. LTimer s u \<in> set evs)"
    using assms(1,2)
  proof (induction evs arbitrary: L)
    case (Cons ev evs)
    let ?L = "fst (loop_step crc tp limits ev L)"
    have open_loop: "\<not> lo_left ?L" using Cons.prems(2) run_left by fastforce
    from Cons have "it_ping_sent_at (lo_idle ?L) = Some s \<or> (\<exists>u. LTimer s u \<in> set evs)" by simp
    moreover from open_loop have "it_ping_sent_at (lo_idle ?L) = Some s \<longrightarrow>
        it_ping_sent_at (lo_idle L) = Some s \<or> (\<exists>u. ev = LTimer s u)"
      by (cases rule: timers_step) (auto simp: on_frame_received_def)
    ultimately show ?case by auto
  qed simp
  with assms(3) show ?thesis by simp
qed

lemma silence_keeps:
  assumes "heard crc tp limits evs L = []" and "\<not> lo_left (fst (loop_run crc tp limits evs L))"
  shows "lo_handshake_deadline (fst (loop_run crc tp limits evs L)) = lo_handshake_deadline L"
    and "it_ping_sent_at (lo_idle L) = Some s \<Longrightarrow> it_ping_sent_at (lo_idle (fst (loop_run crc tp limits evs L))) = Some s"
proof -
  have "lo_handshake_deadline (fst (loop_run crc tp limits evs L)) = lo_handshake_deadline L \<and>
    (it_ping_sent_at (lo_idle L) = Some s \<longrightarrow> it_ping_sent_at (lo_idle (fst (loop_run crc tp limits evs L))) = Some s)"
    using assms
  proof (induction evs arbitrary: L)
    case (Cons ev evs)
    let ?L = "fst (loop_step crc tp limits ev L)"
    have "\<not> lo_left ?L" using Cons.prems(2) run_left by fastforce
    then show ?case using Cons by (cases rule: timers_step) simp_all
  qed simp
  then show "lo_handshake_deadline (fst (loop_run crc tp limits evs L)) = lo_handshake_deadline L"
    "it_ping_sent_at (lo_idle L) = Some s \<Longrightarrow> it_ping_sent_at (lo_idle (fst (loop_run crc tp limits evs L))) = Some s"
    by simp_all
qed

lemma timer_inv_new: "timer_inv limits t0 t0 (loop_new limits t0)"
  by (simp add: timer_inv_def loop_new_def idle_timer_new_def)

lemma fired_late:
  assumes "\<not> lo_left L" and "lo_handshake_deadline L = None \<Longrightarrow> it_ping_sent_at (lo_idle L) = Some s \<and> s + it_ping_timeout (lo_idle L) \<le> now"
    and "\<And>d. lo_handshake_deadline L = Some d \<Longrightarrow> d \<le> now"
  shows "lo_left (fst (loop_step crc tp limits (LTimer now u) L))"
  using assms
  by (cases "lo_handshake_deadline L")
     (simp_all add: loop_step.simps loop_timer_def Let_def next_deadline_def fire_def loop_exits_keep not_less)

section \<open>A frame in transit when another branch wins\<close>

lemma poll_partial:
  assumes "\<not> lo_left L" and "\<not> lo_eof L" and "fits (li_max_payload_bytes limits) f"
    and "frame_encode crc f = stream L @ tail" and "tail \<noteq> []"
  shows "frames_of_step crc tp limits (LPoll env) L = []"
    and "lo_socket (fst (loop_step crc tp limits (LPoll env) L)) = []"
    and "lo_eof (fst (loop_step crc tp limits (LPoll env) L)) = lo_eof L"
    and "\<not> lo_left (fst (loop_step crc tp limits (LPoll env) L))"
  using read_partial [OF assms(3-5)] assms(1,2) poll_pending [OF assms(1), of crc tp limits env]
  by (simp_all add: loop_step.simps loop_poll_def stream_def Let_def)

lemma outcome_drops:
  assumes "\<not> lo_left L"
  shows "stream (fst (loop_step crc tp limits (LOutcome out) L)) = lo_socket L"
    and "lo_eof (fst (loop_step crc tp limits (LOutcome out) L)) = lo_eof L"
    and "\<not> lo_left (fst (loop_step crc tp limits (LOutcome out) L))"
  using assms by (simp_all add: loop_step.simps stream_def)

lemma loop_new_simps [simp]:
  "stream (loop_new limits t0) = []" "\<not> lo_left (loop_new limits t0)" "\<not> lo_eof (loop_new limits t0)"
  "lo_in_flight (loop_new limits t0) = 0" "it_ping_sent_at (lo_idle (loop_new limits t0)) = None"
  "lo_state (loop_new limits t0) = conn_new t0"
  by (simp_all add: loop_new_def stream_def idle_timer_new_def)

section \<open>Samples\<close>

definition sample_limits :: connection_limits where
  "sample_limits =
     \<lparr>li_max_payload_bytes = 100, li_read_timeout = 5, li_auth_timeout = 10, li_idle_timeout = 30, li_ping_timeout = 10,
      li_outgoing_capacity = 4, li_max_connections = 0, li_max_connections_per_ip = 0, li_max_concurrent_streams = 2\<rparr>"

lemma sample_frame_fits: "length payload \<le> 100 \<Longrightarrow> fits 100 (sample_frame op sid payload)"
  by (simp add: fits_def sendable_def sample_frame_def wf_frame_header_def FRAME_MAGIC_def FLAGS_RESERVED_MASK_def
    MAX_PAYLOAD_BYTES_def word_le_nat_alt unat_of_nat)

lemma dispatch_sealed: "dispatch_frame tp env (sealed crc f) st = dispatch_frame tp env f st"
  by (simp add: dispatch_frame_def sealed_def opcode_u16_def stream_id_u32_def frame_seal_fields)

lemma poll_step:
  assumes "\<not> lo_left L" and "lo_taken L @ lo_socket L = frame_encode crc f @ rest" and "fits (li_max_payload_bytes limits) f"
  shows "loop_step crc tp limits (LPoll env) L =
    loop_frame tp limits env (sealed crc f)
      (L\<lparr>lo_taken := [], lo_socket := rest, lo_idle := on_frame_received (ne_instant env) (lo_idle L)\<rparr>)"
  using assms(1) read_encoded [OF assms(3)] by (simp add: loop_step.simps loop_poll_def assms(2))

definition sample_wire :: bytes where
  "sample_wire = concat (map (frame_encode (\<lambda>bs. 0)) [sample_hello, sample_login])"

definition sample_cut :: "loop_event list" where
  "sample_cut = [LArrive (take 40 sample_wire), LPoll (sample_env 2), LArrive (drop 40 sample_wire)]"

lemma sample_fit [simp]: "fits (li_max_payload_bytes sample_limits) sample_hello" "fits (li_max_payload_bytes sample_limits) sample_login"
  by (simp_all add: sample_limits_def sample_hello_def sample_login_def sample_frame_fits)

definition sample_opening :: "loop_event list" where
  "sample_opening = [LArrive sample_wire, LPoll (sample_env 2), LPoll (sample_env 3)]"

definition sample_open :: conn_loop where
  "sample_open = (loop_new sample_limits 0)\<lparr>lo_state := sample_state, lo_handshake_deadline := None,
     lo_idle := on_frame_received 3 (idle_timer_new 0 30 10)\<rparr>"

lemma sample_opens:
  "fst (loop_run (\<lambda>bs. 0) sample_topology sample_limits sample_opening (loop_new sample_limits 0)) = sample_open"
  "heard (\<lambda>bs. 0) sample_topology sample_limits sample_opening (loop_new sample_limits 0) = [2, 3]"
proof -
  let ?step = "loop_step (\<lambda>bs. 0) sample_topology sample_limits"
  let ?st = "(conn_new 0)\<lparr>cn_connection_id := [5], cn_negotiated_version := 1, cn_phase := AwaitingAuth\<rparr>"
  let ?login = "frame_encode (\<lambda>bs. 0) sample_login"
  obtain o1 o2 where d: "dispatch_frame sample_topology (sample_env 2) sample_hello (conn_new 0) = (Act_Inline o1, ?st)"
    "dispatch_frame sample_topology (sample_env 3) sample_login ?st = (Act_Inline o2, sample_state)"
    using sample_greets sample_logs_in by blast
  define L0 where "L0 = (loop_new sample_limits 0)\<lparr>lo_socket := sample_wire\<rparr>"
  have L0: "\<not> lo_left L0" "lo_taken L0 @ lo_socket L0 = frame_encode (\<lambda>bs. 0) sample_hello @ ?login"
    by (simp_all add: L0_def loop_new_def sample_wire_def)
  define L1 where "L1 = L0\<lparr>lo_socket := ?login, lo_state := ?st, lo_idle := on_frame_received 2 (lo_idle L0)\<rparr>"
  have L1: "\<not> lo_left L1" "lo_taken L1 @ lo_socket L1 = ?login @ []"
    by (simp_all add: L1_def L0_def loop_new_def)
  have inst: "ne_instant (sample_env t) = t" for t by (simp add: sample_env_def)
  have phase_open: "cn_phase sample_state = Established [7] 3 (to_space_permissions sample_scope) sample_scope"
    by (simp add: sample_state_def)
  have s0: "fst (?step (LArrive sample_wire) (loop_new sample_limits 0)) = L0"
    by (simp add: loop_step.simps L0_def loop_new_def)
  have s1: "fst (?step (LPoll (sample_env 2)) L0) = L1"
    unfolding poll_step [OF L0 sample_fit(1)]
    by (simp add: loop_frame_def dispatch_sealed d inst L1_def L0_def loop_new_def
      loop_action_def loop_send_def latch_opened_txn_def)
  have s2: "fst (?step (LPoll (sample_env 3)) L1) = sample_open"
    unfolding poll_step [OF L1 sample_fit(2)]
    by (simp add: loop_frame_def dispatch_sealed d inst L1_def L0_def loop_new_def
      loop_action_def loop_send_def latch_opened_txn_def phase_open sample_open_def sample_limits_def
      on_frame_received_def idle_timer_new_def)
  show "fst (loop_run (\<lambda>bs. 0) sample_topology sample_limits sample_opening (loop_new sample_limits 0)) = sample_open"
    by (simp add: sample_opening_def s0 s1 s2)
  show "heard (\<lambda>bs. 0) sample_topology sample_limits sample_opening (loop_new sample_limits 0) = [2, 3]"
    using poll_frame(1) [OF L0(1), of "\<lambda>bs. 0" sample_topology sample_limits] poll_frame(1) [OF L1(1), of "\<lambda>bs. 0" sample_topology sample_limits]
      read_encoded [OF sample_fit(1)] read_encoded [OF sample_fit(2), of _ _ _ "[]"] L0(2) L1(2)
    by (simp add: sample_opening_def s0 s1 inst stream_def)
qed

section \<open>Properties\<close>



text \<open>C12. The byte-level loop refines the connection of the dispatcher: for every sequence of arrivals, reads,
  timers, outcomes, finished operations and failures there is a run of the connection that is handed
  exactly the frames the loop read and ends in the loop's state; the operations and subscriptions the
  loop starts are, in order and each at most once, among the actions of that run, and once that run has
  closed the loop has left.\<close>

theorem loop_refines_session:
  "\<exists>tr. conn_steps tp (conn_new t0) tr (lo_state (fst (loop_run crc tp limits evs (loop_new limits t0)))) \<and>
    map snd (frames_in tr) = dispatched crc tp limits evs (loop_new limits t0) \<and>
    subseq (served (snd (loop_run crc tp limits evs (loop_new limits t0)))) (actions tr) \<and>
    (closed tr \<longrightarrow> lo_left (fst (loop_run crc tp limits evs (loop_new limits t0))))"
proof -
  have "follows tp (conn_new t0) [] (loop_new limits t0)" by (simp add: follows_def no_steps)
  from run_follows [OF this, of crc limits evs] show ?thesis by (auto simp: follows_def)
qed

theorem loop_refines_session_witness:
  "\<exists>tr. conn_steps sample_topology (conn_new 0) tr
       (lo_state (fst (loop_run (\<lambda>bs. 0) sample_topology sample_limits (sample_cut @ [LShutdown]) (loop_new sample_limits 0)))) \<and>
    map snd (frames_in tr) = dispatched (\<lambda>bs. 0) sample_topology sample_limits (sample_cut @ [LShutdown]) (loop_new sample_limits 0) \<and>
    subseq (served (snd (loop_run (\<lambda>bs. 0) sample_topology sample_limits (sample_cut @ [LShutdown]) (loop_new sample_limits 0)))) (actions tr)"
  using loop_refines_session [of sample_topology 0 "\<lambda>bs. 0" sample_limits "sample_cut @ [LShutdown]"] by blast

text \<open>C31. The operations of a connection are bounded: at any time at most \<open>max_concurrent_streams\<close> of them (one,
  when that is zero) are in flight, and the loop has started at most that many more than have finished.\<close>

theorem streams_bounded:
  "lo_in_flight (fst (loop_run crc tp limits evs (loop_new limits t0))) \<le> max (unat (li_max_concurrent_streams limits)) 1 \<and>
   spawned (snd (loop_run crc tp limits evs (loop_new limits t0))) \<le>
     max (unat (li_max_concurrent_streams limits)) 1 + count_list evs LOpDone"
  using budgeted_run [of "loop_new limits t0" limits evs crc tp]
  by (simp add: budgeted_def stream_cap_def)







end
