(* ===== verification/Server_Gate.thy ===== *)
theory Server_Gate
  imports Brain_Prelude "HOL-Library.Multiset"
begin

text \<open>
  Connection admission (\<open>brain-server/src/network/gate.rs\<close>): the shared counters behind
  \<open>ConnectionGate\<close>, and \<open>try_admit\<close> and the guard's \<open>drop\<close> as the atomic steps they take. Any number of
  connections run these steps interleaved: \<open>gate_step\<close> moves one task by one atomic operation (one
  load, one compare-exchange, one fetch-and-add, one critical section of the per-IP mutex).
  The lemmas show that the counters always equal the slots held, whatever the interleaving, so the
  caps hold for the connections admitted, the per-IP table has no stale entry, and a free slot can be
  taken.
\<close>

section \<open>Counters\<close>

datatype ip_addr = V4 u32 | V6 u128

record gate =
  g_max_total :: nat
  g_max_per_ip :: nat
  g_total :: nat
  g_per_ip :: "ip_addr \<rightharpoonup> nat"
  g_rejected :: nat

definition gate_new :: "nat \<Rightarrow> nat \<Rightarrow> gate" where
  "gate_new max_total max_per_ip =
     \<lparr>g_max_total = max_total, g_max_per_ip = max_per_ip, g_total = 0, g_per_ip = Map.empty,
      g_rejected = 0\<rparr>"

definition live_total :: "gate \<Rightarrow> nat" where
  "live_total g = g_total g"

definition live_for_ip :: "gate \<Rightarrow> ip_addr \<Rightarrow> nat" where
  "live_for_ip g ip = (case g_per_ip g ip of Some n \<Rightarrow> n | None \<Rightarrow> 0)"

section \<open>The atomic operations\<close>

text \<open>
  Where a connection is: \<open>Reserving ip cur\<close> is the compare-exchange loop of \<open>reserve_global\<close> with the
  value last read, \<open>OverIpCap\<close> is the branch that gives the global slot back, \<open>Shed\<close> has still to bump
  the rejection counter, \<open>Admitted\<close> holds the guard and \<open>Releasing\<close> is inside its \<open>drop\<close>.
\<close>

datatype task =
    Arriving ip_addr | Reserving ip_addr nat | Reserved ip_addr | OverIpCap ip_addr | Shed ip_addr
  | Admitted ip_addr | Releasing ip_addr | Rejected ip_addr | Closed ip_addr

definition fetch_add_total :: "gate \<Rightarrow> gate" where
  "fetch_add_total g = g\<lparr>g_total := g_total g + 1\<rparr>"

definition release_global :: "gate \<Rightarrow> gate" where
  "release_global g = g\<lparr>g_total := g_total g - 1\<rparr>"

definition bump_rejected :: "gate \<Rightarrow> gate" where
  "bump_rejected g = g\<lparr>g_rejected := g_rejected g + 1\<rparr>"

text \<open>The critical section of \<open>try_admit\<close>: \<open>entry(ip).or_insert(0)\<close>, the cap test, the increment.\<close>

definition admit_ip :: "ip_addr \<Rightarrow> gate \<Rightarrow> gate \<times> bool" where
  "admit_ip ip g =
     (let cnt = live_for_ip g ip
      in if g_max_per_ip g \<noteq> 0 \<and> g_max_per_ip g \<le> cnt
         then (g\<lparr>g_per_ip := (g_per_ip g)(ip \<mapsto> cnt)\<rparr>, False)
         else (g\<lparr>g_per_ip := (g_per_ip g)(ip \<mapsto> cnt + 1)\<rparr>, True))"

text \<open>The critical section of the guard's \<open>drop\<close>.\<close>

definition release_ip :: "ip_addr \<Rightarrow> gate \<Rightarrow> gate" where
  "release_ip ip g =
     (case g_per_ip g ip of
        None \<Rightarrow> g
      | Some cnt \<Rightarrow>
          if cnt - 1 = 0 then g\<lparr>g_per_ip := (g_per_ip g)(ip := None)\<rparr>
          else g\<lparr>g_per_ip := (g_per_ip g)(ip \<mapsto> cnt - 1)\<rparr>)"

inductive gate_step :: "gate \<times> task multiset \<Rightarrow> gate \<times> task multiset \<Rightarrow> bool" where
  accepted: "gate_step (g, ts) (g, add_mset (Arriving ip) ts)"
| uncapped: "g_max_total g = 0 \<Longrightarrow>
    gate_step (g, add_mset (Arriving ip) ts) (fetch_add_total g, add_mset (Reserved ip) ts)"
| loaded: "g_max_total g \<noteq> 0 \<Longrightarrow>
    gate_step (g, add_mset (Arriving ip) ts) (g, add_mset (Reserving ip (g_total g)) ts)"
| refused: "g_max_total g \<le> cur \<Longrightarrow>
    gate_step (g, add_mset (Reserving ip cur) ts) (g, add_mset (Shed ip) ts)"
| exchanged: "cur < g_max_total g \<Longrightarrow> g_total g = cur \<Longrightarrow>
    gate_step (g, add_mset (Reserving ip cur) ts) (fetch_add_total g, add_mset (Reserved ip) ts)"
| exchange_failed: "cur < g_max_total g \<Longrightarrow>
    gate_step (g, add_mset (Reserving ip cur) ts) (g, add_mset (Reserving ip (g_total g)) ts)"
| ip_admitted: "admit_ip ip g = (g', True) \<Longrightarrow>
    gate_step (g, add_mset (Reserved ip) ts) (g', add_mset (Admitted ip) ts)"
| ip_full: "admit_ip ip g = (g', False) \<Longrightarrow>
    gate_step (g, add_mset (Reserved ip) ts) (g', add_mset (OverIpCap ip) ts)"
| gave_back: "gate_step (g, add_mset (OverIpCap ip) ts) (release_global g, add_mset (Shed ip) ts)"
| counted: "gate_step (g, add_mset (Shed ip) ts) (bump_rejected g, add_mset (Rejected ip) ts)"
| drop_started: "gate_step (g, add_mset (Admitted ip) ts) (release_global g, add_mset (Releasing ip) ts)"
| dropped: "gate_step (g, add_mset (Releasing ip) ts) (release_ip ip g, add_mset (Closed ip) ts)"

definition gate_reach :: "nat \<Rightarrow> nat \<Rightarrow> gate \<Rightarrow> task multiset \<Rightarrow> bool" where
  "gate_reach mt mp g ts \<longleftrightarrow> gate_step\<^sup>*\<^sup>* (gate_new mt mp, {#}) (g, ts)"

section \<open>Slots held\<close>

fun holds_global :: "task \<Rightarrow> bool" where
  "holds_global (Reserved ip) = True"
| "holds_global (OverIpCap ip) = True"
| "holds_global (Admitted ip) = True"
| "holds_global t = False"

definition global_slots :: "task multiset \<Rightarrow> nat" where
  "global_slots ts = size (filter_mset holds_global ts)"

definition ip_slots :: "ip_addr \<Rightarrow> task multiset \<Rightarrow> nat" where
  "ip_slots ip ts = count ts (Admitted ip) + count ts (Releasing ip)"

definition admitted :: "task multiset \<Rightarrow> nat" where
  "admitted ts = size {#t \<in># ts. \<exists>ip. t = Admitted ip#}"

definition turned_away :: "task multiset \<Rightarrow> nat" where
  "turned_away ts = size {#t \<in># ts. \<exists>ip. t = Rejected ip#}"

definition entry_of :: "nat \<Rightarrow> nat option" where
  "entry_of n = (if n = 0 then None else Some n)"

definition gate_inv :: "gate \<Rightarrow> task multiset \<Rightarrow> bool" where
  "gate_inv g ts \<longleftrightarrow>
     g_total g = global_slots ts \<and>
     (g_max_total g \<noteq> 0 \<longrightarrow> g_total g \<le> g_max_total g) \<and>
     (\<forall>ip. g_per_ip g ip = entry_of (ip_slots ip ts)) \<and>
     (g_max_per_ip g \<noteq> 0 \<longrightarrow> (\<forall>ip. ip_slots ip ts \<le> g_max_per_ip g)) \<and>
     g_rejected g = turned_away ts"

lemmas gate_ops =
  fetch_add_total_def release_global_def bump_rejected_def admit_ip_def release_ip_def

lemma slots_empty [simp]: "global_slots {#} = 0" "ip_slots ip {#} = 0" "turned_away {#} = 0"
  by (simp_all add: global_slots_def ip_slots_def turned_away_def)

lemma slots_add [simp]:
  "global_slots (add_mset t ts) = (if holds_global t then 1 else 0) + global_slots ts"
  "ip_slots ip (add_mset t ts) = (if t = Admitted ip \<or> t = Releasing ip then 1 else 0) + ip_slots ip ts"
  "turned_away (add_mset t ts) = (if \<exists>ip. t = Rejected ip then 1 else 0) + turned_away ts"
  by (auto simp: global_slots_def ip_slots_def turned_away_def)

lemma entry_of_simps [simp]:
  "entry_of 0 = None" "entry_of (Suc n) = Some (Suc n)" "entry_of n = Some m \<longleftrightarrow> n = m \<and> 0 < n"
  "Some m = entry_of n \<longleftrightarrow> n = m \<and> 0 < n"
  by (auto simp: entry_of_def)

lemma gate_inv_new: "gate_inv (gate_new mt mp) {#}"
  by (simp add: gate_inv_def gate_new_def)

lemma gate_inv_live: "gate_inv g ts \<Longrightarrow> live_for_ip g ip = ip_slots ip ts"
  by (simp add: gate_inv_def live_for_ip_def entry_of_def)

lemma gate_step_inv:
  assumes "gate_step s s'" and "gate_inv (fst s) (snd s)"
  shows "gate_inv (fst s') (snd s')"
  using assms
proof (induction rule: gate_step.induct)
  case (ip_admitted ip g g' ts)
  then show ?case
    using gate_inv_live [of g "add_mset (Reserved ip) ts" ip]
    by (auto simp: gate_ops gate_inv_def Let_def not_le Suc_le_eq split: if_splits)
next
  case (ip_full ip g g' ts)
  then show ?case
    using gate_inv_live [of g "add_mset (Reserved ip) ts" ip]
    by (auto simp: gate_ops gate_inv_def Let_def split: if_splits)
next
  case (dropped g ip ts)
  then have "g_per_ip g ip = Some (Suc (ip_slots ip ts))" by (simp add: gate_inv_def)
  moreover have "g_max_per_ip g \<noteq> 0 \<Longrightarrow> ip_slots q ts \<le> g_max_per_ip g" for q
    using dropped by (simp add: gate_inv_def) (meson add_leD2)
  ultimately show ?case
    using dropped by (auto simp: gate_ops gate_inv_def entry_of_def)
qed (auto simp: gate_ops gate_inv_def)

lemma gate_reach_inv:
  assumes "gate_reach mt mp g ts"
  shows "gate_inv g ts"
proof -
  have "gate_step\<^sup>*\<^sup>* (gate_new mt mp, {#}) s \<Longrightarrow> gate_inv (fst s) (snd s)" for s
    by (induction rule: rtranclp_induct) (auto simp: gate_inv_new dest: gate_step_inv)
  from this [of "(g, ts)"] assms show ?thesis by (simp add: gate_reach_def)
qed


section \<open>Properties\<close>

lemma admitted_add [simp]: "admitted {#} = 0"
  "admitted (add_mset t ts) = (if \<exists>ip. t = Admitted ip then 1 else 0) + admitted ts"
  by (simp_all add: admitted_def)

lemma admitted_le_global: "admitted ts \<le> global_slots ts"
  by (induction ts) auto

lemma gate_step_caps: "gate_step s s' \<Longrightarrow>
  g_max_total (fst s') = g_max_total (fst s) \<and> g_max_per_ip (fst s') = g_max_per_ip (fst s)"
  by (induction rule: gate_step.induct) (auto simp: gate_ops Let_def split: if_splits option.splits)

lemma gate_reach_caps:
  assumes "gate_reach mt mp g ts"
  shows "g_max_total g = mt" and "g_max_per_ip g = mp"
proof -
  have "gate_step\<^sup>*\<^sup>* (gate_new mt mp, {#}) s \<Longrightarrow> g_max_total (fst s) = mt \<and> g_max_per_ip (fst s) = mp" for s
    by (induction rule: rtranclp_induct) (auto simp: gate_new_def dest: gate_step_caps)
  from this [of "(g, ts)"] assms show "g_max_total g = mt" and "g_max_per_ip g = mp"
    by (simp_all add: gate_reach_def)
qed


text \<open>A run with a global cap of one: the second connection reads the counter before the first one's
  exchange, loses the race, retries and is turned away.\<close>

definition race_gate :: gate where
  "race_gate = \<lparr>g_max_total = 1, g_max_per_ip = 1, g_total = 1, g_per_ip = [V4 7 \<mapsto> 1], g_rejected = 1\<rparr>"

lemma race_reach: "gate_reach 1 1 race_gate {#Admitted (V4 7), Rejected (V4 8)#}"
proof -
  let ?a = "V4 7" and ?b = "V4 8"
  let ?g0 = "gate_new 1 1"
  let ?g1 = "fetch_add_total ?g0"
  let ?g2 = "?g1\<lparr>g_per_ip := [?a \<mapsto> 1]\<rparr>"
  note step = rtranclp.rtrancl_into_rtrancl [where r = gate_step]
  have "gate_step\<^sup>*\<^sup>* (?g0, {#}) (?g0, {#Arriving ?a#})"
    using accepted by (intro r_into_rtranclp)
  from step [OF this accepted [of _ _ ?b]] have "gate_step\<^sup>*\<^sup>* (?g0, {#}) (?g0, {#Arriving ?a, Arriving ?b#})"
    by (simp add: add_mset_commute)
  from step [OF this loaded] have "gate_step\<^sup>*\<^sup>* (?g0, {#}) (?g0, {#Reserving ?a 0, Arriving ?b#})"
    by (simp add: gate_new_def)
  from step [OF this [unfolded add_mset_commute [of "Reserving ?a 0"]] loaded]
  have "gate_step\<^sup>*\<^sup>* (?g0, {#}) (?g0, {#Reserving ?b 0, Reserving ?a 0#})"
    by (simp add: gate_new_def)
  from step [OF this [unfolded add_mset_commute [of "Reserving ?b 0"]] exchanged]
  have "gate_step\<^sup>*\<^sup>* (?g0, {#}) (?g1, {#Reserved ?a, Reserving ?b 0#})"
    by (simp add: gate_new_def)
  from step [OF this [unfolded add_mset_commute [of "Reserved ?a"]] exchange_failed]
  have "gate_step\<^sup>*\<^sup>* (?g0, {#}) (?g1, {#Reserving ?b 1, Reserved ?a#})"
    by (simp add: gate_new_def fetch_add_total_def)
  from step [OF this refused] have "gate_step\<^sup>*\<^sup>* (?g0, {#}) (?g1, {#Shed ?b, Reserved ?a#})"
    by (simp add: gate_new_def fetch_add_total_def)
  from step [OF this [unfolded add_mset_commute [of "Shed ?b"]] ip_admitted, of ?g2]
  have "gate_step\<^sup>*\<^sup>* (?g0, {#}) (?g2, {#Admitted ?a, Shed ?b#})"
    by (simp add: admit_ip_def live_for_ip_def gate_new_def fetch_add_total_def Let_def)
  from step [OF this [unfolded add_mset_commute [of "Admitted ?a"]] counted]
  show ?thesis
    by (simp add: gate_reach_def race_gate_def gate_new_def fetch_add_total_def bump_rejected_def add_mset_commute)
qed


text \<open>A free slot can always be taken: in every reachable state with a connection waiting, fewer
  slots held than the global cap and fewer guards of its address than the per-IP cap, three steps of
  that connection alone (two without a global cap) admit it.\<close>

theorem gate_admits_when_free:
  assumes "gate_reach max_total max_per_ip g (add_mset (Arriving ip) ts)"
    and "max_total = 0 \<or> g_total g < max_total"
    and "max_per_ip = 0 \<or> live_for_ip g ip < max_per_ip"
  shows "\<exists>g'. gate_reach max_total max_per_ip g' (add_mset (Admitted ip) ts) \<and>
    live_for_ip g' ip = live_for_ip g ip + 1"
proof -
  note caps = gate_reach_caps [OF assms(1)]
  let ?g1 = "fetch_add_total g" and ?n = "live_for_ip g ip"
  let ?g2 = "?g1\<lparr>g_per_ip := (g_per_ip g)(ip \<mapsto> ?n + 1)\<rparr>"
  have "gate_step\<^sup>*\<^sup>* (g, add_mset (Arriving ip) ts) (?g1, add_mset (Reserved ip) ts)"
  proof (cases "max_total = 0")
    case True
    then show ?thesis using caps by (intro r_into_rtranclp uncapped) simp
  next
    case False
    then have "gate_step (g, add_mset (Arriving ip) ts) (g, add_mset (Reserving ip (g_total g)) ts)"
      using caps by (intro loaded) simp
    moreover have "gate_step (g, add_mset (Reserving ip (g_total g)) ts) (?g1, add_mset (Reserved ip) ts)"
      using False assms(2) caps by (intro exchanged) simp_all
    ultimately show ?thesis by (meson r_into_rtranclp rtranclp_trans)
  qed
  moreover have "admit_ip ip ?g1 = (?g2, True)"
    using assms(3) caps by (auto simp: admit_ip_def live_for_ip_def fetch_add_total_def Let_def)
  then have "gate_step (?g1, add_mset (Reserved ip) ts) (?g2, add_mset (Admitted ip) ts)"
    by (rule ip_admitted)
  ultimately have "gate_reach max_total max_per_ip ?g2 (add_mset (Admitted ip) ts)"
    using assms(1) unfolding gate_reach_def by (meson rtranclp.rtrancl_into_rtrancl rtranclp_trans)
  moreover have "live_for_ip ?g2 ip = ?n + 1" by (simp add: live_for_ip_def)
  ultimately show ?thesis by blast
qed

theorem gate_admits_when_free_witness:
  "\<exists>g'. gate_reach 5 2 g' {#Admitted (V4 7)#} \<and> live_for_ip g' (V4 7) = 1"
proof -
  have "gate_reach 5 2 (gate_new 5 2) {#Arriving (V4 7)#}"
    unfolding gate_reach_def by (intro r_into_rtranclp accepted)
  from gate_admits_when_free [OF this] show ?thesis
    by (simp add: gate_new_def live_for_ip_def)
qed

end
