(* ===== verification/Meta_Edges.thy ===== *)
theory Meta_Edges
  imports Core_Edges "HOL-Library.List_Lexorder"
begin

text \<open>
  The unified edge tables (\<open>brain-metadata/src/tables/edge.rs\<close>): the composite key and its byte codec,
  \<open>link\<close> and \<open>unlink\<close> on the forward and the reverse table with the mirroring of symmetric kinds, point
  lookup and range scans. A redb table is its contents, a map from key bytes to rows; a failed table
  call is an argument. What redb returns for a range is an argument too: \<open>lists_range\<close> says that it is
  the rows of the range in key order.
  The lemmas show the key round trip, that the two tables stay mirror images of each other and that
  symmetric edges stay symmetric, and that the scans return exactly the edges of a node.
\<close>

section \<open>Rows and keys\<close>

record edge_data =
  ed_weight :: f32
  ed_origin :: u8
  ed_derived_by :: u8
  ed_created_at_unix_nanos :: u64
  ed_annotation :: "bytes option"

definition edge_data_new :: "f32 \<Rightarrow> u8 \<Rightarrow> u8 \<Rightarrow> u64 \<Rightarrow> edge_data" where
  "edge_data_new weight origin derived_by created_at =
     \<lparr>ed_weight = weight, ed_origin = origin, ed_derived_by = derived_by,
      ed_created_at_unix_nanos = created_at, ed_annotation = None\<rparr>"

record edge_key =
  ek_from :: node_ref
  ek_kind :: edge_kind_ref
  ek_to :: node_ref
  ek_disambiguator :: bytes

definition DISAMBIGUATOR_LEN :: nat where
  "DISAMBIGUATOR_LEN = 16"

definition NODE_REF_BYTES :: nat where
  "NODE_REF_BYTES = 17"

definition EDGE_KIND_REF_MAX_BYTES :: nat where
  "EDGE_KIND_REF_MAX_BYTES = 5"

definition zero_disambiguator :: bytes where
  "zero_disambiguator = replicate DISAMBIGUATOR_LEN 0"

definition edge_key_encoded_len :: "edge_key \<Rightarrow> nat" where
  "edge_key_encoded_len k =
     NODE_REF_BYTES + edge_kind_ref_encoded_len (ek_kind k) + NODE_REF_BYTES + DISAMBIGUATOR_LEN"

definition edge_key_encode :: "edge_key \<Rightarrow> bytes" where
  "edge_key_encode k =
     node_ref_to_bytes (ek_from k) @ edge_kind_ref_to_bytes (ek_kind k) @ node_ref_to_bytes (ek_to k) @
     ek_disambiguator k"

datatype edge_key_error =
    KeyShort nat | KeyTrailing nat | KeyBadNodeRef node_ref_error | KeyBadEdgeKind edge_kind_ref_error

definition edge_key_decode :: "bytes \<Rightarrow> edge_key_error + edge_key" where
  "edge_key_decode bs =
     (if length bs < NODE_REF_BYTES then Inl (KeyShort (length bs))
      else (case node_ref_from_bytes (take NODE_REF_BYTES bs) of
        Inl e \<Rightarrow> Inl (KeyBadNodeRef e)
      | Inr from \<Rightarrow>
          (case edge_kind_ref_decode_from (drop NODE_REF_BYTES bs) of
             Inl e \<Rightarrow> Inl (KeyBadEdgeKind e)
           | Inr (kind, kind_len) \<Rightarrow>
               let to_offset = NODE_REF_BYTES + kind_len
               in if length bs < to_offset + NODE_REF_BYTES + DISAMBIGUATOR_LEN then Inl (KeyShort (length bs))
                  else (case node_ref_from_bytes (subslice bs to_offset (to_offset + NODE_REF_BYTES)) of
                    Inl e \<Rightarrow> Inl (KeyBadNodeRef e)
                  | Inr to \<Rightarrow>
                      let disamb_offset = to_offset + NODE_REF_BYTES;
                          disambiguator = subslice bs disamb_offset (disamb_offset + DISAMBIGUATOR_LEN)
                      in if length bs \<noteq> disamb_offset + DISAMBIGUATOR_LEN
                         then Inl (KeyTrailing (length bs - (disamb_offset + DISAMBIGUATOR_LEN)))
                         else Inr \<lparr>ek_from = from, ek_kind = kind, ek_to = to, ek_disambiguator = disambiguator\<rparr>))))"

definition from_prefix :: "node_ref \<Rightarrow> bytes" where
  "from_prefix from = node_ref_to_bytes from"

definition from_kind_prefix :: "node_ref \<Rightarrow> edge_kind_ref \<Rightarrow> bytes" where
  "from_kind_prefix from kind = node_ref_to_bytes from @ edge_kind_ref_to_bytes kind"

definition wf_edge_key :: "edge_key \<Rightarrow> bool" where
  "wf_edge_key k \<longleftrightarrow>
     wf_node_ref (ek_from k) \<and> wf_node_ref (ek_to k) \<and> length (ek_disambiguator k) = DISAMBIGUATOR_LEN"

section \<open>Link and unlink\<close>

type_synonym edge_table = "bytes \<rightharpoonup> edge_data"

record edge_tables =
  et_edges :: edge_table
  et_reverse :: edge_table

datatype edge_op_error = EdgeStorage | EdgeKeyDecode edge_key_error

definition symmetric_auto_mirror :: "edge_kind_ref \<Rightarrow> bool" where
  "symmetric_auto_mirror kind \<longleftrightarrow> (case kind of Builtin k \<Rightarrow> edge_kind_is_symmetric k | _ \<Rightarrow> False)"

definition insert_pair ::
  "node_ref \<Rightarrow> edge_kind_ref \<Rightarrow> node_ref \<Rightarrow> bytes \<Rightarrow> edge_data \<Rightarrow> edge_tables \<Rightarrow> edge_tables" where
  "insert_pair from kind to d data t =
     (let fwd = \<lparr>ek_from = from, ek_kind = kind, ek_to = to, ek_disambiguator = d\<rparr>;
          rev = \<lparr>ek_from = to, ek_kind = kind, ek_to = from, ek_disambiguator = d\<rparr>
      in t\<lparr>et_edges := (et_edges t)(edge_key_encode fwd \<mapsto> data),
           et_reverse := (et_reverse t)(edge_key_encode rev \<mapsto> data)\<rparr>)"

definition remove_pair ::
  "node_ref \<Rightarrow> edge_kind_ref \<Rightarrow> node_ref \<Rightarrow> bytes \<Rightarrow> edge_tables \<Rightarrow> edge_tables" where
  "remove_pair from kind to d t =
     (let fwd = \<lparr>ek_from = from, ek_kind = kind, ek_to = to, ek_disambiguator = d\<rparr>;
          rev = \<lparr>ek_from = to, ek_kind = kind, ek_to = from, ek_disambiguator = d\<rparr>
      in t\<lparr>et_edges := (et_edges t)(edge_key_encode fwd := None),
           et_reverse := (et_reverse t)(edge_key_encode rev := None)\<rparr>)"

text \<open>A failed call leaves the write transaction to be dropped by the caller: nothing is committed.\<close>

definition edge_link ::
  "bool \<Rightarrow> node_ref \<Rightarrow> edge_kind_ref \<Rightarrow> node_ref \<Rightarrow> bytes \<Rightarrow> edge_data \<Rightarrow> edge_tables \<Rightarrow>
     edge_op_error + edge_tables" where
  "edge_link io_ok from kind to d data t =
     (if \<not> io_ok then Inl EdgeStorage
      else
        let t1 = insert_pair from kind to d data t
        in Inr (if symmetric_auto_mirror kind \<and> from \<noteq> to then insert_pair to kind from d data t1 else t1))"

definition edge_get :: "node_ref \<Rightarrow> edge_kind_ref \<Rightarrow> node_ref \<Rightarrow> bytes \<Rightarrow> edge_tables \<Rightarrow> edge_data option" where
  "edge_get from kind to d t =
     et_edges t (edge_key_encode \<lparr>ek_from = from, ek_kind = kind, ek_to = to, ek_disambiguator = d\<rparr>)"

definition edge_unlink ::
  "bool \<Rightarrow> node_ref \<Rightarrow> edge_kind_ref \<Rightarrow> node_ref \<Rightarrow> bytes \<Rightarrow> edge_tables \<Rightarrow> edge_op_error + (bool \<times> edge_tables)" where
  "edge_unlink io_ok from kind to d t =
     (if \<not> io_ok then Inl EdgeStorage
      else
        let removed = (edge_get from kind to d t \<noteq> None); t1 = remove_pair from kind to d t
        in Inr (removed,
             if symmetric_auto_mirror kind \<and> from \<noteq> to then remove_pair to kind from d t1 else t1))"

section \<open>Range scans\<close>

type_synonym edge_row = "edge_kind_ref \<times> node_ref \<times> bytes \<times> edge_data"

definition range_bounds :: "node_ref \<Rightarrow> edge_kind_ref option \<Rightarrow> bytes \<times> bytes" where
  "range_bounds anchor kind_filter =
     (case kind_filter of
        Some k \<Rightarrow>
          let prefix = from_kind_prefix anchor k
          in (prefix, prefix @ replicate (NODE_REF_BYTES + DISAMBIGUATOR_LEN) 0xFF)
      | None \<Rightarrow>
          let prefix = from_prefix anchor
          in (prefix, prefix @ replicate (EDGE_KIND_REF_MAX_BYTES + NODE_REF_BYTES + DISAMBIGUATOR_LEN) 0xFF))"

text \<open>The loop of \<open>range_scan\<close> over the rows the table returns for its bounds.\<close>

fun range_scan ::
  "node_ref \<Rightarrow> edge_kind_ref option \<Rightarrow> (bytes \<times> edge_data) list \<Rightarrow> edge_op_error + edge_row list" where
  "range_scan anchor kind_filter [] = Inr []"
| "range_scan anchor kind_filter ((k, v) # rows) =
     (case edge_key_decode k of
        Inl e \<Rightarrow> Inl (EdgeKeyDecode e)
      | Inr key \<Rightarrow>
          (case range_scan anchor kind_filter rows of
             Inl e \<Rightarrow> Inl e
           | Inr out \<Rightarrow>
               if ek_from key \<noteq> anchor then Inr out
               else if kind_filter \<noteq> None \<and> kind_filter \<noteq> Some (ek_kind key) then Inr out
               else Inr ((ek_kind key, ek_to key, ek_disambiguator key, v) # out)))"

definition lists_range :: "edge_table \<Rightarrow> bytes \<times> bytes \<Rightarrow> (bytes \<times> edge_data) list \<Rightarrow> bool" where
  "lists_range t bounds rows \<longleftrightarrow>
     sorted_wrt (\<lambda>a b. fst a < fst b) rows \<and>
     (\<forall>k v. (k, v) \<in> set rows \<longleftrightarrow> t k = Some v \<and> fst bounds \<le> k \<and> k \<le> snd bounds)"

fun memory_neighbour :: "edge_row \<Rightarrow> (edge_kind \<times> memory_id \<times> edge_data) option" where
  "memory_neighbour (Builtin k, NodeMemory m, d, v) = Some (k, m, v)"
| "memory_neighbour row = None"

text \<open>\<open>list_memory_edges_from\<close> and \<open>list_memory_edges_to\<close>, on the forward and the reverse rows.\<close>

definition list_memory_edges ::
  "memory_id \<Rightarrow> edge_kind option \<Rightarrow> (bytes \<times> edge_data) list \<Rightarrow>
     edge_op_error + (edge_kind \<times> memory_id \<times> edge_data) list" where
  "list_memory_edges anchor kind rows =
     map_sum id (List.map_filter memory_neighbour) (range_scan (NodeMemory anchor) (map_option Builtin kind) rows)"

section \<open>Key codec\<close>

lemmas edge_sizes = NODE_REF_BYTES_def DISAMBIGUATOR_LEN_def EDGE_KIND_REF_MAX_BYTES_def

lemma edge_key_roundtrip:
  assumes "wf_edge_key k"
  shows "edge_key_decode (edge_key_encode k) = Inr k"
proof -
  define a c where "a = node_ref_to_bytes (ek_from k)" and "c = node_ref_to_bytes (ek_to k)"
  define b where "b = edge_kind_ref_to_bytes (ek_kind k)"
  let ?n = "edge_kind_ref_encoded_len (ek_kind k)"
  have len: "length a = 17" "length c = 17" "length (ek_disambiguator k) = 16" "length b = ?n"
    using assms by (simp_all add: wf_edge_key_def a_def b_def c_def DISAMBIGUATOR_LEN_def)
  have enc: "edge_key_encode k = a @ b @ c @ ek_disambiguator k"
    by (simp add: edge_key_encode_def a_def b_def c_def)
  have slices: "take 17 (edge_key_encode k) = a" "drop 17 (edge_key_encode k) = b @ c @ ek_disambiguator k"
    "subslice (edge_key_encode k) (17 + ?n) (17 + ?n + 17) = c"
    "subslice (edge_key_encode k) (17 + ?n + 17) (17 + ?n + 17 + 16) = ek_disambiguator k"
    "length (edge_key_encode k) = 17 + ?n + 17 + 16"
    using len by (simp_all add: enc subslice_def)
  have dec: "node_ref_from_bytes a = Inr (ek_from k)" "node_ref_from_bytes c = Inr (ek_to k)"
    "edge_kind_ref_decode_from (b @ c @ ek_disambiguator k) = Inr (ek_kind k, ?n)"
    using assms by (simp_all add: a_def b_def c_def wf_edge_key_def)
  show ?thesis
    unfolding edge_key_decode_def edge_sizes Let_def slices dec sum.case prod.case by simp
qed

lemma edge_key_encode_inject:
  "wf_edge_key k \<Longrightarrow> wf_edge_key k' \<Longrightarrow> edge_key_encode k = edge_key_encode k' \<longleftrightarrow> k = k'"
  using edge_key_roundtrip by (metis sum.inject(2))

lemma edge_key_encoded_len: "wf_edge_key k \<Longrightarrow> length (edge_key_encode k) = edge_key_encoded_len k"
  by (simp add: edge_key_encode_def edge_key_encoded_len_def wf_edge_key_def edge_sizes)

section \<open>Mirror images\<close>

definition swap_key :: "edge_key \<Rightarrow> edge_key" where
  "swap_key k = \<lparr>ek_from = ek_to k, ek_kind = ek_kind k, ek_to = ek_from k, ek_disambiguator = ek_disambiguator k\<rparr>"

lemma swap_key_simps [simp]:
  "swap_key (swap_key k) = k" "ek_from (swap_key k) = ek_to k" "ek_to (swap_key k) = ek_from k"
  "ek_kind (swap_key k) = ek_kind k" "wf_edge_key (swap_key k) = wf_edge_key k"
  "swap_key k = swap_key k' \<longleftrightarrow> k = k'"
  by (auto simp: swap_key_def wf_edge_key_def intro: edge_key.equality)

lemma swap_key_eq: "swap_key k = k' \<longleftrightarrow> k = swap_key k'"
  by (metis swap_key_simps(1))

definition wf_edge_table :: "edge_table \<Rightarrow> bool" where
  "wf_edge_table t \<longleftrightarrow> (\<forall>b v. t b = Some v \<longrightarrow> (\<exists>k. wf_edge_key k \<and> b = edge_key_encode k))"

definition edge_inv :: "edge_tables \<Rightarrow> bool" where
  "edge_inv t \<longleftrightarrow>
     wf_edge_table (et_edges t) \<and> wf_edge_table (et_reverse t) \<and>
     (\<forall>k. wf_edge_key k \<longrightarrow> et_reverse t (edge_key_encode (swap_key k)) = et_edges t (edge_key_encode k)) \<and>
     (\<forall>k. wf_edge_key k \<and> symmetric_auto_mirror (ek_kind k) \<longrightarrow>
        et_edges t (edge_key_encode (swap_key k)) = et_edges t (edge_key_encode k))"

definition put_key :: "edge_key \<Rightarrow> edge_data option \<Rightarrow> edge_tables \<Rightarrow> edge_tables" where
  "put_key k v t =
     t\<lparr>et_edges := (et_edges t)(edge_key_encode k := v),
       et_reverse := (et_reverse t)(edge_key_encode (swap_key k) := v)\<rparr>"

text \<open>Both operations write one value under a key and, for a symmetric kind, under its mirror.\<close>

definition put_both :: "edge_key \<Rightarrow> edge_data option \<Rightarrow> edge_tables \<Rightarrow> edge_tables" where
  "put_both k v t =
     (if symmetric_auto_mirror (ek_kind k) \<and> ek_from k \<noteq> ek_to k then put_key (swap_key k) v (put_key k v t)
      else put_key k v t)"

lemma edge_link_put:
  "edge_link True from kind to d data t =
     Inr (put_both \<lparr>ek_from = from, ek_kind = kind, ek_to = to, ek_disambiguator = d\<rparr> (Some data) t)"
  by (simp add: edge_link_def put_both_def put_key_def insert_pair_def swap_key_def Let_def)

lemma edge_unlink_put:
  "edge_unlink True from kind to d t =
     Inr (edge_get from kind to d t \<noteq> None,
       put_both \<lparr>ek_from = from, ek_kind = kind, ek_to = to, ek_disambiguator = d\<rparr> None t)"
  by (simp add: edge_unlink_def put_both_def put_key_def remove_pair_def swap_key_def Let_def)

lemma edge_ops_failed [simp]:
  "edge_link False from kind to d data t = Inl EdgeStorage" "edge_unlink False from kind to d t = Inl EdgeStorage"
  by (simp_all add: edge_link_def edge_unlink_def)

lemma put_both_edges:
  assumes "wf_edge_key k" and "wf_edge_key k'"
  shows "et_edges (put_both k v t) (edge_key_encode k') =
    (if k' = k \<or> symmetric_auto_mirror (ek_kind k) \<and> k' = swap_key k then v
     else et_edges t (edge_key_encode k'))"
proof -
  have self: "swap_key k = k" if "ek_from k = ek_to k"
    using that by (auto simp: swap_key_def intro: edge_key.equality)
  show ?thesis
    using assms edge_key_encode_inject [of k' k] edge_key_encode_inject [of k' "swap_key k"] self
    by (auto simp: put_both_def put_key_def)
qed

lemma put_both_reverse:
  assumes "wf_edge_key k" and "wf_edge_key k'"
  shows "et_reverse (put_both k v t) (edge_key_encode k') =
    (if k' = swap_key k \<or> symmetric_auto_mirror (ek_kind k) \<and> k' = k then v
     else et_reverse t (edge_key_encode k'))"
proof -
  have self: "swap_key k = k" if "ek_from k = ek_to k"
    using that by (auto simp: swap_key_def intro: edge_key.equality)
  show ?thesis
    using assms edge_key_encode_inject [of k' k] edge_key_encode_inject [of k' "swap_key k"] self
    by (auto simp: put_both_def put_key_def)
qed

lemma wf_edge_table_upd:
  "wf_edge_table t \<Longrightarrow> wf_edge_key k \<Longrightarrow> wf_edge_table (t(edge_key_encode k := v))"
  by (auto simp: wf_edge_table_def)

lemma put_both_inv:
  assumes "edge_inv t" and "wf_edge_key k"
  shows "edge_inv (put_both k v t)"
proof -
  have "wf_edge_table (et_edges (put_both k v t))" "wf_edge_table (et_reverse (put_both k v t))"
    using assms by (simp_all add: put_both_def put_key_def edge_inv_def wf_edge_table_upd)
  moreover have "et_reverse (put_both k v t) (edge_key_encode (swap_key k')) =
      et_edges (put_both k v t) (edge_key_encode k')" if "wf_edge_key k'" for k'
    using assms that
    by (auto simp: put_both_edges put_both_reverse edge_inv_def swap_key_eq)
  moreover have "et_edges (put_both k v t) (edge_key_encode (swap_key k')) =
      et_edges (put_both k v t) (edge_key_encode k')"
    if "wf_edge_key k'" "symmetric_auto_mirror (ek_kind k')" for k'
    using assms that by (auto simp: put_both_edges edge_inv_def swap_key_eq)
  ultimately show ?thesis unfolding edge_inv_def by blast
qed

definition no_edges :: edge_tables where
  "no_edges = \<lparr>et_edges = Map.empty, et_reverse = Map.empty\<rparr>"

lemma edge_inv_empty: "edge_inv no_edges"
  by (simp add: edge_inv_def no_edges_def wf_edge_table_def)

section \<open>Scans\<close>

lemma prefix_bounds:
  fixes p s :: bytes
  assumes "length s \<le> n"
  shows "p \<le> p @ s" and "p @ s \<le> p @ replicate n 0xFF"
proof -
  show "p \<le> p @ s" by (induction p) simp_all
  have "s \<le> replicate n 0xFF"
    using assms
  proof (induction s arbitrary: n)
    case (Cons b s)
    then obtain m where n: "n = Suc m" and "length s \<le> m" by (cases n) auto
    have "b \<le> 0xFF" using unsigned_less [where ?'a = nat, of b] by (simp add: word_le_nat_alt)
    with Cons.IH [OF \<open>length s \<le> m\<close>] show ?case by (auto simp: n)
  qed simp
  then show "p @ s \<le> p @ replicate n 0xFF" by (induction p) simp_all
qed

lemma edge_kind_ref_len_le: "edge_kind_ref_encoded_len k \<le> 5"
  by (cases k) simp_all

text \<open>Every key anchored at a node, of the wanted kind, lies within the bounds of its scan.\<close>

lemma anchored_in_bounds:
  assumes "wf_edge_key k" and "ek_from k = anchor" and "kind_filter = None \<or> kind_filter = Some (ek_kind k)"
  shows "fst (range_bounds anchor kind_filter) \<le> edge_key_encode k \<and>
    edge_key_encode k \<le> snd (range_bounds anchor kind_filter)"
proof (cases kind_filter)
  case None
  let ?s = "edge_kind_ref_to_bytes (ek_kind k) @ node_ref_to_bytes (ek_to k) @ ek_disambiguator k"
  have "length ?s \<le> 5 + 17 + 16"
    using assms(1) edge_kind_ref_len_le [of "ek_kind k"] by (simp add: wf_edge_key_def DISAMBIGUATOR_LEN_def)
  from prefix_bounds [OF this, of "node_ref_to_bytes anchor"] show ?thesis
    using assms(2) by (simp add: None range_bounds_def from_prefix_def edge_key_encode_def edge_sizes Let_def)
next
  case (Some kind)
  let ?s = "node_ref_to_bytes (ek_to k) @ ek_disambiguator k"
  have "length ?s \<le> 17 + 16" using assms(1) by (simp add: wf_edge_key_def DISAMBIGUATOR_LEN_def)
  from prefix_bounds [OF this, of "node_ref_to_bytes anchor @ edge_kind_ref_to_bytes kind"] show ?thesis
    using assms(2,3) by (simp add: Some range_bounds_def from_kind_prefix_def edge_key_encode_def edge_sizes Let_def)
qed

text \<open>A row of the scan and the key it comes from.\<close>

definition row_key :: "node_ref \<Rightarrow> edge_row \<Rightarrow> edge_key" where
  "row_key anchor row =
     (case row of (k, m, d, v) \<Rightarrow> \<lparr>ek_from = anchor, ek_kind = k, ek_to = m, ek_disambiguator = d\<rparr>)"

lemma row_key_eq:
  "row_key anchor (k, m, d, v) = key \<longleftrightarrow>
     ek_from key = anchor \<and> ek_kind key = k \<and> ek_to key = m \<and> ek_disambiguator key = d"
  by (auto simp: row_key_def intro: edge_key.equality)

lemma range_scan_rows:
  assumes "\<forall>(b, v) \<in> set rows. \<exists>k. wf_edge_key k \<and> b = edge_key_encode k"
    and "sorted_wrt (\<lambda>a b. fst a < fst b) rows"
  shows "\<exists>out. range_scan anchor kf rows = Inr out \<and> sorted_wrt (\<lambda>r s. edge_key_encode (row_key anchor r) <
        edge_key_encode (row_key anchor s)) out \<and>
    (\<forall>k m d v. (k, m, d, v) \<in> set out \<longleftrightarrow>
       wf_edge_key (row_key anchor (k, m, d, v)) \<and> (kf = None \<or> kf = Some k) \<and>
       (edge_key_encode (row_key anchor (k, m, d, v)), v) \<in> set rows)"
  using assms
proof (induction rows)
  case (Cons row rows)
  obtain key v where row: "row = (edge_key_encode key, v)" "wf_edge_key key" using Cons.prems(1) by (cases row) auto
  have less: "edge_key_encode key < b" if "(b, w) \<in> set rows" for b w
    using Cons.prems(2) that row(1) by auto
  from Cons obtain out where out: "range_scan anchor kf rows = Inr out"
    "sorted_wrt (\<lambda>r s. edge_key_encode (row_key anchor r) < edge_key_encode (row_key anchor s)) out"
    "(k, m, d, w) \<in> set out \<longleftrightarrow> wf_edge_key (row_key anchor (k, m, d, w)) \<and> (kf = None \<or> kf = Some k) \<and>
       (edge_key_encode (row_key anchor (k, m, d, w)), w) \<in> set rows" for k m d w
    by auto
  have eq: "edge_key_encode (row_key anchor (k, m, d, w)) = edge_key_encode key \<longleftrightarrow> row_key anchor (k, m, d, w) = key"
    if "wf_edge_key (row_key anchor (k, m, d, w))" for k m d w
    using edge_key_encode_inject [OF that row(2)] .
  show ?case
  proof (cases "ek_from key = anchor \<and> (kf = None \<or> kf = Some (ek_kind key))")
    case True
    let ?r = "(ek_kind key, ek_to key, ek_disambiguator key, v)"
    have r: "row_key anchor ?r = key" using True by (simp add: row_key_eq)
    have "range_scan anchor kf (row # rows) = Inr (?r # out)"
      using True out(1) row by (auto simp: edge_key_roundtrip)
    moreover have "edge_key_encode (row_key anchor ?r) < edge_key_encode (row_key anchor s)" if "s \<in> set out" for s
    proof -
      obtain k m d w where s: "s = (k, m, d, w)" by (rule prod_cases4)
      with that out(3) [of k m d w] have "(edge_key_encode (row_key anchor s), w) \<in> set rows" by simp
      from less [OF this] show ?thesis by (simp add: r)
    qed
    moreover have "(k, m, d, w) \<in> set (?r # out) \<longleftrightarrow>
        wf_edge_key (row_key anchor (k, m, d, w)) \<and> (kf = None \<or> kf = Some k) \<and>
        (edge_key_encode (row_key anchor (k, m, d, w)), w) \<in> set (row # rows)" for k m d w
      using out(3) [of k m d w] eq [of k m d w] row_key_eq [of anchor k m d w key] True row by auto
    ultimately show ?thesis using out(2) by (intro exI [of _ "?r # out"]) simp
  next
    case False
    have "range_scan anchor kf (row # rows) = Inr out"
      using False out(1) row by (auto simp: edge_key_roundtrip)
    moreover have "(k, m, d, w) \<in> set out \<longleftrightarrow>
        wf_edge_key (row_key anchor (k, m, d, w)) \<and> (kf = None \<or> kf = Some k) \<and>
        (edge_key_encode (row_key anchor (k, m, d, w)), w) \<in> set (row # rows)" for k m d w
      using out(3) [of k m d w] eq [of k m d w] row_key_eq [of anchor k m d w key] False row by auto
    ultimately show ?thesis using out(2) by (intro exI [of _ out]) simp
  qed
qed simp

lemma scan_exact:
  assumes "wf_edge_table t" and "wf_node_ref anchor" and "lists_range t (range_bounds anchor kf) rows"
  shows "\<exists>out. range_scan anchor kf rows = Inr out \<and> distinct out \<and>
    (\<forall>k m d v. (k, m, d, v) \<in> set out \<longleftrightarrow>
       wf_node_ref m \<and> length d = DISAMBIGUATOR_LEN \<and> (kf = None \<or> kf = Some k) \<and>
       t (edge_key_encode \<lparr>ek_from = anchor, ek_kind = k, ek_to = m, ek_disambiguator = d\<rparr>) = Some v)"
proof -
  have rows: "(b, v) \<in> set rows \<longleftrightarrow> t b = Some v \<and> fst (range_bounds anchor kf) \<le> b \<and> b \<le> snd (range_bounds anchor kf)"
    for b v using assms(3) by (simp add: lists_range_def)
  have keys: "\<forall>(b, v) \<in> set rows. \<exists>k. wf_edge_key k \<and> b = edge_key_encode k"
    using assms(1) rows by (auto simp: wf_edge_table_def)
  have "sorted_wrt (\<lambda>a b. fst a < fst b) rows" using assms(3) by (simp add: lists_range_def)
  from range_scan_rows [OF keys this, of anchor kf] obtain out where out: "range_scan anchor kf rows = Inr out"
    "sorted_wrt (\<lambda>r s. edge_key_encode (row_key anchor r) < edge_key_encode (row_key anchor s)) out"
    "(k, m, d, v) \<in> set out \<longleftrightarrow> wf_edge_key (row_key anchor (k, m, d, v)) \<and> (kf = None \<or> kf = Some k) \<and>
       (edge_key_encode (row_key anchor (k, m, d, v)), v) \<in> set rows" for k m d v
    by blast
  have "distinct out" using out(2) by (induction out) auto
  moreover have "(k, m, d, v) \<in> set out \<longleftrightarrow>
       wf_node_ref m \<and> length d = DISAMBIGUATOR_LEN \<and> (kf = None \<or> kf = Some k) \<and>
       t (edge_key_encode \<lparr>ek_from = anchor, ek_kind = k, ek_to = m, ek_disambiguator = d\<rparr>) = Some v" for k m d v
    using out(3) [of k m d v] rows anchored_in_bounds [of "row_key anchor (k, m, d, v)" anchor kf] assms(2)
    by (auto simp: row_key_def wf_edge_key_def)
  ultimately show ?thesis using out(1) by blast
qed

section \<open>Sequences of operations\<close>

datatype edge_mutation =
    ELink bool node_ref edge_kind_ref node_ref bytes edge_data
  | EUnlink bool node_ref edge_kind_ref node_ref bytes

fun edge_apply :: "edge_mutation \<Rightarrow> edge_tables \<Rightarrow> edge_tables" where
  "edge_apply (ELink io a k b d data) t = (case edge_link io a k b d data t of Inl e \<Rightarrow> t | Inr t' \<Rightarrow> t')"
| "edge_apply (EUnlink io a k b d) t = (case edge_unlink io a k b d t of Inl e \<Rightarrow> t | Inr (removed, t') \<Rightarrow> t')"

fun wf_mutation :: "edge_mutation \<Rightarrow> bool" where
  "wf_mutation (ELink io a k b d data) \<longleftrightarrow> wf_node_ref a \<and> wf_node_ref b \<and> length d = DISAMBIGUATOR_LEN"
| "wf_mutation (EUnlink io a k b d) \<longleftrightarrow> wf_node_ref a \<and> wf_node_ref b \<and> length d = DISAMBIGUATOR_LEN"

definition edge_run :: "edge_mutation list \<Rightarrow> edge_tables \<Rightarrow> edge_tables" where
  "edge_run ops t = fold edge_apply ops t"

lemma edge_apply_inv:
  assumes "edge_inv t" and "wf_mutation op"
  shows "edge_inv (edge_apply op t)"
proof (cases op)
  case (ELink io a k b d data)
  with assms put_both_inv [OF assms(1), of "\<lparr>ek_from = a, ek_kind = k, ek_to = b, ek_disambiguator = d\<rparr>"] show ?thesis
    by (cases io) (auto simp: edge_link_put wf_edge_key_def)
next
  case (EUnlink io a k b d)
  with assms put_both_inv [OF assms(1), of "\<lparr>ek_from = a, ek_kind = k, ek_to = b, ek_disambiguator = d\<rparr>"] show ?thesis
    by (cases io) (auto simp: edge_unlink_put wf_edge_key_def)
qed

interpretation paired: stepwise edge_apply wf_mutation edge_inv
  by unfold_locales (rule edge_apply_inv)

lemma edge_run_inv: "edge_inv t \<Longrightarrow> list_all wf_mutation ops \<Longrightarrow> edge_inv (edge_run ops t)"
  by (simp add: edge_run_def paired.keep_run list_all_iff)

lemma edge_get_put:
  assumes "wf_node_ref a" and "wf_node_ref b" and "wf_node_ref a'" and "wf_node_ref b'"
    and "length d = DISAMBIGUATOR_LEN" and "length d' = DISAMBIGUATOR_LEN"
  shows "edge_get a' k' b' d' (put_both \<lparr>ek_from = a, ek_kind = k, ek_to = b, ek_disambiguator = d\<rparr> v t) =
    (if k' = k \<and> d' = d \<and> (a' = a \<and> b' = b \<or> symmetric_auto_mirror k \<and> a' = b \<and> b' = a) then v
     else edge_get a' k' b' d' t)"
  using assms by (auto simp: edge_get_def put_both_edges wf_edge_key_def swap_key_def)

section \<open>Properties\<close>

text \<open>C11. The edge scans are exact: after any sequence of links and unlinks, failed ones included, a scan
  of the forward table lists exactly the edges that leave a node and a scan of the reverse table exactly
  the edges that reach it, each once, restricted to the wanted kind if one is given, and neither meets a
  key it cannot decode.\<close>

theorem edge_walks_exact:
  assumes "list_all wf_mutation ops" and "t = edge_run ops no_edges" and "wf_node_ref n"
    and "lists_range (et_edges t) (range_bounds n kf) rows"
    and "lists_range (et_reverse t) (range_bounds n kf) back"
  shows "\<exists>out inc. range_scan n kf rows = Inr out \<and> range_scan n kf back = Inr inc \<and> distinct out \<and> distinct inc \<and>
    (\<forall>k m d v. wf_node_ref m \<and> length d = DISAMBIGUATOR_LEN \<longrightarrow>
      ((k, m, d, v) \<in> set out \<longleftrightarrow> (kf = None \<or> kf = Some k) \<and> edge_get n k m d t = Some v) \<and>
      ((k, m, d, v) \<in> set inc \<longleftrightarrow> (kf = None \<or> kf = Some k) \<and> edge_get m k n d t = Some v))"
proof -
  have inv: "edge_inv t" using edge_run_inv [OF edge_inv_empty assms(1)] assms(2) by simp
  obtain out where out: "range_scan n kf rows = Inr out" "distinct out"
    "(k, m, d, v) \<in> set out \<longleftrightarrow> wf_node_ref m \<and> length d = DISAMBIGUATOR_LEN \<and> (kf = None \<or> kf = Some k) \<and>
       et_edges t (edge_key_encode \<lparr>ek_from = n, ek_kind = k, ek_to = m, ek_disambiguator = d\<rparr>) = Some v" for k m d v
    using scan_exact [OF _ assms(3,4)] inv by (auto simp: edge_inv_def)
  obtain inc where inc: "range_scan n kf back = Inr inc" "distinct inc"
    "(k, m, d, v) \<in> set inc \<longleftrightarrow> wf_node_ref m \<and> length d = DISAMBIGUATOR_LEN \<and> (kf = None \<or> kf = Some k) \<and>
       et_reverse t (edge_key_encode \<lparr>ek_from = n, ek_kind = k, ek_to = m, ek_disambiguator = d\<rparr>) = Some v" for k m d v
    using scan_exact [OF _ assms(3,5)] inv by (auto simp: edge_inv_def)
  have "et_reverse t (edge_key_encode \<lparr>ek_from = n, ek_kind = k, ek_to = m, ek_disambiguator = d\<rparr>) =
      edge_get m k n d t" if "wf_node_ref m" "length d = DISAMBIGUATOR_LEN" for k m d
  proof -
    have "wf_edge_key \<lparr>ek_from = m, ek_kind = k, ek_to = n, ek_disambiguator = d\<rparr>"
      using that assms(3) by (simp add: wf_edge_key_def)
    with inv show ?thesis by (auto simp: edge_inv_def edge_get_def swap_key_def)
  qed
  then show ?thesis
    using out inc by (intro exI [of _ out] exI [of _ inc]) (auto simp: edge_get_def)
qed

definition sample_edge :: edge_data where
  "sample_edge = edge_data_new 0 0 0 7"

theorem edge_walks_exact_witness:
  "\<exists>out. range_scan (NodeMemory 2) (Some (Builtin PartOf))
       [(edge_key_encode \<lparr>ek_from = NodeMemory 2, ek_kind = Builtin PartOf, ek_to = NodeMemory 2,
           ek_disambiguator = zero_disambiguator\<rparr>, sample_edge)] = Inr out \<and>
     (Builtin PartOf, NodeMemory 2, zero_disambiguator, sample_edge) \<in> set out"
proof -
  let ?n = "NodeMemory 2" and ?kf = "Some (Builtin PartOf)"
  let ?op = "ELink True ?n (Builtin PartOf) ?n zero_disambiguator sample_edge"
  let ?t = "edge_run [?op] no_edges"
  let ?k = "\<lparr>ek_from = ?n, ek_kind = Builtin PartOf, ek_to = ?n, ek_disambiguator = zero_disambiguator\<rparr>"
  have len: "length zero_disambiguator = DISAMBIGUATOR_LEN" by (simp add: zero_disambiguator_def)
  have t: "et_edges ?t = [edge_key_encode ?k \<mapsto> sample_edge]" "et_reverse ?t = [edge_key_encode ?k \<mapsto> sample_edge]"
    by (simp_all add: edge_run_def edge_link_put put_both_def put_key_def no_edges_def swap_key_def)
  have "wf_edge_key ?k" using len by (simp add: wf_edge_key_def)
  then have rows: "lists_range [edge_key_encode ?k \<mapsto> sample_edge] (range_bounds ?n ?kf) [(edge_key_encode ?k, sample_edge)]"
    using anchored_in_bounds [of ?k ?n ?kf] by (auto simp: lists_range_def)
  have "list_all wf_mutation [?op]" using len by simp
  from edge_walks_exact [OF this refl, of ?n ?kf, unfolded t, OF _ rows rows]
  obtain out where "range_scan ?n ?kf [(edge_key_encode ?k, sample_edge)] = Inr out"
    "(Builtin PartOf, ?n, zero_disambiguator, sample_edge) \<in> set out \<longleftrightarrow>
       edge_get ?n (Builtin PartOf) ?n zero_disambiguator ?t = Some sample_edge"
    using len by auto
  then show ?thesis by (simp add: edge_get_def t)
qed

end
