(* ===== verification/Ops_Edges.thy ===== *)
theory Ops_Edges
  imports Meta_Edges
begin

text \<open>
  The edge phases of the unified write path (\<open>brain-ops/src/apply/edge.rs\<close>, \<open>write/phase.rs\<close>): linking
  with its tenant wall, unlinking, and the denormalised edge counters on memory rows. A memory row has
  the fields these phases read and write; the outcome of the table calls is an argument.
  The lemmas show that linking never joins a memory of another space and that the counters are exact
  as long as no symmetric edge is linked; they also show what happens otherwise: unlinking a symmetric
  edge from its other end leaves the counters wrong, and unlinking has no tenant wall.
\<close>

section \<open>Phases\<close>

text \<open>The phases a transaction buffer can produce.\<close>

record upsert_memory =
  um_id :: memory_id
  um_text :: bytes
  um_vector :: "f32 list"
  um_kind :: memory_kind
  um_salience :: f32
  um_session_id :: session_id
  um_created_at_unix_nanos :: u64
  um_occurred_at_unix_nanos :: "u64 option"
  um_arena_slot :: slot_index
  um_embedding_model_fp :: bytes
  um_content_hash :: "bytes option"
  um_deduplicate :: bool

record link_phase =
  lp_from :: node_ref
  lp_to :: node_ref
  lp_kind :: edge_kind_ref
  lp_weight :: f32
  lp_origin :: u8
  lp_derived_by :: u8
  lp_disambiguator :: bytes
  lp_created_at_unix_nanos :: u64

record unlink_phase =
  up_from :: node_ref
  up_to :: node_ref
  up_kind :: edge_kind_ref
  up_disambiguator :: bytes

datatype tombstone_mode = TombstoneSoft | TombstoneHard

datatype tombstone_target = TombstoneMemory memory_id tombstone_mode

datatype phase =
    Ph_UpsertMemory upsert_memory
  | Ph_Link link_phase
  | Ph_Unlink unlink_phase
  | Ph_Tombstone tombstone_target u8 u64

datatype phase_ack = Linked | Unlinked

datatype apply_error = ApplyStorage | ApplyMetadata edge_op_error | PhaseMisShape string

section \<open>Applying edge phases\<close>

record memory_row =
  mr_namespace_id :: namespace_id
  mr_space_id_bytes :: bytes
  mr_edges_out_count :: u32
  mr_edges_in_count :: u32

record graph_db =
  gd_memories :: "memory_id \<rightharpoonup> memory_row"
  gd_edges :: edge_tables

definition memory_in_space :: "memory_id \<Rightarrow> bytes \<Rightarrow> graph_db \<Rightarrow> bool" where
  "memory_in_space m space db =
     (case gd_memories db m of None \<Rightarrow> False | Some row \<Rightarrow> mr_space_id_bytes row = space)"

definition bump_edge_count :: "memory_id \<Rightarrow> bool \<Rightarrow> int \<Rightarrow> graph_db \<Rightarrow> graph_db" where
  "bump_edge_count m out delta db =
     (case gd_memories db m of
        None \<Rightarrow> db
      | Some row \<Rightarrow>
          let cur = (if out then mr_edges_out_count row else mr_edges_in_count row);
              new = (if 0 \<le> delta then of_nat (min (unat cur + nat delta) (2 ^ 32 - 1))
                     else of_nat (unat cur - nat (- delta)));
              row' = (if out then row\<lparr>mr_edges_out_count := new\<rparr> else row\<lparr>mr_edges_in_count := new\<rparr>)
          in db\<lparr>gd_memories := (gd_memories db)(m \<mapsto> row')\<rparr>)"

fun endpoint_in_space :: "bytes \<Rightarrow> graph_db \<Rightarrow> node_ref \<Rightarrow> bool" where
  "endpoint_in_space space db (NodeMemory m) = memory_in_space m space db"
| "endpoint_in_space space db (NodeEntity e) = True"

fun bump_endpoints :: "int \<Rightarrow> node_ref \<Rightarrow> node_ref \<Rightarrow> graph_db \<Rightarrow> graph_db" where
  "bump_endpoints delta (NodeMemory src) (NodeMemory tgt) db =
     bump_edge_count tgt False delta (bump_edge_count src True delta db)"
| "bump_endpoints delta a b db = db"

definition apply_link :: "bool \<Rightarrow> bytes \<Rightarrow> phase \<Rightarrow> graph_db \<Rightarrow> apply_error + (phase_ack \<times> graph_db)" where
  "apply_link io_ok space ph db =
     (case ph of
        Ph_Link p \<Rightarrow>
          if \<not> io_ok then Inl ApplyStorage
          else if \<not> (endpoint_in_space space db (lp_from p) \<and> endpoint_in_space space db (lp_to p))
            then Inr (Linked, db)
          else
            let data = edge_data_new (lp_weight p) (lp_origin p) (lp_derived_by p) (lp_created_at_unix_nanos p);
                already_existed =
                  (edge_get (lp_from p) (lp_kind p) (lp_to p) (lp_disambiguator p) (gd_edges db) \<noteq> None)
            in (case edge_link True (lp_from p) (lp_kind p) (lp_to p) (lp_disambiguator p) data (gd_edges db) of
                  Inl e \<Rightarrow> Inl (ApplyMetadata e)
                | Inr t \<Rightarrow>
                    let db' = db\<lparr>gd_edges := t\<rparr>
                    in Inr (Linked, if already_existed then db' else bump_endpoints 1 (lp_from p) (lp_to p) db'))
      | _ \<Rightarrow> Inl (PhaseMisShape ''expected Link''))"

definition apply_unlink :: "bool \<Rightarrow> bytes \<Rightarrow> phase \<Rightarrow> graph_db \<Rightarrow> apply_error + (phase_ack \<times> graph_db)" where
  "apply_unlink io_ok space ph db =
     (case ph of
        Ph_Unlink p \<Rightarrow>
          if \<not> io_ok then Inl ApplyStorage
          else (case edge_unlink True (up_from p) (up_kind p) (up_to p) (up_disambiguator p) (gd_edges db) of
                  Inl e \<Rightarrow> Inl (ApplyMetadata e)
                | Inr (removed, t) \<Rightarrow>
                    let db' = db\<lparr>gd_edges := t\<rparr>
                    in Inr (Unlinked, if removed then bump_endpoints (- 1) (up_from p) (up_to p) db' else db'))
      | _ \<Rightarrow> Inl (PhaseMisShape ''expected Unlink''))"

text \<open>A phase of a write; a write whose phase fails commits nothing.\<close>

fun apply_edge_phase :: "bytes \<Rightarrow> phase \<Rightarrow> graph_db \<Rightarrow> graph_db" where
  "apply_edge_phase space (Ph_Link p) db =
     (case apply_link True space (Ph_Link p) db of Inl e \<Rightarrow> db | Inr (ack, db') \<Rightarrow> db')"
| "apply_edge_phase space (Ph_Unlink p) db =
     (case apply_unlink True space (Ph_Unlink p) db of Inl e \<Rightarrow> db | Inr (ack, db') \<Rightarrow> db')"
| "apply_edge_phase space ph db = db"

definition apply_edge_writes :: "(bytes \<times> phase) list \<Rightarrow> graph_db \<Rightarrow> graph_db" where
  "apply_edge_writes writes db = fold (\<lambda>(space, ph). apply_edge_phase space ph) writes db"

section \<open>What a phase does to the tables\<close>

definition link_key :: "link_phase \<Rightarrow> edge_key" where
  "link_key p = \<lparr>ek_from = lp_from p, ek_kind = lp_kind p, ek_to = lp_to p, ek_disambiguator = lp_disambiguator p\<rparr>"

definition unlink_key :: "unlink_phase \<Rightarrow> edge_key" where
  "unlink_key p = \<lparr>ek_from = up_from p, ek_kind = up_kind p, ek_to = up_to p, ek_disambiguator = up_disambiguator p\<rparr>"

fun wf_edge_phase :: "phase \<Rightarrow> bool" where
  "wf_edge_phase (Ph_Link p) = wf_edge_key (link_key p)"
| "wf_edge_phase (Ph_Unlink p) = wf_edge_key (unlink_key p)"
| "wf_edge_phase ph = True"

definition has_edge :: "graph_db \<Rightarrow> edge_key \<Rightarrow> bool" where
  "has_edge db k \<longleftrightarrow> et_edges (gd_edges db) (edge_key_encode k) \<noteq> None"

definition admits :: "bytes \<Rightarrow> graph_db \<Rightarrow> edge_key \<Rightarrow> bool" where
  "admits space db k \<longleftrightarrow> endpoint_in_space space db (ek_from k) \<and> endpoint_in_space space db (ek_to k)"

definition put_edge_row :: "edge_key \<Rightarrow> edge_data option \<Rightarrow> graph_db \<Rightarrow> graph_db" where
  "put_edge_row k v db = db\<lparr>gd_edges := put_both k v (gd_edges db)\<rparr>"

definition link_row :: "link_phase \<Rightarrow> edge_data" where
  "link_row p = edge_data_new (lp_weight p) (lp_origin p) (lp_derived_by p) (lp_created_at_unix_nanos p)"

lemma link_key_simps [simp]:
  "ek_from (link_key p) = lp_from p" "ek_to (link_key p) = lp_to p" "ek_kind (link_key p) = lp_kind p"
  "ek_from (unlink_key q) = up_from q" "ek_to (unlink_key q) = up_to q" "ek_kind (unlink_key q) = up_kind q"
  by (simp_all add: link_key_def unlink_key_def)

lemma apply_link_eq:
  "apply_edge_phase space (Ph_Link p) db =
     (if admits space db (link_key p) then
        let db' = put_edge_row (link_key p) (Some (link_row p)) db
        in if has_edge db (link_key p) then db' else bump_endpoints 1 (lp_from p) (lp_to p) db'
      else db)"
  by (simp add: apply_link_def edge_link_put edge_get_def has_edge_def admits_def put_edge_row_def
      link_row_def Let_def flip: link_key_def)

lemma apply_unlink_eq:
  "apply_edge_phase space (Ph_Unlink p) db =
     (let db' = put_edge_row (unlink_key p) None db
      in if has_edge db (unlink_key p) then bump_endpoints (- 1) (up_from p) (up_to p) db' else db')"
  by (simp add: apply_unlink_def edge_unlink_put edge_get_def has_edge_def put_edge_row_def
      Let_def flip: unlink_key_def)

lemma bump_edges [simp]:
  "gd_edges (bump_edge_count m out delta db) = gd_edges db"
  "gd_edges (bump_endpoints delta a b db) = gd_edges db"
proof -
  show one: "gd_edges (bump_edge_count m out delta db) = gd_edges db" for m out db
    by (simp add: bump_edge_count_def Let_def split: option.split)
  show "gd_edges (bump_endpoints delta a b db) = gd_edges db"
    by (cases a; cases b) (simp_all add: one)
qed

lemma has_edge_bump [simp]: "has_edge (bump_endpoints delta a b db) k = has_edge db k"
  by (simp add: has_edge_def)

lemma has_edge_put:
  "wf_edge_key k \<Longrightarrow> wf_edge_key k' \<Longrightarrow>
     has_edge (put_edge_row k v db) k' \<longleftrightarrow>
       (if k' = k \<or> symmetric_auto_mirror (ek_kind k) \<and> k' = swap_key k then v \<noteq> None else has_edge db k')"
  by (simp add: has_edge_def put_edge_row_def put_both_edges)

lemma put_edge_row_memories [simp]: "gd_memories (put_edge_row k v db) = gd_memories db"
  by (simp add: put_edge_row_def)

lemma bump_space [simp]:
  "memory_in_space m s (bump_edge_count a out delta db) = memory_in_space m s db"
  by (auto simp: memory_in_space_def bump_edge_count_def Let_def split: option.splits)

lemma put_space [simp]: "memory_in_space m s (put_edge_row k v db) = memory_in_space m s db"
  by (simp add: memory_in_space_def)

lemma endpoint_bump [simp]:
  "endpoint_in_space s (bump_endpoints delta a b db) n = endpoint_in_space s db n"
  "endpoint_in_space s (put_edge_row k v db) n = endpoint_in_space s db n"
  by (cases n; cases a; cases b; simp)+

lemma apply_edge_phase_space [simp]:
  "endpoint_in_space s (apply_edge_phase space ph db) n = endpoint_in_space s db n"
  by (cases ph) (simp_all add: apply_link_eq apply_unlink_eq Let_def del: apply_edge_phase.simps(1,2))

declare apply_edge_phase.simps(1,2) [simp del]

lemma admits_step [simp]: "admits s (apply_edge_phase space ph db) k = admits s db k"
  by (simp add: admits_def)

lemma admits_swap [simp]: "admits s db (swap_key k) = admits s db k"
  by (auto simp: admits_def)

lemma has_edge_step:
  assumes "wf_edge_phase ph" and "wf_edge_key k" and "has_edge (apply_edge_phase space ph db) k"
  shows "has_edge db k \<or> admits space db k"
proof (cases ph)
  case (Ph_Link p)
  with assms show ?thesis
    by (auto simp: apply_link_eq Let_def has_edge_put split: if_splits)
next
  case (Ph_Unlink p)
  with assms show ?thesis
    by (auto simp: apply_unlink_eq Let_def has_edge_put split: if_splits)
qed (use assms in simp_all)

section \<open>The counters\<close>

definition side_count :: "bool \<Rightarrow> memory_row \<Rightarrow> nat" where
  "side_count out row = unat (if out then mr_edges_out_count row else mr_edges_in_count row)"

definition side_edges :: "bool \<Rightarrow> graph_db \<Rightarrow> memory_id \<Rightarrow> edge_key set" where
  "side_edges out db m =
     {k. wf_edge_key k \<and> has_edge db k \<and>
         (\<exists>a b. ek_from k = NodeMemory a \<and> ek_to k = NodeMemory b \<and> m = (if out then a else b))}"

definition counters_exact :: "nat \<Rightarrow> graph_db \<Rightarrow> bool" where
  "counters_exact n db \<longleftrightarrow>
     (\<forall>out m. finite (side_edges out db m) \<and> card (side_edges out db m) \<le> n) \<and>
     (\<forall>out m row. gd_memories db m = Some row \<longrightarrow> side_count out row = card (side_edges out db m))"

definition moved :: "int \<Rightarrow> nat \<Rightarrow> nat" where
  "moved delta c = (if 0 \<le> delta then min (c + nat delta) (2 ^ 32 - 1) else c - nat (- delta))"

lemma unat_moved: "unat (of_nat (moved delta (unat c)) :: u32) = moved delta (unat c)" for c :: u32
  using unsigned_less [where ?'a = nat, of c]
  by (auto simp: moved_def unsigned_of_nat take_bit_nat_eq_self_iff)

lemma bump_edge_count_moved:
  "bump_edge_count m out delta db =
     (case gd_memories db m of
        None \<Rightarrow> db
      | Some row \<Rightarrow> db\<lparr>gd_memories := (gd_memories db)(m \<mapsto>
          if out then row\<lparr>mr_edges_out_count := of_nat (moved delta (side_count out row))\<rparr>
          else row\<lparr>mr_edges_in_count := of_nat (moved delta (side_count out row))\<rparr>)\<rparr>)"
  by (simp add: bump_edge_count_def moved_def side_count_def Let_def split: option.split)

lemma bump_edge_count_row:
  assumes "gd_memories (bump_edge_count a side delta db) m = Some row"
  shows "\<exists>row0. gd_memories db m = Some row0 \<and>
    (\<forall>out. side_count out row = (if m = a \<and> out = side then moved delta (side_count out row0) else side_count out row0))"
proof (cases "gd_memories db a")
  case None
  with assms show ?thesis by (auto simp: bump_edge_count_moved)
next
  case (Some r)
  with assms show ?thesis
    by (cases side) (auto simp: bump_edge_count_moved side_count_def unat_moved split: if_splits)
qed

lemma bump_endpoints_row:
  assumes "gd_memories (bump_endpoints delta (NodeMemory a) (NodeMemory b) db) m = Some row"
  shows "\<exists>row0. gd_memories db m = Some row0 \<and>
    (\<forall>out. side_count out row = (if m = (if out then a else b) then moved delta (side_count out row0) else side_count out row0))"
proof -
  obtain row1 where mid: "gd_memories (bump_edge_count a True delta db) m = Some row1"
    and row1: "\<forall>out. side_count out row =
      (if m = b \<and> out = False then moved delta (side_count out row1) else side_count out row1)"
    using bump_edge_count_row [OF assms [unfolded bump_endpoints.simps]] by (elim exE conjE)
  obtain row0 where row: "gd_memories db m = Some row0"
    and row0: "\<forall>out. side_count out row1 =
      (if m = a \<and> out = True then moved delta (side_count out row0) else side_count out row0)"
    using bump_edge_count_row [OF mid] by (elim exE conjE)
  have "side_count out row =
      (if m = (if out then a else b) then moved delta (side_count out row0) else side_count out row0)" for out
    using spec [OF row0, of out] spec [OF row1, of out] by (cases out) simp_all
  with row show ?thesis by (intro exI conjI allI)
qed

definition touches_side :: "bool \<Rightarrow> edge_key \<Rightarrow> memory_id \<Rightarrow> bool" where
  "touches_side out k m \<longleftrightarrow>
     (\<exists>a b. ek_from k = NodeMemory a \<and> ek_to k = NodeMemory b \<and> m = (if out then a else b))"

lemma side_edges_iff: "k \<in> side_edges out db m \<longleftrightarrow> wf_edge_key k \<and> has_edge db k \<and> touches_side out k m"
  by (simp add: side_edges_def touches_side_def)

lemma side_edges_bump [simp]: "side_edges out (bump_endpoints delta a b db) m = side_edges out db m"
  by (simp add: side_edges_def)

lemma side_edges_put:
  assumes "wf_edge_key k" and "\<not> symmetric_auto_mirror (ek_kind k)"
  shows "side_edges out (put_edge_row k v db) m =
    (if v \<noteq> None \<and> touches_side out k m then insert k (side_edges out db m) else side_edges out db m - {k})"
  using assms by (auto simp: side_edges_iff has_edge_put split: if_splits)

text \<open>Bumping both endpoints of a key moves exactly the counters the key touches.\<close>

lemma bump_endpoints_touch:
  assumes "gd_memories (bump_endpoints delta (ek_from k) (ek_to k) db) m = Some row"
  shows "\<exists>row0. gd_memories db m = Some row0 \<and>
    (\<forall>out. side_count out row = (if touches_side out k m then moved delta (side_count out row0) else side_count out row0))"
proof (cases "\<exists>a b. ek_from k = NodeMemory a \<and> ek_to k = NodeMemory b")
  case True
  then obtain a b where ab: "ek_from k = NodeMemory a" "ek_to k = NodeMemory b" by blast
  then have "touches_side out k m \<longleftrightarrow> m = (if out then a else b)" for out by (auto simp: touches_side_def)
  with bump_endpoints_row [OF assms [unfolded ab]] show ?thesis by simp
next
  case False
  then have "bump_endpoints delta (ek_from k) (ek_to k) db = db"
    by (cases "ek_from k"; cases "ek_to k") auto
  with assms False show ?thesis by (auto simp: touches_side_def)
qed

fun directed_phase :: "phase \<Rightarrow> bool" where
  "directed_phase (Ph_Link p) \<longleftrightarrow> \<not> symmetric_auto_mirror (lp_kind p)"
| "directed_phase (Ph_Unlink p) \<longleftrightarrow> \<not> symmetric_auto_mirror (up_kind p)"
| "directed_phase ph \<longleftrightarrow> True"

lemma counters_put:
  assumes exact: "counters_exact n db" and wf: "wf_edge_key k" and dir: "\<not> symmetric_auto_mirror (ek_kind k)"
    and room: "n + 1 < 2 ^ 32" and new: "has_edge db k \<longleftrightarrow> v = None"
    and db': "db' = bump_endpoints (if v = None then - 1 else 1) (ek_from k) (ek_to k) (put_edge_row k v db)"
  shows "counters_exact (n + 1) db'"
proof -
  have old: "k \<in> side_edges out db m \<longleftrightarrow> v = None \<and> touches_side out k m" for out m
    using wf new by (simp add: side_edges_iff)
  have fin: "finite (side_edges out db m)" and le: "card (side_edges out db m) \<le> n" for out m
    using exact by (simp_all add: counters_exact_def)
  have edges: "side_edges out db' m =
      (if v \<noteq> None \<and> touches_side out k m then insert k (side_edges out db m) else side_edges out db m - {k})" for out m
    by (simp add: db' side_edges_put wf dir)
  have card: "card (side_edges out db' m) =
      (if touches_side out k m then moved (if v = None then - 1 else 1) (card (side_edges out db m))
       else card (side_edges out db m))" for out m
    using old [of out m] fin [of out m] le [of out m] room by (auto simp: edges moved_def card_insert_if)
  have "side_count out row = card (side_edges out db' m)" if "gd_memories db' m = Some row" for out m row
    using bump_endpoints_touch [OF that [unfolded db']] exact by (auto simp: card counters_exact_def)
  moreover have "finite (side_edges out db' m)" "card (side_edges out db' m) \<le> n + 1" for out m
    using fin [of out m] le [of out m] by (auto simp: edges card_insert_if le_SucI intro: order_trans [OF card_Diff1_le])
  ultimately show ?thesis unfolding counters_exact_def by blast
qed

text \<open>Rewriting the weight of an existing edge, or removing an absent one, leaves the counters as they are.\<close>

lemma counters_kept:
  assumes "counters_exact n db" and "wf_edge_key k" and "\<not> symmetric_auto_mirror (ek_kind k)"
    and "has_edge db k \<longleftrightarrow> v \<noteq> None"
  shows "counters_exact (n + 1) (put_edge_row k v db)"
proof -
  have "side_edges out (put_edge_row k v db) m = side_edges out db m" for out m
    using assms(2-4) by (auto simp: side_edges_put side_edges_iff)
  with assms(1) show ?thesis by (auto simp: counters_exact_def le_SucI)
qed

lemma counters_step:
  assumes "counters_exact n db" and "n + 1 < 2 ^ 32" and "wf_edge_phase ph" and "directed_phase ph"
  shows "counters_exact (n + 1) (apply_edge_phase space ph db)"
proof -
  have more: "counters_exact (n + 1) db" using assms(1) by (auto simp: counters_exact_def le_SucI)
  show ?thesis
  proof (cases ph)
    case (Ph_Link p)
    with assms more counters_put [OF assms(1), of "link_key p" "Some (link_row p)"]
      counters_kept [OF assms(1), of "link_key p" "Some (link_row p)"] show ?thesis
      by (simp add: apply_link_eq Let_def)
  next
    case (Ph_Unlink p)
    with assms counters_put [OF assms(1), of "unlink_key p" None]
      counters_kept [OF assms(1), of "unlink_key p" None] show ?thesis
      by (simp add: apply_unlink_eq Let_def)
  qed (use more in simp_all)
qed

lemma counters_run:
  assumes "counters_exact n db" and "n + length writes < 2 ^ 32"
    and "list_all (\<lambda>(s, ph). wf_edge_phase ph \<and> directed_phase ph) writes"
  shows "counters_exact (n + length writes) (apply_edge_writes writes db)"
  using assms
proof (induction writes arbitrary: n db)
  case (Cons w writes)
  then show ?case
    using Cons.IH [of "n + 1" "apply_edge_phase (fst w) (snd w) db"] counters_step [of n db "snd w" "fst w"]
    by (cases w) (simp add: apply_edge_writes_def)
qed (simp add: apply_edge_writes_def)

section \<open>Properties\<close>


text \<open>Two memories of one tenant and one of another.\<close>

definition sample_graph :: graph_db where
  "sample_graph = \<lparr>gd_memories =
     [1 \<mapsto> \<lparr>mr_namespace_id = 1, mr_space_id_bytes = [7], mr_edges_out_count = 0, mr_edges_in_count = 0\<rparr>,
      2 \<mapsto> \<lparr>mr_namespace_id = 1, mr_space_id_bytes = [7], mr_edges_out_count = 0, mr_edges_in_count = 0\<rparr>,
      3 \<mapsto> \<lparr>mr_namespace_id = 1, mr_space_id_bytes = [8], mr_edges_out_count = 0, mr_edges_in_count = 0\<rparr>], gd_edges = no_edges\<rparr>"

definition sample_link :: "memory_id \<Rightarrow> edge_kind \<Rightarrow> memory_id \<Rightarrow> phase" where
  "sample_link a k b = Ph_Link \<lparr>lp_from = NodeMemory a, lp_to = NodeMemory b, lp_kind = Builtin k, lp_weight = 0,
     lp_origin = 0, lp_derived_by = 0, lp_disambiguator = zero_disambiguator, lp_created_at_unix_nanos = 5\<rparr>"

definition sample_unlink :: "memory_id \<Rightarrow> edge_kind \<Rightarrow> memory_id \<Rightarrow> phase" where
  "sample_unlink a k b = Ph_Unlink \<lparr>up_from = NodeMemory a, up_to = NodeMemory b, up_kind = Builtin k,
     up_disambiguator = zero_disambiguator\<rparr>"

definition sample_key :: "memory_id \<Rightarrow> edge_kind \<Rightarrow> memory_id \<Rightarrow> edge_key" where
  "sample_key a k b = \<lparr>ek_from = NodeMemory a, ek_kind = Builtin k, ek_to = NodeMemory b,
     ek_disambiguator = zero_disambiguator\<rparr>"

lemma wf_samples [simp]:
  "wf_edge_phase (sample_link a k b)" "wf_edge_phase (sample_unlink a k b)" "wf_edge_key (sample_key a k b)"
  by (simp_all add: sample_link_def sample_unlink_def sample_key_def link_key_def unlink_key_def
      wf_edge_key_def zero_disambiguator_def)



lemma sample_linked:
  "gd_memories (apply_edge_writes [([7], sample_link 1 PartOf 2)] sample_graph) 1 =
     Some \<lparr>mr_namespace_id = 1, mr_space_id_bytes = [7], mr_edges_out_count = 1, mr_edges_in_count = 0\<rparr>"
  by (simp add: apply_edge_writes_def apply_link_eq sample_link_def link_key_def Let_def admits_def memory_in_space_def
      sample_graph_def has_edge_def no_edges_def bump_edge_count_def)


text \<open>Unlinking has no tenant wall: a write of a tenant that owns neither endpoint removes the edge
  between two memories of another tenant and lowers the owner's counters, although the same tenant's
  attempt to link the two memories changes nothing.\<close>

theorem unlink_crosses_tenants:
  assumes "up_from p = NodeMemory a" and "up_to p = NodeMemory b" and "wf_edge_key (unlink_key p)"
    and "has_edge db (unlink_key p)" and "a \<noteq> b" and "gd_memories db a = Some row"
    and "\<not> memory_in_space a intruder db" and "\<not> memory_in_space b intruder db"
    and "link_key l = unlink_key p"
  shows "apply_link True intruder (Ph_Link l) db = Inr (Linked, db) \<and>
    (\<exists>db' row'. apply_unlink True intruder (Ph_Unlink p) db = Inr (Unlinked, db') \<and>
      \<not> has_edge db' (unlink_key p) \<and> gd_memories db' a = Some row' \<and>
      unat (mr_edges_out_count row') = unat (mr_edges_out_count row) - 1)"
proof -
  have l: "lp_from l = NodeMemory a" "lp_to l = NodeMemory b"
    using assms(1,2,9) link_key_simps(1,2) [of l] by simp_all
  let ?db = "apply_edge_phase intruder (Ph_Unlink p) db"
  have "apply_unlink True intruder (Ph_Unlink p) db = Inr (Unlinked, ?db)"
    by (auto simp: apply_edge_phase.simps apply_unlink_def edge_unlink_put Let_def)
  moreover have "\<not> has_edge ?db (unlink_key p)"
    using assms(3) by (simp add: apply_unlink_eq Let_def has_edge_put)
  moreover have "gd_memories ?db a = Some (row\<lparr>mr_edges_out_count := of_nat (unat (mr_edges_out_count row) - 1)\<rparr>)"
    using assms by (simp add: apply_unlink_eq Let_def bump_edge_count_def split: option.split)
  moreover have "unat (of_nat (unat (mr_edges_out_count row) - 1) :: u32) = unat (mr_edges_out_count row) - 1"
    using unat_moved [of "- 1" "mr_edges_out_count row"] by (simp add: moved_def)
  moreover have "apply_link True intruder (Ph_Link l) db = Inr (Linked, db)"
    using assms(7) l by (simp add: apply_link_def)
  ultimately show ?thesis by auto
qed

text \<open>Removing a symmetric edge from its other end leaves the counters wrong: link two memories by a
  symmetric kind, then unlink them in the opposite orientation. Neither orientation is stored any more,
  yet the first memory still counts one outgoing edge too many and the second one too few.\<close>

theorem symmetric_unlink_drifts:
  assumes "lp_from l = NodeMemory a" and "lp_to l = NodeMemory b" and "a \<noteq> b"
    and "symmetric_auto_mirror (lp_kind l)" and "wf_edge_key (link_key l)" and "unlink_key u = swap_key (link_key l)"
    and "gd_memories db a = Some ra" and "mr_space_id_bytes ra = space"
    and "gd_memories db b = Some rb" and "mr_space_id_bytes rb = space"
    and "\<not> has_edge db (link_key l)" and "unat (mr_edges_out_count ra) + 1 < 2 ^ 32"
  shows "\<exists>db' ra' rb'. apply_edge_writes [(space, Ph_Link l), (space, Ph_Unlink u)] db = db' \<and>
    \<not> has_edge db' (link_key l) \<and> \<not> has_edge db' (unlink_key u) \<and>
    gd_memories db' a = Some ra' \<and> unat (mr_edges_out_count ra') = unat (mr_edges_out_count ra) + 1 \<and>
    gd_memories db' b = Some rb' \<and> unat (mr_edges_out_count rb') = unat (mr_edges_out_count rb) - 1"
proof -
  let ?db0 = "put_edge_row (link_key l) (Some (link_row l)) db"
  let ?db1 = "bump_endpoints 1 (NodeMemory a) (NodeMemory b) ?db0"
  let ?db2 = "bump_endpoints (- 1) (NodeMemory b) (NodeMemory a) (put_edge_row (unlink_key u) None ?db1)"
  have u: "up_from u = NodeMemory b" "up_to u = NodeMemory a"
    using arg_cong [OF assms(6), of ek_from] arg_cong [OF assms(6), of ek_to] assms(1,2) by simp_all
  have "admits space db (link_key l)" using assms by (simp add: admits_def memory_in_space_def)
  then have one: "apply_edge_phase space (Ph_Link l) db = ?db1"
    using assms(1,2,11) by (simp add: apply_link_eq Let_def)
  have "has_edge ?db1 (unlink_key u)" using assms(4-6) by (simp add: has_edge_put del: bump_endpoints.simps)
  then have two: "apply_edge_writes [(space, Ph_Link l), (space, Ph_Unlink u)] db = ?db2"
    by (simp add: apply_edge_writes_def one apply_unlink_eq Let_def u del: bump_endpoints.simps)
  have gone: "\<not> has_edge ?db2 (link_key l)" "\<not> has_edge ?db2 (unlink_key u)"
    using assms(4-6) by (simp_all add: has_edge_put del: bump_endpoints.simps)
  have "\<exists>r. gd_memories ?db2 a = Some r \<and> mr_edges_out_count r = of_nat (moved 1 (unat (mr_edges_out_count ra)))"
    "\<exists>r. gd_memories ?db2 b = Some r \<and> mr_edges_out_count r = of_nat (moved (- 1) (unat (mr_edges_out_count rb)))"
    using assms(3,7,9) by (simp_all add: bump_edge_count_moved side_count_def)
  then obtain r r' where rows: "gd_memories ?db2 a = Some r" "gd_memories ?db2 b = Some r'"
    and counts: "mr_edges_out_count r = of_nat (moved 1 (unat (mr_edges_out_count ra)))"
      "mr_edges_out_count r' = of_nat (moved (- 1) (unat (mr_edges_out_count rb)))" by blast
  have "unat (mr_edges_out_count r) = unat (mr_edges_out_count ra) + 1"
    "unat (mr_edges_out_count r') = unat (mr_edges_out_count rb) - 1"
    unfolding counts unat_moved using assms(12) by (simp_all add: moved_def)
  with two gone rows show ?thesis by blast
qed

definition linked_graph :: graph_db where
  "linked_graph = put_edge_row (sample_key 1 Caused 2) (Some sample_edge) sample_graph"

theorem unlink_crosses_tenants_witness:
  "\<exists>p l db'. has_edge linked_graph (unlink_key p) \<and> \<not> memory_in_space 1 [8] linked_graph \<and>
     apply_link True [8] (Ph_Link l) linked_graph = Inr (Linked, linked_graph) \<and>
     apply_unlink True [8] (Ph_Unlink p) linked_graph = Inr (Unlinked, db') \<and> \<not> has_edge db' (unlink_key p)"
proof -
  let ?p = "\<lparr>up_from = NodeMemory 1, up_to = NodeMemory 2, up_kind = Builtin Caused, up_disambiguator = zero_disambiguator\<rparr>"
  let ?l = "\<lparr>lp_from = NodeMemory 1, lp_to = NodeMemory 2, lp_kind = Builtin Caused, lp_weight = 0, lp_origin = 0,
     lp_derived_by = 0, lp_disambiguator = zero_disambiguator, lp_created_at_unix_nanos = 5\<rparr>"
  have key: "unlink_key ?p = sample_key 1 Caused 2" "link_key ?l = unlink_key ?p"
    by (simp_all add: unlink_key_def link_key_def sample_key_def)
  have has: "has_edge linked_graph (unlink_key ?p)"
    by (simp add: key linked_graph_def has_edge_put)
  have out: "\<not> memory_in_space 1 [8] linked_graph" "\<not> memory_in_space 2 [8] linked_graph"
    by (simp_all add: linked_graph_def memory_in_space_def sample_graph_def)
  obtain row where "gd_memories linked_graph 1 = Some row" by (simp add: linked_graph_def sample_graph_def)
  from unlink_crosses_tenants [OF _ _ _ has _ this out key(2)]
  show ?thesis using has out(1) by (intro exI [of _ ?p] exI [of _ ?l]) (auto simp: key)
qed

theorem symmetric_unlink_drifts_witness:
  "\<exists>row. gd_memories (apply_edge_writes [([7], sample_link 1 SimilarTo 2), ([7], sample_unlink 2 SimilarTo 1)] sample_graph) 1
     = Some row \<and> unat (mr_edges_out_count row) = 1"
proof -
  let ?u = "\<lparr>up_from = NodeMemory 2, up_to = NodeMemory 1, up_kind = Builtin SimilarTo, up_disambiguator = zero_disambiguator\<rparr>"
  let ?l = "\<lparr>lp_from = NodeMemory 1, lp_to = NodeMemory 2, lp_kind = Builtin SimilarTo, lp_weight = 0, lp_origin = 0,
     lp_derived_by = 0, lp_disambiguator = zero_disambiguator, lp_created_at_unix_nanos = 5\<rparr>"
  let ?r = "\<lparr>mr_namespace_id = 1, mr_space_id_bytes = [7], mr_edges_out_count = 0, mr_edges_in_count = 0\<rparr>"
  have "symmetric_auto_mirror (lp_kind ?l)" by (simp add: symmetric_auto_mirror_def edge_kind_is_symmetric_def)
  moreover have "wf_edge_key (link_key ?l)" "unlink_key ?u = swap_key (link_key ?l)"
    by (simp_all add: link_key_def unlink_key_def swap_key_def wf_edge_key_def zero_disambiguator_def)
  moreover have "gd_memories sample_graph 1 = Some ?r" "gd_memories sample_graph 2 = Some ?r"
    "\<not> has_edge sample_graph (link_key ?l)"
    by (simp_all add: sample_graph_def has_edge_def no_edges_def)
  ultimately show ?thesis
    using symmetric_unlink_drifts [of ?l 1 2 ?u sample_graph ?r "[7]" ?r] by (auto simp: sample_link_def sample_unlink_def)
qed

end
