(* ===== verification/Ops_Txn_Store.thy ===== *)
theory Ops_Txn_Store
  imports Ops_Edges Proto_Request "HOL-Library.AList"
begin

text \<open>
  The transaction store of a shard and the transaction handlers (\<open>brain-ops/src/handlers/txn.rs\<close>):
  entries with their buffers, the expiry sweep, ownership by connection, TXN_BEGIN, TXN_COMMIT and
  TXN_ABORT, and the translation of a buffer into the phases of one write.
  TXN_COMMIT awaits the writer in the middle, so it is two atomic sections: \<open>txn_commit_start\<close>, up to
  the submission, and \<open>txn_commit_finish\<close>, from the writer's answer on; other handlers may run between
  them. Every reading of the clock is an argument. The hash map of entries is an association list. The
  metadata row that a buffered encode carries for the query lens is left out, and the request hash of a
  commit, a BLAKE3 digest of the phases, is a parameter.
\<close>

section \<open>State\<close>

definition MIN_TIMEOUT_SECONDS :: u32 where "MIN_TIMEOUT_SECONDS = 1"
definition MAX_TIMEOUT_SECONDS :: u32 where "MAX_TIMEOUT_SECONDS = 300"
definition DEFAULT_TIMEOUT_SECONDS :: u32 where "DEFAULT_TIMEOUT_SECONDS = 30"
definition MAX_TXN_OPS :: u32 where "MAX_TXN_OPS = 1000"

datatype txn_state = TxnActive | TxnCommitted | TxnAborted | TxnExpiredState

datatype txn_final_response = FinalCommit u64 u32 | FinalAbort u32

record delegated_identity =
  di_space_id :: space_id
  di_namespace :: namespace_id
  di_space_string :: text_bytes

record buffered_edge_spec =
  es_target :: memory_id
  es_kind :: edge_kind
  es_weight :: f32

record buffered_encode =
  be_memory_id :: memory_id
  be_text :: text_bytes
  be_vector :: "f32 list"
  be_edges :: "buffered_edge_spec list"
  be_kind :: memory_kind
  be_session_id :: session_id
  be_salience_initial :: f32
  be_fingerprint :: bytes
  be_request_id :: request_id
  be_request_hash :: bytes
  be_created_at_unix_nanos :: u64
  be_occurred_at_unix_nanos :: "u64 option"
  be_space_id :: space_id

record buffered_link =
  bl_source :: memory_id
  bl_target :: memory_id
  bl_kind :: edge_kind
  bl_weight :: f32
  bl_request_id :: request_id
  bl_request_hash :: bytes
  bl_created_at_unix_nanos :: u64
  bl_space_id :: space_id

record buffered_unlink =
  bu_source :: memory_id
  bu_target :: memory_id
  bu_kind :: edge_kind
  bu_request_id :: request_id
  bu_request_hash :: bytes
  bu_created_at_unix_nanos :: u64
  bu_space_id :: space_id

record buffered_forget =
  bf_memory_id :: memory_id
  bf_mode :: wire_forget_mode
  bf_request_id :: request_id
  bf_request_hash :: bytes
  bf_created_at_unix_nanos :: u64
  bf_space_id :: space_id

datatype forget_outcome = Tombstoned | AlreadyTombstoned | MemoryNotFound

datatype buffered_replay =
    ReplayEncode memory_id
  | ReplayForget memory_id forget_outcome
  | ReplayLink memory_id memory_id edge_kind f32 u64 bool
  | ReplayUnlink memory_id memory_id edge_kind bool

record txn_buffer =
  tx_encodes :: "buffered_encode list"
  tx_forgets :: "buffered_forget list"
  tx_links :: "buffered_link list"
  tx_unlinks :: "buffered_unlink list"
  tx_tombstoned :: "memory_id set"
  tx_unlinked_edges :: "(memory_id \<times> edge_kind \<times> memory_id) set"
  tx_request_id_cache :: "request_id \<rightharpoonup> buffered_replay"
  tx_request_hashes :: "request_id \<rightharpoonup> bytes"

definition txn_buffer_default :: txn_buffer where
  "txn_buffer_default = \<lparr>tx_encodes = [], tx_forgets = [], tx_links = [], tx_unlinks = [], tx_tombstoned = {},
     tx_unlinked_edges = {}, tx_request_id_cache = Map.empty, tx_request_hashes = Map.empty\<rparr>"

record txn_entry =
  te_state :: txn_state
  te_started_at_unix_nanos :: u64
  te_expires_at_unix_nanos :: u64
  te_timeout_seconds :: u32
  te_final_response :: "txn_final_response option"
  te_buffer :: "txn_buffer option"
  te_delegated :: "delegated_identity option"
  te_connection_id :: bytes

type_synonym txn_store = "(txn_id \<times> txn_entry) list"

datatype op_error =
    TxnNotFound | TxnExpired | OpConflict string | TransactionTooLarge u32 u32 | OpNotFound string
  | WriterFailed | NoWriter | MetadataReadFailed | PlanFailed | EmbedFailed

text \<open>The caller's identity that the context of a request carries.\<close>

record op_ctx =
  oc_connection_id :: bytes
  oc_space :: space_id
  oc_namespace :: namespace_id
  oc_space_string :: text_bytes

section \<open>The store\<close>

definition ops_count :: "txn_buffer \<Rightarrow> u32" where
  "ops_count b =
     of_nat (min (length (tx_encodes b) + length (tx_forgets b) + length (tx_links b) + length (tx_unlinks b)) (2 ^ 32 - 1))"

definition check_capacity_for_push :: "txn_buffer \<Rightarrow> op_error + unit" where
  "check_capacity_for_push b =
     (let current = ops_count b
      in if MAX_TXN_OPS \<le> current then Inl (TransactionTooLarge current MAX_TXN_OPS) else Inr ())"

definition deadline :: "u64 \<Rightarrow> u32 \<Rightarrow> u64" where
  "deadline now secs = of_nat (min (unat now + unat secs * 1000000000) (2 ^ 64 - 1))"

definition sweep_entry :: "u64 \<Rightarrow> txn_entry \<Rightarrow> txn_entry" where
  "sweep_entry now e =
     (if te_state e = TxnActive \<and> te_expires_at_unix_nanos e \<le> now
      then e\<lparr>te_state := TxnExpiredState, te_buffer := None\<rparr> else e)"

definition sweep_expired_locked :: "u64 \<Rightarrow> txn_store \<Rightarrow> txn_store" where
  "sweep_expired_locked now es = map (\<lambda>(k, e). (k, sweep_entry now e)) es"

definition update_entry :: "txn_id \<Rightarrow> (txn_entry \<Rightarrow> txn_entry) \<Rightarrow> txn_store \<Rightarrow> txn_store" where
  "update_entry txn f es = map (\<lambda>(k, e). (k, if k = txn then f e else e)) es"

definition txn_owned_by :: "bytes \<Rightarrow> bytes \<Rightarrow> bool" where
  "txn_owned_by entry_connection_id caller_connection_id \<longleftrightarrow>
     entry_connection_id = replicate 16 0 \<or> entry_connection_id = caller_connection_id"

definition validate_active :: "u64 \<Rightarrow> txn_id \<Rightarrow> bytes \<Rightarrow> txn_store \<Rightarrow> (op_error + u64) \<times> txn_store" where
  "validate_active now txn caller es0 =
     (let es = sweep_expired_locked now es0
      in case map_of es txn of
           None \<Rightarrow> (Inl TxnNotFound, es)
         | Some e \<Rightarrow>
             if \<not> txn_owned_by (te_connection_id e) caller then (Inl TxnNotFound, es)
             else if te_state e = TxnActive then
               let expiry = deadline now (te_timeout_seconds e)
               in (Inr expiry, update_entry txn (\<lambda>e. e\<lparr>te_expires_at_unix_nanos := expiry\<rparr>) es)
             else (Inl TxnExpired, es))"

definition orphaned :: "bytes \<Rightarrow> txn_entry \<Rightarrow> bool" where
  "orphaned connection_id e \<longleftrightarrow> te_connection_id e = connection_id \<and> te_state e = TxnActive"

definition abort_entry :: "txn_entry \<Rightarrow> txn_entry" where
  "abort_entry e =
     e\<lparr>te_state := TxnAborted, te_buffer := None,
       te_final_response := Some (FinalAbort (case te_buffer e of None \<Rightarrow> 0 | Some b \<Rightarrow> ops_count b))\<rparr>"

definition abort_orphaned_for_connection :: "bytes \<Rightarrow> txn_store \<Rightarrow> txn_id list \<times> txn_store" where
  "abort_orphaned_for_connection connection_id es =
     (if connection_id = replicate 16 0 then ([], es)
      else (map fst (filter (\<lambda>(k, e). orphaned connection_id e) es),
            map (\<lambda>(k, e). (k, if orphaned connection_id e then abort_entry e else e)) es))"

definition with_buffer ::
  "u64 \<Rightarrow> txn_id \<Rightarrow> bytes \<Rightarrow> (txn_buffer \<Rightarrow> (op_error + 'r) \<times> txn_buffer) \<Rightarrow> txn_store \<Rightarrow> (op_error + 'r) \<times> txn_store" where
  "with_buffer now txn caller f es0 =
     (let es = sweep_expired_locked now es0
      in case map_of es txn of
           None \<Rightarrow> (Inl TxnNotFound, es)
         | Some e \<Rightarrow>
             if \<not> txn_owned_by (te_connection_id e) caller then (Inl TxnNotFound, es)
             else (case (te_state e, te_buffer e) of
                 (TxnActive, Some buf) \<Rightarrow>
                   (case f buf of
                      (Inl err, buf') \<Rightarrow> (Inl err, update_entry txn (\<lambda>e. e\<lparr>te_buffer := Some buf'\<rparr>) es)
                    | (Inr r, buf') \<Rightarrow>
                        (Inr r, update_entry txn (\<lambda>e. e\<lparr>te_buffer := Some buf',
                           te_expires_at_unix_nanos := deadline now (te_timeout_seconds e)\<rparr>) es))
               | _ \<Rightarrow> (Inl TxnExpired, es)))"

section \<open>Handlers\<close>

definition clamp_timeout :: "u32 \<Rightarrow> u32" where
  "clamp_timeout req =
     (let v = (if req = 0 then DEFAULT_TIMEOUT_SECONDS else req)
      in if v < MIN_TIMEOUT_SECONDS then MIN_TIMEOUT_SECONDS
         else if MAX_TIMEOUT_SECONDS < v then MAX_TIMEOUT_SECONDS else v)"

record txn_begin_response =
  br_txn_id :: txn_id
  br_timeout_seconds :: u32
  br_started_at_unix_nanos :: u64

definition handle_txn_begin ::
  "u64 \<Rightarrow> txn_begin_request \<Rightarrow> bytes \<Rightarrow> op_ctx \<Rightarrow> txn_store \<Rightarrow> txn_begin_response \<times> txn_store" where
  "handle_txn_begin now req connection_id ctx es0 =
     (let timeout = clamp_timeout (tb_timeout_seconds req); es = sweep_expired_locked now es0
      in case map_of es (tb_txn_id req) of
           Some e \<Rightarrow>
             (\<lparr>br_txn_id = tb_txn_id req, br_timeout_seconds = te_timeout_seconds e,
               br_started_at_unix_nanos = te_started_at_unix_nanos e\<rparr>, es)
         | None \<Rightarrow>
             (\<lparr>br_txn_id = tb_txn_id req, br_timeout_seconds = timeout, br_started_at_unix_nanos = now\<rparr>,
              AList.update (tb_txn_id req)
                \<lparr>te_state = TxnActive, te_started_at_unix_nanos = now, te_expires_at_unix_nanos = deadline now timeout,
                  te_timeout_seconds = timeout, te_final_response = None, te_buffer = Some txn_buffer_default,
                  te_delegated = (if tb_act_as req \<noteq> None
                    then Some \<lparr>di_space_id = oc_space ctx, di_namespace = oc_namespace ctx, di_space_string = oc_space_string ctx\<rparr>
                    else None),
                  te_connection_id = connection_id\<rparr> es))"

text \<open>\<open>Salience::new\<close> on the bits of an \<open>f32\<close>: \<open>clamp(0.0, 1.0)\<close>, which keeps a NaN and a negative zero.\<close>

definition salience_new :: "f32 \<Rightarrow> f32" where
  "salience_new v =
     (if 0x7F800000 < v AND 0x7FFFFFFF then v
      else if v = 0x80000000 then v
      else if 0x80000000 < v then 0
      else if 0x3F800000 < v then 0x3F800000 else v)"

definition phase_tombstone_mode :: "wire_forget_mode \<Rightarrow> tombstone_mode" where
  "phase_tombstone_mode m = (case m of WireSoft \<Rightarrow> TombstoneSoft | WireHard \<Rightarrow> TombstoneHard)"

definition memory_link_phase :: "memory_id \<Rightarrow> edge_kind \<Rightarrow> memory_id \<Rightarrow> f32 \<Rightarrow> u64 \<Rightarrow> phase" where
  "memory_link_phase source kind target weight at =
     Ph_Link \<lparr>lp_from = NodeMemory source, lp_to = NodeMemory target, lp_kind = Builtin kind, lp_weight = weight,
       lp_origin = 0, lp_derived_by = 0, lp_disambiguator = zero_disambiguator, lp_created_at_unix_nanos = at\<rparr>"

definition encode_phases :: "buffered_encode \<Rightarrow> phase list" where
  "encode_phases e =
     Ph_UpsertMemory \<lparr>um_id = be_memory_id e, um_text = be_text e, um_vector = be_vector e, um_kind = be_kind e,
       um_salience = salience_new (be_salience_initial e), um_session_id = be_session_id e,
       um_created_at_unix_nanos = be_created_at_unix_nanos e, um_occurred_at_unix_nanos = be_occurred_at_unix_nanos e,
       um_arena_slot = memory_id_slot (be_memory_id e), um_embedding_model_fp = be_fingerprint e,
       um_content_hash = None, um_deduplicate = False\<rparr>
     # map (\<lambda>edge. memory_link_phase (be_memory_id e) (es_kind edge) (es_target edge) (es_weight edge) (be_created_at_unix_nanos e))
         (be_edges e)"

definition build_phases :: "txn_buffer \<Rightarrow> phase list" where
  "build_phases b =
     concat (map encode_phases (tx_encodes b)) @
     map (\<lambda>l. memory_link_phase (bl_source l) (bl_kind l) (bl_target l) (bl_weight l) (bl_created_at_unix_nanos l)) (tx_links b) @
     map (\<lambda>u. Ph_Unlink \<lparr>up_from = NodeMemory (bu_source u), up_to = NodeMemory (bu_target u), up_kind = Builtin (bu_kind u),
            up_disambiguator = zero_disambiguator\<rparr>) (tx_unlinks b) @
     map (\<lambda>f. Ph_Tombstone (TombstoneMemory (bf_memory_id f) (phase_tombstone_mode (bf_mode f))) 1 (bf_created_at_unix_nanos f))
       (tx_forgets b)"

record db_write =
  wr_write_id :: bytes
  wr_space_id :: space_id
  wr_namespace :: namespace_id
  wr_space_string :: text_bytes
  wr_started_at_unix_nanos :: u64
  wr_phases :: "phase list"
  wr_request_hash :: "bytes option"

definition write_from_phases :: "bytes \<Rightarrow> space_id \<Rightarrow> phase list \<Rightarrow> db_write" where
  "write_from_phases write_id space phases =
     \<lparr>wr_write_id = write_id, wr_space_id = space, wr_namespace = 0, wr_space_string = [], wr_started_at_unix_nanos = 0,
       wr_phases = phases, wr_request_hash = None\<rparr>"

record txn_commit_response =
  cr_txn_id :: txn_id
  cr_committed_at_unix_nanos :: u64
  cr_operations_applied :: u32

text \<open>What the handler still holds while it awaits the writer.\<close>

record pending_commit =
  pc_txn_id :: txn_id
  pc_buffer :: txn_buffer
  pc_ops_applied :: u32

datatype commit_start = CommitReturned "op_error + txn_commit_response" | CommitSubmitted db_write pending_commit

definition txn_commit_write :: "(txn_id \<Rightarrow> phase list \<Rightarrow> bytes) \<Rightarrow> txn_id \<Rightarrow> op_ctx \<Rightarrow> txn_buffer \<Rightarrow> delegated_identity option \<Rightarrow> db_write" where
  "txn_commit_write hash_txn_commit_request txn ctx buffer delegated =
     (let phases = build_phases buffer;
          (space, ns, str) =
            (case delegated of Some d \<Rightarrow> (di_space_id d, di_namespace d, di_space_string d)
             | None \<Rightarrow> (oc_space ctx, oc_namespace ctx, oc_space_string ctx))
      in (write_from_phases txn space phases)\<lparr>wr_namespace := ns, wr_space_string := str,
           wr_request_hash := Some (hash_txn_commit_request txn phases)\<rparr>)"

definition txn_commit_start ::
  "(txn_id \<Rightarrow> phase list \<Rightarrow> bytes) \<Rightarrow> bool \<Rightarrow> u64 \<Rightarrow> txn_id \<Rightarrow> op_ctx \<Rightarrow> txn_store \<Rightarrow> commit_start \<times> txn_store" where
  "txn_commit_start hash_txn_commit_request writer_ok now txn ctx es0 =
     (let es = sweep_expired_locked now es0
      in case map_of es txn of
           None \<Rightarrow> (CommitReturned (Inl TxnNotFound), es)
         | Some e \<Rightarrow>
             if \<not> txn_owned_by (te_connection_id e) (oc_connection_id ctx) then (CommitReturned (Inl TxnNotFound), es)
             else (case te_final_response e of
                 Some (FinalCommit at ops) \<Rightarrow>
                   (CommitReturned (Inr \<lparr>cr_txn_id = txn, cr_committed_at_unix_nanos = at, cr_operations_applied = ops\<rparr>), es)
               | _ \<Rightarrow>
                   if te_state e \<noteq> TxnActive then (CommitReturned (Inl TxnExpired), es)
                   else (case te_buffer e of
                       None \<Rightarrow> (CommitReturned (Inl TxnExpired), es)
                     | Some buffer \<Rightarrow>
                         let taken = update_entry txn (\<lambda>e. e\<lparr>te_buffer := None\<rparr>) es; ops_applied = ops_count buffer
                         in if MAX_TXN_OPS < ops_applied
                            then (CommitReturned (Inl (TransactionTooLarge ops_applied MAX_TXN_OPS)),
                                  update_entry txn (\<lambda>e. e\<lparr>te_state := TxnAborted,
                                    te_final_response := Some (FinalAbort ops_applied)\<rparr>) taken)
                            else if \<not> writer_ok then (CommitReturned (Inl NoWriter), taken)
                            else (CommitSubmitted
                                    (txn_commit_write hash_txn_commit_request txn ctx buffer (te_delegated e))
                                    \<lparr>pc_txn_id = txn, pc_buffer = buffer, pc_ops_applied = ops_applied\<rparr>, taken))))"

text \<open>The lexical and question-vector rows to drop after the commit, each with whether its text is purged.\<close>

definition forget_cleanup :: "txn_buffer \<Rightarrow> (memory_id \<times> bool) set" where
  "forget_cleanup b =
     (let hard_forgotten = set (map bf_memory_id (filter (\<lambda>f. bf_mode f = WireHard) (tx_forgets b)))
      in (\<lambda>m. (m, m \<in> hard_forgotten)) ` tx_tombstoned b)"

definition txn_commit_finish ::
  "bool \<Rightarrow> u64 \<Rightarrow> pending_commit \<Rightarrow> txn_store \<Rightarrow> (op_error + txn_commit_response) \<times> (memory_id \<times> bool) set \<times> txn_store" where
  "txn_commit_finish writer_ok committed_at p es =
     (if \<not> writer_ok
      then (Inl WriterFailed, {}, update_entry (pc_txn_id p) (\<lambda>e. e\<lparr>te_state := TxnAborted,
              te_final_response := Some (FinalAbort (pc_ops_applied p))\<rparr>) es)
      else (Inr \<lparr>cr_txn_id = pc_txn_id p, cr_committed_at_unix_nanos = committed_at, cr_operations_applied = pc_ops_applied p\<rparr>,
            forget_cleanup (pc_buffer p),
            update_entry (pc_txn_id p) (\<lambda>e. e\<lparr>te_state := TxnCommitted,
              te_final_response := Some (FinalCommit committed_at (pc_ops_applied p))\<rparr>) es))"

definition handle_txn_abort :: "u64 \<Rightarrow> txn_id \<Rightarrow> op_ctx \<Rightarrow> txn_store \<Rightarrow> (op_error + u32) \<times> txn_store" where
  "handle_txn_abort now txn ctx es0 =
     (let es = sweep_expired_locked now es0
      in case map_of es txn of
           None \<Rightarrow> (Inl TxnNotFound, es)
         | Some e \<Rightarrow>
             if \<not> txn_owned_by (te_connection_id e) (oc_connection_id ctx) then (Inl TxnNotFound, es)
             else (case te_final_response e of
                 Some (FinalAbort ops) \<Rightarrow> (Inr ops, es)
               | _ \<Rightarrow>
                   if te_state e \<noteq> TxnActive then (Inl TxnExpired, es)
                   else (Inr (case te_buffer e of None \<Rightarrow> 0 | Some b \<Rightarrow> ops_count b), update_entry txn abort_entry es)))"

section \<open>Lookups\<close>

lemma map_of_map_values: "map_of (map (\<lambda>(k, e). (k, f k e)) es) x = map_option (f x) (map_of es x)"
  by (induction es) auto

lemma look_sweep [simp]: "map_of (sweep_expired_locked now es) x = map_option (sweep_entry now) (map_of es x)"
  unfolding sweep_expired_locked_def by (rule map_of_map_values)

lemma look_update [simp]:
  "map_of (update_entry txn f es) x = map_option (\<lambda>e. if x = txn then f e else e) (map_of es x)"
  unfolding update_entry_def using map_of_map_values [of "\<lambda>k e. if k = txn then f e else e"] by simp

lemma look_orphans:
  "map_of (snd (abort_orphaned_for_connection c es)) x =
     map_option (\<lambda>e. if c \<noteq> replicate 16 0 \<and> orphaned c e then abort_entry e else e) (map_of es x)"
  using map_of_map_values [of "\<lambda>k e. if orphaned c e then abort_entry e else e" es x]
  by (simp add: abort_orphaned_for_connection_def option.map_ident)

lemma sweep_entry_keeps [simp]:
  "te_connection_id (sweep_entry now e) = te_connection_id e" "te_delegated (sweep_entry now e) = te_delegated e"
  "te_final_response (sweep_entry now e) = te_final_response e" "te_timeout_seconds (sweep_entry now e) = te_timeout_seconds e"
  by (simp_all add: sweep_entry_def)

end
