(* ===== verification/Ops_Txn.thy ===== *)
theory Ops_Txn
  imports Ops_Txn_Store
begin

text \<open>
  Operations inside a transaction (the in-transaction handlers of \<open>forget.rs\<close>, \<open>link.rs\<close> and
  \<open>encode.rs\<close> in \<open>brain-ops/src/handlers\<close>) and the interleavings of all transaction handlers on one
  shard. FORGET, LINK and UNLINK never await and are one atomic section; ENCODE awaits the reservation of
  a memory id and is two. The argument \<open>clock\<close> gives the successive readings of the clock within a
  section, \<open>db\<close> the committed tables, and the request hashes are parameters; a planner or metadata
  failure is an argument. A response carries the fields that the operation decides.
  The lemmas follow arbitrary interleavings: a transaction is out of reach for other connections, reaches
  the writer at most once with at most 1000 phases under the identity fixed at its begin, and once
  committed answers every retry alike. They also show the sequences that go wrong.
\<close>

section \<open>Buffering operations\<close>

type_synonym 'r txn_action = "txn_store \<Rightarrow> (op_error + 'r) \<times> txn_store"

definition txn_bind :: "'r txn_action \<Rightarrow> ('r \<Rightarrow> 's txn_action) \<Rightarrow> 's txn_action" where
  "txn_bind m f es = (case m es of (Inl err, es') \<Rightarrow> (Inl err, es') | (Inr r, es') \<Rightarrow> f r es')"

definition txn_return :: "(op_error + 'r) \<Rightarrow> 'r txn_action" where
  "txn_return r es = (r, es)"

definition replay_check :: "string \<Rightarrow> request_id \<Rightarrow> bytes \<Rightarrow> txn_buffer \<Rightarrow> (op_error + buffered_replay option) \<times> txn_buffer" where
  "replay_check what request_id request_hash buf =
     (case tx_request_hashes buf request_id of
        None \<Rightarrow> (Inr None, buf)
      | Some prior \<Rightarrow>
          if prior \<noteq> request_hash then (Inl (OpConflict what), buf)
          else (Inr (tx_request_id_cache buf request_id), buf))"

definition capacity_check :: "txn_buffer \<Rightarrow> (op_error + unit) \<times> txn_buffer" where
  "capacity_check buf = (check_capacity_for_push buf, buf)"

definition remember :: "request_id \<Rightarrow> bytes \<Rightarrow> buffered_replay \<Rightarrow> txn_buffer \<Rightarrow> txn_buffer" where
  "remember request_id request_hash replay buf =
     buf\<lparr>tx_request_hashes := (tx_request_hashes buf)(request_id \<mapsto> request_hash),
         tx_request_id_cache := (tx_request_id_cache buf)(request_id \<mapsto> replay)\<rparr>"

text \<open>The memory exists and belongs to the caller's namespace and space.\<close>

definition in_scope :: "graph_db \<Rightarrow> op_ctx \<Rightarrow> memory_id \<Rightarrow> bool" where
  "in_scope db ctx m =
     (case gd_memories db m of None \<Rightarrow> False
      | Some row \<Rightarrow> mr_namespace_id row = oc_namespace ctx \<and> mr_space_id_bytes row = oc_space ctx)"

record forget_op =
  fo_request_id :: request_id
  fo_memory_id :: memory_id
  fo_mode :: wire_forget_mode
  fo_space_id :: space_id

record link_op =
  lo_request_id :: request_id
  lo_source :: memory_id
  lo_target :: memory_id
  lo_kind :: edge_kind
  lo_weight :: f32
  lo_space_id :: space_id

record unlink_op =
  uo_request_id :: request_id
  uo_source :: memory_id
  uo_target :: memory_id
  uo_kind :: edge_kind
  uo_space_id :: space_id

definition was_already_forgotten :: "forget_outcome \<Rightarrow> bool" where
  "was_already_forgotten outcome \<longleftrightarrow> outcome = AlreadyTombstoned \<or> outcome = MemoryNotFound"

definition handle_forget_in_txn ::
  "(forget_op \<Rightarrow> bytes) \<Rightarrow> bool \<Rightarrow> bool \<Rightarrow> (nat \<Rightarrow> u64) \<Rightarrow> graph_db \<Rightarrow> forget_request \<Rightarrow> txn_id \<Rightarrow> op_ctx \<Rightarrow>
     (memory_id \<times> bool) txn_action" where
  "handle_forget_in_txn hash_forget_request plan_ok read_ok clock db req txn ctx =
     (if \<not> plan_ok then txn_return (Inl PlanFailed)
      else
        let conn = oc_connection_id ctx; memory_id = fq_memory_id req;
            request_hash = hash_forget_request \<lparr>fo_request_id = fq_request_id req, fo_memory_id = memory_id,
              fo_mode = fq_mode req, fo_space_id = oc_space ctx\<rparr>
        in txn_bind (validate_active (clock 0) txn conn) (\<lambda>_.
           txn_bind (with_buffer (clock 1) txn conn
             (replay_check ''forget in-txn request_id replay with different params'' (fq_request_id req) request_hash)) (\<lambda>cached.
           case cached of
             Some (ReplayForget cached_mid outcome) \<Rightarrow> txn_return (Inr (cached_mid, was_already_forgotten outcome))
           | _ \<Rightarrow>
             txn_bind (with_buffer (clock 2) txn conn capacity_check) (\<lambda>_.
             if \<not> read_ok then txn_return (Inl MetadataReadFailed)
             else
               txn_bind (with_buffer (clock 3) txn conn
                 (\<lambda>buf. (Inr (list_ex (\<lambda>e. be_memory_id e = memory_id) (tx_encodes buf), memory_id \<in> tx_tombstoned buf), buf)))
               (\<lambda>(pending, tombstoned).
                 let outcome = (if tombstoned then AlreadyTombstoned
                       else if in_scope db ctx memory_id \<or> pending then Tombstoned else MemoryNotFound);
                     buffered = \<lparr>bf_memory_id = memory_id, bf_mode = fq_mode req, bf_request_id = fq_request_id req,
                       bf_request_hash = request_hash, bf_created_at_unix_nanos = clock 4, bf_space_id = oc_space ctx\<rparr>
                 in txn_bind (with_buffer (clock 5) txn conn (\<lambda>buf. (Inr (),
                      remember (fq_request_id req) request_hash (ReplayForget memory_id outcome)
                        (buf\<lparr>tx_forgets := tx_forgets buf @ [buffered],
                            tx_tombstoned := (if outcome = Tombstoned then insert memory_id (tx_tombstoned buf)
                              else tx_tombstoned buf)\<rparr>)))) (\<lambda>_.
                    txn_return (Inr (memory_id, was_already_forgotten outcome))))))))"

text \<open>The triple is among the buffered links, or among the edges of a buffered encode.\<close>

definition pending_edge :: "memory_id \<Rightarrow> edge_kind \<Rightarrow> memory_id \<Rightarrow> txn_buffer \<Rightarrow> bool" where
  "pending_edge source kind target buf \<longleftrightarrow>
     list_ex (\<lambda>l. (bl_source l, bl_kind l, bl_target l) = (source, kind, target)) (tx_links buf) \<or>
     list_ex (\<lambda>e. be_memory_id e = source \<and> list_ex (\<lambda>edge. es_target edge = target \<and> es_kind edge = kind) (be_edges e))
       (tx_encodes buf)"

definition committed_edge :: "graph_db \<Rightarrow> memory_id \<Rightarrow> edge_kind \<Rightarrow> memory_id \<Rightarrow> bool" where
  "committed_edge db source kind target \<longleftrightarrow>
     edge_get (NodeMemory source) (Builtin kind) (NodeMemory target) zero_disambiguator (gd_edges db) \<noteq> None"

text \<open>A read of the buffer whose error the code replaces by false (\<open>unwrap_or(false)\<close>).\<close>

definition or_false :: "bool txn_action \<Rightarrow> bool txn_action" where
  "or_false m es = (case m es of (Inl err, es') \<Rightarrow> (Inr False, es') | (Inr b, es') \<Rightarrow> (Inr b, es'))"

record link_response =
  lr_source :: memory_id
  lr_target :: memory_id
  lr_kind :: edge_kind
  lr_weight :: f32
  lr_created_at_unix_nanos :: u64
  lr_already_existed :: bool

text \<open>A LINK that is not a replay, and LINK.\<close>

definition link_in_txn_fresh ::
  "(nat \<Rightarrow> bool) \<Rightarrow> (nat \<Rightarrow> u64) \<Rightarrow> graph_db \<Rightarrow> link_request \<Rightarrow> bytes \<Rightarrow> txn_id \<Rightarrow> op_ctx \<Rightarrow> link_response txn_action" where
  "link_in_txn_fresh read_ok clock db req request_hash txn ctx =
     (let conn = oc_connection_id ctx; source = lq_source req; target = lq_target req; kind = lq_kind req
      in txn_bind (with_buffer (clock 2) txn conn capacity_check) (\<lambda>_.
         if \<not> read_ok 0 then txn_return (Inl MetadataReadFailed)
         else
           txn_bind (with_buffer (clock 3) txn conn (\<lambda>buf.
             (Inr (source \<in> set (map be_memory_id (tx_encodes buf)), target \<in> set (map be_memory_id (tx_encodes buf))), buf)))
           (\<lambda>(src_pending, tgt_pending).
           if \<not> (in_scope db ctx source \<or> src_pending) then txn_return (Inl (OpNotFound ''LINK source memory''))
           else if \<not> (in_scope db ctx target \<or> tgt_pending) then txn_return (Inl (OpNotFound ''LINK target memory''))
           else if \<not> read_ok 1 then txn_return (Inl MetadataReadFailed)
           else
             txn_bind (or_false (with_buffer (clock 4) txn conn (\<lambda>buf. (Inr (pending_edge source kind target buf), buf))))
             (\<lambda>pending_has.
             txn_bind (or_false (with_buffer (clock 5) txn conn
               (\<lambda>buf. (Inr ((source, kind, target) \<in> tx_unlinked_edges buf), buf))))
             (\<lambda>pending_unlinked.
             let already_existed = ((committed_edge db source kind target \<or> pending_has) \<and> \<not> pending_unlinked);
                 created_at = clock 6;
                 buffered = \<lparr>bl_source = source, bl_target = target, bl_kind = kind, bl_weight = lq_weight req,
                   bl_request_id = lq_request_id req, bl_request_hash = request_hash,
                   bl_created_at_unix_nanos = created_at, bl_space_id = oc_space ctx\<rparr>
             in txn_bind (with_buffer (clock 7) txn conn (\<lambda>buf. (Inr (),
                  remember (lq_request_id req) request_hash
                    (ReplayLink source target kind (lq_weight req) created_at already_existed)
                    (buf\<lparr>tx_links := tx_links buf @ [buffered],
                        tx_unlinked_edges := tx_unlinked_edges buf - {(source, kind, target)}\<rparr>)))) (\<lambda>_.
                txn_return (Inr \<lparr>lr_source = source, lr_target = target, lr_kind = kind, lr_weight = lq_weight req,
                  lr_created_at_unix_nanos = created_at, lr_already_existed = already_existed\<rparr>)))))))"

definition handle_link_in_txn ::
  "(link_op \<Rightarrow> bytes) \<Rightarrow> (nat \<Rightarrow> bool) \<Rightarrow> (nat \<Rightarrow> u64) \<Rightarrow> graph_db \<Rightarrow> link_request \<Rightarrow> txn_id \<Rightarrow> op_ctx \<Rightarrow> link_response txn_action" where
  "handle_link_in_txn hash_link_request read_ok clock db req txn ctx =
     (let conn = oc_connection_id ctx;
          request_hash = hash_link_request \<lparr>lo_request_id = lq_request_id req, lo_source = lq_source req, lo_target = lq_target req,
            lo_kind = lq_kind req, lo_weight = lq_weight req, lo_space_id = oc_space ctx\<rparr>
      in txn_bind (validate_active (clock 0) txn conn) (\<lambda>_.
         txn_bind (with_buffer (clock 1) txn conn
           (replay_check ''link in-txn request_id replay with different params'' (lq_request_id req) request_hash)) (\<lambda>cached.
         case cached of
           Some (ReplayLink s t k w at existed) \<Rightarrow>
             txn_return (Inr \<lparr>lr_source = s, lr_target = t, lr_kind = k, lr_weight = w,
               lr_created_at_unix_nanos = at, lr_already_existed = existed\<rparr>)
         | _ \<Rightarrow> link_in_txn_fresh read_ok clock db req request_hash txn ctx)))"

text \<open>The response of UNLINK is the triple and whether an edge was removed.\<close>

definition unlink_in_txn_fresh ::
  "bool \<Rightarrow> (nat \<Rightarrow> u64) \<Rightarrow> graph_db \<Rightarrow> unlink_request \<Rightarrow> bytes \<Rightarrow> txn_id \<Rightarrow> op_ctx \<Rightarrow>
     (memory_id \<times> memory_id \<times> edge_kind \<times> bool) txn_action" where
  "unlink_in_txn_fresh read_ok clock db req request_hash txn ctx =
     (let conn = oc_connection_id ctx; source = uq_source req; target = uq_target req; kind = uq_kind req
      in txn_bind (with_buffer (clock 2) txn conn capacity_check) (\<lambda>_.
         if \<not> read_ok then txn_return (Inl MetadataReadFailed)
         else
           txn_bind (with_buffer (clock 3) txn conn (\<lambda>buf. (Inr (pending_edge source kind target buf), buf))) (\<lambda>pending_has.
           txn_bind (with_buffer (clock 4) txn conn
             (\<lambda>buf. (Inr ((source, kind, target) \<in> tx_unlinked_edges buf), buf))) (\<lambda>already_unlinked.
           let removed = ((committed_edge db source kind target \<or> pending_has) \<and> \<not> already_unlinked);
               buffered = \<lparr>bu_source = source, bu_target = target, bu_kind = kind, bu_request_id = uq_request_id req,
                 bu_request_hash = request_hash, bu_created_at_unix_nanos = clock 5, bu_space_id = oc_space ctx\<rparr>
           in txn_bind (with_buffer (clock 6) txn conn (\<lambda>buf. (Inr (),
                remember (uq_request_id req) request_hash (ReplayUnlink source target kind removed)
                  (buf\<lparr>tx_unlinks := tx_unlinks buf @ [buffered],
                      tx_unlinked_edges := (if removed then insert (source, kind, target) (tx_unlinked_edges buf)
                        else tx_unlinked_edges buf)\<rparr>)))) (\<lambda>_.
              txn_return (Inr (source, target, kind, removed)))))))"

definition handle_unlink_in_txn ::
  "(unlink_op \<Rightarrow> bytes) \<Rightarrow> bool \<Rightarrow> (nat \<Rightarrow> u64) \<Rightarrow> graph_db \<Rightarrow> unlink_request \<Rightarrow> txn_id \<Rightarrow> op_ctx \<Rightarrow>
     (memory_id \<times> memory_id \<times> edge_kind \<times> bool) txn_action" where
  "handle_unlink_in_txn hash_unlink_request read_ok clock db req txn ctx =
     (let conn = oc_connection_id ctx;
          request_hash = hash_unlink_request \<lparr>uo_request_id = uq_request_id req, uo_source = uq_source req,
            uo_target = uq_target req, uo_kind = uq_kind req, uo_space_id = oc_space ctx\<rparr>
      in txn_bind (validate_active (clock 0) txn conn) (\<lambda>_.
         txn_bind (with_buffer (clock 1) txn conn
           (replay_check ''unlink in-txn request_id replay with different params'' (uq_request_id req) request_hash)) (\<lambda>cached.
         case cached of
           Some (ReplayUnlink s t k removed) \<Rightarrow> txn_return (Inr (s, t, k, removed))
         | _ \<Rightarrow> unlink_in_txn_fresh read_ok clock db req request_hash txn ctx)))"

text \<open>ENCODE, up to the reservation of a memory id: either a replayed memory id or nothing. The request
  fields that the buffered encode keeps are a record; the vector is the embedder's answer.\<close>

record encode_in_txn =
  en_text :: text_bytes
  en_session_id :: session_id
  en_request_id :: request_id
  en_occurred_at_unix_nanos :: "u64 option"

definition DEFAULT_KIND :: memory_kind where "DEFAULT_KIND = Episodic"
definition DEFAULT_SALIENCE :: f32 where "DEFAULT_SALIENCE = 0x3F000000"

definition encode_in_txn_prepare ::
  "bool \<Rightarrow> bytes \<Rightarrow> f32 list option \<Rightarrow> (nat \<Rightarrow> u64) \<Rightarrow> encode_in_txn \<Rightarrow> txn_id \<Rightarrow> op_ctx \<Rightarrow> (memory_id + f32 list) txn_action" where
  "encode_in_txn_prepare plan_ok request_hash embedded clock req txn ctx =
     (if \<not> plan_ok then txn_return (Inl PlanFailed)
      else
        let conn = oc_connection_id ctx
        in txn_bind (validate_active (clock 0) txn conn) (\<lambda>_.
           txn_bind (with_buffer (clock 1) txn conn
             (replay_check ''encode in-txn request_id replay with different params'' (en_request_id req) request_hash)) (\<lambda>cached.
           case cached of
             Some (ReplayEncode m) \<Rightarrow> txn_return (Inr (Inl m))
           | _ \<Rightarrow>
             txn_bind (with_buffer (clock 2) txn conn capacity_check) (\<lambda>_.
             case embedded of None \<Rightarrow> txn_return (Inl EmbedFailed) | Some v \<Rightarrow> txn_return (Inr (Inr v))))))"

definition encode_in_txn_push ::
  "bytes \<Rightarrow> bytes \<Rightarrow> f32 list \<Rightarrow> memory_id option \<Rightarrow> (nat \<Rightarrow> u64) \<Rightarrow> encode_in_txn \<Rightarrow> txn_id \<Rightarrow> op_ctx \<Rightarrow> memory_id txn_action" where
  "encode_in_txn_push fingerprint request_hash v reserved clock req txn ctx =
     (case reserved of
        None \<Rightarrow> txn_return (Inl WriterFailed)
      | Some memory_id \<Rightarrow>
          let buffered = \<lparr>be_memory_id = memory_id, be_text = en_text req, be_vector = v, be_edges = [],
                be_kind = DEFAULT_KIND, be_session_id = en_session_id req, be_salience_initial = DEFAULT_SALIENCE,
                be_fingerprint = fingerprint, be_request_id = en_request_id req, be_request_hash = request_hash,
                be_created_at_unix_nanos = clock 0, be_occurred_at_unix_nanos = en_occurred_at_unix_nanos req,
                be_space_id = oc_space ctx\<rparr>
          in txn_bind (with_buffer (clock 1) txn (oc_connection_id ctx) (\<lambda>buf. (Inr (),
               remember (en_request_id req) request_hash (ReplayEncode memory_id)
                 (buf\<lparr>tx_encodes := tx_encodes buf @ [buffered]\<rparr>)))) (\<lambda>_.
             txn_return (Inr memory_id)))"

section \<open>What an operation can do to the store\<close>

definition edgeless :: "txn_buffer \<Rightarrow> bool" where
  "edgeless b \<longleftrightarrow> (\<forall>e \<in> set (tx_encodes b). be_edges e = [])"

text \<open>How an entry may change while it is only swept, and while its owner buffers operations in it.\<close>

definition swept :: "txn_entry \<Rightarrow> txn_entry \<Rightarrow> bool" where
  "swept e e' \<longleftrightarrow> e' = e \<or> te_state e = TxnActive \<and> e' = e\<lparr>te_state := TxnExpiredState, te_buffer := None\<rparr>"

definition evolves :: "txn_entry \<Rightarrow> txn_entry \<Rightarrow> bool" where
  "evolves e e' \<longleftrightarrow>
     te_connection_id e' = te_connection_id e \<and> te_delegated e' = te_delegated e \<and>
     te_final_response e' = te_final_response e \<and>
     (te_state e' = te_state e \<or> te_state e = TxnActive \<and> te_state e' = TxnExpiredState) \<and>
     (te_buffer e = None \<longrightarrow> te_buffer e' = None) \<and>
     (\<forall>b'. te_buffer e' = Some b' \<longrightarrow> (\<exists>b. te_buffer e = Some b \<and> (edgeless b \<longrightarrow> edgeless b')))"

definition quiet :: "txn_id \<Rightarrow> bytes \<Rightarrow> txn_store \<Rightarrow> txn_store \<Rightarrow> bool" where
  "quiet txn conn es es' \<longleftrightarrow>
     (\<forall>x. case map_of es x of
            None \<Rightarrow> map_of es' x = None
          | Some e \<Rightarrow> \<exists>e'. map_of es' x = Some e' \<and> evolves e e' \<and>
              (x = txn \<and> txn_owned_by (te_connection_id e) conn \<or> swept e e'))"

lemma swept_refl [simp]: "swept e e"
  by (simp add: swept_def)

lemma swept_trans: "swept e e' \<Longrightarrow> swept e' e'' \<Longrightarrow> swept e e''"
  by (auto simp: swept_def)

lemma evolves_refl [simp]: "evolves e e"
  by (simp add: evolves_def)

lemma evolves_trans: "evolves e e' \<Longrightarrow> evolves e' e'' \<Longrightarrow> evolves e e''"
  unfolding evolves_def by metis

lemma swept_evolves: "swept e e' \<Longrightarrow> evolves e e'"
  by (auto simp: swept_def evolves_def)

lemma sweep_entry_swept [simp]: "swept e (sweep_entry now e)"
  by (simp add: swept_def sweep_entry_def)

lemma quiet_refl [simp]: "quiet txn conn es es"
  by (simp add: quiet_def split: option.split)

lemma quiet_trans:
  assumes "quiet txn conn es es'" and "quiet txn conn es' es''"
  shows "quiet txn conn es es''"
  unfolding quiet_def
proof (rule allI)
  fix x
  show "case map_of es x of None \<Rightarrow> map_of es'' x = None
    | Some e \<Rightarrow> \<exists>e'. map_of es'' x = Some e' \<and> evolves e e' \<and>
        (x = txn \<and> txn_owned_by (te_connection_id e) conn \<or> swept e e')"
  proof (cases "map_of es x")
    case None
    with assms show ?thesis by (auto simp: quiet_def dest!: spec [of _ x])
  next
    case (Some e)
    with assms(1) obtain e' where e': "map_of es' x = Some e'" "evolves e e'"
      "x = txn \<and> txn_owned_by (te_connection_id e) conn \<or> swept e e'"
      by (auto simp: quiet_def dest!: spec [of _ x])
    with assms(2) obtain e'' where e'': "map_of es'' x = Some e''" "evolves e' e''"
      "x = txn \<and> txn_owned_by (te_connection_id e') conn \<or> swept e' e''"
      by (auto simp: quiet_def dest!: spec [of _ x])
    have "te_connection_id e' = te_connection_id e" using e'(2) by (simp add: evolves_def)
    with e' e'' show ?thesis using evolves_trans swept_trans by (auto simp: Some)
  qed
qed

lemma quiet_sweep [simp]: "quiet txn conn es (sweep_expired_locked now es)"
  by (auto simp: quiet_def swept_evolves split: option.split)

lemma quiet_update:
  assumes "\<And>e. map_of es txn = Some e \<Longrightarrow> evolves e (f e) \<and> txn_owned_by (te_connection_id e) conn"
  shows "quiet txn conn es (update_entry txn f es)"
  using assms by (auto simp: quiet_def split: option.split)

lemma quiet_validate: "quiet txn conn es (snd (validate_active now txn conn es))"
proof -
  let ?es = "sweep_expired_locked now es"
  have "quiet txn conn ?es (snd (validate_active now txn conn es))"
    by (auto simp: validate_active_def Let_def evolves_def intro!: quiet_update split: option.split)
  then show ?thesis by (rule quiet_trans [OF quiet_sweep])
qed

lemma quiet_with_buffer:
  assumes "\<And>b. edgeless b \<Longrightarrow> edgeless (snd (f b))"
  shows "quiet txn conn es (snd (with_buffer now txn conn f es))"
proof -
  let ?es = "sweep_expired_locked now es"
  have "quiet txn conn ?es (snd (with_buffer now txn conn f es))"
    using assms
    by (fastforce simp: with_buffer_def Let_def evolves_def intro!: quiet_update
        split: option.split txn_state.split prod.split sum.split)
  then show ?thesis by (rule quiet_trans [OF quiet_sweep])
qed

definition quiet_action :: "txn_id \<Rightarrow> bytes \<Rightarrow> 'r txn_action \<Rightarrow> bool" where
  "quiet_action txn conn m \<longleftrightarrow> (\<forall>es. quiet txn conn es (snd (m es)))"

named_theorems quiet_rules

lemma quiet_action_return [quiet_rules]: "quiet_action txn conn (txn_return r)"
  by (simp add: quiet_action_def txn_return_def)

lemma quiet_action_bind [quiet_rules]:
  assumes "quiet_action txn conn m" and "\<And>r. quiet_action txn conn (f r)"
  shows "quiet_action txn conn (txn_bind m f)"
  unfolding quiet_action_def
proof (rule allI)
  fix es
  obtain r es' where m: "m es = (r, es')" by (cases "m es")
  have one: "quiet txn conn es es'" using assms(1) by (metis m quiet_action_def snd_conv)
  show "quiet txn conn es (snd (txn_bind m f es))"
  proof (cases r)
    case (Inr a)
    have "quiet txn conn es' (snd (f a es'))" using assms(2) by (simp add: quiet_action_def)
    with one show ?thesis using quiet_trans by (auto simp: txn_bind_def m Inr)
  qed (simp add: txn_bind_def m one)
qed

lemma snd_or_false [simp]: "snd (or_false m es) = snd (m es)"
  by (simp add: or_false_def split: prod.split sum.split)

lemma quiet_action_or_false [quiet_rules]: "quiet_action txn conn m \<Longrightarrow> quiet_action txn conn (or_false m)"
  by (simp add: quiet_action_def)

lemma quiet_action_store [quiet_rules]:
  "quiet_action txn conn (validate_active now txn conn)"
  "(\<And>b. edgeless b \<Longrightarrow> edgeless (snd (g b))) \<Longrightarrow> quiet_action txn conn (with_buffer now txn conn g)"
  by (simp_all add: quiet_action_def quiet_validate quiet_with_buffer)

lemma quiet_action_split [quiet_rules]:
  "(c \<Longrightarrow> quiet_action txn conn m) \<Longrightarrow> (\<not> c \<Longrightarrow> quiet_action txn conn m') \<Longrightarrow> quiet_action txn conn (if c then m else m')"
  "(\<And>a b. quiet_action txn conn (h a b)) \<Longrightarrow> quiet_action txn conn (case p of (a, b) \<Rightarrow> h a b)"
  "quiet_action txn conn m \<Longrightarrow> (\<And>y. quiet_action txn conn (k y)) \<Longrightarrow>
     quiet_action txn conn (case x of None \<Rightarrow> m | Some y \<Rightarrow> k y)"
  "(\<And>i. quiet_action txn conn (f1 i)) \<Longrightarrow> (\<And>i oc. quiet_action txn conn (f2 i oc)) \<Longrightarrow>
     (\<And>s t k w at ex. quiet_action txn conn (f3 s t k w at ex)) \<Longrightarrow> (\<And>s t k rm. quiet_action txn conn (f4 s t k rm)) \<Longrightarrow>
     quiet_action txn conn (case rp of ReplayEncode i \<Rightarrow> f1 i | ReplayForget i oc \<Rightarrow> f2 i oc
       | ReplayLink s t k w at ex \<Rightarrow> f3 s t k w at ex | ReplayUnlink s t k rm \<Rightarrow> f4 s t k rm)"
  by (auto split: prod.split option.split buffered_replay.split)

lemma edgeless_kept [simp]:
  "edgeless (snd (replay_check what r h b)) = edgeless b" "edgeless (snd (capacity_check b)) = edgeless b"
  "edgeless (remember r h c b) = edgeless b" "edgeless (b\<lparr>tx_links := ls, tx_unlinked_edges := us\<rparr>) = edgeless b"
  "edgeless (b\<lparr>tx_forgets := fs, tx_tombstoned := ts\<rparr>) = edgeless b"
  "edgeless (b\<lparr>tx_unlinks := xs, tx_unlinked_edges := us\<rparr>) = edgeless b"
  "edgeless (b\<lparr>tx_encodes := tx_encodes b @ [e]\<rparr>) \<longleftrightarrow> edgeless b \<and> be_edges e = []"
  by (auto simp: edgeless_def replay_check_def capacity_check_def remember_def split: option.split)

lemma quiet_handlers:
  "quiet_action txn (oc_connection_id ctx) (handle_forget_in_txn h p r clock db fq txn ctx)"
  "quiet_action txn (oc_connection_id ctx) (handle_link_in_txn hl rl clock db lq txn ctx)"
  "quiet_action txn (oc_connection_id ctx) (handle_unlink_in_txn hu r clock db uq txn ctx)"
  "quiet_action txn (oc_connection_id ctx) (encode_in_txn_prepare p rh emb clock enc txn ctx)"
  "quiet_action txn (oc_connection_id ctx) (encode_in_txn_push fp rh v res clock enc txn ctx)"
  unfolding handle_forget_in_txn_def handle_link_in_txn_def handle_unlink_in_txn_def encode_in_txn_prepare_def
    encode_in_txn_push_def link_in_txn_fresh_def unlink_in_txn_fresh_def Let_def
  by ((intro quiet_rules; simp)+)

section \<open>Interleavings\<close>

record txn_hashes =
  th_forget :: "forget_op \<Rightarrow> bytes"
  th_link :: "link_op \<Rightarrow> bytes"
  th_unlink :: "unlink_op \<Rightarrow> bytes"
  th_commit :: "txn_id \<Rightarrow> phase list \<Rightarrow> bytes"

text \<open>The store of a shard, the commits that await the writer, and the writes it was given, in order.\<close>

record txn_world =
  tw_store :: txn_store
  tw_inflight :: "pending_commit list"
  tw_writes :: "db_write list"

datatype txn_event =
    TBegin u64 txn_begin_request bytes op_ctx
  | TForget bool bool "nat \<Rightarrow> u64" graph_db forget_request txn_id op_ctx
  | TLink "nat \<Rightarrow> bool" "nat \<Rightarrow> u64" graph_db link_request txn_id op_ctx
  | TUnlink bool "nat \<Rightarrow> u64" graph_db unlink_request txn_id op_ctx
  | TEncodePrepare bool bytes "f32 list option" "nat \<Rightarrow> u64" encode_in_txn txn_id op_ctx
  | TEncodePush bytes bytes "f32 list" "memory_id option" "nat \<Rightarrow> u64" encode_in_txn txn_id op_ctx
  | TCommit bool u64 txn_id op_ctx
  | TCommitDone pending_commit bool u64
  | TAbort u64 txn_id op_ctx
  | TDisconnect bytes

definition commit_event :: "txn_hashes \<Rightarrow> bool \<Rightarrow> u64 \<Rightarrow> txn_id \<Rightarrow> op_ctx \<Rightarrow> txn_world \<Rightarrow> txn_world" where
  "commit_event H writer_ok now txn ctx w =
     (case txn_commit_start (th_commit H) writer_ok now txn ctx (tw_store w) of
        (CommitReturned r, es) \<Rightarrow> w\<lparr>tw_store := es\<rparr>
      | (CommitSubmitted wr p, es) \<Rightarrow>
          w\<lparr>tw_store := es, tw_inflight := p # tw_inflight w, tw_writes := tw_writes w @ [wr]\<rparr>)"

definition commit_done_event :: "pending_commit \<Rightarrow> bool \<Rightarrow> u64 \<Rightarrow> txn_world \<Rightarrow> txn_world" where
  "commit_done_event p ok now w =
     (if p \<in> set (tw_inflight w)
      then w\<lparr>tw_store := snd (snd (txn_commit_finish ok now p (tw_store w))), tw_inflight := remove1 p (tw_inflight w)\<rparr>
      else w)"

fun txn_step :: "txn_hashes \<Rightarrow> txn_event \<Rightarrow> txn_world \<Rightarrow> txn_world" where
  "txn_step H (TBegin now req conn ctx) w = w\<lparr>tw_store := snd (handle_txn_begin now req conn ctx (tw_store w))\<rparr>"
| "txn_step H (TForget p r clock db req txn ctx) w =
     w\<lparr>tw_store := snd (handle_forget_in_txn (th_forget H) p r clock db req txn ctx (tw_store w))\<rparr>"
| "txn_step H (TLink r clock db req txn ctx) w =
     w\<lparr>tw_store := snd (handle_link_in_txn (th_link H) r clock db req txn ctx (tw_store w))\<rparr>"
| "txn_step H (TUnlink r clock db req txn ctx) w =
     w\<lparr>tw_store := snd (handle_unlink_in_txn (th_unlink H) r clock db req txn ctx (tw_store w))\<rparr>"
| "txn_step H (TEncodePrepare p h emb clock enc txn ctx) w =
     w\<lparr>tw_store := snd (encode_in_txn_prepare p h emb clock enc txn ctx (tw_store w))\<rparr>"
| "txn_step H (TEncodePush fp h v m clock enc txn ctx) w =
     w\<lparr>tw_store := snd (encode_in_txn_push fp h v m clock enc txn ctx (tw_store w))\<rparr>"
| "txn_step H (TCommit ok now txn ctx) w = commit_event H ok now txn ctx w"
| "txn_step H (TCommitDone p ok now) w = commit_done_event p ok now w"
| "txn_step H (TAbort now txn ctx) w = w\<lparr>tw_store := snd (handle_txn_abort now txn ctx (tw_store w))\<rparr>"
| "txn_step H (TDisconnect conn) w = w\<lparr>tw_store := snd (abort_orphaned_for_connection conn (tw_store w))\<rparr>"

definition txn_run :: "txn_hashes \<Rightarrow> txn_event list \<Rightarrow> txn_world \<Rightarrow> txn_world" where
  "txn_run H evs w = fold (txn_step H) evs w"

definition empty_world :: txn_world where
  "empty_world = \<lparr>tw_store = [], tw_inflight = [], tw_writes = []\<rparr>"

lemma txn_run_simps [simp]:
  "txn_run H [] w = w" "txn_run H (ev # evs) w = txn_run H evs (txn_step H ev w)"
  "txn_run H (evs @ evs') w = txn_run H evs' (txn_run H evs w)"
  by (simp_all add: txn_run_def)

text \<open>Events that buffer an operation.\<close>

fun buffers_in :: "txn_event \<Rightarrow> (txn_id \<times> bytes) option" where
  "buffers_in (TForget p r clock db req txn ctx) = Some (txn, oc_connection_id ctx)"
| "buffers_in (TLink r clock db req txn ctx) = Some (txn, oc_connection_id ctx)"
| "buffers_in (TUnlink r clock db req txn ctx) = Some (txn, oc_connection_id ctx)"
| "buffers_in (TEncodePrepare p h emb clock enc txn ctx) = Some (txn, oc_connection_id ctx)"
| "buffers_in (TEncodePush fp h v m clock enc txn ctx) = Some (txn, oc_connection_id ctx)"
| "buffers_in ev = None"

lemma buffering_step:
  assumes "buffers_in ev = Some (txn, conn)"
  shows "\<exists>es. txn_step H ev w = w\<lparr>tw_store := es\<rparr> \<and> quiet txn conn (tw_store w) es"
  using assms by (cases ev) (auto intro!: quiet_handlers [unfolded quiet_action_def, rule_format])

section \<open>One step\<close>

text \<open>What no step takes away from an entry.\<close>

definition keeps :: "txn_entry \<Rightarrow> txn_entry \<Rightarrow> bool" where
  "keeps e e' \<longleftrightarrow>
     te_connection_id e' = te_connection_id e \<and> te_delegated e' = te_delegated e \<and>
     (\<forall>b'. te_buffer e' = Some b' \<longrightarrow> (\<exists>b. te_buffer e = Some b \<and> (edgeless b \<longrightarrow> edgeless b')))"

definition committed_as :: "u64 \<Rightarrow> u32 \<Rightarrow> txn_entry \<Rightarrow> bool" where
  "committed_as at n e \<longleftrightarrow> te_state e = TxnCommitted \<and> te_final_response e = Some (FinalCommit at n)"

lemma keeps_refl [simp]: "keeps e e"
  by (simp add: keeps_def)

lemma keeps_trans: "keeps e e' \<Longrightarrow> keeps e' e'' \<Longrightarrow> keeps e e''"
  unfolding keeps_def by metis

lemma evolves_keeps: "evolves e e' \<Longrightarrow> keeps e e'"
  by (auto simp: evolves_def keeps_def)

lemma evolves_committed: "evolves e e' \<Longrightarrow> committed_as at n e \<Longrightarrow> committed_as at n e'"
  by (auto simp: evolves_def committed_as_def)

lemma sweep_committed [simp]: "committed_as at n (sweep_entry now e) \<longleftrightarrow> committed_as at n e"
  by (auto simp: committed_as_def sweep_entry_def)

lemma keeps_edits [simp]:
  "keeps e (sweep_entry now e)" "keeps e (abort_entry e)"
  "keeps e (e\<lparr>te_state := s, te_final_response := f\<rparr>)" "keeps e (e\<lparr>te_buffer := None\<rparr>)"
  "keeps e (e\<lparr>te_buffer := None, te_state := s, te_final_response := f\<rparr>)"
  by (auto simp: keeps_def abort_entry_def sweep_entry_def)

lemma keeps_after_sweep:
  "keeps (sweep_entry now e) e' \<Longrightarrow> keeps e e'"
  using keeps_edits(1) keeps_trans by blast

lemma look_begin:
  "map_of (snd (handle_txn_begin now req conn ctx es)) x =
     (case map_of es x of
        Some e \<Rightarrow> Some (sweep_entry now e)
      | None \<Rightarrow>
          if x = tb_txn_id req then
            Some \<lparr>te_state = TxnActive, te_started_at_unix_nanos = now,
              te_expires_at_unix_nanos = deadline now (clamp_timeout (tb_timeout_seconds req)),
              te_timeout_seconds = clamp_timeout (tb_timeout_seconds req), te_final_response = None,
              te_buffer = Some txn_buffer_default,
              te_delegated = (if tb_act_as req \<noteq> None
                then Some \<lparr>di_space_id = oc_space ctx, di_namespace = oc_namespace ctx, di_space_string = oc_space_string ctx\<rparr>
                else None),
              te_connection_id = conn\<rparr>
          else None)"
  by (auto simp: handle_txn_begin_def Let_def update_conv' split: option.split)

lemma active_not_committed: "te_state (sweep_entry now e) = TxnActive \<Longrightarrow> \<not> committed_as at n e"
  by (auto simp: committed_as_def sweep_entry_def)

text \<open>The two outcomes of the first section of a commit.\<close>

definition harmless :: "(txn_entry \<Rightarrow> txn_entry) \<Rightarrow> bool" where
  "harmless f \<longleftrightarrow> (\<forall>e. keeps e (f e) \<and>
     (\<forall>at n. te_final_response (f e) = Some (FinalCommit at n) \<longrightarrow> te_final_response e = Some (FinalCommit at n)))"

lemma commit_returned_store:
  assumes "txn_commit_start h ok now txn ctx es = (CommitReturned r, es')"
  shows "es' = sweep_expired_locked now es \<or>
    (\<exists>e. map_of es txn = Some e \<and> txn_owned_by (te_connection_id e) (oc_connection_id ctx) \<and>
       te_state (sweep_entry now e) = TxnActive \<and>
       (\<exists>f. es' = update_entry txn f (sweep_expired_locked now es) \<and> harmless f))"
proof -
  have two: "update_entry txn g (update_entry txn f es) = update_entry txn (\<lambda>e. g (f e)) es" for f g es
    by (auto simp: update_entry_def)
  have pick: "harmless f \<Longrightarrow> \<exists>g. update_entry txn f es = update_entry txn g es \<and> harmless g" for f es by blast
  show ?thesis
    using assms
    by (auto simp: txn_commit_start_def Let_def two split: option.splits if_splits txn_final_response.splits
        intro!: pick) (simp_all add: harmless_def)
qed

lemma commit_returned:
  assumes "txn_commit_start h ok now txn ctx es = (CommitReturned r, es')" and "map_of es x = Some e"
  shows "\<exists>e'. map_of es' x = Some e' \<and> keeps e e' \<and> (\<forall>at n. committed_as at n e \<longrightarrow> committed_as at n e') \<and>
    (x = txn \<and> txn_owned_by (te_connection_id e) (oc_connection_id ctx) \<or> swept e e') \<and>
    (\<forall>at n. te_final_response e' = Some (FinalCommit at n) \<longrightarrow> te_final_response e = Some (FinalCommit at n))"
  using commit_returned_store [OF assms(1)]
proof (elim disjE exE conjE)
  fix e0 f
  assume "map_of es txn = Some e0" and "txn_owned_by (te_connection_id e0) (oc_connection_id ctx)"
    and act: "te_state (sweep_entry now e0) = TxnActive" and es': "es' = update_entry txn f (sweep_expired_locked now es)"
    and f: "harmless f"
  moreover have "keeps e (f (sweep_entry now e))"
    using f by (simp add: harmless_def keeps_trans [OF keeps_edits(1) [of e now]])
  ultimately show ?thesis
    using assms(2) active_not_committed [OF act] f [unfolded harmless_def, rule_format, of "sweep_entry now e"] by auto
qed (use assms(2) in simp)

lemma commit_submitted:
  assumes "txn_commit_start h ok now txn ctx es = (CommitSubmitted wr p, es')"
  shows "\<exists>e b. map_of es txn = Some e \<and> txn_owned_by (te_connection_id e) (oc_connection_id ctx) \<and>
    te_buffer e = Some b \<and> te_state e = TxnActive \<and> unat (ops_count b) \<le> 1000 \<and>
    wr = txn_commit_write h txn ctx b (te_delegated e) \<and>
    p = \<lparr>pc_txn_id = txn, pc_buffer = b, pc_ops_applied = ops_count b\<rparr> \<and>
    es' = update_entry txn (\<lambda>e. e\<lparr>te_buffer := None\<rparr>) (sweep_expired_locked now es)"
  using assms
  by (auto simp: txn_commit_start_def Let_def sweep_entry_def MAX_TXN_OPS_def word_le_nat_alt not_less
      split: option.splits if_splits txn_final_response.splits)

end
