(* ===== verification/Ops_Txn_Props.thy ===== *)
theory Ops_Txn_Props
  imports Ops_Txn
begin

text \<open>
  Properties of the interleaved transaction handlers: what one step can do to an entry, the invariant of
  the store, the commits in flight and the writes handed to the writer, and the properties that follow
  for every sequence of events.
\<close>

section \<open>Steps on an entry\<close>

text \<open>The connection an event acts for, where it can touch an existing entry.\<close>

fun actor :: "txn_event \<Rightarrow> bytes option" where
  "actor (TBegin now req conn ctx) = None"
| "actor (TForget p r clock db req txn ctx) = Some (oc_connection_id ctx)"
| "actor (TLink r clock db req txn ctx) = Some (oc_connection_id ctx)"
| "actor (TUnlink r clock db req txn ctx) = Some (oc_connection_id ctx)"
| "actor (TEncodePrepare p h emb clock enc txn ctx) = Some (oc_connection_id ctx)"
| "actor (TEncodePush fp h v m clock enc txn ctx) = Some (oc_connection_id ctx)"
| "actor (TCommit ok now txn ctx) = Some (oc_connection_id ctx)"
| "actor (TCommitDone p ok now) = None"
| "actor (TAbort now txn ctx) = Some (oc_connection_id ctx)"
| "actor (TDisconnect conn) = Some conn"

text \<open>The event is the writer's answer to the commit of this transaction.\<close>

fun finishes :: "txn_id \<Rightarrow> txn_event \<Rightarrow> bool" where
  "finishes x (TCommitDone p ok now) \<longleftrightarrow> pc_txn_id p = x"
| "finishes x ev \<longleftrightarrow> False"

definition entry_step :: "txn_event \<Rightarrow> txn_id \<Rightarrow> txn_entry \<Rightarrow> txn_entry \<Rightarrow> bool" where
  "entry_step ev x e e' \<longleftrightarrow>
     keeps e e' \<and>
     (finishes x ev \<or>
       (\<forall>at n. committed_as at n e \<longrightarrow> committed_as at n e') \<and>
       (\<forall>at n. te_final_response e' = Some (FinalCommit at n) \<longrightarrow> te_final_response e = Some (FinalCommit at n)) \<and>
       (te_connection_id e = replicate 16 0 \<or> actor ev = Some (te_connection_id e) \<or> swept e e'))"

lemma swept_step: "swept e e' \<Longrightarrow> entry_step ev x e e'"
  using evolves_keeps [OF swept_evolves] evolves_committed [OF swept_evolves]
  by (auto simp: entry_step_def swept_def)

lemma owned_actor: "txn_owned_by c caller \<Longrightarrow> c = replicate 16 0 \<or> caller = c"
  by (auto simp: txn_owned_by_def)

lemma buffering_actor: "buffers_in ev = Some (txn, conn) \<Longrightarrow> actor ev = Some conn"
  by (cases ev) auto

lemma evolves_final: "evolves e e' \<Longrightarrow> te_final_response e' = te_final_response e"
  by (simp add: evolves_def)

lemma buffering_entry:
  assumes "buffers_in ev = Some (txn, conn)" and "map_of (tw_store w) x = Some e"
  shows "\<exists>e'. map_of (tw_store (txn_step H ev w)) x = Some e' \<and> entry_step ev x e e'"
proof -
  obtain es where "txn_step H ev w = w\<lparr>tw_store := es\<rparr>" and q: "quiet txn conn (tw_store w) es"
    using buffering_step [OF assms(1)] by blast
  moreover obtain e' where e': "map_of es x = Some e'" "evolves e e'"
    "txn_owned_by (te_connection_id e) conn \<or> swept e e'"
    using q assms(2) by (auto simp: quiet_def dest!: spec [of _ x])
  moreover have "entry_step ev x e e'"
    using e'(3) owned_actor [of "te_connection_id e" conn] buffering_actor [OF assms(1)]
      evolves_keeps [OF e'(2)] evolves_committed [OF e'(2)] evolves_final [OF e'(2)]
    by (auto simp: entry_step_def)
  ultimately show ?thesis by simp
qed

lemma commit_entry:
  assumes "map_of (tw_store w) x = Some e"
  shows "\<exists>e'. map_of (tw_store (commit_event H ok now txn ctx w)) x = Some e' \<and> entry_step (TCommit ok now txn ctx) x e e'"
proof (cases "txn_commit_start (th_commit H) ok now txn ctx (tw_store w)")
  case (Pair r es)
  show ?thesis
  proof (cases r)
    case (CommitReturned a)
    then obtain e' where "map_of es x = Some e'" "keeps e e'"
      "\<forall>at n. committed_as at n e \<longrightarrow> committed_as at n e'"
      "x = txn \<and> txn_owned_by (te_connection_id e) (oc_connection_id ctx) \<or> swept e e'"
      "\<forall>at n. te_final_response e' = Some (FinalCommit at n) \<longrightarrow> te_final_response e = Some (FinalCommit at n)"
      using commit_returned [OF _ assms] Pair by blast
    then show ?thesis
      using owned_actor [of "te_connection_id e" "oc_connection_id ctx"] by (auto simp: commit_event_def Pair CommitReturned entry_step_def)
  next
    case (CommitSubmitted wr p)
    then obtain e0 where e0: "map_of (tw_store w) txn = Some e0" "txn_owned_by (te_connection_id e0) (oc_connection_id ctx)"
      "te_state e0 = TxnActive" "es = update_entry txn (\<lambda>e. e\<lparr>te_buffer := None\<rparr>) (sweep_expired_locked now (tw_store w))"
      using commit_submitted Pair by blast
    have "entry_step (TCommit ok now txn ctx) x e ((sweep_entry now e)\<lparr>te_buffer := None\<rparr>)" if "x = txn"
      using that e0 assms owned_actor [of "te_connection_id e" "oc_connection_id ctx"]
      by (auto simp: entry_step_def keeps_def committed_as_def sweep_entry_def)
    with assms show ?thesis
      by (auto simp: commit_event_def Pair CommitSubmitted e0(4) swept_step)
  qed
qed

lemma step_entry:
  assumes "map_of (tw_store w) x = Some e"
  shows "\<exists>e'. map_of (tw_store (txn_step H ev w)) x = Some e' \<and> entry_step ev x e e'"
proof (cases "buffers_in ev")
  case None
  show ?thesis
  proof (cases ev)
    case (TCommitDone p ok now)
    with assms show ?thesis
      by (auto simp: commit_done_event_def txn_commit_finish_def entry_step_def)
  next
    case (TAbort now txn ctx)
    with assms show ?thesis
      using owned_actor [of "te_connection_id e" "oc_connection_id ctx"]
      by (auto simp: handle_txn_abort_def Let_def swept_step split: option.split txn_final_response.split)
        (auto simp: entry_step_def abort_entry_def keeps_def committed_as_def sweep_entry_def split: if_splits)
  next
    case (TDisconnect conn)
    with assms show ?thesis
      by (auto simp: look_orphans swept_step) (auto simp: entry_step_def orphaned_def committed_as_def abort_entry_def keeps_def)
  next
    case (TBegin now req conn ctx)
    with assms show ?thesis by (simp add: look_begin swept_step)
  qed (use None commit_entry [OF assms] in auto)
qed (use buffering_entry assms in force)

lemma step_new_entry:
  assumes "map_of (tw_store w) x = None" and "map_of (tw_store (txn_step H ev w)) x = Some e"
  shows "te_buffer e = Some txn_buffer_default \<and> te_final_response e = None"
proof (cases "buffers_in ev")
  case None
  show ?thesis
  proof (cases ev)
    case (TCommit ok now txn ctx)
    obtain r es where start: "txn_commit_start (th_commit H) ok now txn ctx (tw_store w) = (r, es)"
      by (cases "txn_commit_start (th_commit H) ok now txn ctx (tw_store w)")
    then have "map_of es x = None"
      using assms(1) commit_returned_store commit_submitted by (cases r) fastforce+
    with assms(2) TCommit start show ?thesis by (cases r) (auto simp: commit_event_def)
  qed (use assms None in \<open>auto simp: look_begin look_orphans commit_done_event_def txn_commit_finish_def
         handle_txn_abort_def Let_def split: if_splits option.splits txn_final_response.splits\<close>)
next
  case (Some p)
  with buffering_step [of ev "fst p" "snd p" H w] assms show ?thesis
    by (auto simp: quiet_def dest!: spec [of _ x])
qed

section \<open>Writes and commits in flight\<close>

definition issued_as :: "txn_entry \<Rightarrow> db_write \<Rightarrow> bool" where
  "issued_as e wr \<longleftrightarrow>
     (\<forall>d. te_delegated e = Some d \<longrightarrow>
        wr_space_id wr = di_space_id d \<and> wr_namespace wr = di_namespace d \<and> wr_space_string wr = di_space_string d)"

definition submits :: "txn_hashes \<Rightarrow> txn_event \<Rightarrow> txn_world \<Rightarrow> db_write \<Rightarrow> pending_commit \<Rightarrow> bool" where
  "submits H ev w wr p \<longleftrightarrow>
     (\<exists>ok now ctx e e'. ev = TCommit ok now (pc_txn_id p) ctx \<and> map_of (tw_store w) (pc_txn_id p) = Some e \<and>
        te_buffer e = Some (pc_buffer p) \<and> txn_owned_by (te_connection_id e) (oc_connection_id ctx) \<and>
        pc_ops_applied p = ops_count (pc_buffer p) \<and> unat (pc_ops_applied p) \<le> 1000 \<and>
        wr = txn_commit_write (th_commit H) (pc_txn_id p) ctx (pc_buffer p) (te_delegated e) \<and>
        map_of (tw_store (txn_step H ev w)) (pc_txn_id p) = Some e' \<and> te_buffer e' = None \<and>
        te_delegated e' = te_delegated e)"

lemma step_log:
  "let w' = txn_step H ev w in
     tw_writes w' = tw_writes w \<and>
       (tw_inflight w' = tw_inflight w \<or>
        (\<exists>p ok now. ev = TCommitDone p ok now \<and> p \<in> set (tw_inflight w) \<and> tw_inflight w' = remove1 p (tw_inflight w))) \<or>
     (\<exists>wr p. submits H ev w wr p \<and> tw_writes w' = tw_writes w @ [wr] \<and> tw_inflight w' = p # tw_inflight w)"
proof (cases "buffers_in ev")
  case None
  show ?thesis
  proof (cases ev)
    case (TCommit ok now txn ctx)
    obtain r es where start: "txn_commit_start (th_commit H) ok now txn ctx (tw_store w) = (r, es)"
      by (cases "txn_commit_start (th_commit H) ok now txn ctx (tw_store w)")
    show ?thesis
    proof (cases r)
      case (CommitSubmitted wr p)
      with start commit_submitted have "submits H ev w wr p"
        by (fastforce simp: submits_def TCommit commit_event_def)
      then show ?thesis by (auto simp: Let_def TCommit commit_event_def start CommitSubmitted)
    qed (simp add: TCommit commit_event_def start Let_def)
  qed (use None in \<open>auto simp: Let_def commit_done_event_def\<close>)
next
  case (Some p)
  with buffering_step [of ev "fst p" "snd p" H w] show ?thesis by (auto simp: Let_def)
qed

lemma commit_write_fields [simp]:
  "wr_write_id (txn_commit_write h txn ctx b d) = txn" "wr_phases (txn_commit_write h txn ctx b d) = build_phases b"
  by (simp_all add: txn_commit_write_def write_from_phases_def Let_def split: option.split)

lemma commit_write_issued: "te_delegated e = d \<Longrightarrow> issued_as e (txn_commit_write h txn ctx b d)"
  by (auto simp: issued_as_def txn_commit_write_def write_from_phases_def Let_def)

lemma edgeless_phases:
  assumes "edgeless b" and "unat (ops_count b) \<le> 1000"
  shows "length (build_phases b) = unat (ops_count b)"
proof -
  let ?n = "length (tx_encodes b) + length (tx_forgets b) + length (tx_links b) + length (tx_unlinks b)"
  have "length (concat (map encode_phases es)) = length es" if "\<forall>e \<in> set es. be_edges e = []" for es
    using that by (induction es) (simp_all add: encode_phases_def)
  then have "length (build_phases b) = ?n"
    using assms(1) by (simp add: build_phases_def edgeless_def)
  moreover have "unat (ops_count b) = min ?n (2 ^ 32 - 1)"
    by (simp add: ops_count_def unsigned_of_nat take_bit_nat_eq_self_iff)
  ultimately show ?thesis using assms(2) by simp
qed

section \<open>The invariant\<close>

definition entry_ok :: "txn_world \<Rightarrow> txn_id \<Rightarrow> txn_entry \<Rightarrow> bool" where
  "entry_ok w x e \<longleftrightarrow>
     (\<forall>b. te_buffer e = Some b \<longrightarrow> edgeless b) \<and>
     (\<forall>at n. te_final_response e = Some (FinalCommit at n) \<longrightarrow>
        committed_as at n e \<and> x \<notin> pc_txn_id ` set (tw_inflight w) \<and>
        (\<exists>wr \<in> set (tw_writes w). wr_write_id wr = x \<and> length (wr_phases wr) = unat n))"

definition write_ok :: "txn_world \<Rightarrow> db_write \<Rightarrow> bool" where
  "write_ok w wr \<longleftrightarrow>
     length (wr_phases wr) \<le> 1000 \<and>
     (\<exists>e. map_of (tw_store w) (wr_write_id wr) = Some e \<and> te_buffer e = None \<and> issued_as e wr)"

definition pending_ok :: "txn_world \<Rightarrow> pending_commit \<Rightarrow> bool" where
  "pending_ok w p \<longleftrightarrow>
     (\<exists>wr \<in> set (tw_writes w). wr_write_id wr = pc_txn_id p \<and> length (wr_phases wr) = unat (pc_ops_applied p))"

definition txn_inv :: "txn_world \<Rightarrow> bool" where
  "txn_inv w \<longleftrightarrow>
     distinct (map wr_write_id (tw_writes w)) \<and> distinct (map pc_txn_id (tw_inflight w)) \<and>
     (\<forall>x e. map_of (tw_store w) x = Some e \<longrightarrow> entry_ok w x e) \<and>
     (\<forall>wr \<in> set (tw_writes w). write_ok w wr) \<and> (\<forall>p \<in> set (tw_inflight w). pending_ok w p)"

lemma write_ok_step:
  assumes "write_ok w wr"
  shows "write_ok (txn_step H ev w) wr"
proof -
  obtain e where e: "map_of (tw_store w) (wr_write_id wr) = Some e" "te_buffer e = None" "issued_as e wr"
    and len: "length (wr_phases wr) \<le> 1000"
    using assms by (auto simp: write_ok_def)
  obtain e' where e': "map_of (tw_store (txn_step H ev w)) (wr_write_id wr) = Some e'" "keeps e e'"
    using step_entry [OF e(1), of H ev] by (auto simp: entry_step_def)
  have "te_buffer e' = None" using e'(2) e(2) by (cases "te_buffer e'") (auto simp: keeps_def)
  moreover have "issued_as e' wr" using e'(2) e(3) by (simp add: keeps_def issued_as_def)
  ultimately show ?thesis using e' len by (simp add: write_ok_def)
qed

text \<open>The entry of the transaction that the writer answers.\<close>

lemma finished_entry:
  assumes "p \<in> set (tw_inflight w)" and "map_of (tw_store w) (pc_txn_id p) = Some e"
  shows "\<exists>e'. map_of (tw_store (txn_step H (TCommitDone p ok now) w)) (pc_txn_id p) = Some e' \<and>
    te_buffer e' = te_buffer e \<and>
    (if ok then committed_as now (pc_ops_applied p) e' else te_final_response e' = Some (FinalAbort (pc_ops_applied p)))"
  using assms by (auto simp: commit_done_event_def txn_commit_finish_def committed_as_def)

lemma distinct_remove1_notin: "distinct (map f xs) \<Longrightarrow> x \<in> set xs \<Longrightarrow> f x \<notin> f ` set (remove1 x xs)"
  by (induction xs) (auto simp: rev_image_eqI)

lemma distinct_map_remove1: "distinct (map f xs) \<Longrightarrow> distinct (map f (remove1 x xs))"
  by (induction xs) (auto dest!: set_remove1_subset [THEN subsetD])

text \<open>The second half of \<open>entry_ok\<close>, for the answered transaction and for all others.\<close>

lemma finish_ok:
  assumes inv: "txn_inv w" and p: "p \<in> set (tw_inflight w)"
    and e': "map_of (tw_store (txn_step H (TCommitDone p ok now) w)) (pc_txn_id p) = Some e'"
    and fin: "te_final_response e' = Some (FinalCommit at n)"
  shows "committed_as at n e' \<and> pc_txn_id p \<notin> pc_txn_id ` set (tw_inflight (txn_step H (TCommitDone p ok now) w)) \<and>
    (\<exists>wr \<in> set (tw_writes (txn_step H (TCommitDone p ok now) w)). wr_write_id wr = pc_txn_id p \<and> length (wr_phases wr) = unat n)"
proof -
  obtain wr where wr: "wr \<in> set (tw_writes w)" "wr_write_id wr = pc_txn_id p" "length (wr_phases wr) = unat (pc_ops_applied p)"
    using inv p by (auto simp: txn_inv_def pending_ok_def)
  obtain e where "map_of (tw_store w) (pc_txn_id p) = Some e"
    using inv wr by (auto simp: txn_inv_def write_ok_def)
  from finished_entry [OF p this, of H ok now] e' fin
  have "committed_as now (pc_ops_applied p) e'" by (auto split: if_splits)
  moreover from this fin have "at = now" "n = pc_ops_applied p" by (simp_all add: committed_as_def)
  moreover have "pc_txn_id p \<notin> pc_txn_id ` set (remove1 p (tw_inflight w))"
    using inv p by (intro distinct_remove1_notin) (simp_all add: txn_inv_def)
  ultimately show ?thesis using wr p by (auto simp: commit_done_event_def)
qed

lemma other_ok:
  assumes inv: "txn_inv w" and e: "map_of (tw_store w) x = Some e" and step: "entry_step ev x e e'"
    and other: "\<not> finishes x ev" and fin: "te_final_response e' = Some (FinalCommit at n)"
  shows "committed_as at n e' \<and> x \<notin> pc_txn_id ` set (tw_inflight (txn_step H ev w)) \<and>
    (\<exists>wr \<in> set (tw_writes (txn_step H ev w)). wr_write_id wr = x \<and> length (wr_phases wr) = unat n)"
proof -
  have fin0: "te_final_response e = Some (FinalCommit at n)" using step other fin by (simp add: entry_step_def)
  then have "committed_as at n e" and out: "x \<notin> pc_txn_id ` set (tw_inflight w)"
    and "\<exists>wr \<in> set (tw_writes w). wr_write_id wr = x \<and> length (wr_phases wr) = unat n"
    using inv e by (auto simp: txn_inv_def entry_ok_def)
  then obtain wr where wr: "wr \<in> set (tw_writes w)" "wr_write_id wr = x" "length (wr_phases wr) = unat n" by blast
  have "te_buffer e = None" using inv wr e by (auto simp: txn_inv_def write_ok_def)
  then have "\<not> submits H ev w wr' p" if "pc_txn_id p = x" for wr' p using e that by (auto simp: submits_def)
  then have "x \<notin> pc_txn_id ` set (tw_inflight (txn_step H ev w))" "set (tw_writes w) \<subseteq> set (tw_writes (txn_step H ev w))"
    using step_log [of H ev w] out by (auto simp: Let_def dest!: set_remove1_subset [THEN subsetD])
  moreover have "committed_as at n e'" using step other \<open>committed_as at n e\<close> by (simp add: entry_step_def)
  ultimately show ?thesis using wr by blast
qed

lemma entry_ok_step:
  assumes inv: "txn_inv w" and e': "map_of (tw_store (txn_step H ev w)) x = Some e'"
  shows "entry_ok (txn_step H ev w) x e'"
proof (cases "map_of (tw_store w) x")
  case None
  from step_new_entry [OF None e'] show ?thesis by (simp add: entry_ok_def edgeless_def txn_buffer_default_def)
next
  case (Some e)
  have step: "entry_step ev x e e'" using step_entry [OF Some, of H ev] e' by auto
  have ok: "entry_ok w x e" using inv Some by (simp add: txn_inv_def)
  have buf: "\<forall>b. te_buffer e' = Some b \<longrightarrow> edgeless b"
    using step ok by (auto simp: entry_step_def keeps_def entry_ok_def)
  have late: "txn_step H (TCommitDone p r now) w = w" if "p \<notin> set (tw_inflight w)" for p r now
    using that by (simp add: commit_done_event_def)
  consider p r now where "ev = TCommitDone p r now" "p \<in> set (tw_inflight w)" "pc_txn_id p = x"
    | "txn_step H ev w = w" | "\<not> finishes x ev"
    using late by (metis finishes.elims(2))
  then show ?thesis
  proof cases
    case 1
    have "map_of (tw_store (txn_step H (TCommitDone p r now) w)) (pc_txn_id p) = Some e'" using e' 1 by simp
    from finish_ok [OF inv 1(2) this] buf show ?thesis unfolding entry_ok_def 1(1) 1(3) by blast
  next
    case 2
    with e' Some ok show ?thesis by simp
  next
    case 3
    from other_ok [OF inv Some step 3, of _ _ H] buf show ?thesis unfolding entry_ok_def by blast
  qed
qed

lemma txn_inv_step:
  assumes inv: "txn_inv w"
  shows "txn_inv (txn_step H ev w)"
proof -
  let ?w = "txn_step H ev w"
  have old: "\<forall>wr \<in> set (tw_writes w). write_ok ?w wr" using inv write_ok_step by (auto simp: txn_inv_def)
  have entries: "\<forall>x e. map_of (tw_store ?w) x = Some e \<longrightarrow> entry_ok ?w x e" using entry_ok_step [OF inv] by blast
  from step_log [of H ev w, unfolded Let_def] show ?thesis
  proof (elim disjE conjE exE)
    assume "tw_writes ?w = tw_writes w" "tw_inflight ?w = tw_inflight w"
    with old entries inv show ?thesis by (simp add: txn_inv_def pending_ok_def)
  next
    fix p ok now
    assume "tw_writes ?w = tw_writes w" "tw_inflight ?w = remove1 p (tw_inflight w)"
    with old entries inv show ?thesis
      by (auto simp: txn_inv_def pending_ok_def distinct_map_remove1 dest!: set_remove1_subset [THEN subsetD])
  next
    fix wr p
    assume sub: "submits H ev w wr p" and log: "tw_writes ?w = tw_writes w @ [wr]" "tw_inflight ?w = p # tw_inflight w"
    then obtain e e' ctx where e: "map_of (tw_store w) (pc_txn_id p) = Some e" "te_buffer e = Some (pc_buffer p)"
      "pc_ops_applied p = ops_count (pc_buffer p)" "unat (pc_ops_applied p) \<le> 1000"
      and wr: "wr = txn_commit_write (th_commit H) (pc_txn_id p) ctx (pc_buffer p) (te_delegated e)"
      and e': "map_of (tw_store ?w) (pc_txn_id p) = Some e'" "te_buffer e' = None" "te_delegated e' = te_delegated e"
      by (auto simp: submits_def)
    have fresh: "pc_txn_id p \<notin> wr_write_id ` set (tw_writes w)"
      using inv e by (auto simp: txn_inv_def write_ok_def)
    have "pc_txn_id q \<in> wr_write_id ` set (tw_writes w)" if "q \<in> set (tw_inflight w)" for q
      using inv that unfolding txn_inv_def pending_ok_def by (metis imageI)
    with fresh have fresh': "pc_txn_id p \<notin> pc_txn_id ` set (tw_inflight w)" by (metis imageE)
    have "length (wr_phases wr) = unat (pc_ops_applied p)"
      using inv e edgeless_phases by (auto simp: wr txn_inv_def entry_ok_def)
    then have "write_ok ?w wr" "pending_ok ?w p"
      using e e' wr commit_write_issued [of e'] by (auto simp: write_ok_def pending_ok_def log)
    moreover have "\<forall>p \<in> set (tw_inflight w). pending_ok ?w p" using inv by (auto simp: txn_inv_def pending_ok_def log)
    ultimately show ?thesis using old entries inv fresh fresh' by (auto simp: txn_inv_def log wr)
  qed
qed

interpretation store_kept: stepwise "txn_step H" "\<lambda>ev. True" txn_inv for H
  by unfold_locales (rule txn_inv_step)

lemma txn_inv_run: "txn_inv w \<Longrightarrow> txn_inv (txn_run H evs w)"
  by (simp add: txn_run_def store_kept.keep_run)

lemma txn_inv_empty: "txn_inv empty_world"
  by (simp add: txn_inv_def empty_world_def)

lemma filter_the_one: "distinct (map f xs) \<Longrightarrow> x \<in> set xs \<Longrightarrow> filter (\<lambda>y. f y = f x) xs = [x]"
  by (induction xs) (auto simp: filter_empty_conv rev_image_eqI)

lemma committed_step:
  assumes inv: "txn_inv w" and e: "map_of (tw_store w) x = Some e" "committed_as at n e"
  shows "\<exists>e'. map_of (tw_store (txn_step H ev w)) x = Some e' \<and> committed_as at n e' \<and>
    te_connection_id e' = te_connection_id e"
proof (cases "finishes x ev")
  case True
  then obtain p r now where ev: "ev = TCommitDone p r now" "pc_txn_id p = x" by (auto elim: finishes.elims(2))
  have "x \<notin> pc_txn_id ` set (tw_inflight w)"
    using inv e unfolding txn_inv_def entry_ok_def committed_as_def by blast
  with ev e show ?thesis by (auto simp: commit_done_event_def)
next
  case False
  with step_entry [OF e(1), of H ev] e(2) show ?thesis by (auto simp: entry_step_def keeps_def)
qed

definition holds_commit :: "txn_id \<Rightarrow> u64 \<Rightarrow> u32 \<Rightarrow> bytes \<Rightarrow> txn_world \<Rightarrow> bool" where
  "holds_commit x at n conn w \<longleftrightarrow> txn_inv w \<and>
     (\<exists>e. map_of (tw_store w) x = Some e \<and> committed_as at n e \<and> te_connection_id e = conn)"

interpretation commit_kept: stepwise "txn_step H" "\<lambda>ev. True" "holds_commit x at n conn" for H x at n conn
  by unfold_locales (metis committed_step holds_commit_def txn_inv_step)

lemma committed_run:
  assumes "txn_inv w" and "map_of (tw_store w) x = Some e" and "committed_as at n e"
  shows "\<exists>e'. map_of (tw_store (txn_run H evs w)) x = Some e' \<and> committed_as at n e' \<and>
    te_connection_id e' = te_connection_id e"
  using commit_kept.keep_run [where fs = evs and x = x and at = at and n = n and conn = "te_connection_id e" and s = w and H = H] assms by (auto simp: holds_commit_def txn_run_def)

definition holds_delegation :: "txn_id \<Rightarrow> delegated_identity option \<Rightarrow> txn_world \<Rightarrow> bool" where
  "holds_delegation x d w \<longleftrightarrow> (\<exists>e. map_of (tw_store w) x = Some e \<and> te_delegated e = d)"

interpretation delegation_kept: stepwise "txn_step H" "\<lambda>ev. True" "holds_delegation x d" for H x d
proof
  fix ev w
  assume "holds_delegation x d w"
  then obtain e where e: "map_of (tw_store w) x = Some e" "te_delegated e = d" by (auto simp: holds_delegation_def)
  from step_entry [OF e(1), of H ev] e(2) show "holds_delegation x d (txn_step H ev w)"
    by (auto simp: holds_delegation_def entry_step_def keeps_def)
qed

lemma delegated_run:
  "\<exists>e. map_of (tw_store w) x = Some e \<and> te_delegated e = d \<Longrightarrow>
     \<exists>e. map_of (tw_store (txn_run H evs w)) x = Some e \<and> te_delegated e = d"
  using delegation_kept.keep_run [where fs = evs and x = x and d = d and s = w and H = H] by (simp add: holds_delegation_def txn_run_def)

section \<open>Properties\<close>

text \<open>C8. However the handlers of any connections interleave (commits in flight, aborts, expiry, dropped
  connections and reused identifiers included), the writer is handed at most one write per transaction
  identifier, and no write has more than 1000 phases.\<close>

theorem txn_submitted_once:
  "distinct (map wr_write_id (tw_writes (txn_run H evs empty_world))) \<and>
   list_all (\<lambda>wr. length (wr_phases wr) \<le> 1000) (tw_writes (txn_run H evs empty_world))"
  using txn_inv_run [OF txn_inv_empty, of H evs] by (simp add: txn_inv_def write_ok_def list_all_iff)

text \<open>C25. A commit, once recorded, is final: whatever happens afterwards, every retry of the commit by its
  connection gives the recorded answer, and the number of operations in it is the number of phases of the
  one write that the writer was handed.\<close>

theorem txn_commit_final:
  assumes "map_of (tw_store (txn_run H evs empty_world)) t = Some e"
    and "te_final_response e = Some (FinalCommit at n)"
    and "txn_owned_by (te_connection_id e) (oc_connection_id ctx)"
  shows "fst (txn_commit_start (th_commit H) ok now t ctx (tw_store (txn_run H (evs @ later) empty_world))) =
      CommitReturned (Inr \<lparr>cr_txn_id = t, cr_committed_at_unix_nanos = at, cr_operations_applied = n\<rparr>) \<and>
    map (length \<circ> wr_phases) (filter (\<lambda>wr. wr_write_id wr = t) (tw_writes (txn_run H (evs @ later) empty_world))) = [unat n]"
proof -
  let ?w = "txn_run H evs empty_world" and ?v = "txn_run H (evs @ later) empty_world"
  have inv: "txn_inv ?w" "txn_inv ?v" by (rule txn_inv_run [OF txn_inv_empty])+
  have "committed_as at n e" using inv(1) assms(1,2) by (simp add: txn_inv_def entry_ok_def)
  from committed_run [OF inv(1) assms(1) this, of H later] obtain e' where
    e': "map_of (tw_store ?v) t = Some e'" "committed_as at n e'" "te_connection_id e' = te_connection_id e" by auto
  obtain wr where "wr \<in> set (tw_writes ?v)" "wr_write_id wr = t" "length (wr_phases wr) = unat n"
    using inv(2) e'(1,2) unfolding txn_inv_def entry_ok_def committed_as_def by blast
  moreover have "distinct (map wr_write_id (tw_writes ?v))" using inv(2) by (simp add: txn_inv_def)
  ultimately have "map (length \<circ> wr_phases) (filter (\<lambda>wr. wr_write_id wr = t) (tw_writes ?v)) = [unat n]"
    using filter_the_one [of wr_write_id "tw_writes ?v" wr] by simp
  moreover have "te_final_response e' = Some (FinalCommit at n)" using e'(2) by (simp add: committed_as_def)
  ultimately show ?thesis using e'(1,3) assms(3) by (simp add: txn_commit_start_def Let_def)
qed

text \<open>An opened and committed transaction.\<close>

definition sample_hashes :: txn_hashes where
  "sample_hashes = \<lparr>th_forget = (\<lambda>_. [1]), th_link = (\<lambda>_. [2]), th_unlink = (\<lambda>_. [3]), th_commit = (\<lambda>_ _. [4])\<rparr>"

definition sample_ctx :: op_ctx where
  "sample_ctx = \<lparr>oc_connection_id = [5], oc_space = [7], oc_namespace = 1, oc_space_string = [97]\<rparr>"

definition sample_begin :: txn_event where
  "sample_begin = TBegin 10 \<lparr>tb_txn_id = [9], tb_timeout_seconds = 0, tb_act_as = None\<rparr> [5] sample_ctx"

definition sample_pending :: pending_commit where
  "sample_pending = \<lparr>pc_txn_id = [9], pc_buffer = txn_buffer_default, pc_ops_applied = 0\<rparr>"

definition sample_committed :: "txn_event list" where
  "sample_committed = [sample_begin, TCommit True 11 [9] sample_ctx, TCommitDone sample_pending True 12]"

lemma ops_count_default [simp]: "ops_count txn_buffer_default = 0"
  by (simp add: ops_count_def txn_buffer_default_def)

lemma sample_began:
  "tw_inflight (txn_step sample_hashes sample_begin empty_world) = []"
  "tw_writes (txn_step sample_hashes sample_begin empty_world) = []"
  "tw_store (txn_step sample_hashes sample_begin empty_world) =
     [([9], \<lparr>te_state = TxnActive, te_started_at_unix_nanos = 10, te_expires_at_unix_nanos = 30000000010,
        te_timeout_seconds = 30, te_final_response = None, te_buffer = Some txn_buffer_default, te_delegated = None,
        te_connection_id = [5]\<rparr>)]"
  by (simp_all add: sample_begin_def empty_world_def handle_txn_begin_def sweep_expired_locked_def deadline_def
      clamp_timeout_def DEFAULT_TIMEOUT_SECONDS_def MIN_TIMEOUT_SECONDS_def MAX_TIMEOUT_SECONDS_def Let_def)

lemma sample_submitted:
  "txn_run sample_hashes [sample_begin, TCommit True 11 [9] sample_ctx] empty_world =
     \<lparr>tw_store = [([9], \<lparr>te_state = TxnActive, te_started_at_unix_nanos = 10, te_expires_at_unix_nanos = 30000000010,
        te_timeout_seconds = 30, te_final_response = None, te_buffer = None, te_delegated = None, te_connection_id = [5]\<rparr>)],
      tw_inflight = [sample_pending],
      tw_writes = [txn_commit_write (th_commit sample_hashes) [9] sample_ctx txn_buffer_default None]\<rparr>"
  by (simp add: commit_event_def txn_commit_start_def sample_began sweep_expired_locked_def sweep_entry_def
      update_entry_def txn_owned_by_def sample_ctx_def MAX_TXN_OPS_def sample_pending_def Let_def)

lemma sample_committed_entry:
  "\<exists>e. map_of (tw_store (txn_run sample_hashes sample_committed empty_world)) [9] = Some e \<and>
     te_final_response e = Some (FinalCommit 12 0) \<and> te_connection_id e = [5]"
  using sample_submitted
  by (simp add: sample_committed_def commit_done_event_def txn_commit_finish_def update_entry_def sample_pending_def)

theorem txn_commit_final_witness:
  "fst (txn_commit_start (th_commit sample_hashes) True 20 [9] sample_ctx
      (tw_store (txn_run sample_hashes (sample_committed @ [TAbort 13 [9] sample_ctx, TDisconnect [5]]) empty_world))) =
    CommitReturned (Inr \<lparr>cr_txn_id = [9], cr_committed_at_unix_nanos = 12, cr_operations_applied = 0\<rparr>)"
proof -
  obtain e where e: "map_of (tw_store (txn_run sample_hashes sample_committed empty_world)) [9] = Some e"
    "te_final_response e = Some (FinalCommit 12 0)" "te_connection_id e = [5]"
    using sample_committed_entry by blast
  then have "txn_owned_by (te_connection_id e) (oc_connection_id sample_ctx)"
    by (simp add: txn_owned_by_def sample_ctx_def)
  from txn_commit_final [OF e(1,2) this] show ?thesis by blast
qed

lemma foreign_step:
  assumes "map_of (tw_store w) t = Some e" and "te_connection_id e \<noteq> replicate 16 0"
    and "actor ev \<noteq> Some (te_connection_id e)" and "\<not> finishes t ev"
  shows "\<exists>e'. map_of (tw_store (txn_step H ev w)) t = Some e' \<and> swept e e' \<and>
    filter (\<lambda>wr. wr_write_id wr = t) (tw_writes (txn_step H ev w)) = filter (\<lambda>wr. wr_write_id wr = t) (tw_writes w)"
proof -
  obtain e' where "map_of (tw_store (txn_step H ev w)) t = Some e'" "swept e e'"
    using step_entry [OF assms(1), of H ev] assms(2-4) by (auto simp: entry_step_def)
  moreover have "pc_txn_id p \<noteq> t" if "submits H ev w wr p" for wr p
    using that assms by (auto simp: submits_def dest: owned_actor)
  then have "filter (\<lambda>wr. wr_write_id wr = t) (tw_writes (txn_step H ev w)) = filter (\<lambda>wr. wr_write_id wr = t) (tw_writes w)"
    using step_log [of H ev w] by (auto simp: Let_def submits_def)
  ultimately show ?thesis by blast
qed

lemma foreign_run:
  assumes "map_of (tw_store w) t = Some e" and "te_connection_id e \<noteq> replicate 16 0"
    and "list_all (\<lambda>ev. actor ev \<noteq> Some (te_connection_id e) \<and> \<not> finishes t ev) evs"
  shows "\<exists>e'. map_of (tw_store (txn_run H evs w)) t = Some e' \<and> swept e e' \<and>
    filter (\<lambda>wr. wr_write_id wr = t) (tw_writes (txn_run H evs w)) = filter (\<lambda>wr. wr_write_id wr = t) (tw_writes w)"
  using assms
proof (induction evs arbitrary: w e)
  case (Cons ev evs)
  then obtain e1 where e1: "map_of (tw_store (txn_step H ev w)) t = Some e1" "swept e e1"
    "filter (\<lambda>wr. wr_write_id wr = t) (tw_writes (txn_step H ev w)) = filter (\<lambda>wr. wr_write_id wr = t) (tw_writes w)"
    using foreign_step [of w t e ev H] by auto
  have "te_connection_id e1 = te_connection_id e" using e1(2) by (auto simp: swept_def)
  then show ?case
    using Cons.IH [OF e1(1)] Cons.prems(2,3) e1(2,3) swept_trans by fastforce
qed auto



text \<open>C26. The identity of a delegated transaction is fixed at its begin: the write of a transaction begun
  with \<open>act_as\<close> carries the space and namespace in force at the begin, whichever context commits it.\<close>

theorem txn_delegation_frozen:
  assumes "map_of (tw_store (txn_run H pre empty_world)) (tb_txn_id req) = None" and "tb_act_as req \<noteq> None"
    and "w = txn_run H (pre @ TBegin now req conn ctx # post) empty_world"
    and "wr \<in> set (tw_writes w)" and "wr_write_id wr = tb_txn_id req"
  shows "wr_space_id wr = oc_space ctx \<and> wr_namespace wr = oc_namespace ctx \<and> wr_space_string wr = oc_space_string ctx"
proof -
  let ?d = "\<lparr>di_space_id = oc_space ctx, di_namespace = oc_namespace ctx, di_space_string = oc_space_string ctx\<rparr>"
  let ?w = "txn_step H (TBegin now req conn ctx) (txn_run H pre empty_world)"
  have "\<exists>e. map_of (tw_store ?w) (tb_txn_id req) = Some e \<and> te_delegated e = Some ?d"
    using assms(1,2) by (simp add: look_begin)
  then have "\<exists>e. map_of (tw_store (txn_run H post ?w)) (tb_txn_id req) = Some e \<and> te_delegated e = Some ?d"
    by (rule delegated_run)
  moreover have "write_ok (txn_run H post ?w) wr"
    using txn_inv_run [OF txn_inv_empty, of H "pre @ TBegin now req conn ctx # post"] assms(3,4) by (simp add: txn_inv_def)
  ultimately show ?thesis using assms(5) by (auto simp: write_ok_def issued_as_def)
qed

definition sample_act_as :: act_as where
  "sample_act_as = \<lparr>aa_namespace = [110], aa_space = [115], aa_grant = 1\<rparr>"

definition sample_delegated :: txn_begin_request where
  "sample_delegated = \<lparr>tb_txn_id = [9], tb_timeout_seconds = 5, tb_act_as = Some sample_act_as\<rparr>"

theorem txn_delegation_frozen_witness:
  "\<exists>wr. tw_writes (txn_run sample_hashes ([] @ TBegin 10 sample_delegated [5] (sample_ctx\<lparr>oc_space := [8], oc_namespace := 2\<rparr>) #
       [TCommit True 11 [9] sample_ctx]) empty_world) = [wr] \<and> wr_space_id wr = [8] \<and> wr_namespace wr = 2"
proof -
  let ?ctx = "sample_ctx\<lparr>oc_space := [8], oc_namespace := 2\<rparr>"
  let ?w = "txn_run sample_hashes ([] @ TBegin 10 sample_delegated [5] ?ctx # [TCommit True 11 [9] sample_ctx]) empty_world"
  have "\<exists>d. tw_writes ?w = [txn_commit_write (th_commit sample_hashes) [9] sample_ctx txn_buffer_default (Some d)]"
    by (simp add: empty_world_def handle_txn_begin_def commit_event_def txn_commit_start_def sweep_expired_locked_def
        sweep_entry_def txn_owned_by_def sample_delegated_def sample_ctx_def deadline_def clamp_timeout_def
        MIN_TIMEOUT_SECONDS_def MAX_TIMEOUT_SECONDS_def MAX_TXN_OPS_def Let_def) blast
  then obtain wr where wr: "tw_writes ?w = [wr]" "wr_write_id wr = tb_txn_id sample_delegated"
    by (auto simp: sample_delegated_def)
  have "map_of (tw_store (txn_run sample_hashes [] empty_world)) (tb_txn_id sample_delegated) = None"
    "tb_act_as sample_delegated \<noteq> None" by (simp_all add: empty_world_def sample_delegated_def)
  from txn_delegation_frozen [OF this refl, of wr 10 "[5]" ?ctx "[TCommit True 11 [9] sample_ctx]"] wr show ?thesis by simp
qed



end
