(* ===== verification/Ops_Txn_Ops.thy ===== *)
theory Ops_Txn_Ops
  imports Ops_Txn_Props
begin

text \<open>
  What an answered operation inside a transaction did to the buffer, and what the buffer does when it is
  committed: a repeated request is answered from the buffer and changes nothing, and a link that follows
  the unlink of the same edge in one transaction is undone by the commit, because the phases of a
  transaction put every unlink after every link.
\<close>

section \<open>Successful operations\<close>

text \<open>The transaction is active, belongs to the caller and has this buffer.\<close>

definition ready :: "txn_store \<Rightarrow> txn_id \<Rightarrow> bytes \<Rightarrow> txn_buffer \<Rightarrow> bool" where
  "ready es txn c b \<longleftrightarrow>
     (\<exists>e. map_of es txn = Some e \<and> txn_owned_by (te_connection_id e) c \<and> te_state e = TxnActive \<and> te_buffer e = Some b)"

lemma ready_unique: "ready es txn c b \<Longrightarrow> ready es txn c b' \<Longrightarrow> b = b'"
  by (auto simp: ready_def)

lemma active_swept: "e = sweep_entry now e0 \<Longrightarrow> te_state e = TxnActive \<Longrightarrow> e0 = e"
  by (auto simp: sweep_entry_def split: if_splits)

lemma with_buffer_Inr:
  assumes "with_buffer now txn c f es = (Inr r, es')"
  shows "\<exists>b b'. ready es txn c b \<and> f b = (Inr r, b') \<and> ready es' txn c b'"
proof -
  obtain e b where e: "map_of (sweep_expired_locked now es) txn = Some e" "txn_owned_by (te_connection_id e) c"
    "te_state e = TxnActive" "te_buffer e = Some b"
    using assms by (auto simp: with_buffer_def Let_def split: option.splits if_splits txn_state.splits)
  moreover from e assms obtain b' where "f b = (Inr r, b')"
    "es' = update_entry txn (\<lambda>e. e\<lparr>te_buffer := Some b', te_expires_at_unix_nanos := deadline now (te_timeout_seconds e)\<rparr>)
       (sweep_expired_locked now es)"
    by (auto simp: with_buffer_def Let_def split: prod.splits sum.splits)
  moreover have "map_of es txn = Some e" using e(1) active_swept [OF _ e(3)] by auto
  ultimately show ?thesis by (simp add: ready_def)
qed

lemma with_buffer_Inl:
  assumes "with_buffer now txn c f es = (Inl err, es')" and "\<And>b. \<exists>r. fst (f b) = Inr r"
  shows "\<not> ready es' txn c b"
proof -
  have "\<nexists>b b'. f b = (Inl err', b')" for err' using assms(2) by (metis Inl_Inr_False fst_conv)
  with assms(1) show ?thesis
    by (auto simp: with_buffer_def Let_def ready_def split: option.splits if_splits txn_state.splits prod.splits sum.splits)
qed

lemma validate_Inr:
  assumes "validate_active now txn c es = (Inr r, es')" and "ready es' txn c b"
  shows "ready es txn c b"
  using assms
  by (auto simp: validate_active_def Let_def ready_def sweep_entry_def split: option.splits if_splits)

lemma txn_bind_Inr:
  "txn_bind m f es = (Inr r, es') \<Longrightarrow> \<exists>a es1. m es = (Inr a, es1) \<and> f a es1 = (Inr r, es')"
  by (auto simp: txn_bind_def split: prod.splits sum.splits)

lemma txn_bindE:
  assumes "txn_bind m f es = (Inr r, es')"
  obtains a es1 where "m es = (Inr a, es1)" "f a es1 = (Inr r, es')"
  using txn_bind_Inr [OF assms] by blast

lemma txn_return_Inr: "txn_return x es = (Inr r, es') \<longleftrightarrow> x = Inr r \<and> es' = es"
  by (auto simp: txn_return_def)

text \<open>Reading the buffer.\<close>

lemma read_buffer:
  assumes "with_buffer now txn c (\<lambda>buf. (Inr (g buf), buf)) es = (Inr r, es')"
  shows "\<exists>b. ready es txn c b \<and> ready es' txn c b \<and> r = g b"
  using with_buffer_Inr [OF assms] by auto

lemma read_or_false:
  assumes "or_false (with_buffer now txn c (\<lambda>buf. (Inr (g buf), buf))) es = (Inr r, es')" and "ready es' txn c b"
  shows "ready es txn c b \<and> r = g b"
proof (cases "with_buffer now txn c (\<lambda>buf. (Inr (g buf), buf)) es")
  case (Pair x es1)
  then have es1: "es1 = es'" using assms(1) by (auto simp: or_false_def split: sum.splits)
  obtain y where x: "x = Inr y"
    using with_buffer_Inl [of now txn c "\<lambda>buf. (Inr (g buf), buf)" es _ es1 b] Pair assms(2) es1 by (cases x) auto
  from read_buffer [OF Pair [unfolded x]] obtain b' where b': "ready es txn c b'" "ready es1 txn c b'" "y = g b'" by blast
  have "b' = b" using ready_unique b'(2) assms(2) es1 by blast
  with b' assms(1) show ?thesis by (simp add: or_false_def Pair x)
qed

lemma capacity_Inr:
  "with_buffer now txn c capacity_check es = (Inr r, es') \<Longrightarrow>
     \<exists>b. ready es txn c b \<and> ready es' txn c b \<and> ops_count b < MAX_TXN_OPS"
  by (auto simp: capacity_check_def check_capacity_for_push_def Let_def not_le dest!: with_buffer_Inr split: if_splits)

lemma replay_Inr:
  "with_buffer now txn c (replay_check what rid h) es = (Inr r, es') \<Longrightarrow>
     \<exists>b. ready es txn c b \<and> ready es' txn c b \<and>
       (case r of None \<Rightarrow> tx_request_hashes b rid = None \<or> tx_request_hashes b rid = Some h \<and> tx_request_id_cache b rid = None
        | Some rp \<Rightarrow> tx_request_hashes b rid = Some h \<and> tx_request_id_cache b rid = Some rp)"
  by (auto simp: replay_check_def dest!: with_buffer_Inr split: option.splits if_splits)

section \<open>LINK and UNLINK\<close>

definition buffered_link_of :: "(nat \<Rightarrow> u64) \<Rightarrow> link_request \<Rightarrow> bytes \<Rightarrow> op_ctx \<Rightarrow> buffered_link" where
  "buffered_link_of clock req h ctx =
     \<lparr>bl_source = lq_source req, bl_target = lq_target req, bl_kind = lq_kind req, bl_weight = lq_weight req,
       bl_request_id = lq_request_id req, bl_request_hash = h, bl_created_at_unix_nanos = clock 6, bl_space_id = oc_space ctx\<rparr>"

definition link_existed :: "graph_db \<Rightarrow> link_request \<Rightarrow> txn_buffer \<Rightarrow> bool" where
  "link_existed db req b \<longleftrightarrow>
     (committed_edge db (lq_source req) (lq_kind req) (lq_target req) \<or> pending_edge (lq_source req) (lq_kind req) (lq_target req) b) \<and>
     (lq_source req, lq_kind req, lq_target req) \<notin> tx_unlinked_edges b"

definition linked_buffer :: "(nat \<Rightarrow> u64) \<Rightarrow> graph_db \<Rightarrow> link_request \<Rightarrow> bytes \<Rightarrow> op_ctx \<Rightarrow> txn_buffer \<Rightarrow> txn_buffer" where
  "linked_buffer clock db req h ctx b =
     remember (lq_request_id req) h
       (ReplayLink (lq_source req) (lq_target req) (lq_kind req) (lq_weight req) (clock 6) (link_existed db req b))
       (b\<lparr>tx_links := tx_links b @ [buffered_link_of clock req h ctx],
          tx_unlinked_edges := tx_unlinked_edges b - {(lq_source req, lq_kind req, lq_target req)}\<rparr>)"

lemma link_fresh_Inr:
  assumes "link_in_txn_fresh read_ok clock db req h txn ctx es = (Inr r, es')"
  shows "\<exists>b. ready es txn (oc_connection_id ctx) b \<and> ops_count b < MAX_TXN_OPS \<and>
    ready es' txn (oc_connection_id ctx) (linked_buffer clock db req h ctx b) \<and>
    r = \<lparr>lr_source = lq_source req, lr_target = lq_target req, lr_kind = lq_kind req, lr_weight = lq_weight req,
      lr_created_at_unix_nanos = clock 6, lr_already_existed = link_existed db req b\<rparr>"
proof -
  let ?c = "oc_connection_id ctx" and ?t = "(lq_source req, lq_kind req, lq_target req)"
  from assms obtain es1 es2 es3 es4 a1 a2 has unl where
    cap: "with_buffer (clock 2) txn ?c capacity_check es = (Inr a1, es1)" and
    pend: "with_buffer (clock 3) txn ?c (\<lambda>buf. (Inr (lq_source req \<in> set (map be_memory_id (tx_encodes buf)),
      lq_target req \<in> set (map be_memory_id (tx_encodes buf))), buf)) es1 = (Inr a2, es2)" and
    has: "or_false (with_buffer (clock 4) txn ?c
      (\<lambda>buf. (Inr (pending_edge (lq_source req) (lq_kind req) (lq_target req) buf), buf))) es2 = (Inr has, es3)" and
    unl: "or_false (with_buffer (clock 5) txn ?c (\<lambda>buf. (Inr (?t \<in> tx_unlinked_edges buf), buf))) es3 = (Inr unl, es4)" and
    push: "with_buffer (clock 7) txn ?c (\<lambda>buf. (Inr (), remember (lq_request_id req) h
        (ReplayLink (lq_source req) (lq_target req) (lq_kind req) (lq_weight req) (clock 6)
          ((committed_edge db (lq_source req) (lq_kind req) (lq_target req) \<or> has) \<and> \<not> unl))
        (buf\<lparr>tx_links := tx_links buf @ [buffered_link_of clock req h ctx],
            tx_unlinked_edges := tx_unlinked_edges buf - {?t}\<rparr>))) es4 = (Inr (), es')" and
    r: "r = \<lparr>lr_source = lq_source req, lr_target = lq_target req, lr_kind = lq_kind req, lr_weight = lq_weight req,
      lr_created_at_unix_nanos = clock 6,
      lr_already_existed = ((committed_edge db (lq_source req) (lq_kind req) (lq_target req) \<or> has) \<and> \<not> unl)\<rparr>"
    unfolding link_in_txn_fresh_def Let_def
    by (elim txn_bindE; simp add: txn_return_Inr buffered_link_of_def split: if_splits prod.splits; elim txn_bindE;
        simp add: txn_return_Inr split: if_splits prod.splits; elim txn_bindE; simp add: txn_return_Inr)
  obtain b b' where b: "ready es4 txn ?c b" "ready es' txn ?c b'" and b': "b' = remember (lq_request_id req) h
        (ReplayLink (lq_source req) (lq_target req) (lq_kind req) (lq_weight req) (clock 6)
          ((committed_edge db (lq_source req) (lq_kind req) (lq_target req) \<or> has) \<and> \<not> unl))
        (b\<lparr>tx_links := tx_links b @ [buffered_link_of clock req h ctx], tx_unlinked_edges := tx_unlinked_edges b - {?t}\<rparr>)"
    using with_buffer_Inr [OF push] by auto
  have u: "ready es3 txn ?c b" "unl = (?t \<in> tx_unlinked_edges b)" using read_or_false [OF unl b(1)] by auto
  have p: "ready es2 txn ?c b" "has = pending_edge (lq_source req) (lq_kind req) (lq_target req) b"
    using read_or_false [OF has u(1)] by auto
  have "ready es1 txn ?c b" using read_buffer [OF pend] ready_unique [OF p(1)] by auto
  then have "ready es txn ?c b" "ops_count b < MAX_TXN_OPS" using capacity_Inr [OF cap] ready_unique by blast+
  with b(2) show ?thesis
    by (intro exI [of _ b]) (simp add: r b' u(2) p(2) linked_buffer_def link_existed_def)
qed

definition unlink_removes :: "graph_db \<Rightarrow> unlink_request \<Rightarrow> txn_buffer \<Rightarrow> bool" where
  "unlink_removes db req b \<longleftrightarrow>
     (committed_edge db (uq_source req) (uq_kind req) (uq_target req) \<or> pending_edge (uq_source req) (uq_kind req) (uq_target req) b) \<and>
     (uq_source req, uq_kind req, uq_target req) \<notin> tx_unlinked_edges b"

definition unlinked_buffer :: "(nat \<Rightarrow> u64) \<Rightarrow> graph_db \<Rightarrow> unlink_request \<Rightarrow> bytes \<Rightarrow> op_ctx \<Rightarrow> txn_buffer \<Rightarrow> txn_buffer" where
  "unlinked_buffer clock db req h ctx b =
     remember (uq_request_id req) h (ReplayUnlink (uq_source req) (uq_target req) (uq_kind req) (unlink_removes db req b))
       (b\<lparr>tx_unlinks := tx_unlinks b @ [\<lparr>bu_source = uq_source req, bu_target = uq_target req, bu_kind = uq_kind req,
            bu_request_id = uq_request_id req, bu_request_hash = h, bu_created_at_unix_nanos = clock 5, bu_space_id = oc_space ctx\<rparr>],
          tx_unlinked_edges := (if unlink_removes db req b
            then insert (uq_source req, uq_kind req, uq_target req) (tx_unlinked_edges b) else tx_unlinked_edges b)\<rparr>)"

lemma unlink_fresh_Inr:
  assumes "unlink_in_txn_fresh read_ok clock db req h txn ctx es = (Inr r, es')"
  shows "\<exists>b. ready es txn (oc_connection_id ctx) b \<and> ready es' txn (oc_connection_id ctx) (unlinked_buffer clock db req h ctx b) \<and>
    r = (uq_source req, uq_target req, uq_kind req, unlink_removes db req b)"
proof -
  let ?c = "oc_connection_id ctx" and ?t = "(uq_source req, uq_kind req, uq_target req)"
  let ?rm = "\<lambda>has unl. (committed_edge db (uq_source req) (uq_kind req) (uq_target req) \<or> has) \<and> \<not> unl"
  let ?u = "\<lparr>bu_source = uq_source req, bu_target = uq_target req, bu_kind = uq_kind req,
    bu_request_id = uq_request_id req, bu_request_hash = h, bu_created_at_unix_nanos = clock 5, bu_space_id = oc_space ctx\<rparr>"
  from assms obtain es1 es2 es3 a1 has unl where
    cap: "with_buffer (clock 2) txn ?c capacity_check es = (Inr a1, es1)" and
    has: "with_buffer (clock 3) txn ?c
      (\<lambda>buf. (Inr (pending_edge (uq_source req) (uq_kind req) (uq_target req) buf), buf)) es1 = (Inr has, es2)" and
    unl: "with_buffer (clock 4) txn ?c (\<lambda>buf. (Inr (?t \<in> tx_unlinked_edges buf), buf)) es2 = (Inr unl, es3)" and
    push: "with_buffer (clock 6) txn ?c (\<lambda>buf. (Inr (), remember (uq_request_id req) h
        (ReplayUnlink (uq_source req) (uq_target req) (uq_kind req) (?rm has unl))
        (buf\<lparr>tx_unlinks := tx_unlinks buf @ [?u],
            tx_unlinked_edges := (if ?rm has unl then insert ?t (tx_unlinked_edges buf) else tx_unlinked_edges buf)\<rparr>)))
      es3 = (Inr (), es')" and
    r: "r = (uq_source req, uq_target req, uq_kind req, ?rm has unl)"
    unfolding unlink_in_txn_fresh_def Let_def
    by (elim txn_bindE; simp add: txn_return_Inr split: if_splits; elim txn_bindE; simp add: txn_return_Inr)
  obtain b where b: "ready es3 txn ?c b" "ready es' txn ?c (remember (uq_request_id req) h
        (ReplayUnlink (uq_source req) (uq_target req) (uq_kind req) (?rm has unl))
        (b\<lparr>tx_unlinks := tx_unlinks b @ [?u],
            tx_unlinked_edges := (if ?rm has unl then insert ?t (tx_unlinked_edges b) else tx_unlinked_edges b)\<rparr>))"
    using with_buffer_Inr [OF push] by auto
  have u: "ready es2 txn ?c b" "unl = (?t \<in> tx_unlinked_edges b)" using read_buffer [OF unl] ready_unique [OF b(1)] by auto
  have p: "ready es1 txn ?c b" "has = pending_edge (uq_source req) (uq_kind req) (uq_target req) b"
    using read_buffer [OF has] ready_unique [OF u(1)] by auto
  have "ready es txn ?c b" using capacity_Inr [OF cap] ready_unique [OF p(1)] by blast
  with b(2) show ?thesis
    by (intro exI [of _ b]) (simp add: r u(2) p(2) unlinked_buffer_def unlink_removes_def)
qed

definition link_hash :: "(link_op \<Rightarrow> bytes) \<Rightarrow> link_request \<Rightarrow> op_ctx \<Rightarrow> bytes" where
  "link_hash hl req ctx = hl \<lparr>lo_request_id = lq_request_id req, lo_source = lq_source req, lo_target = lq_target req,
     lo_kind = lq_kind req, lo_weight = lq_weight req, lo_space_id = oc_space ctx\<rparr>"

definition unlink_hash :: "(unlink_op \<Rightarrow> bytes) \<Rightarrow> unlink_request \<Rightarrow> op_ctx \<Rightarrow> bytes" where
  "unlink_hash hu req ctx = hu \<lparr>uo_request_id = uq_request_id req, uo_source = uq_source req, uo_target = uq_target req,
     uo_kind = uq_kind req, uo_space_id = oc_space ctx\<rparr>"

definition replayed_link :: "link_response \<Rightarrow> buffered_replay" where
  "replayed_link r = ReplayLink (lr_source r) (lr_target r) (lr_kind r) (lr_weight r) (lr_created_at_unix_nanos r) (lr_already_existed r)"

lemma link_Inr:
  assumes "handle_link_in_txn hl read_ok clock db req txn ctx es = (Inr r, es')"
  shows "\<exists>b b'. ready es txn (oc_connection_id ctx) b \<and> ready es' txn (oc_connection_id ctx) b' \<and>
    tx_request_hashes b' (lq_request_id req) = Some (link_hash hl req ctx) \<and>
    tx_request_id_cache b' (lq_request_id req) = Some (replayed_link r) \<and>
    (b' = b \<or> b' = linked_buffer clock db req (link_hash hl req ctx) ctx b \<and> lr_already_existed r = link_existed db req b) \<and>
    (tx_request_hashes b (lq_request_id req) = None \<longrightarrow> b' \<noteq> b)"
proof -
  let ?c = "oc_connection_id ctx" and ?h = "link_hash hl req ctx"
  from assms obtain es1 es2 a rp where
    val: "validate_active (clock 0) txn ?c es = (Inr a, es1)" and
    rep: "with_buffer (clock 1) txn ?c (replay_check ''link in-txn request_id replay with different params''
      (lq_request_id req) ?h) es1 = (Inr rp, es2)" and
    rest: "(case rp of Some (ReplayLink s t k w at existed) \<Rightarrow>
        txn_return (Inr \<lparr>lr_source = s, lr_target = t, lr_kind = k, lr_weight = w,
          lr_created_at_unix_nanos = at, lr_already_existed = existed\<rparr>)
      | _ \<Rightarrow> link_in_txn_fresh read_ok clock db req ?h txn ctx) es2 = (Inr r, es')"
    unfolding handle_link_in_txn_def Let_def link_hash_def by (elim txn_bindE)
  obtain b where b: "ready es1 txn ?c b" "ready es2 txn ?c b"
    and cached: "case rp of None \<Rightarrow> tx_request_hashes b (lq_request_id req) = None \<or>
        tx_request_hashes b (lq_request_id req) = Some ?h \<and> tx_request_id_cache b (lq_request_id req) = None
      | Some x \<Rightarrow> tx_request_hashes b (lq_request_id req) = Some ?h \<and> tx_request_id_cache b (lq_request_id req) = Some x"
    using replay_Inr [OF rep] by blast
  have es: "ready es txn ?c b" using validate_Inr [OF val b(1)] .
  show ?thesis
  proof (cases "\<exists>s t k w at existed. rp = Some (ReplayLink s t k w at existed)")
    case True
    with rest cached es b show ?thesis
      by (intro exI [of _ b]) (auto simp: txn_return_Inr replayed_link_def)
  next
    case False
    then have "link_in_txn_fresh read_ok clock db req ?h txn ctx es2 = (Inr r, es')"
      using rest by (auto split: option.splits buffered_replay.splits)
    from link_fresh_Inr [OF this] obtain b1 where b1: "ready es2 txn ?c b1"
      "ready es' txn ?c (linked_buffer clock db req ?h ctx b1)"
      "r = \<lparr>lr_source = lq_source req, lr_target = lq_target req, lr_kind = lq_kind req, lr_weight = lq_weight req,
        lr_created_at_unix_nanos = clock 6, lr_already_existed = link_existed db req b1\<rparr>" by blast
    have "b1 = b" using ready_unique b1(1) b(2) by blast
    moreover have "tx_request_hashes (linked_buffer clock db req ?h ctx b) (lq_request_id req) = Some ?h"
      "tx_request_id_cache (linked_buffer clock db req ?h ctx b) (lq_request_id req) = Some (replayed_link r)"
      by (simp_all add: linked_buffer_def remember_def replayed_link_def b1(3) \<open>b1 = b\<close>)
    moreover from this(1) have "tx_request_hashes b (lq_request_id req) = None \<longrightarrow> linked_buffer clock db req ?h ctx b \<noteq> b"
      by auto
    ultimately show ?thesis using b1 es by fastforce
  qed
qed

lemma unlink_Inr_new:
  assumes "handle_unlink_in_txn hu read_ok clock db req txn ctx es = (Inr r, es')"
    and "ready es txn (oc_connection_id ctx) b" and "tx_request_hashes b (uq_request_id req) = None"
  shows "ready es' txn (oc_connection_id ctx) (unlinked_buffer clock db req (unlink_hash hu req ctx) ctx b) \<and>
    r = (uq_source req, uq_target req, uq_kind req, unlink_removes db req b)"
proof -
  let ?c = "oc_connection_id ctx" and ?h = "unlink_hash hu req ctx"
  from assms(1) obtain es1 es2 a rp where
    val: "validate_active (clock 0) txn ?c es = (Inr a, es1)" and
    rep: "with_buffer (clock 1) txn ?c (replay_check ''unlink in-txn request_id replay with different params''
      (uq_request_id req) ?h) es1 = (Inr rp, es2)" and
    rest: "(case rp of Some (ReplayUnlink s t k removed) \<Rightarrow> txn_return (Inr (s, t, k, removed))
      | _ \<Rightarrow> unlink_in_txn_fresh read_ok clock db req ?h txn ctx) es2 = (Inr r, es')"
    unfolding handle_unlink_in_txn_def Let_def unlink_hash_def by (elim txn_bindE)
  obtain b1 where b1: "ready es1 txn ?c b1" "ready es2 txn ?c b1"
    and cached: "case rp of None \<Rightarrow> tx_request_hashes b1 (uq_request_id req) = None \<or>
        tx_request_hashes b1 (uq_request_id req) = Some ?h \<and> tx_request_id_cache b1 (uq_request_id req) = None
      | Some x \<Rightarrow> tx_request_hashes b1 (uq_request_id req) = Some ?h \<and> tx_request_id_cache b1 (uq_request_id req) = Some x"
    using replay_Inr [OF rep] by blast
  have "b1 = b" using validate_Inr [OF val b1(1)] ready_unique assms(2) by blast
  with cached assms(3) have "rp = None" by (cases rp) auto
  with rest have "unlink_in_txn_fresh read_ok clock db req ?h txn ctx es2 = (Inr r, es')" by simp
  from unlink_fresh_Inr [OF this] show ?thesis using ready_unique b1(2) \<open>b1 = b\<close> by blast
qed

section \<open>Committing the buffer\<close>

definition memory_edge_key :: "memory_id \<Rightarrow> edge_kind \<Rightarrow> memory_id \<Rightarrow> edge_key" where
  "memory_edge_key s k t = \<lparr>ek_from = NodeMemory s, ek_kind = Builtin k, ek_to = NodeMemory t, ek_disambiguator = zero_disambiguator\<rparr>"

fun removes_only :: "phase \<Rightarrow> bool" where
  "removes_only (Ph_Link p) = False"
| "removes_only ph = wf_edge_phase ph"

lemma removes_only_step:
  "removes_only ph \<Longrightarrow> wf_edge_key k \<Longrightarrow> \<not> has_edge db k \<Longrightarrow> \<not> has_edge (apply_edge_phase space ph db) k"
  by (cases ph) (auto simp: apply_unlink_eq Let_def has_edge_put)

lemma removes_only_run:
  assumes "list_all removes_only phs" and "wf_edge_key k" and "\<not> has_edge db k \<or> (\<exists>p. Ph_Unlink p \<in> set phs \<and> unlink_key p = k)"
  shows "\<not> has_edge (apply_edge_writes (map (Pair space) phs) db) k"
  using assms
proof (induction phs arbitrary: db)
  case (Cons ph phs)
  have "\<not> has_edge (apply_edge_phase space ph db) k \<or> (\<exists>p. Ph_Unlink p \<in> set phs \<and> unlink_key p = k)"
    using Cons.prems removes_only_step [of ph k db space]
    by (auto simp: apply_unlink_eq Let_def has_edge_put split: if_splits)
  with Cons show ?case by (simp add: apply_edge_writes_def)
qed (simp add: apply_edge_writes_def)

lemma unlinks_last:
  assumes "u \<in> set (tx_unlinks b)"
  shows "\<not> has_edge (apply_edge_writes (map (Pair space) (build_phases b)) db) (memory_edge_key (bu_source u) (bu_kind u) (bu_target u))"
proof -
  let ?un = "\<lambda>u. \<lparr>up_from = NodeMemory (bu_source u), up_to = NodeMemory (bu_target u), up_kind = Builtin (bu_kind u),
    up_disambiguator = zero_disambiguator\<rparr>"
  let ?tomb = "\<lambda>f. Ph_Tombstone (TombstoneMemory (bf_memory_id f) (phase_tombstone_mode (bf_mode f))) 1 (bf_created_at_unix_nanos f)"
  let ?tail = "map (\<lambda>u. Ph_Unlink (?un u)) (tx_unlinks b) @ map ?tomb (tx_forgets b)"
  have "wf_edge_key (unlink_key (?un u))" for u by (simp add: unlink_key_def wf_edge_key_def zero_disambiguator_def)
  then have "list_all removes_only ?tail" by (auto simp: list_all_iff)
  moreover have "unlink_key (?un u) = memory_edge_key (bu_source u) (bu_kind u) (bu_target u)"
    by (simp add: unlink_key_def memory_edge_key_def)
  moreover have "wf_edge_key (memory_edge_key (bu_source u) (bu_kind u) (bu_target u))"
    by (simp add: memory_edge_key_def wf_edge_key_def zero_disambiguator_def)
  ultimately have "\<not> has_edge (apply_edge_writes (map (Pair space) ?tail) db') (memory_edge_key (bu_source u) (bu_kind u) (bu_target u))" for db'
    using assms by (intro removes_only_run) auto
  moreover have "build_phases b = (concat (map encode_phases (tx_encodes b)) @
      map (\<lambda>l. memory_link_phase (bl_source l) (bl_kind l) (bl_target l) (bl_weight l) (bl_created_at_unix_nanos l)) (tx_links b)) @ ?tail"
    by (simp add: build_phases_def)
  ultimately show ?thesis by (simp add: apply_edge_writes_def)
qed

section \<open>Properties\<close>

text \<open>A link that re-creates an edge the same transaction unlinked is lost: UNLINK answers that it
  removed the edge, the following LINK of the same edge answers that it created it and takes the edge out
  of the set of pending unlinks, yet the commit applies the buffered unlink after the link, so the edge
  does not exist afterwards.\<close>

theorem relink_in_txn_lost:
  assumes "handle_unlink_in_txn hu read_ok clock db uq txn ctx es = (Inr (s, t, k, True), es1)"
    and "handle_link_in_txn hl read_ok' clock' db lq txn ctx es1 = (Inr r, es2)"
    and "lq_source lq = uq_source uq" and "lq_target lq = uq_target uq" and "lq_kind lq = uq_kind uq"
    and "ready es txn (oc_connection_id ctx) b0" and "tx_request_hashes b0 (uq_request_id uq) = None"
    and "tx_request_hashes b0 (lq_request_id lq) = None" and "lq_request_id lq \<noteq> uq_request_id uq"
  shows "\<not> lr_already_existed r \<and> (\<exists>b. ready es2 txn (oc_connection_id ctx) b \<and> (s, k, t) \<notin> tx_unlinked_edges b \<and>
    \<not> has_edge (apply_edge_writes (map (Pair space) (build_phases b)) db') (memory_edge_key s k t))"
proof -
  let ?c = "oc_connection_id ctx"
  let ?b1 = "unlinked_buffer clock db uq (unlink_hash hu uq ctx) ctx b0"
  have one: "ready es1 txn ?c ?b1" "s = uq_source uq" "t = uq_target uq" "k = uq_kind uq" "unlink_removes db uq b0"
    using unlink_Inr_new [OF assms(1,6,7)] by auto
  obtain b b' where b: "ready es1 txn ?c b" "ready es2 txn ?c b'"
    "b' = b \<or> b' = linked_buffer clock' db lq (link_hash hl lq ctx) ctx b \<and> lr_already_existed r = link_existed db lq b"
    "tx_request_hashes b (lq_request_id lq) = None \<longrightarrow> b' \<noteq> b"
    using link_Inr [OF assms(2)] by (elim exE conjE)
  have b1: "b = ?b1" using ready_unique b(1) one(1) by blast
  have "tx_request_hashes ?b1 (lq_request_id lq) = None" using assms(8,9) by (simp add: unlinked_buffer_def remember_def)
  with b b1 have two: "b' = linked_buffer clock' db lq (link_hash hl lq ctx) ctx ?b1" "lr_already_existed r = link_existed db lq ?b1"
    by auto
  have "(s, k, t) \<in> tx_unlinked_edges ?b1" using one(2-5) by (simp add: unlinked_buffer_def remember_def)
  then have "\<not> lr_already_existed r" using two(2) assms(3-5) one(2-4) by (simp add: link_existed_def)
  moreover have "(s, k, t) \<notin> tx_unlinked_edges b'"
    using two(1) assms(3-5) one(2-4) by (simp add: linked_buffer_def remember_def)
  moreover have "\<exists>u \<in> set (tx_unlinks b'). bu_source u = s \<and> bu_kind u = k \<and> bu_target u = t"
    using two(1) one(2-4) by (simp add: linked_buffer_def unlinked_buffer_def remember_def)
  then have "\<not> has_edge (apply_edge_writes (map (Pair space) (build_phases b')) db') (memory_edge_key s k t)"
    using unlinks_last by blast
  ultimately show ?thesis using b(2) by blast
qed

lemma with_buffer_ready:
  assumes "map_of es txn = Some e" and "txn_owned_by (te_connection_id e) c" and "te_state e = TxnActive"
    and "te_buffer e = Some b" and "now < te_expires_at_unix_nanos e" and "f b = (Inr r, b')"
  shows "with_buffer now txn c f es = (Inr r, update_entry txn (\<lambda>e. e\<lparr>te_buffer := Some b',
    te_expires_at_unix_nanos := deadline now (te_timeout_seconds e)\<rparr>) (sweep_expired_locked now es))"
proof -
  have "sweep_entry now e = e" using assms(5) by (auto simp: sweep_entry_def)
  with assms show ?thesis by (simp add: with_buffer_def Let_def)
qed

text \<open>A repeated LINK inside a transaction is answered from the buffer: the second answer equals the
  first, and the buffer, and with it what a commit writes, is unchanged, whatever the committed tables
  have become in between, as long as the transaction has not expired.\<close>

theorem link_in_txn_replayed:
  assumes "handle_link_in_txn hl read_ok clock db req txn ctx es = (Inr r, es1)"
    and "map_of es1 txn = Some e" and "clock' 0 < te_expires_at_unix_nanos e"
    and "clock' 1 < deadline (clock' 0) (te_timeout_seconds e)"
  shows "\<exists>es2 e2. handle_link_in_txn hl read_ok' clock' db' req txn ctx es1 = (Inr r, es2) \<and>
    map_of es2 txn = Some e2 \<and> te_buffer e2 = te_buffer e"
proof -
  let ?c = "oc_connection_id ctx" and ?h = "link_hash hl req ctx"
  let ?exp = "deadline (clock' 0) (te_timeout_seconds e)"
  let ?es = "update_entry txn (\<lambda>e. e\<lparr>te_expires_at_unix_nanos := ?exp\<rparr>) (sweep_expired_locked (clock' 0) es1)"
  obtain b where "ready es1 txn ?c b" and hit: "tx_request_hashes b (lq_request_id req) = Some ?h"
    "tx_request_id_cache b (lq_request_id req) = Some (replayed_link r)"
    using link_Inr [OF assms(1)] by blast
  then have e: "txn_owned_by (te_connection_id e) ?c" "te_state e = TxnActive" "te_buffer e = Some b"
    using assms(2) by (auto simp: ready_def)
  have sw: "sweep_entry (clock' 0) e = e" using assms(3) by (auto simp: sweep_entry_def)
  have val: "validate_active (clock' 0) txn ?c es1 = (Inr ?exp, ?es)"
    using assms(2) e by (simp add: validate_active_def sw Let_def)
  have "map_of ?es txn = Some (e\<lparr>te_expires_at_unix_nanos := ?exp\<rparr>)" using assms(2) by (simp add: sw)
  from with_buffer_ready [OF this, of ?c b "clock' 1"
      "replay_check ''link in-txn request_id replay with different params'' (lq_request_id req) ?h"]
  obtain es2 where "with_buffer (clock' 1) txn ?c (replay_check ''link in-txn request_id replay with different params''
      (lq_request_id req) ?h) ?es = (Inr (Some (replayed_link r)), es2)"
    and e2: "\<exists>e2. map_of es2 txn = Some e2 \<and> te_buffer e2 = Some b"
    using e assms(2,4) by (simp add: replay_check_def hit sw)
  with val have "handle_link_in_txn hl read_ok' clock' db' req txn ctx es1 = (Inr r, es2)"
    unfolding handle_link_in_txn_def Let_def link_hash_def [symmetric] replayed_link_def
    by (simp add: txn_bind_def txn_return_def)
  with e2 e(3) show ?thesis by auto
qed

text \<open>A store with one open transaction and the two requests.\<close>

definition open_store :: "u64 \<Rightarrow> txn_buffer \<Rightarrow> txn_store" where
  "open_store expires b = [([9], \<lparr>te_state = TxnActive, te_started_at_unix_nanos = 10, te_expires_at_unix_nanos = expires,
     te_timeout_seconds = 30, te_final_response = None, te_buffer = Some b, te_delegated = None, te_connection_id = [5]\<rparr>)]"

definition sample_uq :: unlink_request where
  "sample_uq = \<lparr>uq_source = 1, uq_target = 2, uq_kind = Caused, uq_request_id = [1], uq_txn_id = Some [9], uq_act_as = None\<rparr>"

definition sample_lq :: link_request where
  "sample_lq = \<lparr>lq_source = 1, lq_target = 2, lq_kind = Caused, lq_weight = 0, lq_request_id = [2], lq_txn_id = Some [9],
     lq_act_as = None\<rparr>"

lemma open_store_steps [simp]:
  assumes "20 < expires"
  shows "validate_active 20 [9] [5] (open_store expires b) = (Inr 30000000020, open_store 30000000020 b)"
    and "with_buffer 20 [9] [5] f (open_store expires b) =
      (case f b of (Inl err, b') \<Rightarrow> (Inl err, open_store expires b') | (Inr r, b') \<Rightarrow> (Inr r, open_store 30000000020 b'))"
  using assms [folded not_le]
  by (simp_all add: open_store_def validate_active_def with_buffer_def sweep_expired_locked_def sweep_entry_def
      txn_owned_by_def update_entry_def deadline_def Let_def split: prod.split sum.split)

lemma sample_committed_edge: "committed_edge linked_graph 1 Caused 2"
proof -
  have "has_edge linked_graph (sample_key 1 Caused 2)" by (simp add: linked_graph_def has_edge_put)
  then show ?thesis by (simp add: committed_edge_def edge_get_def has_edge_def sample_key_def)
qed

lemma sample_in_scope: "in_scope linked_graph sample_ctx 1" "in_scope linked_graph sample_ctx 2"
  by (simp_all add: in_scope_def linked_graph_def sample_graph_def sample_ctx_def)

definition sample_unlinked :: txn_buffer where
  "sample_unlinked = txn_buffer_default\<lparr>
     tx_unlinks := [\<lparr>bu_source = 1, bu_target = 2, bu_kind = Caused, bu_request_id = [1], bu_request_hash = [3],
       bu_created_at_unix_nanos = 20, bu_space_id = [7]\<rparr>],
     tx_unlinked_edges := {(1, Caused, 2)}, tx_request_id_cache := [[1] \<mapsto> ReplayUnlink 1 2 Caused True],
     tx_request_hashes := [[1] \<mapsto> [3]]\<rparr>"

lemmas sample_evaluation =
  txn_bind_def txn_return_def replay_check_def capacity_check_def check_capacity_for_push_def MAX_TXN_OPS_def or_false_def
  pending_edge_def remember_def sample_committed_edge txn_buffer_default_def ops_count_def Let_def

lemma sample_unlink_answer:
  "handle_unlink_in_txn (\<lambda>_. [3]) True (\<lambda>_. 20) linked_graph sample_uq [9] sample_ctx (open_store 1000 txn_buffer_default) =
     (Inr (1, 2, Caused, True), open_store 30000000020 sample_unlinked)"
  by (simp add: handle_unlink_in_txn_def unlink_in_txn_fresh_def sample_evaluation sample_uq_def sample_ctx_def sample_unlinked_def)

lemma sample_link_answer:
  "\<exists>r b. handle_link_in_txn (\<lambda>_. [2]) (\<lambda>_. True) (\<lambda>_. 20) linked_graph sample_lq [9] sample_ctx
     (open_store 30000000020 sample_unlinked) = (Inr r, open_store 30000000020 b)"
proof -
  have "oc_connection_id sample_ctx = [5]" "\<not> (1000 :: u32) \<le> 1" by (simp_all add: sample_ctx_def word_le_nat_alt)
  then show ?thesis
    using sample_in_scope
    by (simp add: handle_link_in_txn_def link_in_txn_fresh_def sample_evaluation sample_lq_def sample_unlinked_def) blast
qed

lemma open_store_ready: "ready (open_store expires b) [9] (oc_connection_id sample_ctx) b"
  by (simp add: ready_def open_store_def txn_owned_by_def sample_ctx_def)

theorem relink_in_txn_lost_witness:
  "\<exists>r b es. handle_link_in_txn (\<lambda>_. [2]) (\<lambda>_. True) (\<lambda>_. 20) linked_graph sample_lq [9] sample_ctx
       (open_store 30000000020 sample_unlinked) = (Inr r, es) \<and> \<not> lr_already_existed r \<and>
     ready es [9] (oc_connection_id sample_ctx) b \<and>
     \<not> has_edge (apply_edge_writes (map (Pair [7]) (build_phases b)) linked_graph) (memory_edge_key 1 Caused 2)"
proof -
  obtain r b where link: "handle_link_in_txn (\<lambda>_. [2]) (\<lambda>_. True) (\<lambda>_. 20) linked_graph sample_lq [9] sample_ctx
     (open_store 30000000020 sample_unlinked) = (Inr r, open_store 30000000020 b)"
    using sample_link_answer by blast
  from relink_in_txn_lost [OF sample_unlink_answer link _ _ _ open_store_ready, of "[7]" linked_graph] link
  show ?thesis by (fastforce simp: sample_lq_def sample_uq_def txn_buffer_default_def)
qed

theorem link_in_txn_replayed_witness:
  "\<exists>r es es2. handle_link_in_txn (\<lambda>_. [2]) (\<lambda>_. True) (\<lambda>_. 20) linked_graph sample_lq [9] sample_ctx
       (open_store 30000000020 sample_unlinked) = (Inr r, es) \<and>
     handle_link_in_txn (\<lambda>_. [2]) (\<lambda>_. False) (\<lambda>_. 21) sample_graph sample_lq [9] sample_ctx es = (Inr r, es2)"
proof -
  obtain r b where link: "handle_link_in_txn (\<lambda>_. [2]) (\<lambda>_. True) (\<lambda>_. 20) linked_graph sample_lq [9] sample_ctx
     (open_store 30000000020 sample_unlinked) = (Inr r, open_store 30000000020 b)"
    using sample_link_answer by blast
  obtain e where e: "map_of (open_store 30000000020 b) [9] = Some e" "21 < te_expires_at_unix_nanos e"
    "21 < deadline 21 (te_timeout_seconds e)"
    by (simp add: open_store_def deadline_def)
  from link_in_txn_replayed [OF link e(1), of "\<lambda>_. 21" "\<lambda>_. False" sample_graph] e link show ?thesis by auto
qed

end
