(* ===== verification/Spec2Isabelle.thy ===== *)
theory Spec2Isabelle
  imports Recovery_Reopen Server_Connection Server_Gate Ops_Txn_Ops
begin

text \<open>
  Brain is a memory database: clients open connections, authenticate with an API key and send operations,
  the server routes each operation to a shard, and the shard keeps memories in a memory-mapped arena, in a
  write-ahead log (WAL) and in key-value tables. This development models the parts on which safety rests:
  the storage core of a shard, the wire protocol, the connection layer, the edge tables and the
  transactions. All paths below are under \<open>src/crates\<close>.

  \<^bold>\<open>Conventions.\<close> Machine integers are words of their width, \<open>usize\<close> and times are natural numbers, byte
  strings and texts are lists of bytes, \<open>f32\<close> values are their bit patterns. A \<open>Result\<close> is a sum with the error
  on the left; a panic is \<open>None\<close> or an action of its own. What the operating system answers (writes, syncs,
  mappings, reads of a store) and what clocks show comes in as arguments, so every theorem covers every
  answer. Code outside the repository is a parameter: the checksum \<open>crc32c\<close>, the hashes of \<open>blake3\<close> and \<open>uuid\<close>,
  the base64 decoder, the reader of one CBOR item, the \<open>Display\<close> texts of errors, the rows of a \<open>redb\<close> range;
  where a theorem relies on such code, its documented behaviour is a hypothesis and the witness of the theorem
  instantiates it. A \<open>HashMap\<close> is an association list or a map, a \<open>redb\<close> table is a map. An asynchronous
  function is split into the stretches between its awaits, each of which runs undisturbed, and a run is any
  sequence of such stretches. Definitions compute; several of them translate one Rust function together, and
  a helper then shares lines with the function it was cut from.

  \<^bold>\<open>Prelude.\<close> \<open>Brain_Prelude\<close> has the integer and byte codecs, UTF-8 validity, shared list lemmas and the locale
  \<open>stepwise\<close>, the contract of a step function that keeps a predicate; the router, the edge tables and the
  transaction store provide it.

  \<^bold>\<open>Vocabulary.\<close> \<open>Core_Ids\<close> (\<open>brain-core/src/ids.rs\<close>) and \<open>Core_Edges\<close> (\<open>brain-core/src/edges\<close>): identifiers, node
  references and edge labels with their byte forms.

  \<^bold>\<open>Typed payloads.\<close> \<open>Wal_Kinds\<close>, \<open>Payload_Reader\<close>, \<open>Wal_Payload\<close>, \<open>Payload_Codec\<close> and \<open>Payload_Roundtrip\<close>
  (\<open>brain-storage/src/wal/kinds.rs\<close>, \<open>payload.rs\<close>): one record per payload struct and one encoder and decoder each.
  The locale \<open>field_codec\<close> is the contract of a field (reading what was written leaves the rest), interpreted for
  every field and struct. Shown: well-formed payloads never panic the encoder and decode to themselves, and
  what a decoder returns is well formed.

  \<^bold>\<open>WAL.\<close> \<open>Wal_Record\<close>, \<open>Wal_Segment\<close>, \<open>Wal_Reader\<close>, \<open>Wal_Image\<close> (\<open>record.rs\<close>, \<open>segment.rs\<close>, \<open>reader.rs\<close>) model framing,
  files and the reader; \<open>Wal_Commit\<close> and \<open>Wal_Log\<close> (\<open>group_commit.rs\<close>, \<open>wal.rs\<close>) the committer task and the handle
  as step relations over their awaits; \<open>Wal_Durability\<close> what a crash leaves. Shown: directories are read back
  exactly, damage is reported and not dropped, a torn tail costs only the torn record, LSNs are consecutive
  under every interleaving, and every acknowledged record survives a crash of a fault-free run; two runs with
  faults in which records are lost are shown as well.

  \<^bold>\<open>Arena.\<close> \<open>Arena_Slot\<close>, \<open>Arena_File\<close>, \<open>Arena_Allocator\<close> (\<open>brain-storage/src/arena\<close>): the slot image and its checksum,
  the file as one byte string, the allocator with its free list. The locale \<open>slot_array\<close> is what clients use of
  a mapped file. Shown: reopening yields the last written slots, the allocator refines choice from a set of
  free slots, identifiers never repeat, and a rebuild is exact.

  \<^bold>\<open>Recovery.\<close> \<open>Recovery_Apply\<close> and \<open>Recovery\<close> (\<open>brain-storage/src/recovery.rs\<close>) model the replay of one record, the sink
  trait as a record of methods and the driver; \<open>Recovery_Spec\<close> says what recovery is meant to do, on a log read as
  single records and brackets; \<open>Recovery_Props\<close> and \<open>Recovery_Reopen\<close> connect it with crashes and with the next
  start. The locale \<open>absorbing\<close> extends \<open>stepwise\<close> with what makes a replay repeatable, for the in-memory sink and
  for the slots. Shown: the driver refines its specification for every sink and every answer of the system,
  acknowledged records are replayed after a crash, an interrupted recovery can be started over, a hard forget
  stays erased, growing terminates, and the reopened WAL satisfies the invariant of a running one.

  \<^bold>\<open>Protocol.\<close> \<open>Proto_Error\<close>, \<open>Proto_Opcode\<close>, \<open>Proto_Frame\<close>, \<open>Proto_Handshake\<close>, \<open>Proto_Request\<close> (\<open>brain-protocol/src\<close>): error
  codes, the 158 opcodes, the frame with its two checksums, version negotiation and request decoding. Shown:
  the frame decoder accepts exactly the encodings of well-formed frames, one damaged byte is noticed, and a
  decoded request is of the variant its opcode announces.

  \<^bold>\<open>Connection layer.\<close> \<open>Server_Gate\<close> (\<open>brain-server/src/network/gate.rs\<close>) admits connections; \<open>Server_Auth\<close> (\<open>auth.rs\<close> and the
  key tables of \<open>brain-metadata\<close>) resolves keys; \<open>Server_Routing\<close> and \<open>Server_Txn_Router\<close> choose shards;
  \<open>Server_Dispatch\<close> (\<open>dispatch.rs\<close>) is the state machine for one frame, \<open>Server_Session\<close> its runs, and
  \<open>Server_Connection\<close> (\<open>connection.rs\<close>) the loop on the byte level with its timers. The locale \<open>framing\<close> is what the
  loop relies on of the frame reader. Shown: the caps on connections hold under every interleaving, nothing is
  served before authentication or later than the re-check window after a revocation, delegation never adds
  rights, transactions end on the shard they began on, frames are reassembled however bytes are cut, the loop
  refines the session, operations in flight are bounded, silent peers and only silent peers are dropped, and a
  frame half read when another branch of the loop wins is lost.

  \<^bold>\<open>Edges and transactions.\<close> \<open>Meta_Edges\<close> (\<open>brain-metadata/src/tables/edge.rs\<close>) has the key codec, link, unlink and range
  scans; \<open>Ops_Edges\<close> (\<open>brain-ops/src/apply/edge.rs\<close>) the edge phases of a write with the tenant wall and the
  counters; \<open>Ops_Txn_Store\<close>, \<open>Ops_Txn\<close>, \<open>Ops_Txn_Props\<close>, \<open>Ops_Txn_Ops\<close> (\<open>brain-ops/src/handlers/txn.rs\<close> and the
  in-transaction handlers of \<open>encode.rs\<close>, \<open>forget.rs\<close> and \<open>link.rs\<close>) the transaction store, its handlers as events
  that interleave around the await of the writer, and the operations that buffer. Shown: scans list exactly
  the stored edges, links never cross tenants, counters are exact for directed kinds, the writer is handed at
  most one write per transaction, a recorded commit is final, other connections cannot reach a transaction,
  a delegated identity is fixed at the begin; and where the code falls short, unlinking has no tenant wall,
  symmetric edges drift, an acknowledged abort may be overtaken and a relink may be undone.

  \<^bold>\<open>Termination.\<close> No fuel is used. The reader loop and the recovery driver are functions with a measure (bytes
  left, records left). The growth loop of recovery, which could run forever on a zero capacity, is a partial
  function and is shown to return.

  \<^bold>\<open>Not modelled.\<close> Embedding, extraction, reranking, LLM clients, vector and text indexes, the planner, background
  workers, the HTTP front end, the typed graph tables, the schema language, the other phases and handlers of
  the write path, the writer task itself, subscriptions past their start, configuration, start-up, snapshots
  and the checkpoint file: they compute derived data, are thin layers over external services, or are pure
  input and output. Metrics and tracing are left out everywhere.
\<close>

end
